(* ===== verification/Base.thy ===== *)
theory Base
  imports Main "HOL-Library.Word" "HOL-Library.Sublist"
begin

text \<open>
  The prelude of the development: the lemma collections the component theories share, decimal
  printing of numbers (what \<open>std::to_string\<close> and \<open>operator<<\<close> do for an \<open>int\<close> that is not
  negative), the model of a fixed \<open>char\<close> array that is overwritten from its start, and lemmas on
  lists, prefixes and suffixes that no library theory has.
\<close>

section \<open>Lemma collections\<close>

named_theorems io_simps \<open>equations that run a blocking program on a script of completions\<close>

named_theorems handler_defs \<open>definitions of the completion handlers of the asynchronous classes\<close>

named_theorems start_defs \<open>definitions of the functions that start a session\<close>


section \<open>Decimal numbers\<close>

text \<open>\<open>std::to_string\<close> on a number that is not negative: the decimal digits, no leading zero.\<close>

definition digit_char :: "nat \<Rightarrow> char" where
  "digit_char d = char_of (48 + d)"

fun to_string :: "nat \<Rightarrow> string" where
  "to_string n = (if n < 10 then [digit_char n] else to_string (n div 10) @ [digit_char (n mod 10)])"

declare to_string.simps [simp del]

definition is_digit :: "char \<Rightarrow> bool" where
  "is_digit c \<longleftrightarrow> 48 \<le> (of_char c :: nat) \<and> (of_char c :: nat) \<le> 57"

definition digit_value :: "char \<Rightarrow> nat" where
  "digit_value c = of_char c - 48"

definition decimal_value :: "string \<Rightarrow> nat" where
  "decimal_value ds = foldl (\<lambda>acc c. 10 * acc + digit_value c) 0 ds"

lemma of_char_digit_char: "d < 10 \<Longrightarrow> (of_char (digit_char d) :: nat) = 48 + d"
  by (simp add: digit_char_def)

lemma is_digit_digit_char [simp]: "d < 10 \<Longrightarrow> is_digit (digit_char d)"
  by (simp add: is_digit_def of_char_digit_char)

lemma digit_value_digit_char [simp]: "d < 10 \<Longrightarrow> digit_value (digit_char d) = d"
  by (simp add: digit_value_def of_char_digit_char)

lemma decimal_value_snoc: "decimal_value (ds @ [c]) = 10 * decimal_value ds + digit_value c"
  by (simp add: decimal_value_def)

lemma to_string_digits: "\<forall>c \<in> set (to_string n). is_digit c"
proof (induction n rule: to_string.induct)
  case (1 n)
  then show ?case by (subst to_string.simps) auto
qed

lemma to_string_not_Nil [simp]: "to_string n \<noteq> []"
  by (subst to_string.simps) simp

text \<open>A number of type \<open>int\<close>, as \<open>operator<<\<close> prints it.\<close>

definition show_int :: "int \<Rightarrow> string" where
  "show_int v = (if v < 0 then ''-'' @ to_string (nat (- v)) else to_string (nat v))"

text \<open>Printing and reading a number back gives the number.\<close>

lemma decimal_value_to_string: "decimal_value (to_string n) = n"
proof (induction n rule: to_string.induct)
  case (1 n)
  show ?case
  proof (cases "n < 10")
    case True
    then show ?thesis by (subst to_string.simps) (simp add: decimal_value_def)
  next
    case False
    with 1 show ?thesis by (subst to_string.simps) (simp add: decimal_value_snoc)
  qed
qed


section \<open>Buffers\<close>

text \<open>
  A fixed \<open>char data[n]\<close> or \<open>std::array<char, n>\<close> after \<open>payload\<close> has been stored from its first
  byte on: the rest keeps its old contents.
\<close>

definition store_at_start :: "string \<Rightarrow> string \<Rightarrow> string" where
  "store_at_start payload buf = payload @ drop (length payload) buf"

lemma length_store_at_start [simp]:
  "length payload \<le> length buf \<Longrightarrow> length (store_at_start payload buf) = length buf"
  by (simp add: store_at_start_def)

lemma take_store_at_start [simp]: "take (length payload) (store_at_start payload buf) = payload"
  by (simp add: store_at_start_def)


section \<open>Lists\<close>

lemma sublist_append_two:
  assumes "\<not> sublist [a, b] xs" and "\<not> sublist [a, b] ys" and "ys \<noteq> [] \<Longrightarrow> hd ys \<noteq> b"
  shows "\<not> sublist [a, b] (xs @ ys)"
proof
  assume "sublist [a, b] (xs @ ys)"
  then obtain us vs where e: "xs @ ys = us @ [a, b] @ vs"
    by (auto simp: sublist_def)
  have "(\<exists>ws. xs = us @ [a, b] @ ws) \<or> (\<exists>ws. us @ ws = xs \<and> ys = ws @ [] \<and> False) \<or>
      (\<exists>ws. ys = ws @ [a, b] @ vs) \<or> (xs = us @ [a] \<and> ys = b # vs)"
    using e by (auto simp: append_eq_append_conv2 append_eq_Cons_conv Cons_eq_append_conv)
  then show False
  proof (elim disjE exE conjE)
    fix ws assume "xs = us @ [a, b] @ ws"
    then have "sublist [a, b] xs" unfolding sublist_def by blast
    with assms(1) show False by contradiction
  next
    fix ws assume "ys = ws @ [a, b] @ vs"
    then have "sublist [a, b] ys" unfolding sublist_def by blast
    with assms(2) show False by contradiction
  next
    assume "ys = b # vs"
    with assms(3) show False by simp
  qed
qed

lemma sublist_two_butlast: "sublist [a, b] (butlast xs) \<Longrightarrow> sublist [a, b] xs"
  by (meson prefix_imp_sublist prefixeq_butlast sublist_order.order_trans)

end
