(* ===== verification/Boost_Calls.thy ===== *)
theory Boost_Calls
  imports Base
begin

text \<open>
  The vocabulary of the calls the program makes into Boost.Asio and Boost.Beast. Boost is not part
  of the repository, so nothing here says what those calls do: an operation is a name with the
  arguments the code passes, and its result (an error code and, for a read, what was read) is an
  input of the model. The HTTP messages are the data the code fills in through the documented
  setters of \<open>boost::beast::http::message\<close>.
\<close>

section \<open>Error codes\<close>

text \<open>
  \<open>boost::system::error_code\<close>: success, the values the code compares with, and every other value.
\<close>

datatype error_code =
    Success
  | Eof                  \<comment> \<open>\<open>asio::error::eof\<close>\<close>
  | End_Of_Stream        \<comment> \<open>\<open>http::error::end_of_stream\<close>\<close>
  | Stream_Truncated     \<comment> \<open>\<open>asio::ssl::error::stream_truncated\<close>\<close>
  | Not_Connected        \<comment> \<open>\<open>beast::errc::not_connected\<close>\<close>
  | No_Such_File         \<comment> \<open>\<open>beast::errc::no_such_file_or_directory\<close>\<close>
  | Ws_Closed            \<comment> \<open>\<open>websocket::error::closed\<close>\<close>
  | Error_Value nat

text \<open>The conversion of an \<open>error_code\<close> to \<open>bool\<close>.\<close>

definition is_error :: "error_code \<Rightarrow> bool" where
  "is_error ec \<longleftrightarrow> ec \<noteq> Success"

lemma is_error_simps [simp]:
  "\<not> is_error Success" "is_error Eof" "is_error End_Of_Stream" "is_error Stream_Truncated"
  "is_error Not_Connected" "is_error No_Such_File" "is_error Ws_Closed" "is_error (Error_Value n)"
  by (simp_all add: is_error_def)

lemma not_is_error: "\<not> is_error ec \<longleftrightarrow> ec = Success"
  by (simp add: is_error_def)


section \<open>HTTP messages\<close>

datatype verb = Get | Head | Post | Put | Patch | Delete | Other_Verb string

datatype http_field = Host | User_Agent | Server | Content_Type | Connection

text \<open>\<open>basic_fields::set\<close>: the other values of the field are removed and the new one is added.\<close>

definition set_field :: "http_field \<Rightarrow> string \<Rightarrow> (http_field \<times> string) list \<Rightarrow> (http_field \<times> string) list" where
  "set_field f v fs = filter (\<lambda>p. fst p \<noteq> f) fs @ [(f, v)]"

lemma map_of_append_fresh: "k \<notin> fst ` set xs \<Longrightarrow> map_of (xs @ ys) k = map_of ys k"
  by (induction xs) auto

lemma map_of_set_field: "map_of (set_field f v fs) = (map_of fs)(f \<mapsto> v)"
proof (rule ext)
  fix g
  show "map_of (set_field f v fs) g = ((map_of fs)(f \<mapsto> v)) g"
    unfolding set_field_def by (induction fs) (auto simp: map_of_append_fresh)
qed

text \<open>\<open>http::request\<close>; a server also asks it for \<open>keep_alive()\<close>, which Boost works out.\<close>

record http_request =
  q_version :: nat
  q_method :: verb
  q_target :: string
  q_fields :: "(http_field \<times> string) list"
  q_body :: string
  q_content_length :: "nat option"

record request = http_request +
  q_keep_alive :: bool

definition make_request :: "verb \<Rightarrow> string \<Rightarrow> nat \<Rightarrow> http_request" where
  "make_request method target version = \<lparr>q_version = version, q_method = method, q_target = target,
     q_fields = [], q_body = [], q_content_length = None\<rparr>"

text \<open>\<open>request.set(field, value)\<close>\<close>

definition with_field :: "http_field \<Rightarrow> string \<Rightarrow> http_request \<Rightarrow> http_request" where
  "with_field f v q = q\<lparr>q_fields := set_field f v (q_fields q)\<rparr>"

text \<open>\<open>prepare_payload\<close>: the length of a body, or of an empty one where the method calls for it.\<close>

definition prepare_payload :: "http_request \<Rightarrow> http_request" where
  "prepare_payload q = q\<lparr>q_content_length :=
     (if q_body q \<noteq> [] \<or> q_method q \<in> {Put, Post, Other_Verb ''OPTIONS''} then Some (length (q_body q)) else None)\<rparr>"

definition empty_request :: request where
  "empty_request = \<lparr>q_version = 11, q_method = Get, q_target = [], q_fields = [], q_body = [],
     q_content_length = None, q_keep_alive = True\<rparr>"

text \<open>The body of a response: \<open>string_body\<close>, \<open>empty_body\<close> or \<open>file_body\<close> (the path it was opened with).\<close>

datatype resp_body = String_Body string | Empty_Body | File_Body string

record response =
  r_status :: nat
  r_version :: nat
  r_fields :: "(http_field \<times> string) list"
  r_keep_alive :: bool
  r_body :: resp_body
  r_content_length :: "nat option"


section \<open>Operations and visible actions\<close>

datatype operation =
    Resolve string string
  | Connect string           \<comment> \<open>with what the resolver returned, or an address\<close>
  | Acceptor_Construct string nat
                             \<comment> \<open>an acceptor made with an endpoint: open, bind and listen\<close>
  | Acceptor_Open | Acceptor_Set_Option | Acceptor_Bind | Acceptor_Listen
  | Socket_Open
  | Accept
  | Tls_Handshake
  | Tls_Shutdown
  | Socket_Shutdown
  | Socket_Shutdown_Send
  | Socket_Close
  | Read_Some nat            \<comment> \<open>with the capacity of the buffer\<close>
  | Read_Exactly nat
  | Read_Until string
  | Read_At_Least nat
  | Read_Message             \<comment> \<open>an HTTP or a WebSocket message\<close>
  | Receive_From nat
  | Send_To string string    \<comment> \<open>the datagram and the endpoint\<close>
  | Write_Some string
  | Write string
  | Read_Header
  | Write_Request http_request
  | Write_Response response
  | Ws_Accept string         \<comment> \<open>with the name the decorator puts into the \<open>Server\<close> field\<close>
  | Ws_Handshake string string string
                             \<comment> \<open>host, target and the name put into the \<open>User-Agent\<close> field\<close>
  | Ws_Write bool string     \<comment> \<open>as a text message or not\<close>
  | Ws_Close
  | Port_Open string
  | Port_Set_Baud_Rate nat
  | Wait_Timer
  | Set_Sni string           \<comment> \<open>\<open>SSL_set_tlsext_host_name\<close>\<close>

text \<open>
  A C++ exception: a \<open>system_error\<close>, with the label it was made with (or none) and its code, or
  another \<open>std::exception\<close>.
\<close>

datatype exn = System_Error string error_code | Std_Exception string

text \<open>
  What an execution shows: an operation is started, a timeout is armed or switched off, the
  operations on an object are cancelled, text goes to
  \<open>std::cout\<close> or \<open>std::cerr\<close>, an error is reported (the label the code prints and the code whose message follows
  it, or the exception whose \<open>what()\<close> follows it), a session is created for an accepted socket,
  an exception leaves a destructor or a thread and \<open>std::terminate\<close> ends the program.
\<close>

datatype action =
    Start operation
  | Expires_After nat
  | Expires_Never
  | Cancel string
  | Out string
  | Err string
  | Report string error_code
  | Report_What string exn
  | Spawn_Session
  | Terminated

fun started :: "action list \<Rightarrow> operation list" where
  "started [] = []"
| "started (Start op # as) = op # started as"
| "started (a # as) = started as"

fun reports :: "action list \<Rightarrow> (string \<times> error_code) list" where
  "reports [] = []"
| "reports (Report what ec # as) = (what, ec) # reports as"
| "reports (a # as) = reports as"

text \<open>The bytes of the plain writes of a trace, one entry per write.\<close>

fun written :: "action list \<Rightarrow> string list" where
  "written [] = []"
| "written (Start (Write bs) # as) = bs # written as"
| "written (a # as) = written as"

lemma started_append [simp]: "started (as @ bs) = started as @ started bs"
  by (induction as rule: started.induct) auto

lemma reports_append [simp]: "reports (as @ bs) = reports as @ reports bs"
  by (induction as rule: reports.induct) auto

lemma written_append [simp]: "written (as @ bs) = written as @ written bs"
  by (induction as rule: written.induct) auto

text \<open>The trace without the timeouts, which have no counterpart in the blocking variants.\<close>

fun without_timeouts :: "action list \<Rightarrow> action list" where
  "without_timeouts [] = []"
| "without_timeouts (Expires_After n # as) = without_timeouts as"
| "without_timeouts (Expires_Never # as) = without_timeouts as"
| "without_timeouts (a # as) = a # without_timeouts as"

lemma without_timeouts_append [simp]:
  "without_timeouts (as @ bs) = without_timeouts as @ without_timeouts bs"
  by (induction as rule: without_timeouts.induct) auto

text \<open>The trace without what is reported.\<close>

fun without_reports :: "action list \<Rightarrow> action list" where
  "without_reports [] = []"
| "without_reports (Report what ec # as) = without_reports as"
| "without_reports (Report_What what e # as) = without_reports as"
| "without_reports (a # as) = a # without_reports as"

lemma without_reports_append [simp]:
  "without_reports (as @ bs) = without_reports as @ without_reports bs"
  by (induction as rule: without_reports.induct) auto

lemma started_without_timeouts [simp]: "started (without_timeouts as) = started as"
  by (induction as rule: without_timeouts.induct) auto

text \<open>The HTTP responses of a trace.\<close>

fun responses :: "action list \<Rightarrow> response list" where
  "responses [] = []"
| "responses (Start (Write_Response m) # as) = m # responses as"
| "responses (a # as) = responses as"

lemma responses_append [simp]: "responses (as @ bs) = responses as @ responses bs"
  by (induction as rule: responses.induct) auto

lemma responses_without_timeouts [simp]: "responses (without_timeouts as) = responses as"
proof (induction as rule: responses.induct)
  case (2 m as)
  then show ?case by simp
qed auto

text \<open>The sessions created.\<close>

fun spawned :: "action list \<Rightarrow> nat" where
  "spawned [] = 0"
| "spawned (Spawn_Session # as) = Suc (spawned as)"
| "spawned (a # as) = spawned as"

lemma spawned_append [simp]: "spawned (as @ bs) = spawned as + spawned bs"
  by (induction as rule: spawned.induct) auto

text \<open>The text printed on \<open>std::cout\<close>.\<close>

fun printed :: "action list \<Rightarrow> string" where
  "printed [] = []"
| "printed (Out text # as) = text @ printed as"
| "printed (a # as) = printed as"

lemma printed_append [simp]: "printed (as @ bs) = printed as @ printed bs"
  by (induction as rule: printed.induct) auto

text \<open>Helpers that several clients repeat: \<open>fail\<close>, the GET request, \<open>std::cout << text << std::endl\<close>.\<close>

definition fail :: "string \<Rightarrow> error_code \<Rightarrow> action list" where
  "fail what ec = [Report what ec]"

definition get_request :: "string \<Rightarrow> string \<Rightarrow> string \<Rightarrow> nat \<Rightarrow> http_request" where
  "get_request agent host target version =
     with_field User_Agent agent (with_field Host host (make_request Get target version))"

definition print_line :: "string \<Rightarrow> action" where
  "print_line text = Out (text @ [CHR 0x0A])"

lemma print_line_simps [simp]:
  "started (print_line t # as) = started as"
  "written (print_line t # as) = written as"
  "reports (print_line t # as) = reports as"
  "without_timeouts (print_line t # as) = print_line t # without_timeouts as"
  "without_reports (print_line t # as) = print_line t # without_reports as"
  "spawned (print_line t # as) = spawned as"
  "printed (print_line t # as) = t @ CHR 0x0A # printed as"
  by (simp_all add: print_line_def)

end
