(* ===== verification/Async_Objects.thy ===== *)
theory Async_Objects
  imports Boost_Calls
begin

text \<open>
  The asynchronous classes of the program have one shape. A member function starts one operation
  and names the member function that is its completion handler; when Boost completes the operation,
  the handler runs with the error code and what was read. A class is modelled by a record that holds
  its data members and \<open>waiting\<close>, the handler of the operation in flight (\<open>None\<close> when there is none:
  then no handler holds the object's \<open>shared_ptr\<close> any more), and by a step that calls the handler
  for a completion. This theory holds the run over a list of completions and the contracts that the
  classes share, as locales; the component theories interpret them on their own steps.
\<close>

section \<open>Delivering completions\<close>

fun deliver :: "('s \<Rightarrow> 'e \<Rightarrow> 's \<times> action list) \<Rightarrow> 's \<Rightarrow> 'e list \<Rightarrow> 's \<times> action list" where
  "deliver step s [] = (s, [])"
| "deliver step s (e # es) =
     (let (s', as) = step s e; (s'', bs) = deliver step s' es in (s'', as @ bs))"

lemma deliver_Cons:
  "deliver step s (e # es) =
     (fst (deliver step (fst (step s e)) es),
      snd (step s e) @ snd (deliver step (fst (step s e)) es))"
  by (simp add: Let_def split: prod.split)

lemma deliver_append:
  "deliver step s (xs @ ys) =
     (fst (deliver step (fst (deliver step s xs)) ys),
      snd (deliver step s xs) @ snd (deliver step (fst (deliver step s xs)) ys))"
  by (induction xs arbitrary: s) (simp_all add: deliver_Cons del: deliver.simps(2))

text \<open>An invariant that each step keeps holds after every run.\<close>

lemma deliver_invariant:
  assumes "\<And>s e. I s \<Longrightarrow> I (fst (step s e))" and "I s"
  shows "I (fst (deliver step s es))"
  using assms(2) by (induction es arbitrary: s) (simp_all add: assms(1) deliver_Cons del: deliver.simps(2))


section \<open>One operation in flight\<close>

text \<open>
  The contract of a class whose handlers start exactly one operation when they leave the object
  waiting, and none when they leave it idle. Such an object has at most one operation in flight, so
  its buffers are never shared by two operations.
\<close>

locale async_session =
  fixes step :: "'s \<Rightarrow> 'e \<Rightarrow> 's \<times> action list"
    and waiting :: "'s \<Rightarrow> 'h option"
  assumes idle: "waiting s = None \<Longrightarrow> step s e = (s, [])"
    and one_operation: "waiting s = Some h \<Longrightarrow>
      length (started (snd (step s e))) = (case waiting (fst (step s e)) of None \<Rightarrow> 0 | Some _ \<Rightarrow> 1)"
begin

lemma deliver_idle: "waiting s = None \<Longrightarrow> deliver step s es = (s, [])"
  by (induction es) (simp_all add: idle)

lemma in_flight:
  assumes "waiting (fst (deliver step s es)) = Some h"
  shows "length (started (snd (deliver step s es))) = length es"
  using assms
proof (induction es arbitrary: s)
  case Nil
  then show ?case by simp
next
  case (Cons e es)
  let ?t = "fst (step s e)"
  from Cons.prems have last: "waiting (fst (deliver step ?t es)) = Some h"
    by (simp add: deliver_Cons del: deliver.simps(2))
  then obtain k where t: "waiting ?t = Some k"
    by (cases "waiting ?t") (auto simp: deliver_idle)
  then obtain j where "waiting s = Some j"
    by (cases "waiting s") (auto simp: idle)
  with t have "length (started (snd (step s e))) = 1"
    by (simp add: one_operation)
  with Cons.IH [OF last] show ?case by (simp add: deliver_Cons del: deliver.simps(2))
qed

lemma started_at_most: "length (started (snd (deliver step s es))) \<le> length es"
proof (induction es arbitrary: s)
  case Nil
  then show ?case by simp
next
  case (Cons e es)
  have "length (started (snd (step s e))) \<le> 1"
    by (cases "waiting s") (simp_all add: idle one_operation split: option.split)
  with Cons.IH [of "fst (step s e)"] show ?case
    by (simp add: deliver_Cons del: deliver.simps(2))
qed

lemma gone_idle:
  assumes "waiting s = Some h" and "waiting (fst (deliver step s es)) = None"
  shows "length (started (snd (deliver step s es))) < length es"
  using assms
proof (induction es arbitrary: s h)
  case Nil
  then show ?case by simp
next
  case (Cons e es)
  show ?case
  proof (cases "waiting (fst (step s e))")
    case None
    with Cons.prems show ?thesis
      by (simp add: deliver_Cons deliver_idle one_operation del: deliver.simps(2))
  next
    case (Some k)
    with Cons.prems Cons.IH [OF Some] show ?thesis
      by (simp add: deliver_Cons one_operation del: deliver.simps(2))
  qed
qed

text \<open>
  An object that starts waiting, with one operation: after any completions it waits exactly if there
  is one operation more than completions, and there are never more.
\<close>

lemma one_in_flight:
  assumes "waiting s = Some h" and "length (started as) = 1"
  shows "(waiting (fst (deliver step s es)) \<noteq> None \<longleftrightarrow>
      length (started (as @ snd (deliver step s es))) = Suc (length es)) \<and>
    length (started (as @ snd (deliver step s es))) \<le> Suc (length es)"
  using assms started_at_most [of s es] in_flight [of s es] gone_idle [of s h es]
  by (cases "waiting (fst (deliver step s es))") auto

end


section \<open>A fixed sequence of stages\<close>

text \<open>
  The contract of a client session: an error ends it, and a success takes it to a later stage. \<open>rank\<close>
  counts the stages that are left.
\<close>

locale staged_session = async_session step waiting
  for step :: "'s \<Rightarrow> error_code \<times> 'p \<Rightarrow> 's \<times> action list" and waiting :: "'s \<Rightarrow> 'h option" +
  fixes rank :: "'h \<Rightarrow> nat"
  assumes error_ends: "waiting s = Some h \<Longrightarrow> is_error (fst c) \<Longrightarrow> waiting (fst (step s c)) = None"
    and success_advances: "waiting s = Some h \<Longrightarrow> \<not> is_error (fst c) \<Longrightarrow>
      waiting (fst (step s c)) = Some k \<Longrightarrow> rank k < rank h"
begin

lemma finishes:
  assumes "waiting s = Some h" and "rank h < length cs"
  shows "waiting (fst (deliver step s cs)) = None"
  using assms
proof (induction cs arbitrary: s h)
  case Nil
  then show ?case by simp
next
  case (Cons c cs)
  show ?case
  proof (cases "waiting (fst (step s c))")
    case None
    then show ?thesis by (simp add: deliver_Cons deliver_idle del: deliver.simps(2))
  next
    case (Some k)
    then have "\<not> is_error (fst c)" using Cons.prems error_ends by fastforce
    with Some Cons.prems have "rank k < rank h" by (blast intro: success_advances)
    with Cons.prems have "rank k < length cs" by simp
    from Cons.IH [OF Some this] show ?thesis by (simp add: deliver_Cons del: deliver.simps(2))
  qed
qed

lemma operations_bounded:
  assumes "waiting s = Some h"
  shows "length (started (snd (deliver step s cs))) \<le> rank h"
  using assms
proof (induction cs arbitrary: s h)
  case Nil
  then show ?case by simp
next
  case (Cons c cs)
  show ?case
  proof (cases "waiting (fst (step s c))")
    case None
    with Cons.prems show ?thesis
      by (simp add: deliver_Cons deliver_idle one_operation del: deliver.simps(2))
  next
    case (Some k)
    then have "\<not> is_error (fst c)" using Cons.prems error_ends by fastforce
    with Some Cons.prems have "rank k < rank h" by (blast intro: success_advances)
    moreover have "length (started (snd (step s c))) = 1"
      using Some Cons.prems by (simp add: one_operation)
    ultimately show ?thesis using Cons.IH [OF Some]
      by (simp add: deliver_Cons del: deliver.simps(2))
  qed
qed

end


section \<open>Echo servers\<close>

text \<open>
  What an echo server promises: the completions are reads and writes in turn, each chunk read is
  written back, unchanged and in order, and the first error ends the session: it is \<open>over\<close>, and writes
  nothing more.
\<close>

fun echoed :: "bool \<Rightarrow> (error_code \<times> string) list \<Rightarrow> string list" where
  "echoed reading [] = []"
| "echoed True ((ec, d) # cs) = (if is_error ec then [] else d # echoed False cs)"
| "echoed False ((ec, d) # cs) = (if is_error ec then [] else echoed True cs)"

locale echo_session = async_session step waiting
  for step :: "'s \<Rightarrow> error_code \<times> string \<Rightarrow> 's \<times> action list" and waiting :: "'s \<Rightarrow> 'h option" +
  fixes reading :: "'h \<Rightarrow> bool" and over :: "'s \<Rightarrow> bool"
  assumes over_step: "over s \<Longrightarrow> over (fst (step s c)) \<and> written (snd (step s c)) = []"
    and echo_error: "waiting s = Some h \<Longrightarrow> is_error (fst c) \<Longrightarrow>
      over (fst (step s c)) \<and> written (snd (step s c)) = []"
    and echo_read: "waiting s = Some h \<Longrightarrow> \<not> over s \<Longrightarrow> reading h \<Longrightarrow> \<not> is_error (fst c) \<Longrightarrow>
      written (snd (step s c)) = [snd c] \<and> \<not> over (fst (step s c)) \<and>
      (\<exists>k. waiting (fst (step s c)) = Some k \<and> \<not> reading k)"
    and echo_write: "waiting s = Some h \<Longrightarrow> \<not> over s \<Longrightarrow> \<not> reading h \<Longrightarrow> \<not> is_error (fst c) \<Longrightarrow>
      written (snd (step s c)) = [] \<and> \<not> over (fst (step s c)) \<and>
      (\<exists>k. waiting (fst (step s c)) = Some k \<and> reading k)"
begin

lemma over_written: "over s \<Longrightarrow> written (snd (deliver step s cs)) = []"
  by (induction cs arbitrary: s) (simp_all add: over_step deliver_Cons del: deliver.simps(2))

lemma written_echoed:
  assumes "waiting s = Some h" and "\<not> over s"
  shows "written (snd (deliver step s cs)) = echoed (reading h) cs"
  using assms
proof (induction cs arbitrary: s h)
  case Nil
  then show ?case by simp
next
  case (Cons c cs)
  obtain ec d where c: "c = (ec, d)" by (cases c)
  show ?case
  proof (cases "is_error ec")
    case True
    with Cons.prems c have "over (fst (step s c)) \<and> written (snd (step s c)) = []"
      by (intro echo_error) auto
    with True c show ?thesis
      by (cases "reading h") (simp_all add: deliver_Cons over_written del: deliver.simps(2))
  next
    case False
    show ?thesis
    proof (cases "reading h")
      case True
      with False Cons.prems c obtain k where "written (snd (step s c)) = [d]" "\<not> over (fst (step s c))"
        "waiting (fst (step s c)) = Some k" "\<not> reading k"
        using echo_read [of s h c] by auto
      with True False c Cons.IH [of "fst (step s c)" k] show ?thesis
        by (simp add: deliver_Cons del: deliver.simps(2))
    next
      case False': False
      with False Cons.prems c obtain k where "written (snd (step s c)) = []" "\<not> over (fst (step s c))"
        "waiting (fst (step s c)) = Some k" "reading k"
        using echo_write [of s h c] by auto
      with False False' c Cons.IH [of "fst (step s c)" k] show ?thesis
        by (simp add: deliver_Cons del: deliver.simps(2))
    qed
  qed
qed

end

end
