(* ===== verification/Session_Pool.thy ===== *)
theory Session_Pool
  imports Async_Objects
begin

text \<open>
  \<open>Asio_TcpServer/main.cpp\<close>: the \<open>Session\<close> with its two fixed buffers, and the \<open>SessionPool\<close>, an
  array of \<open>MAX_SESSIONS\<close> optional sessions. A \<open>Session*\<close> is the index of its slot. The pool's
  contract is the locale \<open>slot_pool\<close>, which the server of the next theory relies on.
\<close>

section \<open>Session\<close>

definition RX_SIZE :: nat where
  "RX_SIZE = 4096"

definition TX_SIZE :: nat where
  "TX_SIZE = 4096"

definition MAX_SESSIONS :: nat where
  "MAX_SESSIONS = 128"

text \<open>
  The data members, and what Asio holds for the session: whether a read is in flight (with the offset
  and the capacity of the buffer it was given) and how many writes are. \<open>is_open\<close> is the socket's.
\<close>

record session =
  rx :: string
  tx :: string
  rx_used :: nat
  tx_used :: nat
  reading :: "(nat \<times> nat) option"
  writes :: nat
  is_open :: bool

definition new_session :: session where
  "new_session = \<lparr>rx = replicate RX_SIZE (CHR 0x00), tx = replicate TX_SIZE (CHR 0x00),
     rx_used = 0, tx_used = 0, reading = None, writes = 0, is_open = True\<rparr>"

definition do_read :: "session \<Rightarrow> session \<times> action list" where
  "do_read s = (s\<lparr>reading := Some (rx_used s, length (rx s) - rx_used s)\<rparr>,
     [Start (Read_Some (length (rx s) - rx_used s))])"

definition start :: "session \<Rightarrow> session \<times> action list" where
  "start s = do_read s"

definition close :: "session \<Rightarrow> session \<times> action list" where
  "close s = (s\<lparr>is_open := False\<rparr>, [Start Socket_Shutdown, Start Socket_Close])"

definition do_write :: "session \<Rightarrow> session \<times> action list" where
  "do_write s = (s\<lparr>writes := Suc (writes s)\<rparr>, [Start (Write (take (tx_used s) (tx s)))])"

definition on_data :: "session \<Rightarrow> session \<times> action list" where
  "on_data s = do_write (s\<lparr>tx := store_at_start (take (rx_used s) (rx s)) (tx s),
     tx_used := rx_used s, rx_used := 0\<rparr>)"

text \<open>Asio stores what it read at the offset it was given when the read was started.\<close>

definition store_read :: "nat \<Rightarrow> string \<Rightarrow> string \<Rightarrow> string" where
  "store_read off d buf = take off buf @ d @ drop (off + length d) buf"

text \<open>The completion handler of \<open>do_read\<close>; \<open>d\<close> are the \<open>n\<close> bytes that were read.\<close>

definition read_handler :: "session \<Rightarrow> error_code \<Rightarrow> string \<Rightarrow> session \<times> action list" where
  "read_handler s ec d =
     (let off = (case reading s of None \<Rightarrow> 0 | Some (off, cap) \<Rightarrow> off);
          s = s\<lparr>reading := None\<rparr>
      in if is_error ec then close s
         else let (s, as) = on_data (s\<lparr>rx := store_read off d (rx s), rx_used := rx_used s + length d\<rparr>);
                  (s, bs) = do_read s
              in (s, as @ bs))"

text \<open>The completion handler of \<open>do_write\<close>.\<close>

definition write_handler :: "session \<Rightarrow> error_code \<Rightarrow> session \<times> action list" where
  "write_handler s ec =
     (let s = s\<lparr>writes := writes s - 1\<rparr> in if is_error ec then close s else (s, []))"

lemmas session_defs = do_read_def start_def close_def do_write_def on_data_def read_handler_def
  write_handler_def store_read_def

text \<open>The buffers keep their sizes and what has been received has been handed over.\<close>

definition session_ok :: "session \<Rightarrow> bool" where
  "session_ok s \<longleftrightarrow> length (rx s) = RX_SIZE \<and> length (tx s) = TX_SIZE \<and> rx_used s = 0 \<and>
     tx_used s \<le> TX_SIZE \<and> (reading s = None \<or> reading s = Some (0, RX_SIZE))"

lemma TX_SIZE_eq: "TX_SIZE = RX_SIZE"
  by (simp add: TX_SIZE_def RX_SIZE_def)

lemma new_session_ok [simp]: "session_ok new_session"
  by (simp add: session_ok_def new_session_def)

lemma start_new_session:
  "reading (fst (start new_session)) = Some (0, RX_SIZE)"
  "rx_used (fst (start new_session)) = 0" "writes (fst (start new_session)) = 0"
  by (simp_all add: start_def do_read_def new_session_def)

lemma start_ok: "session_ok s \<Longrightarrow> session_ok (fst (start s))"
  by (simp add: session_ok_def session_defs)

lemma write_handler_ok: "session_ok s \<Longrightarrow> session_ok (fst (write_handler s ec))"
  by (simp add: session_ok_def session_defs Let_def)

text \<open>
  \<open>async_read_some\<close> never delivers more than the capacity it was given: with that documented bound,
  the copy in \<open>on_data\<close> stays inside both arrays.
\<close>

lemma read_handler_ok:
  assumes "session_ok s" and "length d \<le> RX_SIZE"
  shows "session_ok (fst (read_handler s ec d))"
  using assms
  by (cases "reading s") (auto simp: session_ok_def session_defs Let_def TX_SIZE_eq store_at_start_def)


text \<open>
  One completion for a session. A completion can only arrive for an operation that is in flight.
\<close>

datatype session_event = Read_Done error_code string | Write_Done error_code

fun session_step :: "session \<Rightarrow> session_event \<Rightarrow> session \<times> action list" where
  "session_step s (Read_Done ec d) = (if reading s = None then (s, []) else read_handler s ec d)"
| "session_step s (Write_Done ec) = (if writes s = 0 then (s, []) else write_handler s ec)"

text \<open>The documented bound of \<open>async_read_some\<close>: it delivers no more than the capacity it was given.\<close>

fun delivers_within :: "session \<Rightarrow> session_event \<Rightarrow> bool" where
  "delivers_within s (Read_Done ec d) = (case reading s of None \<Rightarrow> False | Some (off, cap) \<Rightarrow> length d \<le> cap)"
| "delivers_within s (Write_Done ec) = (0 < writes s)"

lemma session_step_ok:
  assumes "session_ok s" and "delivers_within s e"
  shows "session_ok (fst (session_step s e))"
proof (cases e)
  case (Read_Done ec d)
  with assms have "length d \<le> RX_SIZE" by (auto simp: session_ok_def)
  with assms(1) Read_Done show ?thesis by (simp add: read_handler_ok)
next
  case (Write_Done ec)
  with assms(1) show ?thesis by (simp add: write_handler_ok)
qed


section \<open>SessionPool\<close>

type_synonym pool = "session option list"

definition new_pool :: pool where
  "new_pool = replicate MAX_SESSIONS None"

text \<open>\<open>acquire\<close>: the loop over the slots; \<open>None\<close> is \<open>nullptr\<close>.\<close>

fun acquire :: "pool \<Rightarrow> (pool \<times> nat) option" where
  "acquire [] = None"
| "acquire (None # ss) = Some (Some new_session # ss, 0)"
| "acquire (Some s # ss) = map_option (\<lambda>(ss', i). (Some s # ss', Suc i)) (acquire ss)"

text \<open>\<open>release\<close>: the loop compares the address of each live slot with the pointer.\<close>

fun release_from :: "nat \<Rightarrow> nat \<Rightarrow> pool \<Rightarrow> pool" where
  "release_from j p [] = []"
| "release_from j p (s # ss) =
     (if s \<noteq> None \<and> j = p then None # ss else s # release_from (Suc j) p ss)"

definition release :: "nat \<Rightarrow> pool \<Rightarrow> pool" where
  "release p ss = release_from 0 p ss"

definition used :: "pool \<Rightarrow> nat set" where
  "used ss = {i. i < length ss \<and> ss ! i \<noteq> None}"

lemma used_Cons: "used (s # ss) = (if s = None then {} else {0}) \<union> Suc ` used ss"
  by (auto simp: used_def less_Suc_eq_0_disj image_iff)

lemma used_subset: "used ss \<subseteq> {..<length ss}"
  by (auto simp: used_def)

lemma finite_used [simp]: "finite (used ss)"
  using used_subset by (rule finite_subset) simp

lemma length_acquire: "acquire ss = Some (ss', i) \<Longrightarrow> length ss' = length ss"
  by (induction ss arbitrary: ss' i rule: acquire.induct) auto

lemma acquire_Some:
  "acquire ss = Some (ss', i) \<Longrightarrow>
    i < length ss \<and> ss ! i = None \<and> (\<forall>j<i. ss ! j \<noteq> None) \<and> ss' = ss[i := Some new_session]"
  by (induction ss arbitrary: ss' i rule: acquire.induct) (auto simp: nth_Cons' gr0_conv_Suc)

lemma acquire_None: "acquire ss = None \<longleftrightarrow> None \<notin> set ss"
  by (induction ss rule: acquire.induct) auto

lemma used_full: "None \<notin> set ss \<longleftrightarrow> used ss = {..<length ss}"
  by (auto simp: used_def in_set_conv_nth set_eq_iff)

lemma release_from_eq:
  "release_from j p ss =
    (if j \<le> p \<and> p - j < length ss \<and> ss ! (p - j) \<noteq> None then ss[p - j := None] else ss)"
proof (induction ss arbitrary: j)
  case Nil
  then show ?case by simp
next
  case (Cons s ss)
  show ?case
  proof (cases "j < p")
    case True
    then have "p - j = Suc (p - Suc j)" by simp
    with True show ?thesis by (auto simp: Cons.IH)
  next
    case False
    then show ?thesis by (cases "j = p") (simp_all add: Cons.IH)
  qed
qed

lemma release_eq: "release p ss = (if p \<in> used ss then ss[p := None] else ss)"
  unfolding release_def used_def by (subst release_from_eq) auto

lemma length_release [simp]: "length (release p ss) = length ss"
  by (simp add: release_eq)

lemma used_update_Some: "i < length ss \<Longrightarrow> used (ss[i := Some s]) = insert i (used ss)"
  by (auto simp: used_def nth_list_update)

lemma used_update_None: "used (ss[i := None]) = used ss - {i}"
  by (cases "i < length ss") (auto simp: used_def nth_list_update)

lemma used_new_pool [simp]: "used new_pool = {}"
  by (auto simp: used_def new_pool_def)


section \<open>The contract of the pool\<close>

locale slot_pool =
  fixes acq :: "'p \<Rightarrow> ('p \<times> nat) option" and rel :: "nat \<Rightarrow> 'p \<Rightarrow> 'p"
    and slots :: "'p \<Rightarrow> nat set" and capacity :: "'p \<Rightarrow> nat"
  assumes slots_bounded: "slots p \<subseteq> {..<capacity p}"
    and acq_fresh: "acq p = Some (q, i) \<Longrightarrow> i \<notin> slots p \<and> slots q = insert i (slots p)"
    and acq_capacity: "acq p = Some (q, i) \<Longrightarrow> capacity q = capacity p"
    and acq_full: "acq p = None \<Longrightarrow> slots p = {..<capacity p}"
    and rel_slots: "slots (rel i p) = slots p - {i}"
    and rel_capacity: "capacity (rel i p) = capacity p"
begin

lemma finite_slots: "finite (slots p)"
  using slots_bounded by (rule finite_subset) simp

lemma card_bounded: "card (slots p) \<le> capacity p"
  using card_mono [OF _ slots_bounded] by fastforce

lemma acq_card: "acq p = Some (q, i) \<Longrightarrow> card (slots q) = Suc (card (slots p))"
  by (simp add: acq_fresh finite_slots)

lemma acq_iff: "acq p = None \<longleftrightarrow> card (slots p) = capacity p"
proof
  assume "acq p = None"
  then show "card (slots p) = capacity p" by (simp add: acq_full)
next
  assume full: "card (slots p) = capacity p"
  show "acq p = None"
  proof (rule ccontr)
    assume "acq p \<noteq> None"
    then obtain q i where a: "acq p = Some (q, i)" by auto
    with full have "card (slots q) = Suc (capacity q)" by (simp add: acq_card acq_capacity)
    with card_bounded [of q] show False by simp
  qed
qed

text \<open>Giving a slot back makes room for one more.\<close>

lemma rel_acq:
  assumes "i \<in> slots p"
  shows "\<exists>q j. acq (rel i p) = Some (q, j) \<and> card (slots q) = card (slots p) \<and> capacity q = capacity p"
proof -
  have c: "Suc (card (slots (rel i p))) = card (slots p)"
    using assms by (simp only: rel_slots) (rule card_Suc_Diff1 [OF finite_slots])
  with card_bounded [of p] have "card (slots (rel i p)) \<noteq> capacity (rel i p)"
    by (simp add: rel_capacity)
  then obtain q j where "acq (rel i p) = Some (q, j)" by (metis acq_iff not_None_eq surj_pair)
  with c show ?thesis by (auto simp: acq_card acq_capacity rel_capacity)
qed

end

interpretation sp: slot_pool acquire release used length
proof
  fix p q :: pool and i :: nat
  show "used p \<subseteq> {..<length p}" by (rule used_subset)
  show "used (release i p) = used p - {i}"
    by (auto simp: release_eq used_update_None)
  show "length (release i p) = length p" by simp
  assume "acquire p = Some (q, i)"
  then show "i \<notin> used p \<and> used q = insert i (used p)" and "length q = length p"
    by (auto dest!: acquire_Some simp: used_update_Some) (simp add: used_def)
next
  fix p :: pool
  assume "acquire p = None"
  then show "used p = {..<length p}" by (simp add: acquire_None used_full)
qed


section \<open>Properties\<close>

text \<open>
  \<open>acquire\<close> constructs a session in the lowest free slot and changes no other slot; it returns
  \<open>nullptr\<close> only when every slot is taken.
\<close>

theorem acquire_lowest_free:
  "case acquire ss of
     None \<Rightarrow> None \<notin> set ss
   | Some (ss', i) \<Rightarrow> i < length ss \<and> ss ! i = None \<and> None \<notin> set (take i ss) \<and>
       ss' = ss[i := Some new_session]"
proof (cases "acquire ss")
  case None
  then have "None \<notin> set ss" by (rule acquire_None [THEN iffD1])
  then show ?thesis by (simp add: None)
next
  case (Some r)
  obtain ss' i where r: "r = (ss', i)" by (cases r)
  from acquire_Some [OF Some [unfolded r]] show ?thesis
    using Some r by (auto simp: in_set_conv_nth)
qed

text \<open>\<open>release\<close> undoes \<open>acquire\<close>: giving the acquired slot back restores the pool.\<close>

theorem release_acquire:
  assumes "acquire ss = Some (ss', i)"
  shows "release i ss' = ss"
  using acquire_Some [OF assms] by (auto simp: release_eq used_def list_update_same_conv)

theorem release_acquire_witness:
  "release 1 [Some new_session, Some new_session, None] = [Some new_session, None, None]"
  by (rule release_acquire) simp


section \<open>The writes of a session\<close>

lemma do_read_simps:
  "fst (do_read s) = s\<lparr>reading := Some (rx_used s, length (rx s) - rx_used s)\<rparr>"
  "written (snd (do_read s)) = []"
  by (simp_all add: do_read_def)

lemma on_data_simps:
  "fst (on_data s) = s\<lparr>tx := store_at_start (take (rx_used s) (rx s)) (tx s), tx_used := rx_used s,
     rx_used := 0, writes := Suc (writes s)\<rparr>"
  "written (snd (on_data s)) = [take (rx_used s) (store_at_start (take (rx_used s) (rx s)) (tx s))]"
  by (simp_all add: on_data_def do_write_def)

lemma read_handler_go:
  assumes "reading s = Some (off, cap)"
  shows "fst (read_handler s Success d) = fst (do_read (fst (on_data (s\<lparr>reading := None,
      rx := store_read off d (rx s), rx_used := rx_used s + length d\<rparr>))))"
    and "written (snd (read_handler s Success d)) = written (snd (on_data (s\<lparr>reading := None,
      rx := store_read off d (rx s), rx_used := rx_used s + length d\<rparr>)))"
  using assms by (simp_all add: read_handler_def Let_def case_prod_beta do_read_simps(2))

lemma read_handler_Success:
  assumes "reading s = Some (0, cap)" and "rx_used s = 0"
  shows "reading (fst (read_handler s Success d)) = Some (0, length (d @ drop (length d) (rx s)))"
    and "rx_used (fst (read_handler s Success d)) = 0"
    and "writes (fst (read_handler s Success d)) = Suc (writes s)"
    and "tx (fst (read_handler s Success d)) = store_at_start d (tx s)"
    and "written (snd (read_handler s Success d)) = [d]"
  using assms
  by (simp_all add: read_handler_go do_read_simps on_data_simps store_read_def store_at_start_def)

lemma read_handler_error:
  assumes "is_error ec"
  shows "reading (fst (read_handler s ec d)) = None" and "written (snd (read_handler s ec d)) = []"
  using assms by (cases s; simp add: read_handler_def close_def)+

text \<open>The chunks that the session's reads bring in before the first read that fails.\<close>

fun received :: "session_event list \<Rightarrow> string list" where
  "received [] = []"
| "received (Read_Done ec d # es) = (if is_error ec then [] else d # received es)"
| "received (Write_Done ec # es) = received es"

lemma deliver_not_reading: "reading s = None \<Longrightarrow> written (snd (deliver session_step s es)) = []"
proof (induction es arbitrary: s)
  case Nil
  then show ?case by simp
next
  case (Cons e es)
  then show ?case
    by (cases e) (auto simp: deliver_Cons write_handler_def close_def Let_def simp del: deliver.simps(2))
qed

text \<open>
  C23: Every chunk a session reads is given to \<open>async_write\<close> once, unchanged and in order, however reads
  and writes complete, until a read fails; then nothing more is written.
\<close>

theorem session_writes_what_it_reads:
  assumes "reading s = Some (0, cap)" and "rx_used s = 0"
  shows "written (snd (deliver session_step s es)) = received es"
  using assms
proof (induction es arbitrary: s cap)
  case Nil
  then show ?case by simp
next
  case (Cons e es)
  show ?case
  proof (cases e)
    case (Read_Done ec d)
    show ?thesis
    proof (cases "is_error ec")
      case True
      with Cons.prems Read_Done show ?thesis
        by (simp add: deliver_Cons read_handler_error deliver_not_reading del: deliver.simps(2))
    next
      case False
      then have "ec = Success" by (simp add: not_is_error)
      with Cons.prems Read_Done show ?thesis
        by (simp add: deliver_Cons read_handler_Success [OF Cons.prems] Cons.IH del: deliver.simps(2))
    qed
  next
    case (Write_Done ec)
    have "reading (fst (session_step s e)) = Some (0, cap) \<and> rx_used (fst (session_step s e)) = 0 \<and>
        written (snd (session_step s e)) = []"
      using Cons.prems Write_Done by (simp add: write_handler_def close_def Let_def)
    with Cons.IH Write_Done show ?thesis by (simp add: deliver_Cons del: deliver.simps(2))
  qed
qed

theorem session_writes_what_it_reads_witness:
  "written (snd (deliver session_step (fst (start new_session))
     [Read_Done Success ''ab'', Read_Done Success ''c'', Write_Done Success, Read_Done Eof []]))
   = [''ab'', ''c'']"
  by (subst session_writes_what_it_reads [where cap = RX_SIZE]) (simp_all add: start_new_session)

text \<open>
  The one transmit buffer is shared by overlapping writes: when a second chunk arrives before the
  first write has completed, a second write is started and the bytes of the first, still in flight,
  are overwritten in \<open>tx\<close> by the second chunk.
\<close>

theorem overlapping_writes_share_tx:
  assumes "reading s = Some (0, cap)" and "rx_used s = 0" and "writes s = 0"
    and "length d1 = length d2"
  shows "take (length d1) (tx (fst (session_step s (Read_Done Success d1)))) = d1 \<and>
    writes (fst (deliver session_step s [Read_Done Success d1, Read_Done Success d2])) = 2 \<and>
    take (length d1) (tx (fst (deliver session_step s [Read_Done Success d1, Read_Done Success d2]))) = d2"
proof -
  let ?t = "fst (read_handler s Success d1)"
  note one = read_handler_Success [OF assms(1,2), of d1]
  note two = read_handler_Success [OF one(1,2), of d2]
  show ?thesis using one two assms
    by (simp add: deliver_Cons store_at_start_def del: deliver.simps(2))
qed

theorem overlapping_writes_share_tx_witness:
  "take (length ''ab'') (tx (fst (deliver session_step (fst (start new_session))
     [Read_Done Success ''ab'', Read_Done Success ''cd'']))) = ''cd''"
  by (rule overlapping_writes_share_tx [THEN conjunct2, THEN conjunct2])
    (simp_all add: start_new_session)

end
