(* ===== verification/Tcp_Server.thy ===== *)
theory Tcp_Server
  imports Session_Pool
begin

text \<open>
  \<open>Asio_TcpServer/main.cpp\<close>: the \<open>Server\<close>, which takes a slot of the pool for every connection, the
  whole program as the run of its handlers over the completions Asio delivers, and what holds of it.
\<close>

section \<open>Server\<close>

text \<open>\<open>accepting\<close> is the slot of the session whose socket was given to \<open>async_accept\<close>.\<close>

record server =
  pool :: pool
  accepting :: "nat option"

definition new_server :: server where
  "new_server = \<lparr>pool = new_pool, accepting = None\<rparr>"

definition do_accept :: "server \<Rightarrow> server \<times> action list" where
  "do_accept sv = (case acquire (pool sv) of
     None \<Rightarrow> (sv, [])
   | Some (p, i) \<Rightarrow> (sv\<lparr>pool := p, accepting := Some i\<rparr>, [Start Accept]))"

definition server_start :: "server \<Rightarrow> server \<times> action list" where
  "server_start sv = do_accept sv"

text \<open>A member function called through a \<open>Session*\<close>.\<close>

definition with_session :: "nat \<Rightarrow> (session \<Rightarrow> session \<times> action list) \<Rightarrow> server \<Rightarrow> server \<times> action list" where
  "with_session i f sv = (if i < length (pool sv) then
       (case pool sv ! i of
          None \<Rightarrow> (sv, [])
        | Some s \<Rightarrow> let (s', as) = f s in (sv\<lparr>pool := (pool sv)[i := Some s']\<rparr>, as))
     else (sv, []))"

text \<open>The completion handler of \<open>async_accept\<close>.\<close>

definition accept_handler :: "nat \<Rightarrow> error_code \<Rightarrow> server \<Rightarrow> server \<times> action list" where
  "accept_handler i ec sv =
     (let (sv, as) = (if \<not> is_error ec then with_session i start sv
                      else (sv\<lparr>pool := release i (pool sv)\<rparr>, []));
          (sv, bs) = do_accept sv
      in (sv, as @ bs))"

datatype event = Accept_Done error_code | Session_Event nat session_event

fun server_event :: "server \<Rightarrow> event \<Rightarrow> server \<times> action list" where
  "server_event sv (Accept_Done ec) = (case accepting sv of
     None \<Rightarrow> (sv, [])
   | Some i \<Rightarrow> accept_handler i ec (sv\<lparr>accepting := None\<rparr>))"
| "server_event sv (Session_Event i e) = with_session i (\<lambda>s. session_step s e) sv"

text \<open>\<open>run\<close>: the server is started and \<open>io.run()\<close> delivers the completions.\<close>

definition run :: "event list \<Rightarrow> server \<times> action list" where
  "run es = (let (sv, as) = server_start new_server; (sv', bs) = deliver server_event sv es
             in (sv', as @ bs))"

lemma fst_run: "fst (run es) = fst (deliver server_event (fst (server_start new_server)) es)"
  by (simp add: run_def split: prod.split)

lemma with_session_fields [simp]:
  "length (pool (fst (with_session i f sv))) = length (pool sv)"
  "used (pool (fst (with_session i f sv))) = used (pool sv)"
  "accepting (fst (with_session i f sv)) = accepting sv"
  by (auto simp: with_session_def used_update_Some used_def nth_list_update split: option.split prod.split)

lemma do_accept_cases:
  obtains (full) "acquire (pool sv) = None" "do_accept sv = (sv, [])"
  | (slot) p i where "acquire (pool sv) = Some (p, i)"
      "do_accept sv = (sv\<lparr>pool := p, accepting := Some i\<rparr>, [Start Accept])"
  by (cases "acquire (pool sv)") (auto simp: do_accept_def)

lemma fst_accept_handler:
  "fst (accept_handler i ec sv) = fst (do_accept
     (if \<not> is_error ec then fst (with_session i start sv) else sv\<lparr>pool := release i (pool sv)\<rparr>))"
  by (simp add: accept_handler_def split: prod.split)


section \<open>Accounting of the slots\<close>

text \<open>
  The number of connections the server has been given. The pool's slots in use are these and the one
  that is being accepted into, up to the size of the pool: nothing else takes or frees a slot.
\<close>

fun accepted :: "event list \<Rightarrow> nat" where
  "accepted [] = 0"
| "accepted (Accept_Done Success # es) = Suc (accepted es)"
| "accepted (e # es) = accepted es"

definition accounting :: "nat \<Rightarrow> server \<Rightarrow> bool" where
  "accounting n sv \<longleftrightarrow> length (pool sv) = MAX_SESSIONS \<and>
     card (used (pool sv)) = min MAX_SESSIONS (Suc n) \<and>
     (accepting sv = None \<longleftrightarrow> MAX_SESSIONS \<le> n) \<and>
     (\<forall>i. accepting sv = Some i \<longrightarrow> i \<in> used (pool sv))"

lemma accounting_do_accept:
  assumes "length (pool sv) = MAX_SESSIONS" and "accepting sv = None"
    and "card (used (pool sv)) = min MAX_SESSIONS n"
  shows "accounting n (fst (do_accept sv))"
proof (cases sv rule: do_accept_cases)
  case full
  with assms show ?thesis by (simp add: accounting_def sp.acq_iff min_def split: if_splits)
next
  case (slot p i)
  then have "card (used p) = Suc (card (used (pool sv)))" "length p = MAX_SESSIONS" "i \<in> used p"
    using assms(1) sp.acq_capacity sp.acq_fresh by (auto simp: sp.acq_card)
  moreover from this(1,2) have "card (used (pool sv)) < MAX_SESSIONS"
    using sp.card_bounded [of p] by simp
  ultimately show ?thesis using slot assms(3) by (auto simp: accounting_def min_def split: if_splits)
qed

lemma accounting_event:
  assumes "accounting n sv"
  shows "accounting (n + accepted [e]) (fst (server_event sv e))"
proof (cases e)
  case (Session_Event i se)
  with assms show ?thesis by (auto simp: accounting_def)
next
  case (Accept_Done ec)
  show ?thesis
  proof (cases "accepting sv")
    case None
    with assms Accept_Done show ?thesis by (cases ec) (auto simp: accounting_def)
  next
    case (Some i)
    with assms have i: "i \<in> used (pool sv)" and n: "n < MAX_SESSIONS"
      and c: "card (used (pool sv)) = Suc n" and l: "length (pool sv) = MAX_SESSIONS"
      by (auto simp: accounting_def)
    show ?thesis
    proof (cases "ec = Success")
      case True
      with Accept_Done Some n c l show ?thesis
        by (auto simp: fst_accept_handler intro!: accounting_do_accept)
    next
      case False
      have "card (used (release i (pool sv))) = n"
        using c i by (simp add: sp.rel_slots)
      with False Accept_Done Some n l show ?thesis
        by (cases ec) (auto simp: fst_accept_handler intro!: accounting_do_accept)
    qed
  qed
qed

lemma accepted_append: "accepted (xs @ ys) = accepted xs + accepted ys"
  by (induction xs rule: accepted.induct) auto

lemma accounting_run: "accounting (accepted es) (fst (run es))"
proof (induction es rule: rev_induct)
  case Nil
  have "accounting 0 (fst (do_accept new_server))"
    by (rule accounting_do_accept) (simp_all add: new_server_def new_pool_def [symmetric] MAX_SESSIONS_def,
        simp add: new_pool_def MAX_SESSIONS_def)
  then show ?case by (simp add: fst_run server_start_def)
next
  case (snoc e es)
  from accounting_event [OF this, of e] show ?case
    by (simp add: fst_run deliver_append accepted_append deliver_Cons del: deliver.simps(2))
qed


section \<open>Properties\<close>

text \<open>
  C3: Over its whole life the server accepts exactly \<open>MAX_SESSIONS\<close> connections: after any run, an
  accept is in flight if and only if fewer than 128 connections have been accepted so far. Sessions that
  have been closed do not count back, because no code path gives their slot back to the pool.
\<close>

theorem accepts_exactly_max_sessions:
  "accepting (fst (run es)) \<noteq> None \<longleftrightarrow> accepted es < MAX_SESSIONS"
  using accounting_run [of es] by (auto simp: accounting_def)

text \<open>
  The pool's accounting: in every state a run can reach, the slots in use are the accepted
  connections and the one being accepted into, bounded by the size of the array.
\<close>

theorem slots_in_use:
  "card (used (pool (fst (run es)))) = min MAX_SESSIONS (Suc (accepted es)) \<and>
   length (pool (fst (run es))) = MAX_SESSIONS"
  using accounting_run [of es] by (simp add: accounting_def)

lemma release_other: "j \<noteq> i \<Longrightarrow> i \<in> used p \<Longrightarrow> i \<in> used (release j p)"
  by (simp add: sp.rel_slots)

lemma do_accept_keeps:
  assumes "i \<in> used (pool sv)" and "accepting sv \<noteq> Some i"
  shows "i \<in> used (pool (fst (do_accept sv))) \<and> accepting (fst (do_accept sv)) \<noteq> Some i"
  using assms by (cases sv rule: do_accept_cases) (auto dest: sp.acq_fresh)

lemma server_event_keeps:
  assumes "i \<in> used (pool sv)" and "accepting sv \<noteq> Some i"
  shows "i \<in> used (pool (fst (server_event sv e))) \<and> accepting (fst (server_event sv e)) \<noteq> Some i"
proof (cases e)
  case (Session_Event j se)
  with assms show ?thesis by simp
next
  case (Accept_Done ec)
  show ?thesis
  proof (cases "accepting sv")
    case None
    with assms Accept_Done show ?thesis by simp
  next
    case (Some j)
    with assms(2) have "j \<noteq> i" by simp
    then have kept: "i \<in> used (release j (pool sv))" using assms(1) by (rule release_other)
    let ?sv = "sv\<lparr>accepting := None\<rparr>"
    have "fst (server_event sv e) = fst (do_accept (if \<not> is_error ec
        then fst (with_session j start ?sv) else ?sv\<lparr>pool := release j (pool ?sv)\<rparr>))"
      using Some Accept_Done by (simp add: fst_accept_handler)
    then show ?thesis using assms(1) kept by (simp add: do_accept_keeps)
  qed
qed

text \<open>
  A slot whose connection has been accepted is never free again, whatever happens to its session
  afterwards: it stays in use and no later connection is accepted into it.
\<close>

theorem slot_never_reused:
  assumes "i \<in> used (pool sv)" and "accepting sv \<noteq> Some i"
  shows "i \<in> used (pool (fst (deliver server_event sv es))) \<and>
    accepting (fst (deliver server_event sv es)) \<noteq> Some i"
  using deliver_invariant [where I = "\<lambda>sv. i \<in> used (pool sv) \<and> accepting sv \<noteq> Some i"
      and step = server_event and s = sv and es = es] assms server_event_keeps by blast

theorem slot_never_reused_witness:
  "0 \<in> used (pool (fst (deliver server_event \<lparr>pool = [Some new_session, None], accepting = None\<rparr>
       [Session_Event 0 (Read_Done Eof [])]))) \<and>
   accepting (fst (deliver server_event \<lparr>pool = [Some new_session, None], accepting = None\<rparr>
       [Session_Event 0 (Read_Done Eof [])])) \<noteq> Some 0"
  by (rule slot_never_reused) (simp_all add: used_def)


section \<open>Buffers in bounds in every reachable state\<close>

text \<open>
  The runs that respect the documented behaviour of Asio: a completion arrives only for an operation
  in flight and a read delivers at most the capacity it was given.
\<close>

fun asio_delivers :: "server \<Rightarrow> event \<Rightarrow> bool" where
  "asio_delivers sv (Accept_Done ec) = (accepting sv \<noteq> None)"
| "asio_delivers sv (Session_Event i e) =
     (i < length (pool sv) \<and> (case pool sv ! i of None \<Rightarrow> False | Some s \<Rightarrow> delivers_within s e))"

inductive reachable :: "server \<Rightarrow> bool" where
  started: "reachable (fst (server_start new_server))"
| delivered: "reachable sv \<Longrightarrow> asio_delivers sv e \<Longrightarrow> reachable (fst (server_event sv e))"

definition sessions_ok :: "server \<Rightarrow> bool" where
  "sessions_ok sv \<longleftrightarrow> (\<forall>s. Some s \<in> set (pool sv) \<longrightarrow> session_ok s)"

lemma sessions_ok_do_accept: "sessions_ok sv \<Longrightarrow> sessions_ok (fst (do_accept sv))"
  by (cases sv rule: do_accept_cases)
    (auto simp: sessions_ok_def dest!: acquire_Some set_update_subset_insert [THEN subsetD])

lemma sessions_ok_with_session:
  assumes "sessions_ok sv" and "\<And>s. i < length (pool sv) \<Longrightarrow> pool sv ! i = Some s \<Longrightarrow> session_ok (fst (f s))"
  shows "sessions_ok (fst (with_session i f sv))"
  using assms
  by (auto simp: sessions_ok_def with_session_def split: option.split prod.split
      dest!: set_update_subset_insert [THEN subsetD])

lemma sessions_ok_event:
  assumes ok: "sessions_ok sv" and "asio_delivers sv e"
  shows "sessions_ok (fst (server_event sv e))"
proof (cases e)
  case (Session_Event i se)
  have "sessions_ok (fst (with_session i (\<lambda>s. session_step s se) sv))"
  proof (rule sessions_ok_with_session [OF ok])
    fix s assume i: "i < length (pool sv)" "pool sv ! i = Some s"
    then have "session_ok s" using ok by (metis sessions_ok_def nth_mem)
    with i assms(2) Session_Event show "session_ok (fst (session_step s se))"
      by (simp add: session_step_ok)
  qed
  with Session_Event show ?thesis by simp
next
  case (Accept_Done ec)
  have started: "sessions_ok (fst (with_session i start sv))" if "sessions_ok sv" for i sv
    using that by (rule sessions_ok_with_session)
      (metis that sessions_ok_def nth_mem start_ok)
  have released: "sessions_ok (sv\<lparr>pool := release i (pool sv)\<rparr>)" if "sessions_ok sv" for i sv
    using that by (auto simp: sessions_ok_def release_eq dest!: set_update_subset_insert [THEN subsetD])
  from ok have "sessions_ok (sv\<lparr>accepting := None\<rparr>)" by (simp add: sessions_ok_def)
  with Accept_Done ok released [OF this] show ?thesis
    by (cases "accepting sv") (simp_all add: fst_accept_handler sessions_ok_do_accept started)
qed

lemma reachable_sessions_ok: "reachable sv \<Longrightarrow> sessions_ok sv"
proof (induction rule: reachable.induct)
  case started
  have "sessions_ok new_server" by (auto simp: sessions_ok_def new_server_def new_pool_def)
  then show ?case by (simp add: server_start_def sessions_ok_do_accept)
next
  case (delivered sv e)
  then show ?case by (simp add: sessions_ok_event)
qed

text \<open>
  C34: Memory safety of the fixed buffers: in every reachable state every session of the pool has
  buffers of the declared sizes, all received bytes have been handed over, what is to be sent fits
  the transmit buffer, and a read in flight was given the whole receive buffer.
\<close>

theorem buffers_in_bounds:
  assumes "reachable sv" and "Some s \<in> set (pool sv)"
  shows "length (rx s) = RX_SIZE \<and> length (tx s) = TX_SIZE \<and> rx_used s = 0 \<and> tx_used s \<le> TX_SIZE \<and>
    (reading s = None \<or> reading s = Some (0, RX_SIZE))"
  using reachable_sessions_ok [OF assms(1)] assms(2) unfolding sessions_ok_def session_ok_def by blast

theorem buffers_in_bounds_witness:
  "\<exists>sv s. reachable sv \<and> Some s \<in> set (pool sv) \<and> length (rx s) = RX_SIZE \<and> length (tx s) = TX_SIZE \<and>
    rx_used s = 0 \<and> tx_used s \<le> TX_SIZE \<and> (reading s = None \<or> reading s = Some (0, RX_SIZE))"
proof -
  let ?sv = "fst (server_start new_server)"
  have "acquire (replicate n None) = Some (Some new_session # replicate (n - 1) None, 0)" if "0 < n" for n
    using that by (cases n) auto
  then have "acquire new_pool = Some (Some new_session # replicate 127 None, 0)"
    by (simp add: new_pool_def MAX_SESSIONS_def)
  then have "Some new_session \<in> set (pool ?sv)"
    by (simp add: server_start_def do_accept_def new_server_def)
  with reachable.started buffers_in_bounds [OF reachable.started this] show ?thesis by blast
qed

end
