(* ===== verification/Coroutine_Parsers.thy ===== *)
theory Coroutine_Parsers
  imports Base
begin

text \<open>
  \<open>Coroutines/main.cpp\<close>: generators written as stackful coroutines. A coroutine that pushes values is
  the list of the values it passes to \<open>yield\<close>, in order, which is what its reader iterates over. The
  tokens and messages point into the input buffer, so they are offsets with sizes. \<open>size_t\<close> positions
  never exceed the buffer's length, so they are natural numbers; an \<open>int\<close> that would overflow is \<open>None\<close>.
\<close>

section \<open>Printing a \<open>const char*\<close>\<close>

text \<open>
  \<open>operator<<\<close> on a \<open>const char*\<close> prints up to the next NUL byte. If the array holds none from there on,
  the read runs past its end: \<open>None\<close>.
\<close>

definition c_string :: "8 word list \<Rightarrow> nat \<Rightarrow> 8 word list option" where
  "c_string mem off = (if 0 \<in> set (drop off mem) then Some (takeWhile (\<lambda>b. b \<noteq> 0) (drop off mem)) else None)"


section \<open>\<open>demo_1\<close>, \<open>state_machine\<close>\<close>

text \<open>\<open>for (int i = 0; i < 5; ++i) yield(i);\<close>\<close>

fun producer_from :: "nat \<Rightarrow> int \<Rightarrow> int list" where
  "producer_from 0 i = []"
| "producer_from (Suc n) i = (if i < 5 then i # producer_from n (i + 1) else [])"

definition producer :: "int list" where
  "producer = producer_from 5 0"

datatype state = State_Start | State_Middle | State_End

definition state_machine :: "state list" where
  "state_machine = [State_Start, State_Middle, State_End]"

fun state_to_int :: "state \<Rightarrow> int" where
  "state_to_int State_Start = 0"
| "state_to_int State_Middle = 1"
| "state_to_int State_End = 2"

definition state_machine_run :: "int list" where
  "state_machine_run = map state_to_int state_machine"


section \<open>\<open>token_parser\<close>\<close>

record token =
  tok_data :: nat
  tok_size :: nat

abbreviation space :: "8 word" where
  "space \<equiv> 32"

function token_loop :: "8 word list \<Rightarrow> nat \<Rightarrow> nat \<Rightarrow> nat \<Rightarrow> token list" where
  "token_loop buf len start i =
     (if i < len then
        if buf ! i = space
        then \<lparr>tok_data = start, tok_size = i - start\<rparr> # token_loop buf len (i + 1) (i + 1)
        else token_loop buf len start (i + 1)
      else if start < len then [\<lparr>tok_data = start, tok_size = len - start\<rparr>] else [])"
  by pat_completeness auto
termination by (relation "measure (\<lambda>(buf, len, start, i). len - i)") auto

declare token_loop.simps [simp del]

definition token_parser :: "8 word list \<Rightarrow> nat \<Rightarrow> token list" where
  "token_parser buf len = token_loop buf len 0 0"

text \<open>The bytes a token stands for.\<close>

definition token_text :: "8 word list \<Rightarrow> token \<Rightarrow> 8 word list" where
  "token_text buf t = take (tok_size t) (drop (tok_data t) buf)"

text \<open>\<open>run\<close> prints \<open>t.data\<close>, not \<open>t.size\<close> bytes of it. The array ends with a NUL, which \<open>len\<close> leaves out.\<close>

definition token_run :: "8 word list \<Rightarrow> 8 word list option list" where
  "token_run text = map (\<lambda>t. c_string (text @ [0]) (tok_data t)) (token_parser (text @ [0]) (length text))"

text \<open>The specification: the pieces between the spaces; an empty piece at the end is no token.\<close>

fun split_spaces :: "8 word list \<Rightarrow> 8 word list \<Rightarrow> 8 word list list" where
  "split_spaces acc [] = (if acc = [] then [] else [acc])"
| "split_spaces acc (b # bs) = (if b = space then acc # split_spaces [] bs else split_spaces (acc @ [b]) bs)"

lemma take_Suc_drop: "start \<le> i \<Longrightarrow> i < length buf \<Longrightarrow>
    take (Suc (i - start)) (drop start buf) = take (i - start) (drop start buf) @ [buf ! i]"
  by (simp add: take_Suc_conv_app_nth)

lemma token_loop_split:
  assumes "start \<le> i" and "i \<le> len" and "len \<le> length buf"
  shows "map (token_text buf) (token_loop buf len start i) =
    split_spaces (take (i - start) (drop start buf)) (take (len - i) (drop i buf))"
  using assms
proof (induction buf len start i rule: token_loop.induct)
  case (1 buf len start i)
  show ?case
  proof (cases "i < len")
    case True
    then have bytes: "take (len - i) (drop i buf) = buf ! i # take (len - Suc i) (drop (Suc i) buf)"
      using "1.prems" by (simp add: Cons_nth_drop_Suc [symmetric] take_Cons' Suc_diff_Suc)
    show ?thesis
    proof (cases "buf ! i = space")
      case sp: True
      then show ?thesis using True bytes "1.IH"(1) "1.prems"
        by (simp add: token_loop.simps [of buf len start i] token_text_def)
    next
      case False
      have "take (Suc i - start) (drop start buf) = take (i - start) (drop start buf) @ [buf ! i]"
        using "1.prems" True by (simp add: Suc_diff_le take_Suc_drop)
      with False True bytes "1.IH"(2) "1.prems" show ?thesis
        by (simp add: token_loop.simps [of buf len start i])
    qed
  next
    case False
    with "1.prems" have i: "i = len" by simp
    show ?thesis unfolding i using "1.prems" i
      by (subst token_loop.simps) (auto simp: token_text_def)
  qed
qed

lemma token_loop_bounds:
  assumes "start \<le> i" and "t \<in> set (token_loop buf len start i)" and "i \<le> len"
  shows "start \<le> tok_data t \<and> tok_data t + tok_size t \<le> len"
  using assms
proof (induction buf len start i rule: token_loop.induct)
  case (1 buf len start i)
  then show ?case
    by (auto simp: token_loop.simps [of buf len start i] split: if_splits)
qed


section \<open>\<open>accumulator\<close>, \<open>multiply\<close>\<close>

definition int_range :: "int \<Rightarrow> bool" where
  "int_range x \<longleftrightarrow> - (2 ^ 31) \<le> x \<and> x < 2 ^ 31"

fun sum_from :: "int \<Rightarrow> int list \<Rightarrow> int option" where
  "sum_from acc [] = Some acc"
| "sum_from acc (v # vs) = (if int_range (acc + v) then sum_from (acc + v) vs else None)"

definition accumulator :: "int list \<Rightarrow> int option" where
  "accumulator source = sum_from 0 source"

text \<open>\<open>multiply\<close> pushes \<open>v * 2\<close> for every value it pulls, until one overflows.\<close>

fun multiply :: "int list \<Rightarrow> int list option" where
  "multiply [] = Some []"
| "multiply (v # vs) = (if int_range (v * 2) then map_option (Cons (v * 2)) (multiply vs) else None)"

definition pipeline_run :: "int list option" where
  "pipeline_run = multiply [1, 2, 3]"

lemma sum_from_Some:
  "\<bar>acc\<bar> + (\<Sum>v \<leftarrow> vs. \<bar>v\<bar>) < 2 ^ 31 \<Longrightarrow> sum_from acc vs = Some (acc + sum_list vs)"
proof (induction vs arbitrary: acc)
  case Nil
  then show ?case by simp
next
  case (Cons v vs)
  have nn: "0 \<le> (\<Sum>v \<leftarrow> vs. \<bar>v\<bar>)" by (rule sum_list_nonneg) auto
  with Cons.prems have "int_range (acc + v)" by (auto simp: int_range_def abs_if split: if_splits)
  moreover have "\<bar>acc + v\<bar> + (\<Sum>v \<leftarrow> vs. \<bar>v\<bar>) < 2 ^ 31" using Cons.prems by simp
  ultimately show ?case by (simp add: Cons.IH add.assoc)
qed


section \<open>\<open>binary_parser\<close>\<close>

record message =
  m_type :: "8 word"
  m_payload :: nat
  m_size :: nat

function binary_loop :: "8 word list \<Rightarrow> nat \<Rightarrow> nat \<Rightarrow> message list" where
  "binary_loop buf len i =
     (if i + 2 \<le> len then
        let type = buf ! i; size = unat (buf ! (i + 1))
        in if i + 2 + size > len then []
           else \<lparr>m_type = type, m_payload = i + 2, m_size = size\<rparr> # binary_loop buf len (i + (2 + size))
      else [])"
  by pat_completeness auto
termination by (relation "measure (\<lambda>(buf, len, i). len - i)") auto

declare binary_loop.simps [simp del]

definition binary_parser :: "8 word list \<Rightarrow> nat \<Rightarrow> message list" where
  "binary_parser buf len = binary_loop buf len 0"

definition message_payload :: "8 word list \<Rightarrow> message \<Rightarrow> 8 word list" where
  "message_payload buf m = take (m_size m) (drop (m_payload m) buf)"

definition raw :: "8 word list" where
  "raw = [1, 3, 65, 66, 67, 2, 2, 88, 89]"

text \<open>\<open>run\<close> prints \<open>m.type\<close> and \<open>m.payload\<close>, the latter as a C string.\<close>

definition binary_run :: "8 word list \<Rightarrow> (8 word \<times> 8 word list option) list" where
  "binary_run bytes = map (\<lambda>m. (m_type m, c_string bytes (m_payload m))) (binary_parser bytes (length bytes))"

text \<open>
  The specification of the format: a frame is the type, the length of the payload and the payload;
  \<open>incomplete\<close> is a rest of the input that is no whole frame.
\<close>

definition frame :: "8 word \<times> 8 word list \<Rightarrow> 8 word list" where
  "frame m = fst m # of_nat (length (snd m)) # snd m"

definition incomplete :: "8 word list \<Rightarrow> bool" where
  "incomplete bs \<longleftrightarrow> length bs < 2 \<or> length bs < 2 + unat (bs ! 1)"

lemma binary_loop_incomplete:
  assumes "incomplete rest" and "i = length pre"
  shows "binary_loop (pre @ rest) (length (pre @ rest)) i = []"
  unfolding assms(2) using assms(1)
  by (subst binary_loop.simps) (auto simp: incomplete_def nth_append)

lemma binary_loop_frames:
  assumes "\<forall>m \<in> set ms. length (snd m) < 256" and "incomplete rest"
    and "buf = pre @ concat (map frame ms) @ rest"
  shows "map (\<lambda>m. (m_type m, message_payload buf m)) (binary_loop buf (length buf) (length pre)) = ms"
  using assms
proof (induction ms arbitrary: pre)
  case Nil
  then show ?case using binary_loop_incomplete [of rest "length pre" pre] by simp
next
  case (Cons m ms)
  obtain ty p where m: "m = (ty, p)" by (cases m)
  let ?pre = "pre @ frame m"
  have p: "length p < 256" using Cons.prems(1) m by simp
  have size: "unat (of_nat (length p) :: 8 word) = length p"
    using p by (simp add: unat_of_nat)
  have buf: "buf = ?pre @ concat (map frame ms) @ rest"
    using Cons.prems(3) by simp
  have "map (\<lambda>m. (m_type m, message_payload buf m)) (binary_loop buf (length buf) (length ?pre)) = ms"
    using Cons.prems(1,2) buf by (intro Cons.IH) auto
  moreover have "binary_loop buf (length buf) (length pre) =
      \<lparr>m_type = ty, m_payload = length pre + 2, m_size = length p\<rparr> # binary_loop buf (length buf) (length ?pre)"
    using size m by (subst binary_loop.simps) (simp add: buf frame_def nth_append Let_def)
  moreover have "message_payload buf \<lparr>m_type = ty, m_payload = length pre + 2, m_size = length p\<rparr> = p"
    using m by (simp add: message_payload_def buf frame_def)
  ultimately show ?case using m by simp
qed

lemma binary_loop_bounds:
  assumes "m \<in> set (binary_loop buf len i)"
  shows "i + 2 \<le> m_payload m \<and> m_payload m + m_size m \<le> len \<and> m_size m < 256"
  using assms
proof (induction buf len i rule: binary_loop.induct)
  case (1 buf len i)
  have "unat (buf ! (i + 1)) < 256" using unsigned_less [of "buf ! (i + 1)"] by simp
  with 1 show ?case
    by (fastforce simp: binary_loop.simps [of buf len i] Let_def split: if_splits)
qed


section \<open>Properties\<close>

lemma split_spaces_concat:
  "concat (map (\<lambda>w. w @ [space]) (split_spaces acc bs)) =
    acc @ bs @ (if bs = [] \<and> acc = [] \<or> bs \<noteq> [] \<and> last bs = space then [] else [space])"
  by (induction acc bs rule: split_spaces.induct) auto

lemma split_spaces_no_space: "w \<in> set (split_spaces acc bs) \<Longrightarrow> space \<notin> set acc \<Longrightarrow> space \<notin> set w"
  by (induction acc bs arbitrary: w rule: split_spaces.induct) (auto split: if_splits)

text \<open>
  The coroutine \<open>token_parser\<close> computes the specified splitting: the texts of the tokens it yields are
  the pieces of the input between the spaces, in order, without an empty piece at the end.
\<close>

theorem token_parser_splits:
  assumes "len \<le> length buf"
  shows "map (token_text buf) (token_parser buf len) = split_spaces [] (take len buf)"
  using token_loop_split [of 0 0 len buf] assms by (simp add: token_parser_def)

theorem token_parser_splits_witness:
  "map (token_text [70, 32, 83, 32]) (token_parser [70, 32, 83, 32] 4) = [[70], [83]]"
  by (subst token_parser_splits) simp_all

text \<open>
  Round trip: putting a space after each token gives the input back, with a space added at the end
  if the input had none there. So no byte is lost, duplicated or moved.
\<close>

theorem token_parser_roundtrip:
  "concat (map (\<lambda>t. token_text buf t @ [space]) (token_parser buf (length buf))) =
    (if buf = [] \<or> last buf = space then buf else buf @ [space])"
proof -
  have "concat (map (\<lambda>t. token_text buf t @ [space]) (token_parser buf (length buf))) =
      concat (map (\<lambda>w. w @ [space]) (split_spaces [] buf))"
  proof -
    have texts: "map (token_text buf) (token_parser buf (length buf)) = split_spaces [] buf"
      using token_loop_split [of 0 0 "length buf" buf] by (simp add: token_parser_def)
    show ?thesis unfolding texts [symmetric] by (simp add: comp_def)
  qed
  then show ?thesis by (simp add: split_spaces_concat)
qed

text \<open>Every token lies inside the first \<open>len\<close> bytes of the buffer and holds no space.\<close>

theorem token_in_bounds:
  assumes "t \<in> set (token_parser buf len)" and "len \<le> length buf"
  shows "tok_data t + tok_size t \<le> len \<and> space \<notin> set (token_text buf t)"
proof
  show "tok_data t + tok_size t \<le> len"
    using token_loop_bounds [of 0 0 t buf len] assms by (simp add: token_parser_def)
  have texts: "map (token_text buf) (token_parser buf len) = split_spaces [] (take len buf)"
    using assms(2) token_loop_split [of 0 0 len buf] by (simp add: token_parser_def)
  have "token_text buf t \<in> set (split_spaces [] (take len buf))"
    unfolding texts [symmetric] using assms(1) by simp
  then show "space \<notin> set (token_text buf t)" by (rule split_spaces_no_space) simp
qed

theorem token_in_bounds_witness:
  "2 + 1 \<le> (4::nat) \<and> space \<notin> set (token_text [70, 32, 83, 32] \<lparr>tok_data = 2, tok_size = 1\<rparr>)"
proof -
  have "\<lparr>tok_data = 2, tok_size = 1\<rparr> \<in> set (token_parser [70, 32, 83, 32] 4)"
    by (simp add: token_parser_def token_loop.simps)
  from token_in_bounds [OF this] show ?thesis by simp
qed

text \<open>
  \<open>token_parser::run\<close> ignores the tokens' sizes: for each token it prints the whole rest of the
  text from the token's first byte on, not the token.
\<close>

theorem token_run_prints_the_rest:
  assumes "0 \<notin> set text"
  shows "token_run text = map (\<lambda>t. Some (drop (tok_data t) text)) (token_parser (text @ [0]) (length text))"
proof -
  have "c_string (text @ [0]) (tok_data t) = Some (drop (tok_data t) text)"
    if "t \<in> set (token_parser (text @ [0]) (length text))" for t
  proof -
    have "tok_data t \<le> length text"
      using that token_loop_bounds [of 0 0 t "text @ [0]" "length text"] by (simp add: token_parser_def)
    moreover have "takeWhile (\<lambda>b. b \<noteq> 0) (drop (tok_data t) text @ [0]) = drop (tok_data t) text"
      using assms in_set_dropD by (subst takeWhile_append2) fastforce+
    ultimately show ?thesis by (simp add: c_string_def)
  qed
  then show ?thesis by (simp add: token_run_def)
qed

theorem token_run_prints_the_rest_witness: "token_run [65, 32, 66] = [Some [65, 32, 66], Some [66]]"
  by (subst token_run_prints_the_rest) (simp_all add: token_parser_def token_loop.simps)

text \<open>
  \<open>accumulator\<close> computes the sum of what it pulls whenever the absolute values add up to less than
  \<open>2 ^ 31\<close>; no partial sum overflows then.
\<close>

theorem accumulator_sum:
  assumes "(\<Sum>v \<leftarrow> vs. \<bar>v\<bar>) < 2 ^ 31"
  shows "accumulator vs = Some (sum_list vs)"
  using sum_from_Some [of 0 vs] assms by (simp add: accumulator_def)

theorem accumulator_sum_witness: "accumulator [1, 2, 3] = Some 6"
  by (subst accumulator_sum) simp_all

text \<open>
  C13: Round trip of the binary protocol: on a stream of whole frames followed by an incomplete one, the
  parser yields exactly the encoded messages, in order, and leaves the incomplete frame alone.
\<close>

theorem binary_parser_roundtrip:
  assumes "\<forall>m \<in> set ms. length (snd m) < 256" and "incomplete rest"
    and "buf = concat (map frame ms) @ rest"
  shows "map (\<lambda>m. (m_type m, message_payload buf m)) (binary_parser buf (length buf)) = ms"
  using binary_loop_frames [of ms rest buf "[]"] assms by (simp add: binary_parser_def)

theorem binary_parser_roundtrip_witness:
  "map (\<lambda>m. (m_type m, message_payload (raw @ [7, 9, 1]) m)) (binary_parser (raw @ [7, 9, 1]) (length (raw @ [7, 9, 1])))
   = [(1, [65, 66, 67]), (2, [88, 89])]"
  by (rule binary_parser_roundtrip [where rest = "[7, 9, 1]"]) (simp_all add: incomplete_def frame_def raw_def)

text \<open>
  C12: Memory safety of \<open>binary_parser\<close> on any input, well formed or not: every message it yields lies
  inside the \<open>len\<close> bytes it was given.
\<close>

theorem binary_parser_in_bounds:
  assumes "m \<in> set (binary_parser buf len)"
  shows "2 \<le> m_payload m \<and> m_payload m + m_size m \<le> len \<and> m_size m < 256"
  using binary_loop_bounds [of m buf len 0] assms by (simp add: binary_parser_def)

theorem binary_parser_in_bounds_witness:
  "2 \<le> (7::nat) \<and> 7 + 2 \<le> length raw \<and> 2 < (256::nat)"
proof -
  have "\<lparr>m_type = 2, m_payload = 7, m_size = 2\<rparr> \<in> set (binary_parser raw (length raw))"
    by (simp add: binary_parser_def binary_loop.simps raw_def)
  from binary_parser_in_bounds [OF this] show ?thesis by simp
qed

text \<open>
  \<open>binary_parser_demo::run\<close> prints each payload as a C string, but nothing terminates it: on bytes
  without a NUL, such as the array of the demo, every print reads past the end of the array.
\<close>

theorem binary_run_reads_past_the_end:
  assumes "0 \<notin> set bytes"
  shows "map snd (binary_run bytes) = replicate (length (binary_parser bytes (length bytes))) None"
  using assms by (auto simp: binary_run_def c_string_def map_replicate_const [symmetric] dest: in_set_dropD)

theorem binary_run_reads_past_the_end_witness: "map snd (binary_run raw) = [None, None]"
  by (subst binary_run_reads_past_the_end) (simp_all add: raw_def binary_parser_def binary_loop.simps)

end
