(* ===== verification/File_Responder.thy ===== *)
theory File_Responder
  imports Boost_Calls
begin

text \<open>
  \<open>Beast/http/HTTPS_Server.cpp\<close>, the part both servers share: the MIME types, \<open>path_cat\<close> and
  \<open>handle_request\<close>, which maps a request to a response. Parameters stand for what Boost decides: the
  version string, the text of an error code, \<open>beast::iequals\<close>, and \<open>file_body::value_type::open\<close>, which
  gives an error code and the size of the file. Opened paths are part of the result.
\<close>

section \<open>MIME types\<close>

text \<open>The part of the path from its last dot on (\<open>path.rfind(".")\<close>), empty when there is no dot.\<close>

definition extension :: "string \<Rightarrow> string" where
  "extension path = (if CHR ''.'' \<in> set path
     then CHR ''.'' # rev (takeWhile (\<lambda>c. c \<noteq> CHR ''.'') (rev path)) else [])"

definition mime_type_old :: "(string \<Rightarrow> string \<Rightarrow> bool) \<Rightarrow> string \<Rightarrow> string" where
  "mime_type_old iequals path =
     (let ext = extension path in
      if iequals ext ''.htm'' then ''text/html''
      else if iequals ext ''.html'' then ''text/html''
      else if iequals ext ''.php'' then ''text/html''
      else if iequals ext ''.css'' then ''text/css''
      else if iequals ext ''.txt'' then ''text/plain''
      else if iequals ext ''.js'' then ''application/javascript''
      else if iequals ext ''.json'' then ''application/json''
      else if iequals ext ''.xml'' then ''application/xml''
      else if iequals ext ''.swf'' then ''application/x-shockwave-flash''
      else if iequals ext ''.flv'' then ''video/x-flv''
      else if iequals ext ''.png'' then ''image/png''
      else if iequals ext ''.jpe'' then ''image/jpeg''
      else if iequals ext ''.jpeg'' then ''image/jpeg''
      else if iequals ext ''.jpg'' then ''image/jpeg''
      else if iequals ext ''.gif'' then ''image/gif''
      else if iequals ext ''.bmp'' then ''image/bmp''
      else if iequals ext ''.ico'' then ''image/vnd.microsoft.icon''
      else if iequals ext ''.tiff'' then ''image/tiff''
      else if iequals ext ''.tif'' then ''image/tiff''
      else if iequals ext ''.svg'' then ''image/svg+xml''
      else if iequals ext ''.svgz'' then ''image/svg+xml''
      else ''application/text'')"

definition mimeType :: "string \<Rightarrow> string" where
  "mimeType path =
     (if suffix ''.htm'' path then ''text/html''
      else if suffix ''.html'' path then ''text/html''
      else if suffix ''.php'' path then ''text/html''
      else if suffix ''.css'' path then ''text/css''
      else if suffix ''.txt'' path then ''text/plain''
      else if suffix ''.js'' path then ''application/javascript''
      else if suffix ''.json'' path then ''application/json''
      else if suffix ''.xml'' path then ''application/xml''
      else if suffix ''.swf'' path then ''application/x-shockwave-flash''
      else if suffix ''.flv'' path then ''video/x-flv''
      else if suffix ''.png'' path then ''image/png''
      else if suffix ''.jpe'' path then ''image/jpeg''
      else if suffix ''.jpeg'' path then ''image/jpeg''
      else if suffix ''.jpg'' path then ''image/jpeg''
      else if suffix ''.gif'' path then ''image/gif''
      else if suffix ''.bmp'' path then ''image/bmp''
      else if suffix ''.ico'' path then ''image/vnd.microsoft.icon''
      else if suffix ''.tiff'' path then ''image/tiff''
      else if suffix ''.tif'' path then ''image/tiff''
      else if suffix ''.svg'' path then ''image/svg+xml''
      else if suffix ''.svgz'' path then ''image/svg+xml''
      else ''application/text'')"

text \<open>Both chains search the same table with a different test.\<close>

definition mime_table :: "(string \<times> string) list" where
  "mime_table =
    [(''.htm'', ''text/html''),
     (''.html'', ''text/html''),
     (''.php'', ''text/html''),
     (''.css'', ''text/css''),
     (''.txt'', ''text/plain''),
     (''.js'', ''application/javascript''),
     (''.json'', ''application/json''),
     (''.xml'', ''application/xml''),
     (''.swf'', ''application/x-shockwave-flash''),
     (''.flv'', ''video/x-flv''),
     (''.png'', ''image/png''),
     (''.jpe'', ''image/jpeg''),
     (''.jpeg'', ''image/jpeg''),
     (''.jpg'', ''image/jpeg''),
     (''.gif'', ''image/gif''),
     (''.bmp'', ''image/bmp''),
     (''.ico'', ''image/vnd.microsoft.icon''),
     (''.tiff'', ''image/tiff''),
     (''.tif'', ''image/tiff''),
     (''.svg'', ''image/svg+xml''),
     (''.svgz'', ''image/svg+xml'')]"

fun search :: "(string \<Rightarrow> bool) \<Rightarrow> (string \<times> string) list \<Rightarrow> string" where
  "search P [] = ''application/text''"
| "search P ((e, t) # es) = (if P e then t else search P es)"

lemma mimeType_search: "mimeType path = search (\<lambda>e. suffix e path) mime_table"
  unfolding mimeType_def mime_table_def search.simps by (rule refl)

lemma mime_type_old_search: "mime_type_old iequals path = search (iequals (extension path)) mime_table"
  unfolding mime_type_old_def mime_table_def search.simps Let_def by (rule refl)

lemma search_cong: "(\<And>e. e \<in> fst ` set es \<Longrightarrow> P e = Q e) \<Longrightarrow> search P es = search Q es"
  by (induction es) auto

text \<open>An ASCII letter in lower case, the folding of \<open>beast::iequals\<close>.\<close>

definition ascii_lower :: "char \<Rightarrow> char" where
  "ascii_lower c = (let n = of_char c :: nat in if 65 \<le> n \<and> n \<le> 90 then char_of (n + 32) else c)"

lemma ascii_lower_dot [simp]: "ascii_lower c = CHR ''.'' \<longleftrightarrow> c = CHR ''.''"
proof (cases "65 \<le> (of_char c :: nat) \<and> (of_char c :: nat) \<le> 90")
  case True
  then have "of_char (ascii_lower c) = (of_char c + 32 :: nat)"
    by (simp add: ascii_lower_def)
  with True have "of_char (ascii_lower c) \<noteq> (of_char (CHR ''.'') :: nat)" and "of_char c \<noteq> (of_char (CHR ''.'') :: nat)"
    by auto
  then show ?thesis by auto
next
  case False
  then show ?thesis by (simp only: ascii_lower_def Let_def if_False)
qed

lemma dot_ascii_lower [simp]: "CHR ''.'' = ascii_lower c \<longleftrightarrow> c = CHR ''.''"
  using ascii_lower_dot [of c] by metis

text \<open>An extension of the table: a dot, then characters that are no dot and no capital letter.\<close>

definition plain_extension :: "string \<Rightarrow> bool" where
  "plain_extension e \<longleftrightarrow> e \<noteq> [] \<and> hd e = CHR ''.'' \<and> CHR ''.'' \<notin> set (tl e) \<and> map ascii_lower e = e"

lemma mime_table_plain: "\<forall>e \<in> fst ` set mime_table. plain_extension e"
  unfolding mime_table_def plain_extension_def ascii_lower_def by simp

lemma suffix_plain_extension:
  assumes "plain_extension e"
  shows "suffix e path \<longleftrightarrow> extension path = e"
proof -
  obtain w where e: "e = CHR ''.'' # w" and w: "CHR ''.'' \<notin> set w"
    using assms by (cases e) (auto simp: plain_extension_def)
  show ?thesis
  proof
    assume "suffix e path"
    then obtain us where "path = us @ CHR ''.'' # w" unfolding e suffix_def by blast
    moreover have "takeWhile (\<lambda>c. c \<noteq> CHR ''.'') (rev w @ CHR ''.'' # rev us) = rev w"
      using w by (subst takeWhile_append2) auto
    ultimately show "extension path = e" by (simp add: extension_def e)
  next
    assume x: "extension path = e"
    then have dot: "CHR ''.'' \<in> set path" by (auto simp: extension_def e split: if_splits)
    let ?p = "\<lambda>c. c \<noteq> CHR ''.''"
    have "dropWhile ?p (rev path) \<noteq> []" using dot by (auto simp: dropWhile_eq_Nil_conv)
    moreover have "hd (dropWhile ?p (rev path)) = CHR ''.''"
      using hd_dropWhile [OF calculation] by simp
    ultimately obtain us where us: "dropWhile ?p (rev path) = CHR ''.'' # us"
      by (cases "dropWhile ?p (rev path)") auto
    have "rev path = takeWhile ?p (rev path) @ CHR ''.'' # us"
      using takeWhile_dropWhile_id [of ?p "rev path"] us by simp
    then have "path = rev us @ CHR ''.'' # rev (takeWhile ?p (rev path))"
      by (metis append_assoc append_Cons append_Nil rev.simps(2) rev_append rev_swap)
    then show "suffix e path" using x dot by (auto simp: extension_def suffix_def)
  qed
qed

lemma extension_lower: "extension (map ascii_lower path) = map ascii_lower (extension path)"
proof -
  have "CHR ''.'' \<in> set (map ascii_lower path) \<longleftrightarrow> CHR ''.'' \<in> set path"
    by (induction path) auto
  then show ?thesis by (simp add: extension_def rev_map takeWhile_map comp_def)
qed


section \<open>\<open>path_cat\<close>\<close>

definition path_cat :: "string \<Rightarrow> string \<Rightarrow> string" where
  "path_cat base path =
     (if base = [] then path
      else (if last base = CHR ''/'' then butlast base else base) @ path)"


section \<open>\<open>handle_request\<close>\<close>

type_synonym opener = "string \<Rightarrow> error_code \<times> nat"

text \<open>The three lambdas that build an error response. \<open>prepare_payload\<close> sets the length of the body.\<close>

definition error_response :: "string \<Rightarrow> nat \<Rightarrow> string \<Rightarrow> request \<Rightarrow> response" where
  "error_response beast_version status text q =
     \<lparr>r_status = status, r_version = q_version q,
      r_fields = set_field Content_Type ''text/html'' (set_field Server beast_version []),
      r_keep_alive = q_keep_alive q, r_body = String_Body text, r_content_length = Some (length text)\<rparr>"

definition bad_request :: "string \<Rightarrow> request \<Rightarrow> string \<Rightarrow> response" where
  "bad_request beast_version q why = error_response beast_version 400 why q"

definition not_found :: "string \<Rightarrow> request \<Rightarrow> string \<Rightarrow> response" where
  "not_found beast_version q target =
     error_response beast_version 404 (''The resource '' @ [CHR 0x27] @ target @ [CHR 0x27] @ '' was not found.'') q"

definition server_error :: "string \<Rightarrow> request \<Rightarrow> string \<Rightarrow> response" where
  "server_error beast_version q what =
     error_response beast_version 500 (''An error occurred: '' @ [CHR 0x27] @ what @ [CHR 0x27]) q"

definition illegal_target :: "string \<Rightarrow> bool" where
  "illegal_target target \<longleftrightarrow> target = [] \<or> hd target \<noteq> CHR ''/'' \<or> sublist ''..'' target"

definition requested_path :: "string \<Rightarrow> string \<Rightarrow> string" where
  "requested_path doc_root target =
     (let path = path_cat doc_root target
      in if last target = CHR ''/'' then path @ ''index.html'' else path)"

text \<open>The size is cached in a \<open>uint16_t\<close>.\<close>

definition cached_size :: "nat \<Rightarrow> 16 word" where
  "cached_size n = of_nat n"

definition handle_request ::
  "string \<Rightarrow> (error_code \<Rightarrow> string) \<Rightarrow> opener \<Rightarrow> string \<Rightarrow> request \<Rightarrow> response \<times> string list" where
  "handle_request beast_version message open_file doc_root q =
     (if Get \<noteq> q_method q \<and> Head \<noteq> q_method q
      then (bad_request beast_version q ''Unknown HTTP-method'', [])
      else if illegal_target (q_target q)
      then (bad_request beast_version q ''Illegal request-target'', [])
      else
        let path = requested_path doc_root (q_target q);
            (ec, file_size) = open_file path
        in if No_Such_File = ec then (not_found beast_version q (q_target q), [path])
           else if is_error ec then (server_error beast_version q (message ec), [path])
           else
             let len = cached_size file_size;
                 res = \<lparr>r_status = 200, r_version = q_version q,
                   r_fields = set_field Content_Type (mimeType path) (set_field Server beast_version []),
                   r_keep_alive = q_keep_alive q, r_body = Empty_Body, r_content_length = Some (unat len)\<rparr>
             in if q_method q = Head then (res, [path]) else (res\<lparr>r_body := File_Body path\<rparr>, [path]))"

lemmas response_defs = bad_request_def not_found_def server_error_def error_response_def

lemma not_sublist_dots_append:
  assumes "\<not> sublist ''..'' xs" and "\<not> sublist ''..'' ys" and "ys \<noteq> [] \<Longrightarrow> hd ys \<noteq> CHR ''.''"
  shows "\<not> sublist ''..'' (xs @ ys)"
  using assms by (rule sublist_append_two)

lemma requested_path_no_dots:
  assumes "\<not> sublist ''..'' doc_root" and "\<not> illegal_target target"
  shows "\<not> sublist ''..'' (requested_path doc_root target)"
proof -
  have target: "\<not> sublist ''..'' target" "hd target = CHR ''/''"
    using assms(2) by (auto simp: illegal_target_def)
  have root: "\<not> sublist ''..'' (if last doc_root = CHR ''/'' then butlast doc_root else doc_root)"
    using assms(1) sublist_two_butlast [of "CHR ''.''" "CHR ''.''" doc_root] by auto
  have cat: "\<not> sublist ''..'' (path_cat doc_root target)"
    using not_sublist_dots_append [OF root target(1)] target by (simp add: path_cat_def)
  have "\<not> sublist ''..'' ''index.html''" by (simp add: sublist_code)
  from not_sublist_dots_append [OF cat this] cat show ?thesis
    by (simp add: requested_path_def Let_def)
qed


section \<open>Properties\<close>

text \<open>
  The two MIME functions are equivalent up to letter case: the old one, which compares the extension
  with \<open>beast::iequals\<close>, gives for every path what the new one gives for the path in lower case. (For a
  capital extension they differ: the new one compares exactly.)
\<close>

theorem mime_types_agree:
  assumes "\<forall>a b. iequals a b = (map ascii_lower a = map ascii_lower b)"
  shows "mime_type_old iequals path = mimeType (map ascii_lower path)"
proof -
  have "iequals (extension path) e = suffix e (map ascii_lower path)"
    if "e \<in> fst ` set mime_table" for e
  proof -
    have plain: "plain_extension e" using mime_table_plain that by blast
    then have "map ascii_lower e = e" by (simp add: plain_extension_def)
    with assms have "iequals (extension path) e = (map ascii_lower (extension path) = e)" by simp
    also have "\<dots> = suffix e (map ascii_lower path)"
      using plain by (simp only: suffix_plain_extension extension_lower)
    finally show ?thesis .
  qed
  then show ?thesis by (simp only: mime_type_old_search mimeType_search cong: search_cong)
qed

theorem mime_types_agree_witness:
  "mime_type_old (\<lambda>a b. map ascii_lower a = map ascii_lower b) ''LOGO.SVG'' = ''image/svg+xml'' \<and>
   mimeType ''LOGO.SVG'' = ''application/text''"
proof
  have "mime_type_old (\<lambda>a b. map ascii_lower a = map ascii_lower b) ''LOGO.SVG'' =
      mimeType (map ascii_lower ''LOGO.SVG'')"
    by (rule mime_types_agree) simp
  also have "\<dots> = ''image/svg+xml''"
    by code_simp
  finally show "mime_type_old (\<lambda>a b. map ascii_lower a = map ascii_lower b) ''LOGO.SVG'' = ''image/svg+xml''" .
  show "mimeType ''LOGO.SVG'' = ''application/text''" by code_simp
qed

text \<open>
  C2: No path escapes the document root: whatever the request, every path the server opens is the root,
  a slash and a rest without \<open>..\<close> anywhere, provided the root itself has none.
\<close>

theorem opened_paths_confined:
  assumes "\<not> sublist ''..'' doc_root"
    and "p \<in> set (snd (handle_request beast_version message open_file doc_root q))"
  shows "\<not> sublist ''..'' p \<and>
    prefix ((if doc_root \<noteq> [] \<and> last doc_root = CHR ''/'' then butlast doc_root else doc_root) @ ''/'') p"
proof -
  have legal: "\<not> illegal_target (q_target q)" and p: "p = requested_path doc_root (q_target q)"
    using assms(2) by (auto simp: handle_request_def Let_def split: if_splits prod.splits)
  then obtain rest where "q_target q = CHR ''/'' # rest"
    by (cases "q_target q") (auto simp: illegal_target_def)
  then show ?thesis
    using requested_path_no_dots [OF assms(1) legal] unfolding p
    by (auto simp: requested_path_def path_cat_def Let_def prefix_def)
qed

theorem opened_paths_confined_witness:
  "\<not> sublist ''..'' ''/srv/a/index.html'' \<and> prefix (''/srv'' @ ''/'') ''/srv/a/index.html''"
proof -
  let ?q = "empty_request\<lparr>q_target := ''/a/''\<rparr>"
  have "''/srv/a/index.html'' \<in> set (snd (handle_request ''B'' (\<lambda>_. []) (\<lambda>_. (Success, 5)) ''/srv/'' ?q))"
    by code_simp
  from opened_paths_confined [OF _ this] show ?thesis by (simp add: sublist_code)
qed

text \<open>
  C33: Which requests are answered how: a file is opened exactly for a GET or HEAD of a legal target, and
  then it is the requested path; the status is 400 without that, otherwise 404, 500 or 200 as the open
  ended.
\<close>

theorem handle_request_status:
  "(let served = ((q_method q = Get \<or> q_method q = Head) \<and> \<not> illegal_target (q_target q));
        path = requested_path doc_root (q_target q);
        res = handle_request beast_version message open_file doc_root q
    in snd res = (if served then [path] else []) \<and>
       r_status (fst res) =
         (if served then case fst (open_file path) of Success \<Rightarrow> 200 | No_Such_File \<Rightarrow> 404 | _ \<Rightarrow> 500
          else 400))"
  by (cases "open_file (requested_path doc_root (q_target q))")
    (auto simp: handle_request_def response_defs Let_def split: error_code.split)

text \<open>
  Every response, errors included, carries the HTTP version of the request, keeps the connection
  alive exactly when the request asked for it, and names the server.
\<close>

theorem response_follows_request:
  "(let r = fst (handle_request beast_version message open_file doc_root q)
    in r_version r = q_version q \<and> r_keep_alive r = q_keep_alive q \<and>
       map_of (r_fields r) Server = Some beast_version)"
  by (cases "open_file (requested_path doc_root (q_target q))")
    (simp add: handle_request_def response_defs Let_def map_of_set_field)

text \<open>
  The length announced for a served file is its size modulo \<open>2 ^ 16\<close>, because the size is cached in a
  \<open>uint16_t\<close>: it is right exactly for files of less than 65536 bytes.
\<close>

theorem announced_length:
  assumes "q_method q = Get \<or> q_method q = Head" and "\<not> illegal_target (q_target q)"
    and "open_file (requested_path doc_root (q_target q)) = (Success, n)"
  shows "r_content_length (fst (handle_request beast_version message open_file doc_root q)) = Some (n mod 65536) \<and>
    (r_content_length (fst (handle_request beast_version message open_file doc_root q)) = Some n \<longleftrightarrow> n < 65536)"
proof -
  have "r_content_length (fst (handle_request beast_version message open_file doc_root q)) = Some (n mod 65536)"
    using assms by (auto simp: handle_request_def Let_def cached_size_def unat_of_nat)
  then show ?thesis by (auto simp: mod_eq_self_iff_div_eq_0)
qed

theorem announced_length_witness:
  "r_content_length (fst (handle_request ''B'' (\<lambda>_. []) (\<lambda>_. (Success, 70000)) ''/''
     (empty_request\<lparr>q_target := ''/big''\<rparr>))) = Some (70000 mod 65536)"
  by (rule announced_length [THEN conjunct1]) (simp_all add: empty_request_def illegal_target_def sublist_code)

text \<open>
  HEAD and GET agree: a HEAD request gets the status, the header fields and the announced length of
  the GET response for the same target; a served file only loses its body.
\<close>

theorem head_is_get_without_body:
  "fst (handle_request beast_version message open_file doc_root (q\<lparr>q_method := Head\<rparr>)) =
    (let g = fst (handle_request beast_version message open_file doc_root (q\<lparr>q_method := Get\<rparr>))
     in if r_status g = 200 then g\<lparr>r_body := Empty_Body\<rparr> else g)"
  by (cases "open_file (requested_path doc_root (q_target q))")
    (simp add: handle_request_def response_defs Let_def)

end
