(* ===== verification/Blocking_IO.thy ===== *)
theory Blocking_IO
  imports Boost_Calls
begin

text \<open>
  Straight-line code that makes blocking calls (or \<open>co_await\<close>s them one after the other) as a
  transducer: the input is the script of the results Boost returns, in call order; the output is the
  trace of the actions, the part of the script that is left, and how the code ended. A call made when
  the script is used up has not returned: the code is \<open>Blocked\<close> in it. So a property that holds for
  every script holds for every behaviour of the environment and for every prefix of an execution.
\<close>

section \<open>Outcomes\<close>

datatype 'a outcome = Returned 'a | Thrown exn | Blocked

type_synonym 'p script = "(error_code \<times> 'p) list"

type_synonym ('p, 'a) io = "'p script \<Rightarrow> action list \<times> 'p script \<times> 'a outcome"


section \<open>Combinators\<close>

definition io_return :: "'a \<Rightarrow> ('p, 'a) io" where
  "io_return a s = ([], s, Returned a)"

definition io_throw :: "exn \<Rightarrow> ('p, 'a) io" where
  "io_throw e s = ([], s, Thrown e)"

definition io_emit :: "action list \<Rightarrow> ('p, unit) io" where
  "io_emit as s = (as, s, Returned ())"

text \<open>A call that reports through an \<open>error_code&\<close> argument.\<close>

definition io_call :: "operation \<Rightarrow> ('p, error_code \<times> 'p) io" where
  "io_call op s = (case s of [] \<Rightarrow> ([Start op], [], Blocked) | c # cs \<Rightarrow> ([Start op], cs, Returned c))"

fun io_bind :: "('p, 'a) io \<Rightarrow> ('a \<Rightarrow> ('p, 'b) io) \<Rightarrow> ('p, 'b) io" where
  "io_bind m k s = (case m s of
     (as, s', Returned a) \<Rightarrow> (case k a s' of (bs, s'', r) \<Rightarrow> (as @ bs, s'', r))
   | (as, s', Thrown e) \<Rightarrow> (as, s', Thrown e)
   | (as, s', Blocked) \<Rightarrow> (as, s', Blocked))"

declare io_bind.simps [simp del]

definition io_seq :: "('p, 'a) io \<Rightarrow> ('p, 'b) io \<Rightarrow> ('p, 'b) io" where
  "io_seq m n = io_bind m (\<lambda>_. n)"

text \<open>A call in its throwing form: an error becomes a \<open>system_error\<close>, otherwise the result is read.\<close>

definition io_check :: "operation \<Rightarrow> ('p, 'p) io" where
  "io_check op = io_bind (io_call op)
     (\<lambda>(ec, p). if is_error ec then io_throw (System_Error [] ec) else io_return p)"

text \<open>The pattern \<open>call(ec); if (ec) return fail(ec, what); ...\<close>.\<close>

definition io_or_fail ::
  "operation \<Rightarrow> (error_code \<Rightarrow> action list) \<Rightarrow> ('p \<Rightarrow> ('p, unit) io) \<Rightarrow> ('p, unit) io" where
  "io_or_fail op on_error k =
     io_bind (io_call op) (\<lambda>(ec, p). if is_error ec then io_emit (on_error ec) else k p)"

text \<open>\<open>try { m } catch (...) { h }\<close>\<close>

definition io_catch :: "('p, 'a) io \<Rightarrow> (exn \<Rightarrow> ('p, 'a) io) \<Rightarrow> ('p, 'a) io" where
  "io_catch m h s = (case m s of
     (as, s', Thrown e) \<Rightarrow> (case h e s' of (bs, s'', r) \<Rightarrow> (as @ bs, s'', r))
   | (as, s', Returned a) \<Rightarrow> (as, s', Returned a)
   | (as, s', Blocked) \<Rightarrow> (as, s', Blocked))"

text \<open>
  Loops. The body takes the loop's variables and says whether to go round again (\<open>Inl\<close>) or to leave
  the loop with a result (\<open>Inr\<close>). Each round of every loop of the program makes at least one call, so
  a loop goes round at most once per completion: the length of the script is enough fuel, which
  \<open>io_loop_unfold\<close> below turns into the loop's own equation.
\<close>

fun io_rounds :: "nat \<Rightarrow> ('v \<Rightarrow> ('p, 'v + 'a) io) \<Rightarrow> 'v \<Rightarrow> ('p, 'a) io" where
  "io_rounds 0 f v = (\<lambda>s. ([], s, Blocked))"
| "io_rounds (Suc n) f v = io_bind (f v)
     (\<lambda>r. case r of Inl v' \<Rightarrow> io_rounds n f v' | Inr a \<Rightarrow> io_return a)"

definition io_loop :: "('v \<Rightarrow> ('p, 'v + 'a) io) \<Rightarrow> 'v \<Rightarrow> ('p, 'a) io" where
  "io_loop f v s = io_rounds (Suc (length s)) f v s"

text \<open>The body makes a call before it goes round again.\<close>

definition calls_each_round :: "('v \<Rightarrow> ('p, 'v + 'a) io) \<Rightarrow> bool" where
  "calls_each_round f \<longleftrightarrow>
     (\<forall>v s as s' v'. f v s = (as, s', Returned (Inl v')) \<longrightarrow> length s' < length s)"


section \<open>Running the combinators\<close>

lemma io_bind_Returned: "m s = (as, s', Returned a) \<Longrightarrow>
    io_bind m k s = (as @ fst (k a s'), fst (snd (k a s')), snd (snd (k a s')))"
  by (simp add: io_bind.simps split: prod.split)

lemma io_bind_return [io_simps]: "io_bind (io_return a) k s = k a s"
  by (simp add: io_bind.simps io_return_def split: prod.split)

lemma io_bind_throw [io_simps]: "io_bind (io_throw e) k s = ([], s, Thrown e)"
  by (simp add: io_bind.simps io_throw_def)

lemma io_bind_emit [io_simps]:
  "io_bind (io_emit as) k s = (as @ fst (k () s), fst (snd (k () s)), snd (snd (k () s)))"
  by (simp add: io_bind.simps io_emit_def split: prod.split)

lemma io_bind_call_Nil [io_simps]: "io_bind (io_call op) k [] = ([Start op], [], Blocked)"
  by (simp add: io_bind.simps io_call_def)

lemma io_bind_call_Cons [io_simps]:
  "io_bind (io_call op) k (c # cs) =
     (Start op # fst (k c cs), fst (snd (k c cs)), snd (snd (k c cs)))"
  by (simp add: io_bind.simps io_call_def split: prod.split)

lemma io_bind_assoc [io_simps]: "io_bind (io_bind m f) g s = io_bind m (\<lambda>a. io_bind (f a) g) s"
  by (simp add: io_bind.simps split: prod.split outcome.split)

lemma io_bind_if [io_simps]: "io_bind (if b then m else n) k s = (if b then io_bind m k s else io_bind n k s)"
  by simp

lemma io_bind_case_prod [io_simps]:
  "io_bind (case p of (a, b) \<Rightarrow> f a b) k s = (case p of (a, b) \<Rightarrow> io_bind (f a b) k s)"
  by (cases p) simp

lemma io_seq_bind [io_simps]: "io_seq m n s = io_bind m (\<lambda>_. n) s"
  by (simp add: io_seq_def)

lemma io_bind_seq [io_simps]: "io_bind (io_seq m n) k s = io_bind m (\<lambda>_. io_bind n k) s"
  by (simp add: io_seq_def io_bind_assoc)

lemma io_check_Nil [io_simps]: "io_check op [] = ([Start op], [], Blocked)"
  by (simp add: io_check_def io_bind_call_Nil)

lemma io_check_Cons [io_simps]:
  "io_check op ((ec, p) # cs) =
     ([Start op], cs, if is_error ec then Thrown (System_Error [] ec) else Returned p)"
  by (simp add: io_check_def io_bind_call_Cons io_throw_def io_return_def)

lemma io_bind_check_Nil [io_simps]: "io_bind (io_check op) k [] = ([Start op], [], Blocked)"
  by (simp add: io_bind.simps io_check_Nil)

lemma io_bind_check_Cons [io_simps]:
  "io_bind (io_check op) k ((ec, p) # cs) =
     (if is_error ec then ([Start op], cs, Thrown (System_Error [] ec))
      else (Start op # fst (k p cs), fst (snd (k p cs)), snd (snd (k p cs))))"
  by (simp add: io_bind.simps io_check_Cons split: prod.split)

lemma io_call_simps [io_simps]:
  "io_call op [] = ([Start op], [], Blocked)"
  "io_call op (c # cs) = ([Start op], cs, Returned c)"
  by (simp_all add: io_call_def)

lemmas [io_simps] = io_return_def io_throw_def io_emit_def

lemma io_or_fail_simps [io_simps]:
  "io_or_fail op on_error k [] = ([Start op], [], Blocked)"
  "io_or_fail op on_error k ((ec, p) # cs) =
     (if is_error ec then (Start op # on_error ec, cs, Returned ()) else (Start op # fst (k p cs), snd (k p cs)))"
  by (simp_all add: io_or_fail_def io_bind_call_Nil io_bind_call_Cons io_emit_def)

lemma io_seq_emit [io_simps]: "io_seq (io_emit as) m s = (as @ fst (m s), snd (m s))"
  by (simp add: io_seq_def io_bind_emit)

lemma io_catch_Returned: "m s = (as, s', Returned a) \<Longrightarrow> io_catch m h s = (as, s', Returned a)"
  by (simp add: io_catch_def)

lemma io_catch_Blocked: "m s = (as, s', Blocked) \<Longrightarrow> io_catch m h s = (as, s', Blocked)"
  by (simp add: io_catch_def)

lemma io_catch_Thrown: "m s = (as, s', Thrown e) \<Longrightarrow>
    io_catch m h s = (as @ fst (h e s'), fst (snd (h e s')), snd (snd (h e s')))"
  by (simp add: io_catch_def split: prod.split)


section \<open>The equation of a loop\<close>

lemma io_rounds_more:
  assumes "calls_each_round f" and "length s < n" and "n \<le> m"
  shows "io_rounds m f v s = io_rounds n f v s"
  using assms(2,3)
proof (induction n arbitrary: m v s)
  case 0
  then show ?case by simp
next
  case (Suc n)
  then obtain m' where m: "m = Suc m'" "n \<le> m'" by (cases m) auto
  show ?case
  proof (cases "\<exists>as s' v'. f v s = (as, s', Returned (Inl v'))")
    case True
    then obtain as s' v' where r: "f v s = (as, s', Returned (Inl v'))" by blast
    with assms(1) have "length s' < length s" unfolding calls_each_round_def by blast
    with Suc.prems have "length s' < n" by simp
    then have "io_rounds m' f v' s' = io_rounds n f v' s'" using m(2) by (rule Suc.IH)
    with r m show ?thesis by (simp add: io_bind.simps)
  next
    case False
    with m show ?thesis
      by (auto simp: io_bind.simps split: prod.splits outcome.splits sum.splits)
  qed
qed

theorem io_loop_unfold:
  assumes "calls_each_round f"
  shows "io_loop f v s =
    io_bind (f v) (\<lambda>r. case r of Inl v' \<Rightarrow> io_loop f v' | Inr a \<Rightarrow> io_return a) s"
proof (cases "\<exists>as s' v'. f v s = (as, s', Returned (Inl v'))")
  case True
  then obtain as s' v' where r: "f v s = (as, s', Returned (Inl v'))" by blast
  with assms have "length s' < length s" unfolding calls_each_round_def by blast
  then have "io_rounds (length s) f v' s' = io_rounds (Suc (length s')) f v' s'"
    by (intro io_rounds_more [OF assms]) auto
  with r show ?thesis by (simp add: io_loop_def io_bind.simps)
next
  case False
  then show ?thesis
    by (auto simp: io_loop_def io_bind.simps split: prod.splits outcome.splits sum.splits)
qed

lemma io_loop_bind_unfold:
  assumes "calls_each_round f"
  shows "io_bind (io_loop f v) k s =
    io_bind (f v) (\<lambda>r. case r of Inl v' \<Rightarrow> io_bind (io_loop f v') k | Inr a \<Rightarrow> k a) s"
  by (simp add: io_bind.simps io_loop_unfold [OF assms, of v s] io_return_def
      split: prod.split outcome.split sum.split)

text \<open>The fuel of \<open>io_loop\<close> never runs out: more fuel gives the same run.\<close>

corollary io_loop_enough_fuel:
  "calls_each_round f \<Longrightarrow> length s < n \<Longrightarrow> io_rounds n f v s = io_loop f v s"
  unfolding io_loop_def by (intro io_rounds_more) auto


section \<open>Throwing instead of reporting\<close>

text \<open>
  \<open>m\<close> is \<open>n\<close> with exceptions: on every script it makes the same calls and prints the same text, and it
  throws exactly the code that \<open>n\<close> reports, if any.
\<close>

fun thrown_codes :: "'a outcome \<Rightarrow> error_code list" where
  "thrown_codes (Thrown (System_Error what ec)) = [ec]"
| "thrown_codes r = []"

definition throwing_variant :: "('p, unit) io \<Rightarrow> ('p, unit) io \<Rightarrow> bool" where
  "throwing_variant m n \<longleftrightarrow> (\<forall>s. fst (m s) = without_reports (fst (n s)) \<and>
     fst (snd (m s)) = fst (snd (n s)) \<and>
     map snd (reports (fst (n s))) = thrown_codes (snd (snd (m s))))"

lemma throwing_variant_call:
  assumes "\<And>p. throwing_variant (k p) (l p)"
  shows "throwing_variant (io_bind (io_check op) k) (io_or_fail op (fail what) l)"
  unfolding throwing_variant_def
proof
  fix s :: "(error_code \<times> 'a) list"
  show "fst (io_bind (io_check op) k s) = without_reports (fst (io_or_fail op (fail what) l s)) \<and>
    fst (snd (io_bind (io_check op) k s)) = fst (snd (io_or_fail op (fail what) l s)) \<and>
    map snd (reports (fst (io_or_fail op (fail what) l s))) = thrown_codes (snd (snd (io_bind (io_check op) k s)))"
    using assms unfolding throwing_variant_def by (cases s) (auto simp: io_simps fail_def)
qed

lemma throwing_variant_emit:
  assumes "throwing_variant m n" and "without_reports as = as" and "reports as = []"
  shows "throwing_variant (io_seq (io_emit as) m) (io_seq (io_emit as) n)"
  using assms unfolding throwing_variant_def by (simp add: io_simps)

end
