(* ===== verification/Causal_IO.thy ===== *)
theory Causal_IO
  imports Blocking_IO
begin

text \<open>
  Causal programs: what a program shows depends on the completions it has consumed and on nothing that comes later,
  and it never takes back what it has shown. The combinators make causal programs of causal parts, and a loop
  over a causal body that consumes a completion in each round is causal and satisfies its own equation.
\<close>

section \<open>Causal programs\<close>

text \<open>
  On a longer script a program that has ended does the same and leaves the rest alone; a program that waits
  goes on from what it has shown.
\<close>

definition causal :: "('p, 'a) io \<Rightarrow> bool" where
  "causal m \<longleftrightarrow> (\<forall>s. case m s of (as, s', r) \<Rightarrow> suffix s' s \<and>
     (\<forall>t. if r = Blocked then prefix as (fst (m (s @ t))) else m (s @ t) = (as, s' @ t, r)))"

named_theorems causal_intros \<open>programs made of causal parts are causal\<close>

lemma causalD:
  assumes "causal m" and "m s = (as, s', r)"
  shows "suffix s' s" "r \<noteq> Blocked \<Longrightarrow> m (s @ t) = (as, s' @ t, r)" "r = Blocked \<Longrightarrow> prefix as (fst (m (s @ t)))"
  using assms by (auto simp: causal_def dest: spec [of _ s])

lemma causalI:
  assumes "\<And>s as s' r. m s = (as, s', r) \<Longrightarrow> suffix s' s"
    and "\<And>s as s' r t. m s = (as, s', r) \<Longrightarrow> r \<noteq> Blocked \<Longrightarrow> m (s @ t) = (as, s' @ t, r)"
    and "\<And>s as s' t. m s = (as, s', Blocked) \<Longrightarrow> prefix as (fst (m (s @ t)))"
  shows "causal m"
  using assms by (auto simp: causal_def split: prod.split)

lemma causal_return [causal_intros]: "causal (io_return a)"
  by (rule causalI) (auto simp: io_return_def)

lemma causal_throw [causal_intros]: "causal (io_throw e)"
  by (rule causalI) (auto simp: io_throw_def)

lemma causal_emit [causal_intros]: "causal (io_emit as)"
  by (rule causalI) (auto simp: io_emit_def)

lemma causal_call [causal_intros]: "causal (io_call op)"
  by (rule causalI) (auto simp: io_call_def suffix_Cons split: list.splits)

lemma causal_bind [causal_intros]:
  assumes m: "causal m" and k: "\<And>a. causal (k a)"
  shows "causal (io_bind m k)"
proof (rule causalI)
  fix s as s' r
  assume b: "io_bind m k s = (as, s', r)"
  obtain bs u q where e: "m s = (bs, u, q)" by (cases "m s")
  note mD = causalD [OF m e]
  {
    fix a assume q: "q = Returned a"
    obtain cs v p where f: "k a u = (cs, v, p)" by (cases "k a u")
    with e q b have r: "as = bs @ cs" "s' = v" "r = p" by (simp_all add: io_bind.simps)
    note kD = causalD [OF k f]
    have "suffix s' s" using kD(1) mD(1) r suffix_order.trans by blast
    moreover have "io_bind m k (s @ t) = (as, s' @ t, r)" if "r \<noteq> Blocked" for t
      using mD(2) [of t] kD(2) [of t] q r that by (simp add: io_bind.simps)
    moreover have "prefix as (fst (io_bind m k (s @ t)))" if "r = Blocked" for t
      using mD(2) [of t] kD(3) [of t] q r that by (cases "k a (u @ t)") (simp add: io_bind.simps)
    ultimately have "suffix s' s \<and> (\<forall>t. r \<noteq> Blocked \<longrightarrow> io_bind m k (s @ t) = (as, s' @ t, r)) \<and>
        (\<forall>t. r = Blocked \<longrightarrow> prefix as (fst (io_bind m k (s @ t))))"
      by blast
  }
  moreover
  {
    fix e' assume q: "q = Thrown e'"
    with e b have r: "as = bs" "s' = u" "r = Thrown e'" by (simp_all add: io_bind.simps)
    then have "suffix s' s \<and> (\<forall>t. r \<noteq> Blocked \<longrightarrow> io_bind m k (s @ t) = (as, s' @ t, r)) \<and>
        (\<forall>t. r = Blocked \<longrightarrow> prefix as (fst (io_bind m k (s @ t))))"
      using mD q by (simp add: io_bind.simps)
  }
  moreover
  {
    assume q: "q = Blocked"
    with e b have r: "as = bs" "s' = u" "r = Blocked" by (simp_all add: io_bind.simps)
    have "prefix (fst (m (s @ t))) (fst (io_bind m k (s @ t)))" for t
      by (auto simp: io_bind.simps split: prod.split outcome.split)
    then have "suffix s' s \<and> (\<forall>t. r \<noteq> Blocked \<longrightarrow> io_bind m k (s @ t) = (as, s' @ t, r)) \<and>
        (\<forall>t. r = Blocked \<longrightarrow> prefix as (fst (io_bind m k (s @ t))))"
      using mD q r prefix_order.trans by blast
  }
  ultimately have all: "suffix s' s \<and> (\<forall>t. r \<noteq> Blocked \<longrightarrow> io_bind m k (s @ t) = (as, s' @ t, r)) \<and>
      (\<forall>t. r = Blocked \<longrightarrow> prefix as (fst (io_bind m k (s @ t))))"
    by (cases q) blast+
  then show "suffix s' s" by blast
  show "r \<noteq> Blocked \<Longrightarrow> io_bind m k (s @ t) = (as, s' @ t, r)" for t using all by blast
  show "prefix as (fst (io_bind m k (s @ t)))" if "io_bind m k s = (as, s', Blocked)" for t
    using all b that by simp
qed

lemma causal_seq [causal_intros]: "causal m \<Longrightarrow> causal n \<Longrightarrow> causal (io_seq m n)"
  unfolding io_seq_def by (rule causal_bind)

lemma causal_check [causal_intros]: "causal (io_check op)"
  unfolding io_check_def by (rule causal_bind [OF causal_call]) (auto split: prod.split intro: causal_intros)

lemma causal_or_fail [causal_intros]: "(\<And>p. causal (k p)) \<Longrightarrow> causal (io_or_fail op f k)"
  unfolding io_or_fail_def by (rule causal_bind [OF causal_call]) (auto split: prod.split intro: causal_intros)

lemma causal_catch [causal_intros]:
  assumes m: "causal m" and h: "\<And>e. causal (h e)"
  shows "causal (io_catch m h)"
proof -
  text \<open>The handler continues a program that has thrown as a function continues one that has returned.\<close>
  define k where "k r = (case r of Inl e \<Rightarrow> h e | Inr a \<Rightarrow> io_return a)" for r
  define n where "n s = (case m s of (as, s', r) \<Rightarrow>
    (as, s', case r of Returned a \<Rightarrow> Returned (Inr a) | Thrown e \<Rightarrow> Returned (Inl e) | Blocked \<Rightarrow> Blocked))" for s
  have "causal n"
  proof (rule causalI)
    fix s as s' r
    assume e: "n s = (as, s', r)"
    obtain bs u q where f: "m s = (bs, u, q)" by (cases "m s")
    note mD = causalD [OF m f]
    show "suffix s' s" using e f mD(1) by (simp add: n_def)
    show "n (s @ t) = (as, s' @ t, r)" if "r \<noteq> Blocked" for t
      using e f mD(2) [of t] that by (cases q) (simp_all add: n_def)
  next
    fix s as s' t
    assume e: "n s = (as, s', Blocked)"
    obtain bs u q where f: "m s = (bs, u, q)" by (cases "m s")
    with e causalD(3) [OF m f, of t] show "prefix as (fst (n (s @ t)))"
      by (cases q) (auto simp: n_def split: prod.split)
  qed
  then have "causal (io_bind n k)"
    by (rule causal_bind) (auto simp: k_def intro: causal_intros h split: sum.split)
  moreover have "io_catch m h = io_bind n k"
    by (rule ext) (auto simp: io_catch_def io_bind.simps n_def k_def io_return_def split: prod.split outcome.split)
  ultimately show ?thesis by simp
qed

lemma causal_cases [causal_intros]:
  "causal m \<Longrightarrow> causal n \<Longrightarrow> causal (if b then m else n)"
  "(\<And>a b. causal (f a b)) \<Longrightarrow> causal (case p of (a, b) \<Rightarrow> f a b)"
  "(\<And>w ec. causal (g w ec)) \<Longrightarrow> (\<And>w. causal (g' w)) \<Longrightarrow>
     causal (case e of System_Error w ec \<Rightarrow> g w ec | Std_Exception w \<Rightarrow> g' w)"
  "causal m \<Longrightarrow> (\<And>x. causal (k x)) \<Longrightarrow> causal (case o' of None \<Rightarrow> m | Some x \<Rightarrow> k x)"
  "(\<And>x. causal (l x)) \<Longrightarrow> (\<And>y. causal (l' y)) \<Longrightarrow> causal (case s of Inl x \<Rightarrow> l x | Inr y \<Rightarrow> l' y)"
  by (simp_all split: prod.split exn.split option.split sum.split)

lemma causal_Let [causal_intros]: "(\<And>x. causal (f x)) \<Longrightarrow> causal (let x = e in f x)"
  by (simp add: Let_def)


section \<open>Loops\<close>

lemma causal_shrinks: "causal m \<Longrightarrow> m s = (as, s', r) \<Longrightarrow> length s' \<le> length s"
  by (blast dest: causalD(1) suffix_length_le)

text \<open>A program that never returns without having consumed a completion, and the loops that go round on one.\<close>

definition consumes :: "('p, 'a) io \<Rightarrow> bool" where
  "consumes m \<longleftrightarrow> (\<forall>s as s' a. m s = (as, s', Returned a) \<longrightarrow> length s' < length s)"

named_theorems consumes_intros \<open>programs that consume a completion before they return\<close>

lemma consumesI: "(\<And>s as s' a. m s = (as, s', Returned a) \<Longrightarrow> length s' < length s) \<Longrightarrow> consumes m"
  unfolding consumes_def by blast

lemma consumes_call [consumes_intros]: "consumes (io_call op)"
  by (rule consumesI) (auto simp: io_call_def split: list.splits)

lemma consumes_bind:
  assumes "consumes m" and k: "\<And>a. causal (k a)"
  shows "consumes (io_bind m k)"
proof (rule consumesI)
  fix s as s' b
  assume b: "io_bind m k s = (as, s', Returned b)"
  then obtain bs u a where m: "m s = (bs, u, Returned a)"
    by (auto simp: io_bind.simps split: prod.splits outcome.splits)
  obtain cs v p where k': "k a u = (cs, v, p)" by (cases "k a u")
  with b m have "s' = v" by (simp add: io_bind.simps)
  with causal_shrinks [OF k k'] have "length s' \<le> length u" by simp
  moreover have "length u < length s" using assms(1) m unfolding consumes_def by blast
  ultimately show "length s' < length s" by simp
qed

lemma consumes_check [consumes_intros]: "consumes (io_check op)"
  unfolding io_check_def by (rule consumes_bind [OF consumes_call]) (auto split: prod.split intro: causal_intros)

lemmas [consumes_intros] =
  consumes_bind [OF consumes_call] consumes_bind [OF consumes_check] consumes_bind [OF consumes_bind [OF consumes_check]]

lemma calls_eachI: "(\<And>v. consumes (f v)) \<Longrightarrow> calls_each_round f"
  unfolding calls_each_round_def consumes_def by blast

lemma calls_guardedI:
  assumes "\<And>v. b v \<Longrightarrow> consumes (f v)" and "\<And>v. \<not> b v \<Longrightarrow> \<exists>a. f v = io_return (Inr a)"
  shows "calls_each_round f"
  unfolding calls_each_round_def
proof (intro allI impI)
  fix v s as s' v'
  assume r: "f v s = (as, s', Returned (Inl v'))"
  then have "b v" using assms(2) [of v] by (cases "b v") (auto simp: io_return_def)
  with r assms(1) show "length s' < length s" unfolding consumes_def by blast
qed

lemma causal_loop [causal_intros]:
  assumes f: "\<And>v. causal (f v)" and "calls_each_round f"
  shows "causal (io_loop f v)"
proof -
  define K where "K r = (case r of Inl v' \<Rightarrow> io_loop f v' | Inr a \<Rightarrow> io_return a)" for r
  have unfold: "io_loop f v s = io_bind (f v) K s" for v s
    unfolding K_def by (rule io_loop_unfold [OF assms(2)])
  have "case io_loop f v s of (as, s', r) \<Rightarrow> suffix s' s \<and>
     (\<forall>t. if r = Blocked then prefix as (fst (io_loop f v (s @ t))) else io_loop f v (s @ t) = (as, s' @ t, r))" for v s
  proof (induction "length s" arbitrary: s v rule: less_induct)
    case less
    obtain bs u q where e: "f v s = (bs, u, q)" by (cases "f v s")
    note fD = causalD [OF f e]
    show ?case
    proof (cases "\<exists>v'. q = Returned (Inl v')")
      case True
      then obtain v' where q: "q = Returned (Inl v')" by blast
      with e assms(2) have "length u < length s" unfolding calls_each_round_def by blast
      from less [OF this, of v'] obtain cs w p where g: "io_loop f v' u = (cs, w, p)" "suffix w u"
        "\<And>t. if p = Blocked then prefix cs (fst (io_loop f v' (u @ t))) else io_loop f v' (u @ t) = (cs, w @ t, p)"
        by (cases "io_loop f v' u") auto
      have "io_loop f v s = (bs @ cs, w, p)" using e q g(1) by (simp add: unfold [of v] io_bind.simps K_def)
      moreover have "io_loop f v (s @ t) = (bs @ fst (io_loop f v' (u @ t)), snd (io_loop f v' (u @ t)))" for t
        using fD(2) [of t] q by (simp add: unfold [of v] io_bind.simps K_def split: prod.split)
      ultimately show ?thesis using g(2,3) fD(1) suffix_order.trans by (auto split: if_splits)
    next
      case False
      show ?thesis
      proof (cases q)
        case (Returned r)
        with False obtain a where "r = Inr a" by (cases r) auto
        with Returned e fD(1,2) show ?thesis
          by (simp add: unfold [of v] io_bind.simps K_def io_return_def)
      next
        case (Thrown e')
        with e fD(1,2) show ?thesis by (simp add: unfold [of v] io_bind.simps)
      next
        case Blocked
        have "prefix (fst (f v (s @ t))) (fst (io_bind (f v) K (s @ t)))" for t
          by (auto simp: io_bind.simps split: prod.split outcome.split)
        with Blocked e fD(1,3) prefix_order.trans show ?thesis
          by (fastforce simp: unfold [of v] io_bind.simps)
      qed
    qed
  qed
  then show ?thesis by (simp add: causal_def)
qed

end
