(* ===== verification/Https_Server.thy ===== *)
theory Https_Server
  imports File_Responder Causal_IO Async_Objects
begin

text \<open>
  \<open>Beast/http/HTTPS_Server.cpp\<close>: the blocking \<open>do_session\<close>, the asynchronous \<open>session\<close> and the
  \<open>Listener\<close>. Both kinds of session are shown to make the same calls in the same order.
\<close>

section \<open>What Boost decides\<close>

record environment =
  beast_version :: string
  ec_message :: "error_code \<Rightarrow> string"
  open_file :: opener

definition respond :: "environment \<Rightarrow> string \<Rightarrow> request \<Rightarrow> response" where
  "respond env doc_root q =
     fst (handle_request (beast_version env) (ec_message env) (open_file env) doc_root q)"

text \<open>A truncated TLS stream is not worth a message.\<close>

definition https_fail :: "error_code \<Rightarrow> string \<Rightarrow> action list" where
  "https_fail ec what = (if ec = Stream_Truncated then [] else [Report what ec])"


section \<open>\<open>HTTPS_Server_Sync::do_session\<close>\<close>

text \<open>One round of the loop: \<open>Inl\<close> goes round, \<open>Inr True\<close> is \<open>break\<close>, \<open>Inr False\<close> is \<open>return\<close>.\<close>

definition https_session_round :: "environment \<Rightarrow> string \<Rightarrow> unit \<Rightarrow> (request, unit + bool) io" where
  "https_session_round env doc_root v =
     io_bind (io_call Read_Message) (\<lambda>(ec, req).
       if End_Of_Stream = ec then io_return (Inr True)
       else if is_error ec then io_seq (io_emit (https_fail ec ''read'')) (io_return (Inr False))
       else let message = respond env doc_root req; keep = r_keep_alive message
            in io_bind (io_call (Write_Response message)) (\<lambda>(ec, _).
                 if is_error ec then io_seq (io_emit (https_fail ec ''write'')) (io_return (Inr False))
                 else if \<not> keep then io_return (Inr True)
                 else io_return (Inl ())))"

definition https_tls_shutdown :: "(request, unit) io" where
  "https_tls_shutdown = io_bind (io_call Tls_Shutdown) (\<lambda>(ec, _).
     if is_error ec then io_emit (https_fail ec ''shutdown'') else io_return ())"

definition https_do_session :: "environment \<Rightarrow> string \<Rightarrow> (request, unit) io" where
  "https_do_session env doc_root =
     io_bind (io_call Tls_Handshake) (\<lambda>(ec, _).
       if is_error ec then io_emit (https_fail ec ''handshake'')
       else io_bind (io_loop (https_session_round env doc_root) ()) (\<lambda>broke.
              if broke then https_tls_shutdown else io_return ()))"


section \<open>\<open>HTTPS_Server_ASync::session\<close>\<close>

datatype https_session_handler = On_Handshake | On_Read | On_Write bool | On_Shutdown

record https_session =
  docRoot :: string
  request :: request
  waiting :: "https_session_handler option"

definition https_make_session :: "string \<Rightarrow> https_session" where
  "https_make_session doc_root = \<lparr>docRoot = doc_root, request = empty_request, waiting = None\<rparr>"

definition https_on_run :: "https_session \<Rightarrow> https_session \<times> action list" where
  "https_on_run s = (s\<lparr>waiting := Some On_Handshake\<rparr>, [Expires_After 30, Start Tls_Handshake])"

text \<open>\<open>run\<close> dispatches \<open>on_run\<close> to the strand of the stream.\<close>

definition https_session_run :: "https_session \<Rightarrow> https_session \<times> action list" where
  "https_session_run s = https_on_run s"

definition https_do_read :: "https_session \<Rightarrow> https_session \<times> action list" where
  "https_do_read s = (s\<lparr>request := empty_request, waiting := Some On_Read\<rparr>, [Expires_After 30, Start Read_Message])"

definition https_do_close :: "https_session \<Rightarrow> https_session \<times> action list" where
  "https_do_close s = (s\<lparr>waiting := Some On_Shutdown\<rparr>, [Expires_After 30, Start Tls_Shutdown])"

definition https_on_handshake :: "https_session \<Rightarrow> error_code \<Rightarrow> https_session \<times> action list" where
  "https_on_handshake s ec = (if is_error ec then (s, https_fail ec ''handshake'') else https_do_read s)"

definition https_send_response :: "https_session \<Rightarrow> response \<Rightarrow> https_session \<times> action list" where
  "https_send_response s msg = (s\<lparr>waiting := Some (On_Write (r_keep_alive msg))\<rparr>, [Start (Write_Response msg)])"

definition https_on_read :: "environment \<Rightarrow> https_session \<Rightarrow> error_code \<Rightarrow> https_session \<times> action list" where
  "https_on_read env s ec =
     (if End_Of_Stream = ec then https_do_close s
      else if is_error ec then (s, https_fail ec ''read'')
      else https_send_response s (respond env (docRoot s) (request s)))"

definition https_on_write :: "https_session \<Rightarrow> bool \<Rightarrow> error_code \<Rightarrow> https_session \<times> action list" where
  "https_on_write s keep ec =
     (if is_error ec then (s, https_fail ec ''write'') else if \<not> keep then https_do_close s else https_do_read s)"

definition https_on_shutdown :: "https_session \<Rightarrow> error_code \<Rightarrow> https_session \<times> action list" where
  "https_on_shutdown s ec = (if is_error ec then (s, https_fail ec ''shutdown'') else (s, []))"

text \<open>Boost completes the operation in flight: the request that was read is in \<open>request\<close>.\<close>

definition https_session_step :: "environment \<Rightarrow> https_session \<Rightarrow> error_code \<times> request \<Rightarrow> https_session \<times> action list" where
  "https_session_step env s c = (case waiting s of
     None \<Rightarrow> (s, [])
   | Some On_Handshake \<Rightarrow> https_on_handshake (s\<lparr>waiting := None\<rparr>) (fst c)
   | Some On_Read \<Rightarrow> https_on_read env (s\<lparr>request := snd c, waiting := None\<rparr>) (fst c)
   | Some (On_Write keep) \<Rightarrow> https_on_write (s\<lparr>waiting := None\<rparr>) keep (fst c)
   | Some On_Shutdown \<Rightarrow> https_on_shutdown (s\<lparr>waiting := None\<rparr>) (fst c))"

lemmas [handler_defs] = https_session_step_def https_on_handshake_def https_on_read_def https_on_write_def https_on_shutdown_def
  https_do_read_def https_do_close_def https_send_response_def https_fail_def

lemmas [start_defs] = https_session_run_def https_on_run_def https_make_session_def

text \<open>The life of a session: the actions of \<open>run\<close> and of the handlers for the completions that arrive.\<close>

definition https_async_trace :: "environment \<Rightarrow> string \<Rightarrow> request script \<Rightarrow> action list" where
  "https_async_trace env doc_root cs =
     (let (s, as) = https_session_run (https_make_session doc_root) in as @ snd (deliver (https_session_step env) s cs))"

interpretation https: async_session "https_session_step env" waiting for env
  by unfold_locales (auto simp: handler_defs split: https_session_handler.split option.split)


section \<open>\<open>HTTPS_Server_ASync::Listener\<close>\<close>

text \<open>The constructor: four calls, and the first that fails is reported and ends it.\<close>

definition https_listener_construct :: "('p, unit) io" where
  "https_listener_construct =
     io_bind (io_call Acceptor_Open) (\<lambda>(ec, _).
       if is_error ec then io_emit (https_fail ec ''open'') else
     io_bind (io_call Acceptor_Set_Option) (\<lambda>(ec, _).
       if is_error ec then io_emit (https_fail ec ''set_option'') else
     io_bind (io_call Acceptor_Bind) (\<lambda>(ec, _).
       if is_error ec then io_emit (https_fail ec ''bind'') else
     io_bind (io_call Acceptor_Listen) (\<lambda>(ec, _).
       if is_error ec then io_emit (https_fail ec ''listen'') else io_return ()))))"

text \<open>The accept loop; \<open>accept_waiting\<close> tells whether an accept is in flight.\<close>

record https_listener =
  accept_waiting :: "unit option"

definition https_do_accept :: "https_listener \<Rightarrow> https_listener \<times> action list" where
  "https_do_accept l = (l\<lparr>accept_waiting := Some ()\<rparr>, [Start Accept])"

definition https_listener_run :: "https_listener \<Rightarrow> https_listener \<times> action list" where
  "https_listener_run l = https_do_accept l"

definition https_on_accept :: "https_listener \<Rightarrow> error_code \<Rightarrow> https_listener \<times> action list" where
  "https_on_accept l ec =
     (if is_error ec then (l, https_fail ec ''accept'')
      else let (l, as) = https_do_accept l in (l, Spawn_Session # as))"

definition https_listener_step :: "https_listener \<Rightarrow> error_code \<Rightarrow> https_listener \<times> action list" where
  "https_listener_step l ec = (case accept_waiting l of
     None \<Rightarrow> (l, []) | Some _ \<Rightarrow> https_on_accept (l\<lparr>accept_waiting := None\<rparr>) ec)"

lemmas [handler_defs] = https_listener_step_def https_on_accept_def https_do_accept_def

interpretation https_acceptor: async_session https_listener_step accept_waiting
  by unfold_locales (auto simp: handler_defs split: option.split)

section \<open>The blocking session round by round\<close>

lemma https_session_round_simps:
  "https_session_round env d v [] = ([Start Read_Message], [], Blocked)"
  "https_session_round env d v ((ec, q) # cs) =
     (if ec = End_Of_Stream then ([Start Read_Message], cs, Returned (Inr True))
      else if is_error ec then (Start Read_Message # https_fail ec ''read'', cs, Returned (Inr False))
      else case cs of
        [] \<Rightarrow> ([Start Read_Message, Start (Write_Response (respond env d q))], [], Blocked)
      | (ec', _) # cs' \<Rightarrow>
          if is_error ec' then (Start Read_Message # Start (Write_Response (respond env d q)) #
              https_fail ec' ''write'', cs', Returned (Inr False))
          else ([Start Read_Message, Start (Write_Response (respond env d q))], cs',
            Returned (if r_keep_alive (respond env d q) then Inl () else Inr True)))"
  by (auto simp: https_session_round_def io_simps Let_def split: list.split prod.split)

lemma https_session_round_calls: "calls_each_round (https_session_round env doc_root)"
  unfolding https_session_round_def by (intro calls_eachI consumes_intros causal_intros)

text \<open>What is left of \<open>do_session\<close> when it enters its loop, and its equations.\<close>

definition https_serve_loop :: "environment \<Rightarrow> string \<Rightarrow> (request, unit) io" where
  "https_serve_loop env doc_root = io_bind (io_loop (https_session_round env doc_root) ()) (\<lambda>broke.
     if broke then https_tls_shutdown else io_return ())"

lemma https_do_session_eq: "https_do_session env doc_root =
     io_bind (io_call Tls_Handshake) (\<lambda>(ec, _).
       if is_error ec then io_emit (https_fail ec ''handshake'') else https_serve_loop env doc_root)"
  unfolding https_do_session_def https_serve_loop_def by (rule refl)

lemma https_serve_loop_unfold: "https_serve_loop env d s =
    io_bind (https_session_round env d ()) (\<lambda>r. case r of Inl _ \<Rightarrow> https_serve_loop env d
      | Inr broke \<Rightarrow> if broke then https_tls_shutdown else io_return ()) s"
  unfolding https_serve_loop_def by (subst io_loop_bind_unfold [OF https_session_round_calls]) (simp add: unit_eq)

lemma https_serve_loop_simps:
  "fst (https_serve_loop env d []) = [Start Read_Message]"
  "fst (https_serve_loop env d ((ec, q) # cs)) = Start Read_Message #
     (if ec = End_Of_Stream then fst (https_tls_shutdown cs)
      else if is_error ec then https_fail ec ''read''
      else Start (Write_Response (respond env d q)) #
        (case cs of
           [] \<Rightarrow> []
         | (ec', _) # cs' \<Rightarrow>
             if is_error ec' then https_fail ec' ''write''
             else if r_keep_alive (respond env d q) then fst (https_serve_loop env d cs')
             else fst (https_tls_shutdown cs')))"
  by (subst https_serve_loop_unfold, auto simp: io_bind.simps https_session_round_simps io_return_def split: list.split prod.split)+

lemma https_tls_shutdown_trace:
  "fst (https_tls_shutdown cs) = Start Tls_Shutdown #
     (case cs of [] \<Rightarrow> [] | c # _ \<Rightarrow> if is_error (fst c) then https_fail (fst c) ''shutdown'' else [])"
  by (cases cs) (auto simp: https_tls_shutdown_def io_simps)

lemma https_deliver_do_close:
  "without_timeouts (snd (https_do_close s) @ snd (deliver (https_session_step env) (fst (https_do_close s)) cs)) =
     fst (https_tls_shutdown cs)"
  by (cases cs) (auto simp: handler_defs https_tls_shutdown_trace deliver_Cons https.deliver_idle simp del: deliver.simps(2))

lemma https_deliver_serve_loop:
  "without_timeouts (snd (https_do_read s) @ snd (deliver (https_session_step env) (fst (https_do_read s)) cs)) =
     fst (https_serve_loop env (docRoot s) cs)"
proof (induction "length cs" arbitrary: s cs rule: less_induct)
  case less
  show ?case
  proof (cases cs)
    case Nil
    then show ?thesis by (simp add: https_do_read_def https_serve_loop_simps)
  next
    case (Cons c cs')
    obtain ec q where c: "c = (ec, q)" by (cases c)
    consider (eos) "ec = End_Of_Stream" | (error) "is_error ec" "ec \<noteq> End_Of_Stream" | (ok) "ec = Success"
      using not_is_error by blast
    then show ?thesis
    proof cases
      case eos
      show ?thesis using https_deliver_do_close [of "s\<lparr>request := q, waiting := None\<rparr>" env cs'] Cons c eos
        by (simp add: deliver_Cons https_serve_loop_simps https_do_read_def https_session_step_def https_on_read_def
            del: deliver.simps(2))
    next
      case error
      with Cons c show ?thesis
        by (auto simp: deliver_Cons https_serve_loop_simps handler_defs https.deliver_idle simp del: deliver.simps(2))
    next
      case ok
      show ?thesis
      proof (cases cs')
        case Nil
        with Cons c ok show ?thesis
          by (simp add: deliver_Cons https_serve_loop_simps handler_defs)
      next
        case (Cons d cs'')
        obtain ec' q' where d: "d = (ec', q')" by (cases d)
        let ?t = "s\<lparr>request := q, waiting := None\<rparr>"
        have "length cs'' < length cs" using Cons \<open>cs = c # cs'\<close> by simp
        from less [OF this, of ?t] https_deliver_do_close [of ?t env cs'']
        show ?thesis using Cons \<open>cs = c # cs'\<close> c ok d
          by (auto simp: deliver_Cons https_serve_loop_simps https_do_read_def https_session_step_def https_on_read_def
              https_send_response_def https_on_write_def https_fail_def https.deliver_idle simp del: deliver.simps(2))
      qed
    qed
  qed
qed


section \<open>Properties\<close>

lemma https_async_sync_trace:
  "without_timeouts (https_async_trace env doc_root cs) = fst (https_do_session env doc_root cs)"
proof (cases cs)
  case Nil
  then show ?thesis by (simp add: https_async_trace_def start_defs https_do_session_eq io_simps)
next
  case (Cons c cs')
  have "without_timeouts (snd (https_do_read (https_make_session doc_root)) @
      snd (deliver (https_session_step env) (fst (https_do_read (https_make_session doc_root))) cs')) =
    fst (https_serve_loop env doc_root cs')"
    using https_deliver_serve_loop [of "https_make_session doc_root" env cs'] by (simp add: https_make_session_def)
  with Cons show ?thesis
    by (cases c) (auto simp: https_async_trace_def https_session_run_def https_on_run_def deliver_Cons
        https_session_step_def https_on_handshake_def https_do_session_eq io_simps https_fail_def
        https.deliver_idle https_make_session_def split: prod.splits simp del: deliver.simps(2))
qed

text \<open>
  C1: the asynchronous session of the HTTPS server is equivalent to the blocking one. For every
  document root and every sequence of completions (handshake, reads, writes and the shutdown, each
  with any error code and any request), the actions of \<open>run\<close> and of the handlers, timeouts aside,
  are exactly the actions of \<open>do_session\<close>: the same operations with the same arguments and the same
  errors reported, in the same order.
\<close>

theorem https_async_is_sync:
  "without_timeouts (https_async_trace env doc_root cs) = fst (https_do_session env doc_root cs)"
  by (rule https_async_sync_trace)

text \<open>What the session has to answer: the reads and the writes of responses alternate.\<close>

fun https_answered :: "environment \<Rightarrow> string \<Rightarrow> (error_code \<times> request) list \<Rightarrow> response list" where
  "https_answered env doc_root [] = []"
| "https_answered env doc_root [(ec, q)] = (if is_error ec then [] else [respond env doc_root q])"
| "https_answered env doc_root ((ec, q) # (ec', _) # cs) =
     (if is_error ec then []
      else respond env doc_root q #
        (if is_error ec' \<or> \<not> r_keep_alive (respond env doc_root q) then []
         else https_answered env doc_root cs))"

lemma responses_tls_shutdown [simp]: "responses (fst (https_tls_shutdown cs)) = []"
  by (auto simp: https_tls_shutdown_trace https_fail_def split: list.split)

lemma responses_https_fail [simp]: "responses (https_fail ec what) = []"
  by (simp add: https_fail_def)

lemma responses_serve_loop: "responses (fst (https_serve_loop env d cs)) = https_answered env d cs"
  by (induction env d cs rule: https_answered.induct) (auto simp: https_serve_loop_simps)

text \<open>
  after a successful handshake the responses a session writes are the answers to the requests it
  reads, one for each, in their order: it goes on as long as the response keeps the connection alive
  and it could be written, and ends at the first request that cannot be read. A failed handshake is
  followed by no response.
\<close>

theorem https_answers_in_order:
  "responses (https_async_trace env doc_root ((ec, q) # cs)) =
     (if is_error ec then [] else https_answered env doc_root cs)"
proof -
  have "responses (https_async_trace env doc_root ((ec, q) # cs)) =
      responses (without_timeouts (https_async_trace env doc_root ((ec, q) # cs)))"
    by simp
  also have "\<dots> = responses (fst (https_do_session env doc_root ((ec, q) # cs)))"
    using https_async_sync_trace by simp
  also have "\<dots> = (if is_error ec then [] else https_answered env doc_root cs)"
    by (simp add: https_do_session_eq io_simps responses_serve_loop)
  finally show ?thesis .
qed

text \<open>
  the session never has two operations on its stream at once. After any completions, the
  operations it has started are at most one more than those completed, and they are exactly one more
  if and only if a handler is still waiting.
\<close>

theorem https_one_operation_in_flight:
  "(waiting (fst (deliver (https_session_step env)
       (fst (https_session_run (https_make_session doc_root))) cs)) \<noteq> None \<longleftrightarrow>
     length (started (https_async_trace env doc_root cs)) = Suc (length cs)) \<and>
   length (started (https_async_trace env doc_root cs)) \<le> Suc (length cs)"
proof -
  obtain s as where r: "https_session_run (https_make_session doc_root) = (s, as)" by fastforce
  then have "waiting s = Some On_Handshake" "length (started as) = 1" by (auto simp: start_defs)
  from https.one_in_flight [OF this, of env cs] r show ?thesis by (simp add: https_async_trace_def)
qed

lemma https_tls_shutdown_started: "started (fst (https_tls_shutdown cs)) = [Tls_Shutdown]"
  by (auto simp: https_tls_shutdown_trace https_fail_def split: list.split)

lemma started_https_fail [simp]: "started (https_fail ec what) = []"
  by (simp add: https_fail_def)

lemma serve_loop_started_not_Nil: "started (fst (https_serve_loop env d cs)) \<noteq> []"
  by (cases cs) (auto simp: https_serve_loop_simps)

lemma serve_loop_shutdown_last:
  "Tls_Shutdown \<notin> set (butlast (started (fst (https_serve_loop env d cs))))"
  by (induction env d cs rule: https_answered.induct)
    (auto simp: https_serve_loop_simps https_tls_shutdown_started serve_loop_started_not_Nil)

text \<open>
  the TLS stream is shut down at most once, and nothing is read from it or written to it
  afterwards.
\<close>

theorem https_shutdown_is_last:
  "Tls_Shutdown \<notin> set (butlast (started (https_async_trace env doc_root cs)))"
proof -
  have "started (https_async_trace env doc_root cs) = started (fst (https_do_session env doc_root cs))"
    using https_async_sync_trace [of env doc_root cs] started_without_timeouts by metis
  also have "Tls_Shutdown \<notin> set (butlast \<dots>)"
    by (cases cs) (auto simp: https_do_session_eq io_simps serve_loop_shutdown_last serve_loop_started_not_Nil
        split: prod.split)
  finally show ?thesis .
qed

lemma https_listener_spawned:
  "accept_waiting l = Some () \<Longrightarrow>
   spawned (snd (deliver https_listener_step l ecs)) = length (takeWhile (\<lambda>ec. \<not> is_error ec) ecs)"
  by (induction ecs arbitrary: l)
    (auto simp: deliver_Cons handler_defs https_acceptor.deliver_idle simp del: deliver.simps(2))

text \<open>
  the listener creates a session for each connection accepted before the first failure, and after
  that failure it creates none: it does not go on accepting, to avoid an infinite loop.
\<close>

theorem https_listener_stops_at_error:
  "spawned (snd (deliver https_listener_step (fst (https_listener_run l)) ecs)) =
     length (takeWhile (\<lambda>ec. \<not> is_error ec) ecs)"
  by (simp add: https_listener_spawned https_listener_run_def https_do_accept_def)

end
