(* ===== verification/Beast_Clients.thy ===== *)
theory Beast_Clients
  imports Causal_IO Async_Objects
begin

text \<open>
  \<open>Networking/Beast.cpp\<close>: the HTTP clients. The same exchange is written three times, with completion
  handlers, with stackful coroutines and with \<open>co_await\<close>; the three are shown to make the same calls.
  A payload is a string: what the resolver returned (opaque), or the message that was read, as the
  stream operator prints it. \<open>agent\<close> is \<open>BOOST_BEAST_VERSION_STRING\<close>.
\<close>


section \<open>\<open>Beast::Client\<close>\<close>

definition SimpleHttpGetRequest :: "string \<Rightarrow> (string, unit) io" where
  "SimpleHttpGetRequest agent =
     io_bind (io_check (Resolve ''0.0.0.0'' ''52525'')) (\<lambda>serverEndpoint.
     io_bind (io_check (Connect serverEndpoint)) (\<lambda>_.
     let request = with_field User_Agent agent (with_field Content_Type ''application/json''
           (with_field Connection ''close'' (with_field Host ''0.0.0.0'' (make_request Get ''/index'' 11))))
     in io_bind (io_check (Write_Request request)) (\<lambda>_.
        io_bind (io_check Read_Message) (\<lambda>response.
        io_seq (io_emit [print_line response])
       (io_bind (io_call Socket_Shutdown) (\<lambda>_. io_return ()))))))"

text \<open>
  \<open>SSL_Request_Test\<close>. Boost.JSON is a parameter: \<open>parse_json\<close> gives the error code of \<open>json::parse\<close> on
  the body, and what \<open>j.at("ip").as_string()\<close> then does: throw, or give a text.
\<close>

definition SSL_Request_Test ::
    "string \<Rightarrow> (string \<Rightarrow> error_code \<times> (exn + string)) \<Rightarrow> (string, unit) io" where
  "SSL_Request_Test agent parse_json =
     io_bind (io_check (Set_Sni ''api64.ipify.org'')) (\<lambda>_.
     io_bind (io_check (Resolve ''api64.ipify.org'' ''https'')) (\<lambda>endpoints.
     io_bind (io_check (Connect endpoints)) (\<lambda>_.
     io_seq (io_emit [Expires_After 30])
    (io_bind (io_check Tls_Handshake) (\<lambda>_.
     io_bind (io_check (Write_Request (get_request agent ''api64.ipify.org'' ''/?format=json'' 11))) (\<lambda>_.
     io_bind (io_check Read_Message) (\<lambda>body.
     case parse_json body of (err, at_ip) \<Rightarrow>
     case at_ip of Inl e \<Rightarrow> io_throw e | Inr ip \<Rightarrow>
     io_seq (io_emit [print_line (''IP address: '' @ ip)])
    (io_seq (if is_error err then io_emit [Report ''Error parsing JSON'' err] else io_return ())
    (io_bind (io_call Tls_Shutdown) (\<lambda>(ec, _).
     let ec = (if ec = Eof then Success else ec)
     in if is_error ec then io_throw (System_Error [] ec) else io_return ()))))))))))"


section \<open>\<open>Beast::HTTP_Methods\<close>\<close>

text \<open>
  Each method changes the request that the caller holds, writes it and reads into the caller's response.
  The value is the changed request and the response.
\<close>

definition do_get :: "http_request \<Rightarrow> (string, http_request \<times> string) io" where
  "do_get request =
     (let request = request\<lparr>q_target := ''/get'', q_method := Get\<rparr>
      in io_bind (io_check (Write_Request request)) (\<lambda>_.
         io_bind (io_check Read_Message) (\<lambda>res. io_return (request, res))))"

definition do_head :: "http_request \<Rightarrow> (string, http_request \<times> string) io" where
  "do_head request =
     (let request = request\<lparr>q_target := ''/get'', q_method := Head\<rparr>
      in io_bind (io_check (Write_Request request)) (\<lambda>_.
         io_bind (io_check Read_Header) (\<lambda>res. io_return (request, res))))"

text \<open>The four methods that send a body.\<close>

definition send_body :: "string \<Rightarrow> verb \<Rightarrow> string \<Rightarrow> http_request \<Rightarrow> (string, http_request \<times> string) io" where
  "send_body target method body request =
     (let request = prepare_payload (request\<lparr>q_target := target, q_method := method, q_body := body\<rparr>)
      in io_bind (io_check (Write_Request request)) (\<lambda>_.
         io_bind (io_check Read_Message) (\<lambda>res. io_return (request, res))))"

definition do_patch :: "http_request \<Rightarrow> (string, http_request \<times> string) io" where
  "do_patch request = send_body ''/patch'' Patch ''Some random patch data'' request"

definition do_put :: "http_request \<Rightarrow> (string, http_request \<times> string) io" where
  "do_put request = send_body ''/put'' Put ''Some random put data'' request"

definition do_post :: "http_request \<Rightarrow> (string, http_request \<times> string) io" where
  "do_post request = send_body ''/post'' Post ''Some random post data'' request"

definition do_delete :: "http_request \<Rightarrow> (string, http_request \<times> string) io" where
  "do_delete request = send_body ''/delete'' Delete ''Some random delete data'' request"

definition HTTP_Methods_Test :: "string \<Rightarrow> (string, unit) io" where
  "HTTP_Methods_Test agent =
     io_bind (io_check (Resolve ''0.0.0.0'' ''52525'')) (\<lambda>serverEndpoint.
     io_bind (io_check (Connect serverEndpoint)) (\<lambda>_.
     let request = with_field User_Agent agent (with_field Host ''httpbin.cpp.al'' (make_request Get [] 11))
     in io_bind (do_delete request) (\<lambda>_. io_return ())))"


section \<open>\<open>Beast::HTTP_Client_Async::session\<close>\<close>

text \<open>
  \<open>In_Shutdown\<close> is the rest of \<open>on_read\<close>, which waits for the synchronous \<open>shutdown\<close> to return.
\<close>

datatype beast_handler = Resolved | Connected | Written | Message_Read | In_Shutdown

record beast_session =
  beast_request :: http_request
  beast_response :: string
  beast_waiting :: "beast_handler option"

definition beast_make_session :: beast_session where
  "beast_make_session = \<lparr>beast_request = make_request Get [] 11, beast_response = [], beast_waiting = None\<rparr>"

definition beast_run :: "string \<Rightarrow> string \<Rightarrow> string \<Rightarrow> string \<Rightarrow> nat \<Rightarrow> beast_session \<Rightarrow> beast_session \<times> action list" where
  "beast_run agent host port target version s =
     (let q = (beast_request s)\<lparr>q_version := version, q_method := Get, q_target := target\<rparr>;
          q = with_field User_Agent agent (with_field Host host q)
      in (s\<lparr>beast_request := q, beast_waiting := Some Resolved\<rparr>, [Start (Resolve host port)]))"

definition beast_on_resolve :: "beast_session \<Rightarrow> error_code \<Rightarrow> string \<Rightarrow> beast_session \<times> action list" where
  "beast_on_resolve s ec results =
     (if is_error ec then (s, fail ''resolve'' ec)
      else (s\<lparr>beast_waiting := Some Connected\<rparr>, [Expires_After 30, Start (Connect results)]))"

definition beast_on_connect :: "beast_session \<Rightarrow> error_code \<Rightarrow> beast_session \<times> action list" where
  "beast_on_connect s ec =
     (if is_error ec then (s, fail ''connect'' ec)
      else (s\<lparr>beast_waiting := Some Written\<rparr>, [Expires_After 30, Start (Write_Request (beast_request s))]))"

definition beast_on_write :: "beast_session \<Rightarrow> error_code \<Rightarrow> beast_session \<times> action list" where
  "beast_on_write s ec =
     (if is_error ec then (s, fail ''write'' ec)
      else (s\<lparr>beast_waiting := Some Message_Read\<rparr>, [Start Read_Message]))"

definition beast_on_read :: "beast_session \<Rightarrow> error_code \<Rightarrow> beast_session \<times> action list" where
  "beast_on_read s ec =
     (if is_error ec then (s, fail ''read'' ec)
      else (s\<lparr>beast_waiting := Some In_Shutdown\<rparr>, [print_line (beast_response s), Start Socket_Shutdown]))"

definition beast_after_shutdown :: "beast_session \<Rightarrow> error_code \<Rightarrow> beast_session \<times> action list" where
  "beast_after_shutdown s ec = (if is_error ec \<and> ec \<noteq> Not_Connected then (s, fail ''shutdown'' ec) else (s, []))"

text \<open>Boost stores the message that was read in \<open>response\<close> before it calls \<open>on_read\<close>.\<close>

definition beast_step :: "beast_session \<Rightarrow> error_code \<times> string \<Rightarrow> beast_session \<times> action list" where
  "beast_step s c = (let t = s\<lparr>beast_waiting := None\<rparr> in case beast_waiting s of
     None \<Rightarrow> (s, [])
   | Some Resolved \<Rightarrow> beast_on_resolve t (fst c) (snd c)
   | Some Connected \<Rightarrow> beast_on_connect t (fst c)
   | Some Written \<Rightarrow> beast_on_write t (fst c)
   | Some Message_Read \<Rightarrow> beast_on_read (t\<lparr>beast_response := snd c\<rparr>) (fst c)
   | Some In_Shutdown \<Rightarrow> beast_after_shutdown t (fst c))"

lemmas beast_defs = beast_step_def beast_on_resolve_def beast_on_connect_def beast_on_write_def
  beast_on_read_def beast_after_shutdown_def fail_def print_line_def

definition beast_trace :: "string \<Rightarrow> string \<Rightarrow> string \<Rightarrow> string \<Rightarrow> nat \<Rightarrow> string script \<Rightarrow> action list" where
  "beast_trace agent host port target version cs =
     (let (s, as) = beast_run agent host port target version beast_make_session
      in as @ snd (deliver beast_step s cs))"

definition beast_Send_Request :: "string \<Rightarrow> string script \<Rightarrow> action list" where
  "beast_Send_Request agent cs = beast_trace agent ''0.0.0.0'' ''52525'' ''/index'' 11 cs"

fun beast_rank :: "beast_handler \<Rightarrow> nat" where
  "beast_rank Resolved = 4"
| "beast_rank Connected = 3"
| "beast_rank Written = 2"
| "beast_rank Message_Read = 1"
| "beast_rank In_Shutdown = 0"

interpretation beast: staged_session beast_step beast_waiting beast_rank
  by unfold_locales (auto simp: beast_defs Let_def split: beast_handler.splits option.splits if_splits)


section \<open>\<open>Beast::Coroutine_HTTP_Client\<close>\<close>

definition coroutine_do_session :: "string \<Rightarrow> string \<Rightarrow> string \<Rightarrow> string \<Rightarrow> nat \<Rightarrow> (string, unit) io" where
  "coroutine_do_session agent host port target version =
     io_or_fail (Resolve host port) (fail ''resolve'') (\<lambda>serverEndpoint.
     io_seq (io_emit [Expires_After 30])
    (io_or_fail (Connect serverEndpoint) (fail ''connect'') (\<lambda>_.
     io_seq (io_emit [Expires_After 30])
    (io_or_fail (Write_Request (get_request agent host target version)) (fail ''write'') (\<lambda>_.
     io_or_fail Read_Message (fail ''read'') (\<lambda>response.
     io_seq (io_emit [print_line response])
    (io_bind (io_call Socket_Shutdown) (\<lambda>(ec, _).
     if is_error ec \<and> ec \<noteq> Not_Connected then io_emit (fail ''shutdown'' ec) else io_return ()))))))))"

definition runClient :: "string \<Rightarrow> (string, unit) io" where
  "runClient agent = coroutine_do_session agent ''0.0.0.0'' ''52525'' ''/index'' 11"


section \<open>\<open>Beast::Awaitable_Client\<close>\<close>

definition awaitable_do_session :: "string \<Rightarrow> string \<Rightarrow> string \<Rightarrow> string \<Rightarrow> nat \<Rightarrow> (string, unit) io" where
  "awaitable_do_session agent host port target version =
     io_bind (io_check (Resolve host port)) (\<lambda>serverEndpoint.
     io_seq (io_emit [Expires_After 30])
    (io_bind (io_check (Connect serverEndpoint)) (\<lambda>_.
     io_seq (io_emit [Expires_After 30])
    (io_bind (io_check (Write_Request (get_request agent host target version))) (\<lambda>_.
     io_bind (io_check Read_Message) (\<lambda>res.
     io_seq (io_emit [print_line res])
    (io_bind (io_call Socket_Shutdown) (\<lambda>(ec, _).
     if is_error ec \<and> ec \<noteq> Not_Connected then io_throw (System_Error ''shutdown'' ec) else io_return ()))))))))"

text \<open>The exception of the coroutine is rethrown out of \<open>ioCtx.run()\<close> and caught here.\<close>

definition sendRequest :: "string \<Rightarrow> (string, unit) io" where
  "sendRequest agent =
     io_catch (awaitable_do_session agent ''0.0.0.0'' ''52525'' ''/index1'' 11)
       (\<lambda>e. io_emit [Report_What ''Error'' e])"


section \<open>The three clients make the same calls\<close>

text \<open>What is left of the coroutine at each of its suspension points, for a request \<open>q\<close>.\<close>

definition shutdown_rest :: "(string, unit) io" where
  "shutdown_rest = io_bind (io_call Socket_Shutdown) (\<lambda>(ec, _).
     if is_error ec \<and> ec \<noteq> Not_Connected then io_emit (fail ''shutdown'' ec) else io_return ())"

definition read_rest :: "(string, unit) io" where
  "read_rest = io_or_fail Read_Message (fail ''read'') (\<lambda>response.
     io_seq (io_emit [print_line response]) shutdown_rest)"

definition write_rest :: "http_request \<Rightarrow> (string, unit) io" where
  "write_rest q = io_or_fail (Write_Request q) (fail ''write'') (\<lambda>_. read_rest)"

lemma coroutine_do_session_eq: "coroutine_do_session agent host port target version =
     io_or_fail (Resolve host port) (fail ''resolve'') (\<lambda>serverEndpoint.
     io_seq (io_emit [Expires_After 30])
    (io_or_fail (Connect serverEndpoint) (fail ''connect'') (\<lambda>_.
     io_seq (io_emit [Expires_After 30]) (write_rest (get_request agent host target version)))))"
  unfolding coroutine_do_session_def write_rest_def read_rest_def shutdown_rest_def by (rule refl)

lemma deliver_shutdown_rest:
  "beast_waiting s = Some In_Shutdown \<Longrightarrow>
   Start Socket_Shutdown # snd (deliver beast_step s cs) = fst (shutdown_rest cs)"
  by (cases cs) (auto simp: shutdown_rest_def io_simps deliver_Cons beast_defs beast.deliver_idle simp del: deliver.simps(2))

lemma deliver_read_rest:
  assumes "beast_waiting s = Some Message_Read"
  shows "Start Read_Message # snd (deliver beast_step s cs) = fst (read_rest cs)"
proof (cases cs)
  case Nil
  then show ?thesis by (simp add: read_rest_def io_simps)
next
  case (Cons c cs')
  obtain ec m where c: "c = (ec, m)" by (cases c)
  from deliver_shutdown_rest [of "s\<lparr>beast_response := m, beast_waiting := Some In_Shutdown\<rparr>" cs'] assms Cons c
  show ?thesis
    by (auto simp: read_rest_def io_simps deliver_Cons beast_defs beast.deliver_idle simp del: deliver.simps(2))
qed

lemma deliver_write_rest:
  assumes "beast_waiting s = Some Written"
  shows "Start (Write_Request q) # snd (deliver beast_step s cs) = fst (write_rest q cs)"
proof (cases cs)
  case Nil
  then show ?thesis by (simp add: write_rest_def io_simps)
next
  case (Cons c cs')
  from deliver_read_rest [of "s\<lparr>beast_waiting := Some Message_Read\<rparr>" cs'] assms Cons
  show ?thesis
    by (cases c) (auto simp: write_rest_def io_simps deliver_Cons beast_step_def beast_on_write_def fail_def
        beast.deliver_idle simp del: deliver.simps(2))
qed

text \<open>
  C22: the session with completion handlers of \<open>HTTP_Client_Async\<close> and the stackful coroutine
  \<open>Coroutine_HTTP_Client::do_session\<close> are equivalent: for all results of the calls they make the same
  calls with the same arguments, arm the same timeouts, print the same text and report the same errors,
  in the same order.
\<close>

theorem handlers_are_coroutine:
  "beast_trace agent host port target version cs = fst (coroutine_do_session agent host port target version cs)"
proof -
  let ?q = "get_request agent host target version"
  have q: "with_field User_Agent agent (with_field Host host
      ((make_request Get [] 11)\<lparr>q_version := version, q_method := Get, q_target := target\<rparr>)) = ?q"
    by (simp add: get_request_def make_request_def)
  show ?thesis
  proof (cases cs)
    case Nil
    then show ?thesis by (simp add: beast_trace_def beast_run_def coroutine_do_session_eq io_simps Let_def)
  next
    case (Cons c cs')
    define s where "s = beast_make_session\<lparr>beast_request := ?q, beast_waiting := None\<rparr>"
    from q have run: "beast_run agent host port target version beast_make_session =
        (s\<lparr>beast_waiting := Some Resolved\<rparr>, [Start (Resolve host port)])"
      by (simp add: beast_run_def beast_make_session_def s_def Let_def)
    have "beast_request s = ?q" by (simp add: s_def)
    then have "[Expires_After 30, Start (Connect p)] @ snd (deliver beast_step (s\<lparr>beast_waiting := Some Connected\<rparr>) ds)
        = fst (io_seq (io_emit [Expires_After 30]) (io_or_fail (Connect p) (fail ''connect'') (\<lambda>_.
             io_seq (io_emit [Expires_After 30]) (write_rest ?q))) ds)" for p ds
      using deliver_write_rest [of "s\<lparr>beast_waiting := Some Written\<rparr>" ?q "tl ds"]
      by (cases ds) (auto simp: io_simps deliver_Cons beast_step_def beast_on_connect_def fail_def
          beast.deliver_idle simp del: deliver.simps(2))
    from this [of "snd c" cs'] Cons run show ?thesis
      by (cases c) (auto simp: beast_trace_def coroutine_do_session_eq io_simps deliver_Cons beast_step_def
          beast_on_resolve_def fail_def beast.deliver_idle s_def simp del: deliver.simps(2))
  qed
qed

lemma throwing_variant_shutdown:
  "throwing_variant
     (io_bind (io_call Socket_Shutdown) (\<lambda>(ec, p).
        if is_error ec \<and> ec \<noteq> Not_Connected then io_throw (System_Error ''shutdown'' ec) else io_return ()))
     (io_bind (io_call Socket_Shutdown) (\<lambda>(ec, p).
        if is_error ec \<and> ec \<noteq> Not_Connected then io_emit (fail ''shutdown'' ec) else io_return ()))"
  unfolding throwing_variant_def
proof
  fix s :: "(error_code \<times> 'a) list"
  show "fst (io_bind (io_call Socket_Shutdown) (\<lambda>(ec, p).
          if is_error ec \<and> ec \<noteq> Not_Connected then io_throw (System_Error ''shutdown'' ec) else io_return ()) s) =
      without_reports (fst (io_bind (io_call Socket_Shutdown) (\<lambda>(ec, p).
          if is_error ec \<and> ec \<noteq> Not_Connected then io_emit (fail ''shutdown'' ec) else io_return ()) s)) \<and>
    fst (snd (io_bind (io_call Socket_Shutdown) (\<lambda>(ec, p).
          if is_error ec \<and> ec \<noteq> Not_Connected then io_throw (System_Error ''shutdown'' ec) else io_return ()) s)) =
      fst (snd (io_bind (io_call Socket_Shutdown) (\<lambda>(ec, p).
          if is_error ec \<and> ec \<noteq> Not_Connected then io_emit (fail ''shutdown'' ec) else io_return ()) s)) \<and>
    map snd (reports (fst (io_bind (io_call Socket_Shutdown) (\<lambda>(ec, p).
          if is_error ec \<and> ec \<noteq> Not_Connected then io_emit (fail ''shutdown'' ec) else io_return ()) s))) =
      thrown_codes (snd (snd (io_bind (io_call Socket_Shutdown) (\<lambda>(ec, p).
          if is_error ec \<and> ec \<noteq> Not_Connected then io_throw (System_Error ''shutdown'' ec) else io_return ()) s)))"
    by (cases s) (auto simp: io_simps fail_def)
qed

lemma awaitable_throwing_variant:
  "throwing_variant (awaitable_do_session agent host port target version)
     (coroutine_do_session agent host port target version)"
  unfolding awaitable_do_session_def coroutine_do_session_def
  by (intro throwing_variant_call throwing_variant_emit throwing_variant_shutdown) (simp_all add: print_line_def)

text \<open>
  the \<open>co_await\<close> client is the coroutine client with exceptions: on all results it makes the same
  calls and prints the same text, and it throws exactly when the coroutine reports an error, with that
  error's code.
\<close>

theorem awaitable_throws_what_coroutine_reports:
  "(let (as, left, r) = awaitable_do_session agent host port target version cs;
        (bs, left', r') = coroutine_do_session agent host port target version cs
    in as = without_reports bs \<and> left = left' \<and> map snd (reports bs) = thrown_codes r)"
  using awaitable_throwing_variant [of agent host port target version]
  by (simp add: throwing_variant_def split: prod.split) (metis fst_conv snd_conv)

text \<open>
  a session starts at most five operations, and it has gone idle when five have completed, whatever
  their results: no client hangs on with nothing in flight or loops.
\<close>

theorem client_session_finishes:
  "length (started (beast_trace agent host port target version cs)) \<le> 5 \<and>
   (length cs < 5 \<or>
    beast_waiting (fst (deliver beast_step (fst (beast_run agent host port target version beast_make_session)) cs)) = None)"
proof -
  obtain s as where r: "beast_run agent host port target version beast_make_session = (s, as)" by fastforce
  then have w: "beast_waiting s = Some Resolved" and "length (started as) = 1"
    by (auto simp: beast_run_def Let_def)
  with r show ?thesis
    using beast.operations_bounded [OF w, of cs] beast.finishes [OF w, of cs]
    by (cases "length cs < 5") (auto simp: beast_trace_def)
qed

end
