(* ===== verification/Input_Stream.thy ===== *)
theory Input_Stream
  imports Base
begin

text \<open>
  What the program uses of \<open>std::istream\<close> on a \<open>streambuf\<close>: the characters that are left, the flags
  \<open>eofbit\<close> and \<open>failbit\<close>, extraction of a word and of an \<open>unsigned int\<close>, and \<open>std::getline\<close>.
\<close>

record istream =
  remaining :: string
  eofbit :: bool
  failbit :: bool

abbreviation newline :: char where
  "newline \<equiv> CHR 0x0A"

abbreviation carriage_return :: char where
  "carriage_return \<equiv> CHR 0x0D"

definition stream_of :: "string \<Rightarrow> istream" where
  "stream_of text = \<lparr>remaining = text, eofbit = False, failbit = False\<rparr>"

definition good :: "istream \<Rightarrow> bool" where
  "good s \<longleftrightarrow> \<not> eofbit s \<and> \<not> failbit s"

definition is_space :: "char \<Rightarrow> bool" where
  "is_space c \<longleftrightarrow> c = CHR '' '' \<or> (9 \<le> (of_char c :: nat) \<and> (of_char c :: nat) \<le> 13)"

text \<open>The sentry of a formatted extraction skips white space, and fails at the end of the buffer.\<close>

definition skip_space :: "istream \<Rightarrow> istream" where
  "skip_space s =
     (if good s then
        let t = dropWhile is_space (remaining s)
        in s\<lparr>remaining := t, eofbit := (t = []), failbit := (t = [])\<rparr>
      else s\<lparr>failbit := True\<rparr>)"

text \<open>\<open>stream >> word\<close> on an empty string.\<close>

definition extract_word :: "istream \<Rightarrow> string \<times> istream" where
  "extract_word s =
     (let s = skip_space s; t = dropWhile (\<lambda>c. \<not> is_space c) (remaining s)
      in if failbit s then ([], s)
         else (takeWhile (\<lambda>c. \<not> is_space c) (remaining s), s\<lparr>remaining := t, eofbit := (t = [])\<rparr>))"

text \<open>
  \<open>stream >> number\<close> for an \<open>unsigned int\<close>: an optional sign and digits, as \<open>strtoull\<close> reads them. The
  variable keeps its old value (\<open>None\<close>) when the sentry fails, and gets 0 or the largest value when
  the conversion does.
\<close>

definition extract_unsigned :: "istream \<Rightarrow> nat option \<times> istream" where
  "extract_unsigned s =
     (let s = skip_space s;
          minus = (remaining s \<noteq> [] \<and> hd (remaining s) = CHR ''-'');
          plus = (remaining s \<noteq> [] \<and> hd (remaining s) = CHR ''+'');
          r = (if minus \<or> plus then tl (remaining s) else remaining s);
          ds = takeWhile is_digit r; t = dropWhile is_digit r; n = decimal_value ds;
          s' = s\<lparr>remaining := t, eofbit := (t = [])\<rparr>
      in if failbit s then (None, s)
         else if ds = [] then (Some 0, s'\<lparr>failbit := True\<rparr>)
         else if n \<ge> 2 ^ 32 then (Some (2 ^ 32 - 1), s'\<lparr>failbit := True\<rparr>)
         else (Some (if minus then (2 ^ 32 - n) mod 2 ^ 32 else n), s'))"

text \<open>\<open>std::getline\<close>: up to a newline, which is dropped; it fails when nothing at all is left.\<close>

definition get_line :: "istream \<Rightarrow> string \<times> istream" where
  "get_line s =
     (if good s then
        let l = takeWhile (\<lambda>c. c \<noteq> newline) (remaining s);
            t = dropWhile (\<lambda>c. c \<noteq> newline) (remaining s)
        in (l, s\<lparr>remaining := tl t, eofbit := (t = []), failbit := (t = [] \<and> l = [])\<rparr>)
      else ([], s\<lparr>failbit := True\<rparr>))"

lemma good_stream_of [simp]: "good (stream_of text)"
  by (simp add: good_def stream_of_def)

lemma remaining_stream_of [simp]: "remaining (stream_of text) = text"
  by (simp add: stream_of_def)

lemma length_tl_dropWhile: "xs \<noteq> [] \<Longrightarrow> length (tl (dropWhile P xs)) < length xs"
  using length_dropWhile_le [of P xs] by (cases xs) auto

lemma get_line_shorter:
  assumes "get_line s = (l, s')" and "\<not> failbit s'"
  shows "length (remaining s') < length (remaining s)"
proof -
  have "good s" and "remaining s \<noteq> []" using assms by (auto simp: get_line_def Let_def split: if_splits)
  with assms(1) show ?thesis by (auto simp: get_line_def Let_def simp flip: length_tl intro: length_tl_dropWhile)
qed

lemma takeWhile_line: "newline \<notin> set l \<Longrightarrow> takeWhile (\<lambda>c. c \<noteq> newline) (l @ newline # r) = l"
  by (induction l) auto

lemma dropWhile_line: "newline \<notin> set l \<Longrightarrow> dropWhile (\<lambda>c. c \<noteq> newline) (l @ newline # r) = newline # r"
  by (induction l) auto

text \<open>A whole line is in the buffer.\<close>

lemma get_line_append:
  assumes "good s" and "remaining s = l @ newline # r" and "newline \<notin> set l"
  shows "get_line s = (l, s\<lparr>remaining := r\<rparr>)"
  using assms by (cases s) (simp add: get_line_def takeWhile_line dropWhile_line good_def)

end
