(* ===== verification/Http_Clients.thy ===== *)
theory Http_Clients
  imports Causal_IO Async_Objects Input_Stream
begin

text \<open>
  \<open>Beast/http/Client.cpp\<close>: a blocking client, a client that parses the response off a raw socket, an
  asynchronous HTTP client, and HTTPS clients with completion handlers and with \<open>co_await\<close>. A payload
  is a string: what the resolver returned, the bytes or the message that was read.
\<close>

section \<open>\<open>Simple_Synch\<close>\<close>

text \<open>\<open>http::read\<close> returns the message, as the stream operator prints it, and the bytes it read.\<close>

definition httpGetRequest :: "string \<Rightarrow> (string \<times> nat, unit) io" where
  "httpGetRequest agent =
     io_bind (io_check (Resolve ''0.0.0.0'' (to_string 52525))) (\<lambda>serverEndpoint.
     io_bind (io_check (Connect (fst serverEndpoint))) (\<lambda>_.
     let request = with_field Connection ''close'' (with_field User_Agent agent
           (with_field Content_Type ''application/json'' (with_field Host ''0.0.0.0''
             (make_request Get ''/index'' 11))))
     in io_bind (io_check (Write_Request request)) (\<lambda>_.
        io_seq
          (io_catch
            (io_bind (io_check Read_Message) (\<lambda>(response, bytesRead).
               io_emit [print_line (''['' @ response @ '']''), print_line (''Bytes received: '' @ to_string bytesRead)]))
            (\<lambda>exc. io_emit [Report_What [] exc]))
          (io_bind (io_call Socket_Shutdown) (\<lambda>_. io_return ())))))"

text \<open>\<open>while (std::getline(response_stream, header) && header != "\r")\<close>: the headers, and the stream after it.\<close>

function header_lines :: "istream \<Rightarrow> string list \<times> istream" where
  "header_lines s =
     (let (header, s') = get_line s
      in if \<not> failbit s' \<and> header \<noteq> [carriage_return]
         then let (hs, s'') = header_lines s' in (header # hs, s'') else ([], s'))"
  by pat_completeness auto
termination
  by (relation "measure (\<lambda>s. length (remaining s))") (auto dest: get_line_shorter [OF sym])

declare header_lines.simps [simp del]

text \<open>\<open>while (asio::read(socket, response, transfer_at_least(1), error)) std::cout << &response;\<close>\<close>

definition copy_round :: "unit \<Rightarrow> (string, unit + error_code) io" where
  "copy_round v = io_bind (io_call (Read_At_Least 1)) (\<lambda>(error, bytes).
     if bytes \<noteq> [] then io_seq (io_emit [Out bytes]) (io_return (Inl ())) else io_return (Inr error))"

definition raw_request :: "string \<Rightarrow> string \<Rightarrow> string" where
  "raw_request host path =
     ''GET '' @ path @ '' HTTP/1.0'' @ [carriage_return, newline] @ ''Host: '' @ host @ [carriage_return, newline] @
     ''Accept: */*'' @ [carriage_return, newline] @ ''Connection: close'' @
     [carriage_return, newline, carriage_return, newline]"

text \<open>The status line, and what is printed when it is refused.\<close>

definition status_line :: "istream \<Rightarrow> action list + istream" where
  "status_line response_stream =
     (let (http_version, s) = extract_word response_stream;
          (status_code, s) = extract_unsigned s;
          (status_message, s) = get_line s
      in if failbit s \<or> take 5 http_version \<noteq> ''HTTP/'' then Inl [print_line ''Invalid response'']
         else if Some 200 \<noteq> status_code
         then Inl [print_line (''Response returned with status code '' @ to_string (the status_code))]
         else Inr s)"

definition print_content :: "istream \<Rightarrow> (string, unit) io" where
  "print_content s =
     (let (headers, s) = header_lines s
      in io_seq (io_emit (map print_line headers @ [print_line []]))
        (io_seq (io_emit (if remaining s \<noteq> [] then [Out (remaining s)] else []))
        (io_bind (io_loop copy_round ()) (\<lambda>error.
           if error \<noteq> Eof then io_throw (System_Error [] error) else io_return ()))))"

definition raw_get :: "string \<Rightarrow> string \<Rightarrow> string \<Rightarrow> (string, unit) io" where
  "raw_get host port path =
     io_catch
       (io_bind (io_check (Resolve host port)) (\<lambda>serverEndpoint.
        io_bind (io_check (Connect serverEndpoint)) (\<lambda>_.
        io_bind (io_check (Write (raw_request host path))) (\<lambda>_.
        io_bind (io_check (Read_Until [carriage_return, newline])) (\<lambda>response.
        case status_line (stream_of response) of
          Inl refused \<Rightarrow> io_emit refused
        | Inr s \<Rightarrow>
            io_bind (io_check (Read_Until [carriage_return, newline, carriage_return, newline])) (\<lambda>more.
              print_content (s\<lparr>remaining := remaining s @ more\<rparr>)))))))
       (\<lambda>e. io_emit [Report_What ''Exception'' e])"

definition httpGetRequest_TcpSocket :: "(string, unit) io" where
  "httpGetRequest_TcpSocket = raw_get ''0.0.0.0'' (to_string 52525) ''/index''"


section \<open>\<open>HTTP_Client_Async::session\<close>\<close>

text \<open>
  \<open>In_Shutdown\<close> is the rest of \<open>on_read\<close> from the synchronous \<open>shutdown\<close> on, with its \<open>errorCode\<close>.
\<close>

datatype http_client_handler = Resolved | Connected | Written | Message_Read | In_Shutdown error_code

record http_client =
  hc_request :: http_request
  hc_response :: string
  hc_waiting :: "http_client_handler option"

definition hc_make_session :: http_client where
  "hc_make_session = \<lparr>hc_request = make_request Get [] 11, hc_response = [], hc_waiting = None\<rparr>"

definition hc_run :: "string \<Rightarrow> string \<Rightarrow> string \<Rightarrow> string \<Rightarrow> nat \<Rightarrow> http_client \<Rightarrow> http_client \<times> action list" where
  "hc_run agent host port target version s =
     (let q = (hc_request s)\<lparr>q_version := version, q_method := Get, q_target := target\<rparr>;
          q = with_field User_Agent agent (with_field Host host q)
      in (s\<lparr>hc_request := q, hc_waiting := Some Resolved\<rparr>, [Start (Resolve host port)]))"

definition hc_on_resolve :: "http_client \<Rightarrow> error_code \<Rightarrow> string \<Rightarrow> http_client \<times> action list" where
  "hc_on_resolve s errorCode results =
     (if is_error errorCode then (s, fail ''resolve'' errorCode)
      else (s\<lparr>hc_waiting := Some Connected\<rparr>, [Expires_After 30, Start (Connect results)]))"

definition hc_on_connect :: "http_client \<Rightarrow> error_code \<Rightarrow> http_client \<times> action list" where
  "hc_on_connect s errorCode =
     (if is_error errorCode then (s, fail ''connect'' errorCode)
      else (s\<lparr>hc_waiting := Some Written\<rparr>, [Expires_After 30, Start (Write_Request (hc_request s))]))"

definition hc_on_write :: "http_client \<Rightarrow> error_code \<Rightarrow> http_client \<times> action list" where
  "hc_on_write s errorCode =
     (if is_error errorCode then (s, fail ''write'' errorCode)
      else (s\<lparr>hc_waiting := Some Message_Read\<rparr>, [Start Read_Message]))"

definition hc_on_read :: "http_client \<Rightarrow> error_code \<Rightarrow> http_client \<times> action list" where
  "hc_on_read s errorCode =
     (if is_error errorCode then (s, fail ''read'' errorCode)
      else (s\<lparr>hc_waiting := Some (In_Shutdown errorCode)\<rparr>, [print_line (hc_response s), Start Socket_Shutdown]))"

definition hc_after_shutdown :: "http_client \<Rightarrow> error_code \<Rightarrow> error_code \<Rightarrow> http_client \<times> action list" where
  "hc_after_shutdown s errorCode err =
     (let failed = (if is_error err then [Report ''shutdown failed'' err] else [])
      in if is_error errorCode \<and> errorCode \<noteq> Not_Connected then (s, failed @ fail ''shutdown'' errorCode)
         else (s, failed))"

definition hc_step :: "http_client \<Rightarrow> error_code \<times> string \<Rightarrow> http_client \<times> action list" where
  "hc_step s c = (let t = s\<lparr>hc_waiting := None\<rparr> in case hc_waiting s of
     None \<Rightarrow> (s, [])
   | Some Resolved \<Rightarrow> hc_on_resolve t (fst c) (snd c)
   | Some Connected \<Rightarrow> hc_on_connect t (fst c)
   | Some Written \<Rightarrow> hc_on_write t (fst c)
   | Some Message_Read \<Rightarrow> hc_on_read (t\<lparr>hc_response := snd c\<rparr>) (fst c)
   | Some (In_Shutdown errorCode) \<Rightarrow> hc_after_shutdown t errorCode (fst c))"

lemmas hc_defs = hc_step_def hc_on_resolve_def hc_on_connect_def hc_on_write_def hc_on_read_def
  hc_after_shutdown_def fail_def print_line_def Let_def

text \<open>\<open>Send_Request\<close>: the session is run until nothing is in flight.\<close>

definition hc_Send_Request :: "string \<Rightarrow> string script \<Rightarrow> action list" where
  "hc_Send_Request agent cs =
     (let (s, as) = hc_run agent ''0.0.0.0'' ''52525'' ''/index'' 11 hc_make_session
      in as @ snd (deliver hc_step s cs))"

fun hc_rank :: "http_client_handler \<Rightarrow> nat" where
  "hc_rank Resolved = 4"
| "hc_rank Connected = 3"
| "hc_rank Written = 2"
| "hc_rank Message_Read = 1"
| "hc_rank (In_Shutdown ec) = 0"

interpretation http_client: staged_session hc_step hc_waiting hc_rank
  by unfold_locales
    (auto simp: hc_defs Let_def split: http_client_handler.splits option.splits if_splits)


section \<open>\<open>SSL_Clients::SSL_Request_Test\<close>\<close>

text \<open>
  Boost.JSON is a parameter: \<open>parse_json\<close> gives the error code of \<open>json::parse\<close> on the body, and what
  \<open>j.at("ip").as_string()\<close> then does: throw, or give a text.
\<close>

definition ssl_request_test ::
    "string \<Rightarrow> (string \<Rightarrow> error_code \<times> (exn + string)) \<Rightarrow> (string, unit) io" where
  "ssl_request_test agent parse_json =
     io_bind (io_check (Set_Sni ''api64.ipify.org'')) (\<lambda>_.
     io_bind (io_check (Resolve ''api64.ipify.org'' ''https'')) (\<lambda>endpoints.
     io_bind (io_check (Connect endpoints)) (\<lambda>_.
     io_seq (io_emit [Expires_After 30])
    (io_bind (io_check Tls_Handshake) (\<lambda>_.
     io_bind (io_check (Write_Request (get_request agent ''api64.ipify.org'' ''/?format=json'' 11))) (\<lambda>_.
     io_bind (io_check Read_Message) (\<lambda>body.
     case parse_json body of (err, at_ip) \<Rightarrow>
     case at_ip of Inl e \<Rightarrow> io_throw e | Inr ip \<Rightarrow>
     io_seq (io_emit [print_line (''IP address: '' @ ip)])
    (io_seq (if is_error err then io_emit [Report ''Error parsing JSON'' err] else io_return ())
    (io_bind (io_call Tls_Shutdown) (\<lambda>(errorCode, _).
     io_seq (if is_error errorCode then io_emit [Err (''stream.shutdown() failed'' @ [newline])] else io_return ())
    (let errorCode = (if errorCode = Eof then Success else errorCode)
     in if is_error errorCode then io_throw (System_Error [] errorCode) else io_return ())))))))))))"


section \<open>\<open>HTTPS_Client_Async::Session\<close>\<close>

text \<open>
  \<open>In_Run\<close> is the rest of \<open>run\<close>, with its arguments, when \<open>SSL_set_tlsext_host_name\<close> has returned.
\<close>

datatype https_client_handler =
    In_Run string nat string nat
  | Https_Resolved | Https_Connected | Handshaken | Https_Written | Https_Message_Read | Shut_Down

record https_client =
  sc_request :: http_request
  sc_response :: string
  sc_waiting :: "https_client_handler option"

definition sc_make_session :: https_client where
  "sc_make_session = \<lparr>sc_request = make_request Get [] 11, sc_response = [], sc_waiting = None\<rparr>"

definition sc_run :: "string \<Rightarrow> nat \<Rightarrow> string \<Rightarrow> nat \<Rightarrow> https_client \<Rightarrow> https_client \<times> action list" where
  "sc_run host port target version s =
     (s\<lparr>sc_waiting := Some (In_Run host port target version)\<rparr>, [Start (Set_Sni host)])"

definition sc_in_run ::
    "string \<Rightarrow> string \<Rightarrow> nat \<Rightarrow> string \<Rightarrow> nat \<Rightarrow> https_client \<Rightarrow> error_code \<Rightarrow> https_client \<times> action list" where
  "sc_in_run agent host port target version s ec =
     (if is_error ec then (s, [Report [] ec])
      else
        let q = (sc_request s)\<lparr>q_version := version, q_method := Get, q_target := target\<rparr>;
            q = with_field User_Agent agent (with_field Host host q)
        in (s\<lparr>sc_request := q, sc_waiting := Some Https_Resolved\<rparr>, [Start (Resolve host (to_string port))]))"

definition sc_on_resolve :: "https_client \<Rightarrow> error_code \<Rightarrow> string \<Rightarrow> https_client \<times> action list" where
  "sc_on_resolve s errorCode results =
     (if is_error errorCode then (s, fail ''resolve'' errorCode)
      else (s\<lparr>sc_waiting := Some Https_Connected\<rparr>, [Expires_After 30, Start (Connect results)]))"

definition sc_on_connect :: "https_client \<Rightarrow> error_code \<Rightarrow> https_client \<times> action list" where
  "sc_on_connect s errorCode =
     (if is_error errorCode then (s, fail ''connect'' errorCode)
      else (s\<lparr>sc_waiting := Some Handshaken\<rparr>, [Start Tls_Handshake]))"

definition sc_on_handshake :: "https_client \<Rightarrow> error_code \<Rightarrow> https_client \<times> action list" where
  "sc_on_handshake s errorCode =
     (if is_error errorCode then (s, fail ''handshake'' errorCode)
      else (s\<lparr>sc_waiting := Some Https_Written\<rparr>, [Expires_After 30, Start (Write_Request (sc_request s))]))"

definition sc_on_write :: "https_client \<Rightarrow> error_code \<Rightarrow> https_client \<times> action list" where
  "sc_on_write s errorCode =
     (if is_error errorCode then (s, fail ''write'' errorCode)
      else (s\<lparr>sc_waiting := Some Https_Message_Read\<rparr>, [Start Read_Message]))"

definition sc_on_read :: "https_client \<Rightarrow> error_code \<Rightarrow> https_client \<times> action list" where
  "sc_on_read s errorCode =
     (if is_error errorCode then (s, fail ''read'' errorCode)
      else (s\<lparr>sc_waiting := Some Shut_Down\<rparr>,
        [print_line (sc_response s), Expires_After 30, Start Tls_Shutdown]))"

definition sc_on_shutdown :: "https_client \<Rightarrow> error_code \<Rightarrow> https_client \<times> action list" where
  "sc_on_shutdown s errorCode =
     (if Stream_Truncated \<noteq> errorCode then (s, fail ''shutdown'' errorCode) else (s, []))"

definition sc_step :: "string \<Rightarrow> https_client \<Rightarrow> error_code \<times> string \<Rightarrow> https_client \<times> action list" where
  "sc_step agent s c = (let t = s\<lparr>sc_waiting := None\<rparr> in case sc_waiting s of
     None \<Rightarrow> (s, [])
   | Some (In_Run host port target version) \<Rightarrow> sc_in_run agent host port target version t (fst c)
   | Some Https_Resolved \<Rightarrow> sc_on_resolve t (fst c) (snd c)
   | Some Https_Connected \<Rightarrow> sc_on_connect t (fst c)
   | Some Handshaken \<Rightarrow> sc_on_handshake t (fst c)
   | Some Https_Written \<Rightarrow> sc_on_write t (fst c)
   | Some Https_Message_Read \<Rightarrow> sc_on_read (t\<lparr>sc_response := snd c\<rparr>) (fst c)
   | Some Shut_Down \<Rightarrow> sc_on_shutdown t (fst c))"

lemmas sc_defs = sc_step_def sc_in_run_def sc_on_resolve_def sc_on_connect_def sc_on_handshake_def
  sc_on_write_def sc_on_read_def sc_on_shutdown_def fail_def print_line_def Let_def

definition sc_trace :: "string \<Rightarrow> string \<Rightarrow> nat \<Rightarrow> string \<Rightarrow> nat \<Rightarrow> string script \<Rightarrow> action list" where
  "sc_trace agent host port target version cs =
     (let (s, as) = sc_run host port target version sc_make_session
      in as @ snd (deliver (sc_step agent) s cs))"

definition sc_Send_Request :: "string \<Rightarrow> string script \<Rightarrow> action list" where
  "sc_Send_Request agent cs = sc_trace agent ''0.0.0.0'' 8443 ''/'' 11 cs"

fun sc_rank :: "https_client_handler \<Rightarrow> nat" where
  "sc_rank (In_Run host port target version) = 6"
| "sc_rank Https_Resolved = 5"
| "sc_rank Https_Connected = 4"
| "sc_rank Handshaken = 3"
| "sc_rank Https_Written = 2"
| "sc_rank Https_Message_Read = 1"
| "sc_rank Shut_Down = 0"

interpretation https_client: staged_session "sc_step agent" sc_waiting sc_rank for agent
  by unfold_locales
    (auto simp: sc_defs Let_def split: https_client_handler.splits option.splits if_splits)


section \<open>\<open>HTTPS_Awaitable\<close>\<close>

definition https_awaitable_do_session :: "string \<Rightarrow> string \<Rightarrow> nat \<Rightarrow> string \<Rightarrow> nat \<Rightarrow> (string, unit) io" where
  "https_awaitable_do_session agent host port target version =
     io_bind (io_check (Set_Sni host)) (\<lambda>_.
     io_bind (io_check (Resolve host (to_string port))) (\<lambda>results.
     io_seq (io_emit [Expires_After 30])
    (io_bind (io_check (Connect results)) (\<lambda>_.
     io_seq (io_emit [Expires_After 30])
    (io_bind (io_check Tls_Handshake) (\<lambda>_.
     io_seq (io_emit [Expires_After 30])
    (io_bind (io_check (Write_Request (get_request agent host target version))) (\<lambda>_.
     io_bind (io_check Read_Message) (\<lambda>res.
     io_seq (io_emit [print_line res, Expires_After 30])
    (io_bind (io_call Tls_Shutdown) (\<lambda>(ec, _).
     if is_error ec \<and> ec \<noteq> Stream_Truncated then io_throw (System_Error ''shutdown'' ec)
     else io_return ())))))))))))"

text \<open>\<open>Send_Request\<close>: the exception of the coroutine leaves \<open>ioCtx.run()\<close> and is not caught.\<close>

definition https_awaitable_Send_Request :: "string \<Rightarrow> (string, unit) io" where
  "https_awaitable_Send_Request agent = https_awaitable_do_session agent ''0.0.0.0'' 8443 ''/'' 11"


section \<open>The raw client prints the content\<close>

lemma copy_round_calls: "calls_each_round copy_round"
  unfolding copy_round_def by (intro calls_eachI consumes_intros causal_intros)

lemma copy_round_simps:
  "copy_round v ((error, bytes) # cs) =
     (if bytes \<noteq> [] then ([Start (Read_At_Least 1), Out bytes], cs, Returned (Inl ()))
      else ([Start (Read_At_Least 1)], cs, Returned (Inr error)))"
  by (simp add: copy_round_def io_simps)

lemma copy_loop:
  assumes "[] \<notin> set chunks"
  shows "io_loop copy_round () (map (Pair Success) chunks @ [(Eof, [])]) =
    (concat (map (\<lambda>d. [Start (Read_At_Least 1), Out d]) chunks) @ [Start (Read_At_Least 1)], [], Returned Eof)"
  using assms
proof (induction chunks)
  case Nil
  then show ?case
    by (subst io_loop_unfold [OF copy_round_calls]) (simp add: io_bind.simps copy_round_simps io_return_def)
next
  case (Cons d chunks)
  then show ?case
    by (subst io_loop_unfold [OF copy_round_calls]) (auto simp: io_bind.simps copy_round_simps)
qed

text \<open>A block of headers, each line ended by CR LF.\<close>

definition header_block :: "string list \<Rightarrow> string" where
  "header_block hs = concat (map (\<lambda>h. h @ [carriage_return, newline]) hs)"

lemma header_lines_block:
  assumes "\<And>h. h \<in> set hs \<Longrightarrow> h \<noteq> [] \<and> newline \<notin> set h" and "good s"
    and "remaining s = header_block hs @ [carriage_return, newline] @ body"
  shows "header_lines s = (map (\<lambda>h. h @ [carriage_return]) hs, s\<lparr>remaining := body\<rparr>)"
  using assms
proof (induction hs arbitrary: s)
  case Nil
  then have "get_line s = ([carriage_return], s\<lparr>remaining := body\<rparr>)"
    by (intro get_line_append) (auto simp: header_block_def)
  then show ?case by (subst header_lines.simps) simp
next
  case (Cons h hs)
  let ?t = "s\<lparr>remaining := header_block hs @ [carriage_return, newline] @ body\<rparr>"
  from Cons.prems have "get_line s = (h @ [carriage_return], ?t)"
    by (intro get_line_append) (auto simp: header_block_def)
  moreover have "header_lines ?t = (map (\<lambda>h. h @ [carriage_return]) hs, s\<lparr>remaining := body\<rparr>)"
    using Cons by (subst Cons.IH) (auto simp: good_def)
  moreover have "\<not> failbit ?t" "h \<noteq> []" using Cons.prems by (auto simp: good_def)
  ultimately show ?case by (subst header_lines.simps) simp
qed

lemma dropWhile_first: "xs \<noteq> [] \<Longrightarrow> \<not> P (hd xs) \<Longrightarrow> dropWhile P xs = xs"
  by (cases xs) auto

lemma status_line_ok:
  assumes "\<forall>c \<in> set version. \<not> is_space c" and "newline \<notin> set reason"
  shows "status_line (stream_of (''HTTP/'' @ version @ '' 200 '' @ reason @ [carriage_return, newline] @ rest)) =
    Inr (stream_of rest)"
proof -
  have space: "is_space (CHR '' '')" "\<not> is_space (CHR ''H'')" "\<not> is_space (CHR ''T'')" "\<not> is_space (CHR ''P'')"
    "\<not> is_space (CHR ''/'')" "\<not> is_space (CHR ''2'')" by (simp_all add: is_space_def)
  have digit: "is_digit (CHR ''2'')" "is_digit (CHR ''0'')" "\<not> is_digit (CHR '' '')" by (simp_all add: is_digit_def)
  have word: "takeWhile (\<lambda>c. \<not> is_space c) (version @ CHR '' '' # r) = version"
    "dropWhile (\<lambda>c. \<not> is_space c) (version @ CHR '' '' # r) = CHR '' '' # r" for r
    using assms(1) space(1) by (auto simp: takeWhile_append2 dropWhile_append2)
  let ?r2 = "'' '' @ reason @ [carriage_return, newline] @ rest"
  have "extract_word (stream_of (''HTTP/'' @ version @ '' 200'' @ ?r2)) = (''HTTP/'' @ version, stream_of ('' 200'' @ ?r2))"
    using space word by (simp add: extract_word_def skip_space_def Let_def stream_of_def good_def)
  moreover have "extract_unsigned (stream_of ('' 200'' @ ?r2)) = (Some 200, stream_of ?r2)"
    using space digit
    by (simp add: extract_unsigned_def skip_space_def Let_def stream_of_def good_def decimal_value_def digit_value_def)
  moreover have "get_line (stream_of ?r2) = ('' '' @ reason @ [carriage_return], stream_of rest)"
    using get_line_append [of "stream_of ?r2" "'' '' @ reason @ [carriage_return]" rest] assms(2)
    by (simp add: stream_of_def good_def)
  ultimately show ?thesis by (simp add: status_line_def stream_of_def)
qed

lemma print_content_ok:
  assumes "\<And>h. h \<in> set hs \<Longrightarrow> h \<noteq> [] \<and> newline \<notin> set h" and "[] \<notin> set chunks"
  shows "print_content (stream_of (header_block hs @ [carriage_return, newline] @ body))
      (map (Pair Success) chunks @ [(Eof, [])]) =
    (map (\<lambda>h. print_line (h @ [carriage_return])) hs @ print_line [] #
       (if body \<noteq> [] then [Out body] else []) @
       concat (map (\<lambda>d. [Start (Read_At_Least 1), Out d]) chunks) @ [Start (Read_At_Least 1)],
     [], Returned ())"
proof -
  have "header_lines (stream_of (header_block hs @ [carriage_return, newline] @ body)) =
      (map (\<lambda>h. h @ [carriage_return]) hs, stream_of body)"
    using assms(1) by (subst header_lines_block [where hs = hs and body = body]) (auto simp: stream_of_def good_def)
  then show ?thesis using copy_loop [OF assms(2)]
    by (auto simp: print_content_def io_simps io_bind.simps comp_def)
qed

lemma printed_lines: "printed (map (\<lambda>h. print_line (h @ [carriage_return])) hs) = header_block hs"
  by (induction hs) (simp_all add: header_block_def)

lemma printed_chunks:
  "printed (concat (map (\<lambda>d. [Start op, Out d]) chunks)) = concat chunks"
  by (induction chunks) simp_all

text \<open>
  C16: what the raw client prints does not depend on how the response is cut into pieces. When the server
  answers with a status line with code 200, header lines, a blank line and a body, and the two
  \<open>read_until\<close> calls and the reads after them deliver these bytes in any pieces and then end of file, the
  client prints the headers, an empty line and the whole body, and returns without an exception.
\<close>

theorem raw_get_prints_content:
  assumes "\<forall>c \<in> set version. \<not> is_space c" and "newline \<notin> set reason"
    and "\<And>h. h \<in> set hs \<Longrightarrow> h \<noteq> [] \<and> newline \<notin> set h" and "[] \<notin> set chunks"
    and "first = ''HTTP/'' @ version @ '' 200 '' @ reason @ [carriage_return, newline] @ rest"
    and "rest @ second = header_block hs @ [carriage_return, newline] @ body"
  shows "(let (as, left, r) = raw_get host port path ((Success, endpoint) # (Success, a) # (Success, b) #
             (Success, first) # (Success, second) # map (Pair Success) chunks @ [(Eof, [])])
          in r = Returned () \<and> printed as = header_block hs @ [newline] @ body @ concat chunks)"
proof -
  have "stream_of rest\<lparr>remaining := rest @ second\<rparr> = stream_of (rest @ second)"
    by (simp add: stream_of_def)
  then show ?thesis
    using print_content_ok [where hs = hs and chunks = chunks and body = body, OF assms(3,4)] status_line_ok [OF assms(1,2), of rest] assms(5,6)
    by (simp add: raw_get_def io_catch_def io_simps printed_lines printed_chunks
        split: prod.split)
qed

text \<open>A response in four pieces: the header block is cut in the middle of a line.\<close>

theorem raw_get_prints_content_witness:
  "printed (fst (httpGetRequest_TcpSocket
     [(Success, []), (Success, []), (Success, []),
      (Success, ''HTTP/1.1 200 OK'' @ [carriage_return, newline] @ ''A: ''),
      (Success, ''b'' @ [carriage_return, newline, carriage_return, newline] @ ''xy''), (Success, ''z''), (Eof, [])]))
   = ''A: b'' @ [carriage_return, newline, newline] @ ''xyz''"
proof -
  let ?first = "''HTTP/'' @ ''1.1'' @ '' 200 '' @ ''OK'' @ [carriage_return, newline] @ ''A: ''"
  have "let (as, left, r) = raw_get ''0.0.0.0'' (to_string 52525) ''/index'' ((Success, []) # (Success, []) # (Success, []) #
      (Success, ?first) # (Success, ''b'' @ [carriage_return, newline, carriage_return, newline] @ ''xy'') #
      map (Pair Success) [''z''] @ [(Eof, [])])
    in r = Returned () \<and> printed as = header_block [''A: b''] @ [newline] @ ''xy'' @ concat [''z'']"
    by (rule raw_get_prints_content [where version = "''1.1''" and reason = "''OK''" and rest = "''A: ''"])
      (auto simp: is_space_def header_block_def)
  then show ?thesis by (simp add: httpGetRequest_TcpSocket_def header_block_def split: prod.splits)
qed


section \<open>The two HTTPS clients\<close>

abbreviation calls_of :: "action list \<Rightarrow> action list" where
  "calls_of as \<equiv> without_timeouts (without_reports as)"

text \<open>What is left of the coroutine at its suspension points.\<close>

definition https_read_rest :: "(string, unit) io" where
  "https_read_rest = io_bind (io_check Read_Message) (\<lambda>res.
     io_seq (io_emit [print_line res, Expires_After 30])
    (io_bind (io_call Tls_Shutdown) (\<lambda>(ec, _).
     if is_error ec \<and> ec \<noteq> Stream_Truncated then io_throw (System_Error ''shutdown'' ec)
     else io_return ())))"

definition https_write_rest :: "http_request \<Rightarrow> (string, unit) io" where
  "https_write_rest q = io_seq (io_emit [Expires_After 30])
     (io_bind (io_check (Write_Request q)) (\<lambda>_. https_read_rest))"

definition https_connect_rest :: "http_request \<Rightarrow> string \<Rightarrow> (string, unit) io" where
  "https_connect_rest q results =
     io_seq (io_emit [Expires_After 30])
    (io_bind (io_check (Connect results)) (\<lambda>_.
     io_seq (io_emit [Expires_After 30])
    (io_bind (io_check Tls_Handshake) (\<lambda>_. https_write_rest q))))"

lemma https_awaitable_eq: "https_awaitable_do_session agent host port target version =
     io_bind (io_check (Set_Sni host)) (\<lambda>_. io_bind (io_check (Resolve host (to_string port)))
       (https_connect_rest (get_request agent host target version)))"
  unfolding https_awaitable_do_session_def https_connect_rest_def https_write_rest_def https_read_rest_def
  by (rule refl)

lemma deliver_https_read_rest:
  assumes "sc_waiting s = Some Https_Message_Read"
  shows "Start Read_Message # calls_of (snd (deliver (sc_step agent) s cs)) = calls_of (fst (https_read_rest cs))"
proof -
  have "calls_of (snd (deliver (sc_step agent) t ds)) = []" if "sc_waiting t = Some Shut_Down" for t ds
    using that by (cases ds) (auto simp: deliver_Cons sc_defs https_client.deliver_idle simp del: deliver.simps(2))
  moreover have "calls_of (fst (io_bind (io_call Tls_Shutdown) (\<lambda>(ec, _).
      if is_error ec \<and> ec \<noteq> Stream_Truncated then io_throw (System_Error ''shutdown'' ec) else io_return ()) ds))
      = [Start Tls_Shutdown]" for ds :: "string script"
    by (cases ds) (auto simp: io_simps)
  ultimately show ?thesis using assms
    by (cases cs) (auto simp: https_read_rest_def io_simps deliver_Cons sc_step_def Let_def sc_on_read_def fail_def
        https_client.deliver_idle simp del: deliver.simps(2))
qed

lemma deliver_https_write_rest:
  assumes "sc_waiting s = Some Https_Written"
  shows "Start (Write_Request q) # calls_of (snd (deliver (sc_step agent) s cs)) =
    calls_of (fst (https_write_rest q cs))"
  using assms deliver_https_read_rest [of "s\<lparr>sc_waiting := Some Https_Message_Read\<rparr>" agent "tl cs"]
  by (cases cs) (auto simp: https_write_rest_def io_simps deliver_Cons sc_step_def Let_def sc_on_write_def fail_def
      https_client.deliver_idle simp del: deliver.simps(2))

lemma deliver_https_connect_rest:
  assumes "sc_waiting s = Some Https_Connected"
  shows "Start (Connect results) # calls_of (snd (deliver (sc_step agent) s cs)) =
    calls_of (fst (https_connect_rest (sc_request s) results cs))"
proof -
  have "Start Tls_Handshake # calls_of (snd (deliver (sc_step agent) t ds)) =
      calls_of (fst (io_bind (io_check Tls_Handshake) (\<lambda>_. https_write_rest (sc_request s)) ds))"
    if "sc_waiting t = Some Handshaken" "sc_request t = sc_request s" for t ds
    using that deliver_https_write_rest [of "t\<lparr>sc_waiting := Some Https_Written\<rparr>" "sc_request s" agent "tl ds"]
    by (cases ds) (auto simp: io_simps deliver_Cons sc_step_def Let_def sc_on_handshake_def fail_def
        https_client.deliver_idle simp del: deliver.simps(2))
  from this [of "s\<lparr>sc_waiting := Some Handshaken\<rparr>" "tl cs"] assms show ?thesis
    by (cases cs) (auto simp: https_connect_rest_def io_simps deliver_Cons sc_step_def Let_def sc_on_connect_def fail_def
        https_client.deliver_idle simp del: deliver.simps(2))
qed

lemma deliver_https_resolve:
  assumes "sc_waiting s = Some Https_Resolved"
  shows "Start (Resolve host port) # calls_of (snd (deliver (sc_step agent) s cs)) =
    calls_of (fst (io_bind (io_check (Resolve host port)) (https_connect_rest (sc_request s)) cs))"
  using assms deliver_https_connect_rest [of "s\<lparr>sc_waiting := Some Https_Connected\<rparr>" "snd (hd cs)" agent "tl cs"]
  by (cases cs) (auto simp: io_simps deliver_Cons sc_step_def Let_def sc_on_resolve_def fail_def
      https_client.deliver_idle simp del: deliver.simps(2))

text \<open>
  the HTTPS session with completion handlers and the \<open>co_await\<close> client make the same calls with the
  same arguments in the same order and print the same text, on every sequence of results; they differ
  only in their timeouts and in reporting an error where the other throws it.
\<close>

theorem https_handlers_are_awaitable:
  "without_timeouts (without_reports (sc_trace agent host port target version cs)) =
   without_timeouts (without_reports (fst (https_awaitable_do_session agent host port target version cs)))"
proof -
  have q: "with_field User_Agent agent (with_field Host host
      ((make_request Get [] 11)\<lparr>q_version := version, q_method := Get, q_target := target\<rparr>)) =
      get_request agent host target version"
    by (simp add: get_request_def make_request_def)
  let ?s = "sc_make_session\<lparr>sc_request := get_request agent host target version, sc_waiting := Some Https_Resolved\<rparr>"
  from q deliver_https_resolve [of ?s host "to_string port" agent "tl cs"] show ?thesis
    by (cases cs) (auto simp: sc_trace_def sc_run_def https_awaitable_eq io_simps deliver_Cons sc_step_def Let_def
        sc_in_run_def sc_make_session_def Let_def https_client.deliver_idle simp del: deliver.simps(2))
qed

text \<open>
  when every call succeeds, the HTTPS session with completion handlers still reports a failure: the
  last handler calls \<open>fail\<close> for every code other than \<open>stream_truncated\<close>, success included.
\<close>

theorem https_client_reports_success:
  "reports (sc_trace agent host port target version
     [(Success, a), (Success, b), (Success, c), (Success, d), (Success, e), (Success, f), (Success, g)])
   = [(''shutdown'', Success)]"
  by (simp add: sc_trace_def sc_run_def sc_make_session_def sc_defs Let_def)

text \<open>
  the HTTP session reports a failed \<open>shutdown\<close> with every code, \<open>not_connected\<close> included: the check
  that is to leave it out tests the code of the read.
\<close>

theorem http_client_reports_not_connected:
  "reports (hc_Send_Request agent
     [(Success, a), (Success, b), (Success, c), (Success, d), (Not_Connected, e)])
   = [(''shutdown failed'', Not_Connected)]"
  by (simp add: hc_Send_Request_def hc_run_def hc_make_session_def hc_defs Let_def)

end
