(* ===== verification/Tcp_Basics.thy ===== *)
theory Tcp_Basics
  imports Http_Clients
begin

text \<open>
  \<open>Networking/Networking.cpp\<close> and the networking part of \<open>Asio/Experiments/Experiments.cpp\<close>: the
  daytime servers and clients, a raw HTTP GET, and the small functions on sockets.
\<close>

section \<open>Payloads\<close>

text \<open>What a call gives besides its error code: bytes (for the resolver, its result as it is passed on), a
  number of bytes, the resolved endpoints one by one.\<close>

record net_result =
  bytes :: string
  transferred :: nat
  endpoints :: "string list"

text \<open>\<open>resolver.resolve\<close> followed by \<open>asio::connect\<close> on all the endpoints it gave.\<close>

definition connect_to :: "string \<Rightarrow> string \<Rightarrow> (net_result, unit) io" where
  "connect_to host service =
     io_bind (io_check (Resolve host service)) (\<lambda>r.
     io_bind (io_check (Connect (bytes r))) (\<lambda>_. io_return ()))"

text \<open>\<open>catch (boost::system::system_error &e)\<close>, with the text the code prints for it.\<close>

definition report_system_error :: "string \<Rightarrow> (net_result, unit) io \<Rightarrow> (net_result, unit) io" where
  "report_system_error what m = io_catch m (\<lambda>e. case e of
     System_Error label ec \<Rightarrow> io_emit [Report what ec] | Std_Exception label \<Rightarrow> io_throw e)"


section \<open>Daytime\<close>

text \<open>
  \<open>make_daytime_string\<close> asks the clock: \<open>daytime n\<close> is its answer for the \<open>n\<close>th connection. The result of
  the write is ignored.
\<close>

definition daytime_round :: "(nat \<Rightarrow> string) \<Rightarrow> nat \<Rightarrow> (net_result, nat + unit) io" where
  "daytime_round daytime n =
     io_bind (io_check Accept) (\<lambda>_.
     io_bind (io_call (Write (daytime n))) (\<lambda>_. io_return (Inl (Suc n))))"

definition daytime_server :: "(nat \<Rightarrow> string) \<Rightarrow> (net_result, unit) io" where
  "daytime_server daytime =
     io_catch
       (io_bind (io_check (Acceptor_Construct ''0.0.0.0'' 52525)) (\<lambda>_. io_loop (daytime_round daytime) 0))
       (\<lambda>e. io_emit [Report_What [] e])"

definition daytime_client_round :: "unit \<Rightarrow> (net_result, unit + unit) io" where
  "daytime_client_round v =
     io_bind (io_call (Read_Some 128)) (\<lambda>(error, r).
       if error = Eof then io_return (Inr ())
       else if is_error error then io_throw (System_Error [] error)
       else io_seq (io_emit [Out (bytes r)]) (io_return (Inl ())))"

definition daytime_client :: "(net_result, unit) io" where
  "daytime_client =
     io_catch
       (io_bind (connect_to ''0.0.0.0'' ''daytime'') (\<lambda>_. io_loop daytime_client_round ()))
       (\<lambda>e. io_emit [Report_What [] e])"

text \<open>The same pair in \<open>Experiments::TcpDaytimeServer\<close>; \<open>peer n\<close> is the text of the two addresses.\<close>

definition tcp_daytime_round ::
    "(nat \<Rightarrow> string) \<Rightarrow> (nat \<Rightarrow> string \<times> string) \<Rightarrow> nat \<Rightarrow> (net_result, nat + unit) io" where
  "tcp_daytime_round daytime peer n =
     io_bind (io_check Accept) (\<lambda>_.
     io_seq (io_emit [print_line (''Connection from '' @ fst (peer n) @ '' tot '' @ snd (peer n) @ '' established.'')])
    (io_bind (io_call (Write (daytime n))) (\<lambda>_. io_return (Inl (Suc n)))))"

definition tcp_daytime_server ::
    "(nat \<Rightarrow> string) \<Rightarrow> (nat \<Rightarrow> string \<times> string) \<Rightarrow> (net_result, unit) io" where
  "tcp_daytime_server daytime peer =
     io_catch
       (io_bind (io_check (Acceptor_Construct ''0.0.0.0'' 13)) (\<lambda>_. io_loop (tcp_daytime_round daytime peer) 0))
       (\<lambda>e. io_emit [Report_What [] e])"

definition tcp_daytime_client_round :: "unit \<Rightarrow> (net_result, unit + unit) io" where
  "tcp_daytime_client_round v =
     io_bind (io_call (Read_Some 128)) (\<lambda>(error, r).
       if Eof = error then io_return (Inr ())
       else if is_error error then io_throw (System_Error [] error)
       else io_seq (io_emit [Out (bytes r)]) (io_return (Inl ())))"

definition tcp_daytime_client :: "(net_result, unit) io" where
  "tcp_daytime_client =
     io_catch
       (io_bind (connect_to ''0.0.0.0'' ''daytime'') (\<lambda>_. io_loop tcp_daytime_client_round ()))
       (\<lambda>e. io_emit [Report_What [] e])"

definition connectToServer :: "(net_result, unit) io" where
  "connectToServer = io_bind (io_call (Connect ''0.0.0.0:52525'')) (\<lambda>_. io_return ())"

text \<open>
  \<open>getExecutor_AsynchSocket\<close> of \<open>Asio/IO_Context/IoContext.cpp\<close>: the only handler prints when the connection has been
  made; an error of the resolver is thrown, one of the connection is not shown.
\<close>

definition getExecutor_AsynchSocket :: "(net_result, unit) io" where
  "getExecutor_AsynchSocket =
     io_bind (io_check (Resolve ''example.com'' ''80'')) (\<lambda>r.
     io_bind (io_call (Connect (bytes r))) (\<lambda>(ec, _).
       if \<not> is_error ec then io_emit [print_line ''Connected!''] else io_return ()))"


section \<open>\<open>Networking::HTTP\<close>\<close>

text \<open>The text of \<open>sendRequestGET\<close> is that of the raw client of \<open>Client.cpp\<close>, with other constants.\<close>

definition sendRequestGET :: "(string, unit) io" where
  "sendRequestGET = raw_get ''0.0.0.0.'' ''52525'' ''/debug''"


section \<open>\<open>Networking::Basics\<close>\<close>

definition createAcceptorSocket :: "(net_result, unit) io" where
  "createAcceptorSocket = io_bind (io_call Acceptor_Open) (\<lambda>(ec, _).
     if is_error ec then io_emit [Report ''Failed to open the acceptor socket! Error code'' ec] else io_return ())"

text \<open>The \<open>catch\<close> clause is for an \<open>error_code\<close>, which no call throws: every exception goes on.\<close>

definition acceptConnections :: "(net_result, unit) io" where
  "acceptConnections =
     io_catch
       (io_bind (io_check Acceptor_Open) (\<lambda>_.
        io_bind (io_check Acceptor_Bind) (\<lambda>_.
        io_bind (io_check Acceptor_Listen) (\<lambda>_.
        io_bind (io_check Accept) (\<lambda>_.
        io_emit [print_line ''Connection accepted. Exiting...''])))))
       (\<lambda>e. case e of System_Error what ec \<Rightarrow> io_throw e | Std_Exception what \<Rightarrow> io_throw e)"

definition resolveDNS :: "(net_result, unit) io" where
  "resolveDNS = io_bind (io_call (Resolve ''google.com'' ''443'')) (\<lambda>(ec, r).
     if is_error ec then io_emit [Report ''Failed to resolve a DNS name.Error code'' ec]
     else io_emit (map print_line (endpoints r)))"

text \<open>A socket is opened and connected to the address the functions share.\<close>

definition open_and_connect :: "(net_result, unit) io" where
  "open_and_connect =
     io_bind (io_check Socket_Open) (\<lambda>_. io_bind (io_check (Connect ''0.0.0.0:52525'')) (\<lambda>_. io_return ()))"

definition connectToSocket :: "(net_result, unit) io" where
  "connectToSocket = report_system_error ''Error occurred! Error code'' open_and_connect"

definition write_round :: "string \<Rightarrow> nat \<Rightarrow> (net_result, nat + unit) io" where
  "write_round msg bytesSend =
     (if bytesSend \<noteq> length msg
      then io_bind (io_check (Write_Some (drop bytesSend msg))) (\<lambda>r. io_return (Inl (bytesSend + transferred r)))
      else io_return (Inr ()))"

definition write_to_socket :: "(net_result, unit) io" where
  "write_to_socket = io_loop (write_round ''Hello'') 0"

definition writeToSocket :: "(net_result, unit) io" where
  "writeToSocket = report_system_error ''Error occurred! Error code''
     (io_bind open_and_connect (\<lambda>_. write_to_socket))"

definition read_from_socket_all :: "(net_result, string) io" where
  "read_from_socket_all = io_bind (io_check (Read_Some 128)) (\<lambda>r. io_return (bytes r))"

definition read_from_socket_size :: "(net_result, string) io" where
  "read_from_socket_size = io_bind (io_check (Read_Exactly 5)) (\<lambda>r. io_return (bytes r))"

definition read_from_socket_until_delim :: "char \<Rightarrow> (net_result, string) io" where
  "read_from_socket_until_delim delim =
     io_bind (io_check (Read_Until [delim])) (\<lambda>r. io_return (fst (get_line (stream_of (bytes r)))))"

definition writeToSocketAndRead :: "(net_result, unit) io" where
  "writeToSocketAndRead = report_system_error ''Error occurred! Error code''
     (io_bind open_and_connect (\<lambda>_.
      io_bind write_to_socket (\<lambda>_.
      io_bind read_from_socket_all (\<lambda>reply. io_emit [print_line reply]))))"

definition writeToSocketAndReadUntil :: "(net_result, unit) io" where
  "writeToSocketAndReadUntil = report_system_error ''Error occurred! Error code''
     (io_bind open_and_connect (\<lambda>_.
      io_bind write_to_socket (\<lambda>_.
      io_bind (read_from_socket_until_delim (CHR ''|'')) (\<lambda>reply. io_emit [print_line reply]))))"


section \<open>The write loop\<close>

lemma write_round_simps:
  "write_round msg (length msg) cs = ([], cs, Returned (Inr ()))"
  "n \<noteq> length msg \<Longrightarrow> write_round msg n [] = ([Start (Write_Some (drop n msg))], [], Blocked)"
  "n \<noteq> length msg \<Longrightarrow> write_round msg n ((ec, r) # cs) = ([Start (Write_Some (drop n msg))], cs,
     if is_error ec then Thrown (System_Error [] ec) else Returned (Inl (n + transferred r)))"
  by (simp_all add: write_round_def io_simps)

lemma write_round_calls: "calls_each_round (write_round msg)"
  by (rule calls_guardedI [of "\<lambda>n. n \<noteq> length msg"])
    (auto simp: write_round_def intro!: consumes_intros causal_intros)

text \<open>
  The documented behaviour of \<open>write_some\<close> on \<open>k\<close> bytes: it fails, or it takes at least one of them and
  at most all, from the start of the buffer.
\<close>

fun takes_some :: "nat \<Rightarrow> (error_code \<times> net_result) list \<Rightarrow> bool" where
  "takes_some k [] = True"
| "takes_some k ((ec, r) # cs) =
     (k = 0 \<or> is_error ec \<or> (1 \<le> transferred r \<and> transferred r \<le> k \<and> takes_some (k - transferred r) cs))"

text \<open>The bytes the peer gets: of each buffer that was offered, as many as were taken.\<close>

fun taken :: "operation list \<Rightarrow> (error_code \<times> net_result) list \<Rightarrow> string" where
  "taken (Write_Some bs # ops) ((ec, r) # cs) = (if is_error ec then [] else take (transferred r) bs @ taken ops cs)"
| "taken ops cs = []"

lemma write_loop:
  assumes "takes_some (length msg - n) cs" and "n \<le> length msg"
  shows "(let (as, left, res) = io_loop (write_round msg) n cs
    in (res = Returned () \<longrightarrow> taken (started as) cs = drop n msg) \<and>
       prefix (taken (started as) cs) (drop n msg) \<and>
       (res = Blocked \<longrightarrow> length cs < length msg - n))"
  using assms
proof (induction cs arbitrary: n)
  case Nil
  show ?case
    by (subst io_loop_unfold [OF write_round_calls], cases "n = length msg")
      (use Nil.prems in \<open>simp_all add: io_bind.simps write_round_simps io_return_def\<close>)
next
  case (Cons c cs)
  obtain ec r where c: "c = (ec, r)" by (cases c)
  show ?case
  proof (cases "n = length msg")
    case True
    then show ?thesis
      by (subst io_loop_unfold [OF write_round_calls]) (simp add: io_bind.simps write_round_simps io_return_def)
  next
    case False
    note unfold = io_loop_unfold [OF write_round_calls, of msg n "c # cs"]
    show ?thesis
    proof (cases "is_error ec")
      case True
      with False c show ?thesis unfolding unfold by (simp add: io_bind.simps write_round_simps)
    next
      case ok: False
      let ?m = "n + transferred r"
      from Cons.prems False c ok have m: "1 \<le> transferred r" "?m \<le> length msg" "takes_some (length msg - ?m) cs"
        by (auto simp: diff_diff_left)
      have split: "drop n msg = take (transferred r) (drop n msg) @ drop ?m msg"
        by (metis add.commute append_take_drop_id drop_drop)
      obtain as left res where run: "io_loop (write_round msg) ?m cs = (as, left, res)" by (cases "io_loop (write_round msg) ?m cs") auto
      with Cons.IH [OF m(3,2)] have ih: "res = Returned () \<longrightarrow> taken (started as) cs = drop ?m msg"
        "prefix (taken (started as) cs) (drop ?m msg)" "res = Blocked \<longrightarrow> length cs < length msg - ?m" by auto
      have "prefix (take (transferred r) (drop n msg) @ taken (started as) cs) (drop n msg)"
        by (subst (2) split) (simp add: ih(2))
      moreover have "res = Returned () \<Longrightarrow> take (transferred r) (drop n msg) @ taken (started as) cs = drop n msg"
        by (subst (2) split) (simp add: ih(1))
      ultimately show ?thesis unfolding unfold using run False ok c ih(3) m(1)
        by (auto simp: io_bind.simps write_round_simps)
    qed
  qed
qed

text \<open>
  C32: \<open>write_to_socket\<close> copes with short writes: as long as each call that succeeds takes at least one of
  the bytes it was offered, what the peer gets is always a prefix of the message, it is the whole message
  when the function returns, and the function has ended after at most as many calls as the message has
  bytes.
\<close>

theorem write_to_socket_sends_all:
  assumes "takes_some 5 cs"
  shows "(let (as, left, res) = write_to_socket cs
    in (res = Returned () \<longrightarrow> taken (started as) cs = ''Hello'') \<and>
       prefix (taken (started as) cs) ''Hello'' \<and> (res = Blocked \<longrightarrow> length cs < 5))"
proof -
  have hello: "length ''Hello'' = 5" by simp
  from assms show ?thesis
    using write_loop [of "''Hello''" 0 cs] by (simp only: write_to_socket_def hello diff_zero drop_0 le0 simp_thms)
qed

text \<open>Two short writes.\<close>

theorem write_to_socket_sends_all_witness:
  "let cs = map (\<lambda>n. (Success, \<lparr>bytes = [], transferred = n, endpoints = []\<rparr>)) [2, 3];
       (as, left, res) = write_to_socket cs
   in (res = Returned () \<longrightarrow> taken (started as) cs = ''Hello'') \<and>
      prefix (taken (started as) cs) ''Hello'' \<and> (res = Blocked \<longrightarrow> length cs < 5)"
  unfolding Let_def by (rule write_to_socket_sends_all [unfolded Let_def]) simp


section \<open>The daytime clients\<close>

lemma daytime_rounds_agree: "tcp_daytime_client_round = daytime_client_round"
  by (rule ext)+ (simp add: tcp_daytime_client_round_def daytime_client_round_def eq_commute)

lemma daytime_round_simps:
  "daytime_client_round v ((error, r) # cs) =
     (if error = Eof then ([Start (Read_Some 128)], cs, Returned (Inr ()))
      else if is_error error then ([Start (Read_Some 128)], cs, Thrown (System_Error [] error))
      else ([Start (Read_Some 128), Out (bytes r)], cs, Returned (Inl ())))"
  "daytime_client_round v [] = ([Start (Read_Some 128)], [], Blocked)"
  by (simp_all add: daytime_client_round_def io_simps)

lemma daytime_client_round_calls: "calls_each_round daytime_client_round"
  unfolding daytime_client_round_def by (intro calls_eachI consumes_intros causal_intros)

lemma daytime_loop:
  "io_loop daytime_client_round () (map (Pair Success) rs @ [(Eof, r)]) =
     (concat (map (\<lambda>r. [Start (Read_Some 128), Out (bytes r)]) rs) @ [Start (Read_Some 128)], [], Returned ())"
proof (induction rs)
  case Nil
  show ?case
    by (subst io_loop_unfold [OF daytime_client_round_calls]) (simp add: io_bind.simps daytime_round_simps io_return_def)
next
  case (Cons a rs)
  then show ?case
    by (subst io_loop_unfold [OF daytime_client_round_calls]) (simp add: io_bind.simps daytime_round_simps)
qed

lemma printed_reads: "printed (concat (map (\<lambda>r. [Start op, Out (bytes r)]) rs)) = concat (map bytes rs)"
  by (induction rs) simp_all

text \<open>
  both daytime clients print exactly what the server sends, in whatever pieces it arrives, and then
  return: the end of the stream is not an error for them.
\<close>

theorem daytime_clients_print_all:
  "(let (as, left, res) = daytime_client ((Success, a) # (Success, b) # map (Pair Success) rs @ [(Eof, r)])
    in printed as = concat (map bytes rs) \<and> res = Returned () \<and> reports as = []) \<and>
   (let (as, left, res) = tcp_daytime_client ((Success, a) # (Success, b) # map (Pair Success) rs @ [(Eof, r)])
    in printed as = concat (map bytes rs) \<and> res = Returned () \<and> reports as = [])"
proof -
  have "reports (concat (map (\<lambda>r. [Start (Read_Some 128), Out (bytes r)]) rs)) = []"
    by (induction rs) simp_all
  then show ?thesis
    by (simp add: daytime_client_def tcp_daytime_client_def daytime_rounds_agree connect_to_def io_catch_def
        io_simps daytime_loop printed_reads)
qed


section \<open>Where the code does not do what it says\<close>

text \<open>
  \<open>read_from_socket_until_delim\<close> does not stop at its delimiter: it takes the line up to a newline, so
  without one it returns the delimiter too, and whatever came after it in the same packet.
\<close>

theorem until_delim_ignores_delimiter:
  assumes "newline \<notin> set message" and "newline \<notin> set rest" and "delim \<noteq> newline"
  shows "snd (snd (read_from_socket_until_delim delim
      [(Success, \<lparr>bytes = message @ delim # rest, transferred = n, endpoints = es\<rparr>)])) =
    Returned (message @ delim # rest)"
proof -
  have "takeWhile (\<lambda>c. c \<noteq> newline) (message @ delim # rest) = message @ delim # rest"
    using assms by (auto intro: takeWhile_eq_all_conv [THEN iffD2])
  then show ?thesis by (simp add: read_from_socket_until_delim_def io_simps get_line_def Let_def)
qed

theorem until_delim_ignores_delimiter_witness:
  "snd (snd (read_from_socket_until_delim (CHR ''|'')
     [(Success, \<lparr>bytes = ''ab'' @ CHR ''|'' # ''cd'', transferred = 5, endpoints = []\<rparr>)])) =
   Returned (''ab'' @ CHR ''|'' # ''cd'')"
  by (rule until_delim_ignores_delimiter) simp_all

text \<open>
  the \<open>catch\<close> clause of \<open>acceptConnections\<close> catches nothing: the first call that fails makes the
  function throw, and nothing is reported.
\<close>

theorem accept_connections_throws:
  "snd (snd (acceptConnections cs)) = (case find is_error (take 4 (map fst cs)) of
     Some ec \<Rightarrow> Thrown (System_Error [] ec) | None \<Rightarrow> if length cs < 4 then Blocked else Returned ()) \<and>
   reports (fst (acceptConnections cs)) = []"
proof -
  consider "cs = []" | a where "cs = [a]" | a b where "cs = [a, b]" | a b c where "cs = [a, b, c]"
    | a b c d es where "cs = a # b # c # d # es"
    by (metis list.exhaust)
  then show ?thesis
  proof cases
    case 1
    then show ?thesis by (simp add: acceptConnections_def io_catch_def io_simps)
  next
    case 2
    then show ?thesis by (cases a) (simp add: acceptConnections_def io_catch_def io_simps)
  next
    case 3
    then show ?thesis by (cases a; cases b) (simp add: acceptConnections_def io_catch_def io_simps)
  next
    case 4
    then show ?thesis by (cases a; cases b; cases c) (simp add: acceptConnections_def io_catch_def io_simps)
  next
    case 5
    then show ?thesis
      by (cases a; cases b; cases c; cases d) (simp add: acceptConnections_def io_catch_def io_simps)
  qed
qed

end
