(* ===== verification/Echo_Servers.thy ===== *)
theory Echo_Servers
  imports Causal_IO Async_Objects
begin

text \<open>
  The echo servers: \<open>Networking/TCPEchoServerClient.cpp\<close> with completion handlers,
  \<open>Networking/UDPEchoServerClient.cpp\<close>, and the three coroutine servers of
  \<open>Asio/Coroutines/CoroutineApps.cpp\<close>. A payload is the bytes that were read (for a write it is not
  looked at). \<open>log\<close> prints where it is called, a text that the compiler makes: \<open>at\<close> is a parameter.
\<close>

section \<open>\<open>TCPEchoServerClient\<close>\<close>

definition maxLength :: nat where
  "maxLength = 1024"

definition log_at :: "(string \<Rightarrow> string) \<Rightarrow> string \<Rightarrow> string \<Rightarrow> action" where
  "log_at at function message =
     print_line (at function @ (if message = [] then [] else '' | '' @ message))"

datatype echo_handler = Echo_Read | Echo_Written

record echo_connection =
  echo_data :: string
  echo_waiting :: "echo_handler option"

definition echo_make_session :: echo_connection where
  "echo_make_session = \<lparr>echo_data = replicate maxLength (CHR 0x00), echo_waiting = None\<rparr>"

definition echo_do_read :: "(string \<Rightarrow> string) \<Rightarrow> echo_connection \<Rightarrow> echo_connection \<times> action list" where
  "echo_do_read at s =
     (s\<lparr>echo_waiting := Some Echo_Read\<rparr>, [log_at at ''do_read'' [], Start (Read_Some maxLength)])"

definition echo_start :: "(string \<Rightarrow> string) \<Rightarrow> echo_connection \<Rightarrow> echo_connection \<times> action list" where
  "echo_start at s = echo_do_read at s"

definition echo_do_write :: "(string \<Rightarrow> string) \<Rightarrow> nat \<Rightarrow> echo_connection \<Rightarrow> echo_connection \<times> action list" where
  "echo_do_write at n s =
     (s\<lparr>echo_waiting := Some Echo_Written\<rparr>,
      [log_at at ''do_write'' [], Start (Write (take n (echo_data s)))])"

text \<open>The completion handlers: the bytes that were read lie at the start of \<open>data\<close>.\<close>

definition echo_read_handler ::
    "(string \<Rightarrow> string) \<Rightarrow> echo_connection \<Rightarrow> error_code \<Rightarrow> nat \<Rightarrow> echo_connection \<times> action list" where
  "echo_read_handler at s ec n = (if \<not> is_error ec then echo_do_write at n s else (s, []))"

definition echo_write_handler ::
    "(string \<Rightarrow> string) \<Rightarrow> echo_connection \<Rightarrow> error_code \<Rightarrow> echo_connection \<times> action list" where
  "echo_write_handler at s ec = (if \<not> is_error ec then echo_do_read at s else (s, []))"

definition echo_step ::
    "(string \<Rightarrow> string) \<Rightarrow> echo_connection \<Rightarrow> error_code \<times> string \<Rightarrow> echo_connection \<times> action list" where
  "echo_step at s c = (let t = s\<lparr>echo_waiting := None\<rparr> in case echo_waiting s of
     None \<Rightarrow> (s, [])
   | Some Echo_Read \<Rightarrow>
       echo_read_handler at (t\<lparr>echo_data := store_at_start (snd c) (echo_data s)\<rparr>) (fst c) (length (snd c))
   | Some Echo_Written \<Rightarrow> echo_write_handler at t (fst c))"

lemmas echo_defs = echo_step_def echo_read_handler_def echo_write_handler_def echo_do_read_def
  echo_do_write_def echo_start_def log_at_def Let_def

interpretation tcp_echo: echo_session "echo_step at" echo_waiting "\<lambda>h. h = Echo_Read" "\<lambda>s. echo_waiting s = None" for at
  by unfold_locales (auto simp: echo_defs split: echo_handler.splits option.splits if_splits)


subsection \<open>\<open>Server\<close> and \<open>client\<close>\<close>

record echo_server =
  server_waiting :: "unit option"

definition echo_do_accept :: "(string \<Rightarrow> string) \<Rightarrow> echo_server \<Rightarrow> echo_server \<times> action list" where
  "echo_do_accept at sv = (sv\<lparr>server_waiting := Some ()\<rparr>, [log_at at ''do_accept'' [], Start Accept])"

definition echo_make_server :: "(string \<Rightarrow> string) \<Rightarrow> echo_server \<times> action list" where
  "echo_make_server at =
     (let (sv, as) = echo_do_accept at \<lparr>server_waiting = None\<rparr> in (sv, log_at at ''Server'' [] # as))"

definition echo_accept_handler ::
    "(string \<Rightarrow> string) \<Rightarrow> echo_server \<Rightarrow> error_code \<Rightarrow> echo_server \<times> action list" where
  "echo_accept_handler at sv ec =
     (let (sv, as) = echo_do_accept at sv in (sv, (if \<not> is_error ec then [Spawn_Session] else []) @ as))"

definition echo_server_step ::
    "(string \<Rightarrow> string) \<Rightarrow> echo_server \<Rightarrow> error_code \<Rightarrow> echo_server \<times> action list" where
  "echo_server_step at sv ec = (case server_waiting sv of
     None \<Rightarrow> (sv, []) | Some _ \<Rightarrow> echo_accept_handler at (sv\<lparr>server_waiting := None\<rparr>) ec)"

interpretation tcp_echo_server: async_session "echo_server_step at" server_waiting for at
  by unfold_locales
    (auto simp: echo_server_step_def echo_accept_handler_def echo_do_accept_def log_at_def split: option.splits)

definition tcp_client :: "(string, unit) io" where
  "tcp_client =
     io_catch
       (io_bind (io_check (Resolve ''0.0.0.0'' (to_string 52525))) (\<lambda>endpoints.
        io_bind (io_check (Connect endpoints)) (\<lambda>_.
        io_bind (io_check (Write ''TEST_DATA'')) (\<lambda>_.
        io_bind (io_check (Read_Exactly 9)) (\<lambda>reply.
        io_emit [print_line (''Reply is: '' @ reply)])))))
       (\<lambda>e. io_emit [Report_What ''Exception'' e])"


section \<open>\<open>UDPEchoServerClient\<close>\<close>

text \<open>A completed receive delivers a datagram and its sender, which Asio puts into \<open>senderEndpoint\<close>.\<close>

datatype udp_handler = Udp_Received | Udp_Sent

record udp_server =
  udp_data :: string
  senderEndpoint :: string
  udp_waiting :: "udp_handler option"

definition do_receive :: "(string \<Rightarrow> string) \<Rightarrow> udp_server \<Rightarrow> udp_server \<times> action list" where
  "do_receive at s =
     (s\<lparr>udp_waiting := Some Udp_Received\<rparr>, [log_at at ''do_receive'' [], Start (Receive_From maxLength)])"

definition do_send :: "(string \<Rightarrow> string) \<Rightarrow> nat \<Rightarrow> udp_server \<Rightarrow> udp_server \<times> action list" where
  "do_send at n s =
     (s\<lparr>udp_waiting := Some Udp_Sent\<rparr>,
      [log_at at ''do_send'' [], Start (Send_To (take n (udp_data s)) (senderEndpoint s))])"

definition udp_make_server :: "(string \<Rightarrow> string) \<Rightarrow> udp_server \<times> action list" where
  "udp_make_server at =
     (let (s, as) = do_receive at
            \<lparr>udp_data = replicate maxLength (CHR 0x00), senderEndpoint = [], udp_waiting = None\<rparr>
      in (s, log_at at ''ServerAsync'' [] # as))"

definition receive_handler ::
    "(string \<Rightarrow> string) \<Rightarrow> udp_server \<Rightarrow> error_code \<Rightarrow> nat \<Rightarrow> udp_server \<times> action list" where
  "receive_handler at s ec bytesReceived =
     (let (s', as) = (if \<not> is_error ec \<and> bytesReceived > 0 then do_send at bytesReceived s
                      else let (s', as) = do_receive at s in (s', log_at at ''operator()'' [] # as))
      in (s', log_at at ''operator()'' (to_string bytesReceived @ '' bytes received'') # as))"

definition udp_step ::
    "(string \<Rightarrow> string) \<Rightarrow> udp_server \<Rightarrow> error_code \<times> string \<times> string \<Rightarrow> udp_server \<times> action list" where
  "udp_step at s c = (case c of (ec, datagram, sender) \<Rightarrow>
     let t = s\<lparr>udp_waiting := None\<rparr> in case udp_waiting s of
       None \<Rightarrow> (s, [])
     | Some Udp_Received \<Rightarrow>
         receive_handler at (t\<lparr>udp_data := store_at_start datagram (udp_data s), senderEndpoint := sender\<rparr>)
           ec (length datagram)
     | Some Udp_Sent \<Rightarrow> do_receive at t)"

lemmas udp_defs = udp_step_def receive_handler_def do_receive_def do_send_def log_at_def Let_def

interpretation udp_echo: async_session "udp_step at" udp_waiting for at
  by unfold_locales (auto simp: udp_defs split: udp_handler.splits option.splits if_splits)

definition udp_client :: "(string, unit) io" where
  "udp_client =
     io_catch
       (io_bind (io_check (Resolve ''0.0.0.0'' (to_string 52525))) (\<lambda>endpoint.
        io_bind (io_check (Send_To ''TEST_DATA'' endpoint)) (\<lambda>_.
        io_bind (io_check (Receive_From maxLength)) (\<lambda>reply.
        io_emit [print_line (''Reply is: '' @ reply)]))))
       (\<lambda>e. io_emit [Report_What ''Exception'' e])"


section \<open>\<open>CoroutineApps\<close>\<close>

text \<open>
  One round of the echo loops: \<open>async_read_some\<close> into a buffer of \<open>n\<close> bytes, what the code prints, and
  \<open>async_write\<close> of the bytes that were read.
\<close>

definition echo_round :: "nat \<Rightarrow> (string \<Rightarrow> action list) \<Rightarrow> unit \<Rightarrow> (string, unit + unit) io" where
  "echo_round n prints v =
     io_bind (io_check (Read_Some n)) (\<lambda>bytes.
     io_seq (io_emit (prints bytes))
    (io_bind (io_check (Write bytes)) (\<lambda>_. io_return (Inl ()))))"

subsection \<open>\<open>AcceptServer\<close>\<close>

definition accept_server_echo :: "(string, unit) io" where
  "accept_server_echo =
     io_seq (io_emit [print_line ''echo entered''])
       (io_catch (io_loop (echo_round 1024 (\<lambda>_. [])) ()) (\<lambda>e. io_emit [Report_What ''echo Exception'' e]))"

text \<open>\<open>Test\<close>: accepts for ever; \<open>Spawn_Session\<close> is \<open>co_spawn\<close>, which only queues the coroutine.\<close>

definition accept_server_round :: "unit \<Rightarrow> (string, unit + unit) io" where
  "accept_server_round v = io_bind (io_check Accept) (\<lambda>_.
     io_seq (io_emit [print_line ''Client connected'', Spawn_Session]) (io_return (Inl ())))"

definition accept_server_Test :: "(string, unit) io" where
  "accept_server_Test =
     io_bind (io_check (Acceptor_Construct ''0.0.0.0'' 52525)) (\<lambda>_.
     io_seq (io_emit [print_line (''Server running at: 0.0.0.0:'' @ to_string 52525)])
       (io_loop accept_server_round ()))"

subsection \<open>\<open>EchoServer_One\<close>\<close>

definition report_error :: "string \<Rightarrow> error_code \<Rightarrow> action list" where
  "report_error component ec = [Report (component @ '' failure'') ec]"

text \<open>A \<open>catch\<close> clause for \<open>system_error\<close> only: another exception goes on.\<close>

definition catch_system_error :: "(string, unit) io \<Rightarrow> (error_code \<Rightarrow> action list) \<Rightarrow> (string, unit) io" where
  "catch_system_error m h = io_catch m (\<lambda>e. case e of
     System_Error what ec \<Rightarrow> io_emit (h ec) | Std_Exception what \<Rightarrow> io_throw e)"

definition echo_one_session :: "(string, unit) io" where
  "echo_one_session =
     catch_system_error
       (io_loop (echo_round 1024 (\<lambda>bytes. [print_line (''session: '' @ to_string (length bytes) @ '' bytes read'')])) ())
       (\<lambda>ec. if ec = Eof then [Err (''Session done '' @ [CHR 0x0A])] else report_error ''Session'' ec)"

definition accept_round :: "unit \<Rightarrow> (string, unit + unit) io" where
  "accept_round v = io_bind (io_check Accept) (\<lambda>_. io_seq (io_emit [Spawn_Session]) (io_return (Inl ())))"

definition echo_one_listener :: "nat \<Rightarrow> (string, unit) io" where
  "echo_one_listener port =
     io_bind (io_check (Acceptor_Construct ''0.0.0.0'' port)) (\<lambda>_.
       catch_system_error (io_loop accept_round ()) (report_error ''Listener''))"

subsection \<open>\<open>EchoServer_Refactor\<close>\<close>

definition echo_once :: "(string, unit) io" where
  "echo_once =
     io_bind (io_check (Read_Some 128)) (\<lambda>bytes.
     io_seq (io_emit [print_line (to_string (length bytes) @ '' bytes received'')])
    (io_bind (io_check (Write bytes)) (\<lambda>_. io_return ())))"

definition refactor_echo :: "(string, unit) io" where
  "refactor_echo =
     io_catch (io_loop (\<lambda>_. io_bind echo_once (\<lambda>_. io_return (Inl ()))) ())
       (\<lambda>exc. io_emit [Report_What ''echo Exception'' exc])"

definition refactor_listener :: "(string, unit) io" where
  "refactor_listener =
     io_bind (io_check (Acceptor_Construct ''0.0.0.0'' 52525)) (\<lambda>_. io_loop accept_round ())"


section \<open>The echo loops\<close>

lemma echo_round_simps:
  "echo_round n prints v [] = ([Start (Read_Some n)], [], Blocked)"
  "echo_round n prints v ((ec, d) # cs) =
     (if is_error ec then ([Start (Read_Some n)], cs, Thrown (System_Error [] ec))
      else case cs of
        [] \<Rightarrow> (Start (Read_Some n) # prints d @ [Start (Write d)], [], Blocked)
      | (ec', _) # cs' \<Rightarrow> (Start (Read_Some n) # prints d @ [Start (Write d)], cs',
          if is_error ec' then Thrown (System_Error [] ec') else Returned (Inl ())))"
  by (auto simp: echo_round_def io_simps split: list.split prod.split)

lemma echo_round_calls: "calls_each_round (echo_round n prints)"
  unfolding echo_round_def by (intro calls_eachI consumes_intros causal_intros)

definition first_error :: "(error_code \<times> 'a) list \<Rightarrow> 'b outcome" where
  "first_error cs = (case find is_error (map fst cs) of
     None \<Rightarrow> Blocked | Some ec \<Rightarrow> Thrown (System_Error [] ec))"

text \<open>The loop writes back what it reads and ends with the first error.\<close>

lemma echo_loop:
  assumes "\<And>d. written (prints d) = []"
  shows "written (fst (io_loop (echo_round n prints) () cs)) = echoed True cs \<and>
    snd (snd (io_loop (echo_round n prints) () cs)) = first_error cs"
proof (induction "length cs" arbitrary: cs rule: less_induct)
  case less
  have unfold: "io_loop (echo_round n prints) () cs = io_bind (echo_round n prints ())
      (\<lambda>r. case r of Inl v' \<Rightarrow> io_loop (echo_round n prints) v' | Inr a \<Rightarrow> io_return a) cs"
    by (rule io_loop_unfold [OF echo_round_calls])
  show ?case
  proof (cases cs)
    case Nil
    then show ?thesis unfolding unfold by (simp add: io_bind.simps echo_round_simps first_error_def)
  next
    case (Cons c cs')
    obtain ec d where c: "c = (ec, d)" by (cases c)
    show ?thesis
    proof (cases cs')
      case Nil
      then show ?thesis unfolding unfold using Cons c assms
        by (simp add: io_bind.simps echo_round_simps first_error_def)
    next
      case (Cons c' cs'')
      with less [of cs''] show ?thesis unfolding unfold using \<open>cs = c # cs'\<close> c assms
        by (cases c') (auto simp: io_bind.simps echo_round_simps first_error_def split: prod.split)
    qed
  qed
qed

lemma io_catch_parts:
  "fst (io_catch m h cs) = fst (m cs) @ (case snd (snd (m cs)) of
     Thrown e \<Rightarrow> fst (h e (fst (snd (m cs)))) | _ \<Rightarrow> [])"
  by (simp add: io_catch_def split: prod.split outcome.split)

lemma echo_once_is_echo_round:
  "io_bind echo_once (\<lambda>_. io_return (Inl ())) =
     echo_round 128 (\<lambda>bytes. [print_line (to_string (length bytes) @ '' bytes received'')]) ()"
proof (rule ext)
  fix cs :: "string script"
  show "io_bind echo_once (\<lambda>_. io_return (Inl ())) cs =
      echo_round 128 (\<lambda>bytes. [print_line (to_string (length bytes) @ '' bytes received'')]) () cs"
    by (cases cs; cases "tl cs") (auto simp: echo_once_def echo_round_def io_simps)
qed


section \<open>Properties\<close>

text \<open>
  the TCP session with completion handlers is a correct echo server: whatever completes, it writes
  back exactly the chunks it reads, unchanged and in order, one write for each read, and stops at the
  first failed read or write.
\<close>

theorem tcp_session_echoes:
  "(let (s, as) = echo_start at echo_make_session
    in written (as @ snd (deliver (echo_step at) s cs)) = echoed True cs)"
  using tcp_echo.written_echoed [of "fst (echo_start at echo_make_session)" Echo_Read at cs]
  by (simp add: echo_start_def echo_do_read_def log_at_def split: prod.split)

text \<open>
  C24: the three coroutine servers are equivalent to it and to each other: on every sequence of results each
  of them writes exactly what the session with completion handlers writes, although they differ in their
  buffers, in what they print and in how they are split into functions.
\<close>

theorem coroutine_servers_echo:
  "written (fst (accept_server_echo cs)) = echoed True cs \<and>
   written (fst (echo_one_session cs)) = echoed True cs \<and>
   written (fst (refactor_echo cs)) = echoed True cs"
proof (intro conjI)
  show "written (fst (accept_server_echo cs)) = echoed True cs"
    using echo_loop [of "\<lambda>_. []" 1024 cs]
    by (auto simp: accept_server_echo_def io_seq_emit io_catch_parts io_emit_def split: outcome.split)
  show "written (fst (echo_one_session cs)) = echoed True cs"
    using echo_loop [of "\<lambda>bytes. [print_line (''session: '' @ to_string (length bytes) @ '' bytes read'')]" 1024 cs]
    by (auto simp: echo_one_session_def catch_system_error_def io_catch_parts io_emit_def io_throw_def
        report_error_def split: outcome.split exn.split)
  show "written (fst (refactor_echo cs)) = echoed True cs"
    using echo_loop [of "\<lambda>bytes. [print_line (to_string (length bytes) @ '' bytes received'')]" 128 cs]
    by (auto simp: refactor_echo_def echo_once_is_echo_round io_catch_parts io_emit_def split: outcome.split)
qed

lemma echo_round_reports:
  assumes "\<And>d. reports (prints d) = []"
  shows "reports (fst (io_loop (echo_round n prints) () cs)) = []"
proof (induction "length cs" arbitrary: cs rule: less_induct)
  case less
  have unfold: "io_loop (echo_round n prints) () cs = io_bind (echo_round n prints ())
      (\<lambda>r. case r of Inl v' \<Rightarrow> io_loop (echo_round n prints) v' | Inr a \<Rightarrow> io_return a) cs"
    by (rule io_loop_unfold [OF echo_round_calls])
  consider "cs = []" | c where "cs = [c]" | c c' cs' where "cs = c # c' # cs'"
    by (metis list.exhaust)
  then show ?case
  proof cases
    case 3
    with less [of cs'] show ?thesis unfolding unfold using assms
      by (cases c; cases c') (auto simp: io_bind.simps echo_round_simps split: prod.split)
  next
    case 1
    then show ?thesis unfolding unfold by (simp add: io_bind.simps echo_round_simps)
  next
    case 2
    then show ?thesis unfolding unfold using assms
      by (cases c) (auto simp: io_bind.simps echo_round_simps split: prod.split)
  qed
qed

text \<open>
  \<open>EchoServer_One::session\<close> ends quietly when the peer closes the connection, and reports any other
  error, exactly once; while there is no error it goes on.
\<close>

theorem session_reports_only_failures:
  "reports (fst (echo_one_session cs)) = (case find is_error (map fst cs) of
     Some ec \<Rightarrow> if ec = Eof then [] else [(''Session failure'', ec)] | None \<Rightarrow> [])"
  using echo_loop [of "\<lambda>bytes. [print_line (''session: '' @ to_string (length bytes) @ '' bytes read'')]" 1024 cs]
    echo_round_reports [of "\<lambda>bytes. [print_line (''session: '' @ to_string (length bytes) @ '' bytes read'')]" 1024 cs]
  by (auto simp: echo_one_session_def catch_system_error_def io_catch_parts io_emit_def io_throw_def
      first_error_def report_error_def split: option.split)

text \<open>What a UDP echo server has to send: each datagram that arrived and is not empty, to its sender.\<close>

fun udp_replies :: "bool \<Rightarrow> (error_code \<times> string \<times> string) list \<Rightarrow> (string \<times> string) list" where
  "udp_replies receiving [] = []"
| "udp_replies True ((ec, d, sender) # cs) =
     (if \<not> is_error ec \<and> d \<noteq> [] then (d, sender) # udp_replies False cs else udp_replies True cs)"
| "udp_replies False (c # cs) = udp_replies True cs"

fun sent_to :: "action list \<Rightarrow> (string \<times> string) list" where
  "sent_to [] = []"
| "sent_to (Start (Send_To d endpoint) # as) = (d, endpoint) # sent_to as"
| "sent_to (a # as) = sent_to as"

lemma sent_to_append [simp]: "sent_to (as @ bs) = sent_to as @ sent_to bs"
  by (induction as rule: sent_to.induct) auto

lemma sent_to_print_line [simp]: "sent_to (print_line t # as) = sent_to as"
  by (simp add: print_line_def)

lemma udp_deliver:
  "udp_waiting s = Some h \<Longrightarrow>
     sent_to (snd (deliver (udp_step at) s cs)) = udp_replies (h = Udp_Received) cs \<and>
     length (started (snd (deliver (udp_step at) s cs))) = length cs"
proof (induction cs arbitrary: s h)
  case Nil
  then show ?case by simp
next
  case (Cons c cs)
  obtain ec d sender where c: "c = (ec, d, sender)" by (cases c)
  show ?case
  proof (cases h)
    case Udp_Received
    show ?thesis
    proof (cases "\<not> is_error ec \<and> d \<noteq> []")
      case True
      with Udp_Received Cons.prems c show ?thesis
        using Cons.IH [of "fst (udp_step at s c)" Udp_Sent]
        by (auto simp: deliver_Cons udp_defs simp del: deliver.simps(2))
    next
      case False
      with Udp_Received Cons.prems c show ?thesis
        using Cons.IH [of "fst (udp_step at s c)" Udp_Received]
        by (auto simp: deliver_Cons udp_defs simp del: deliver.simps(2))
    qed
  next
    case Udp_Sent
    with Cons.prems c show ?thesis
      using Cons.IH [of "fst (udp_step at s c)" Udp_Received]
      by (auto simp: deliver_Cons udp_defs simp del: deliver.simps(2))
  qed
qed

text \<open>
  the UDP server answers every datagram that arrives without an error and is not empty, unchanged and
  to its sender, and no other; and no error stops it: after any completions the next operation is in
  flight.
\<close>

theorem udp_server_answers_each_datagram:
  "(let (s, as) = udp_make_server at; bs = snd (deliver (udp_step at) s cs)
    in sent_to (as @ bs) = udp_replies True cs \<and> length (started (as @ bs)) = Suc (length cs))"
  using udp_deliver [of "fst (udp_make_server at)" Udp_Received at cs]
  by (simp add: udp_make_server_def do_receive_def log_at_def Let_def split: prod.split)

end
