(* ===== verification/Ssl_Servers.thy ===== *)
theory Ssl_Servers
  imports Causal_IO Async_Objects
begin

text \<open>
  \<open>Networking/SSL_TCPServer.cpp\<close>: the asynchronous TLS echo server \<open>SSL1\<close> and the blocking server
  \<open>SSL2\<close>. A payload is the bytes that were read.
\<close>

section \<open>\<open>SSL1::session\<close>\<close>

definition max_length :: nat where
  "max_length = 1024"

text \<open>
  \<open>In_Destructor\<close>: \<open>delete this\<close> runs the destructor, which waits for the blocking \<open>socket.shutdown()\<close>.
\<close>

datatype ssl_handler = Handle_Handshake | Handle_Read | Handle_Write | In_Destructor

record ssl_session =
  ssl_data :: string
  ssl_waiting :: "ssl_handler option"

definition ssl_new_session :: ssl_session where
  "ssl_new_session = \<lparr>ssl_data = replicate max_length (CHR 0x00), ssl_waiting = None\<rparr>"

definition ssl_start :: "ssl_session \<Rightarrow> ssl_session \<times> action list" where
  "ssl_start s = (s\<lparr>ssl_waiting := Some Handle_Handshake\<rparr>, [Start Tls_Handshake])"

definition delete_session :: "ssl_session \<Rightarrow> ssl_session \<times> action list" where
  "delete_session s = (s\<lparr>ssl_waiting := Some In_Destructor\<rparr>, [Start Tls_Shutdown])"

text \<open>\<open>shutdown\<close> throws an error, and no exception may leave a destructor.\<close>

definition destructor_returns :: "error_code \<Rightarrow> action list" where
  "destructor_returns ec = (if is_error ec then [Terminated] else [])"

definition handle_handshake :: "ssl_session \<Rightarrow> error_code \<Rightarrow> ssl_session \<times> action list" where
  "handle_handshake s ec =
     (if \<not> is_error ec then (s\<lparr>ssl_waiting := Some Handle_Read\<rparr>, [Start (Read_Some max_length)])
      else delete_session s)"

definition handle_read :: "ssl_session \<Rightarrow> error_code \<Rightarrow> nat \<Rightarrow> ssl_session \<times> action list" where
  "handle_read s ec bytes_transferred =
     (if \<not> is_error ec
      then (s\<lparr>ssl_waiting := Some Handle_Write\<rparr>,
        [print_line (''read: '' @ take bytes_transferred (ssl_data s)),
         Start (Write (take bytes_transferred (ssl_data s)))])
      else delete_session s)"

definition handle_write :: "ssl_session \<Rightarrow> error_code \<Rightarrow> ssl_session \<times> action list" where
  "handle_write s ec =
     (if \<not> is_error ec then (s\<lparr>ssl_waiting := Some Handle_Read\<rparr>, [Start (Read_Some max_length)])
      else delete_session s)"

definition ssl_step :: "ssl_session \<Rightarrow> error_code \<times> string \<Rightarrow> ssl_session \<times> action list" where
  "ssl_step s c = (let t = s\<lparr>ssl_waiting := None\<rparr> in case ssl_waiting s of
     None \<Rightarrow> (s, [])
   | Some Handle_Handshake \<Rightarrow> handle_handshake t (fst c)
   | Some Handle_Read \<Rightarrow>
       handle_read (t\<lparr>ssl_data := store_at_start (snd c) (ssl_data s)\<rparr>) (fst c) (length (snd c))
   | Some Handle_Write \<Rightarrow> handle_write t (fst c)
   | Some In_Destructor \<Rightarrow> (t, destructor_returns (fst c)))"

lemmas ssl_defs = ssl_step_def handle_handshake_def handle_read_def handle_write_def delete_session_def
  destructor_returns_def Let_def

text \<open>The session is over when it has been deleted or its destructor runs.\<close>

definition ssl_over :: "ssl_session \<Rightarrow> bool" where
  "ssl_over s \<longleftrightarrow> ssl_waiting s = None \<or> ssl_waiting s = Some In_Destructor"

text \<open>A completed handshake is followed by a read, like a completed write.\<close>

interpretation ssl_echo: echo_session ssl_step ssl_waiting "\<lambda>h. h = Handle_Read" ssl_over
  by unfold_locales (auto simp: ssl_defs ssl_over_def split: ssl_handler.splits option.splits if_splits)


section \<open>\<open>SSL1::server\<close>\<close>

text \<open>A session is made for each accept; when the accept fails it is deleted before the next one.\<close>

datatype ssl_server_handler = Handle_Accept | Deleting_Session

record ssl_server =
  sv_waiting :: "ssl_server_handler option"

definition get_password :: string where
  "get_password = ''test''"

definition start_accept :: "ssl_server \<Rightarrow> ssl_server \<times> action list" where
  "start_accept sv = (sv\<lparr>sv_waiting := Some Handle_Accept\<rparr>, [Start Accept])"

definition make_ssl_server :: "ssl_server \<times> action list" where
  "make_ssl_server = start_accept \<lparr>sv_waiting = None\<rparr>"

definition handle_accept :: "ssl_server \<Rightarrow> error_code \<Rightarrow> ssl_server \<times> action list" where
  "handle_accept sv ec =
     (if \<not> is_error ec then let (sv, as) = start_accept sv in (sv, Spawn_Session # as)
      else (sv\<lparr>sv_waiting := Some Deleting_Session\<rparr>, [Start Tls_Shutdown]))"

definition after_delete :: "ssl_server \<Rightarrow> error_code \<Rightarrow> ssl_server \<times> action list" where
  "after_delete sv ec = (if is_error ec then (sv, destructor_returns ec) else start_accept sv)"

definition ssl_server_step :: "ssl_server \<Rightarrow> error_code \<Rightarrow> ssl_server \<times> action list" where
  "ssl_server_step sv ec = (let t = sv\<lparr>sv_waiting := None\<rparr> in case sv_waiting sv of
     None \<Rightarrow> (sv, [])
   | Some Handle_Accept \<Rightarrow> handle_accept t ec
   | Some Deleting_Session \<Rightarrow> after_delete t ec)"

lemmas ssl_server_defs = ssl_server_step_def handle_accept_def after_delete_def start_accept_def
  make_ssl_server_def destructor_returns_def Let_def

interpretation ssl_acceptor: async_session ssl_server_step sv_waiting
  by unfold_locales (auto simp: ssl_server_defs split: ssl_server_handler.splits option.splits if_splits)


section \<open>\<open>SSL2\<close>\<close>

text \<open>\<open>Service::handle_client\<close>; the half second of simulated work has no effect in the model.\<close>

definition handle_client :: "(string, unit) io" where
  "handle_client =
     io_catch
       (io_bind (io_check Tls_Handshake) (\<lambda>_.
        io_bind (io_check (Read_Until [CHR 0x0A])) (\<lambda>_.
        io_bind (io_check (Write (''Response'' @ [CHR 0x0A]))) (\<lambda>_. io_return ()))))
       (\<lambda>e. case e of
          System_Error what ec \<Rightarrow> io_emit [Report ''Error occured! Error code'' ec]
        | Std_Exception what \<Rightarrow> io_throw e)"

definition getPassword :: string where
  "getPassword = ''pass''"

text \<open>\<open>Acceptor::accept\<close>: one client is accepted and served.\<close>

definition acceptor_accept :: "(string, unit) io" where
  "acceptor_accept = io_bind (io_check Accept) (\<lambda>_. handle_client)"

text \<open>
  The constructor: it opens the port, sets up the TLS context and listens. Each of these calls can throw; the error of the
  first that does is the one of the construction.
\<close>

definition make_acceptor :: "nat \<Rightarrow> (string, string) io" where
  [simp]: "make_acceptor port_num = io_check (Acceptor_Construct ''0.0.0.0'' port_num)"

text \<open>\<open>Server::run\<close>: \<open>m_stop n\<close> is what the \<open>n\<close>th load of the atomic flag gives.\<close>

definition server_round :: "(nat \<Rightarrow> bool) \<Rightarrow> nat \<Rightarrow> (string, nat + unit) io" where
  "server_round m_stop n =
     (if \<not> m_stop n then io_bind acceptor_accept (\<lambda>_. io_return (Inl (Suc n))) else io_return (Inr ()))"

definition server_run :: "(nat \<Rightarrow> bool) \<Rightarrow> nat \<Rightarrow> (string, unit) io" where
  "server_run m_stop port_num =
     io_bind (make_acceptor port_num) (\<lambda>_. io_loop (server_round m_stop) 0)"


section \<open>Properties of \<open>SSL1\<close>\<close>

text \<open>
  the TLS session is a correct echo server: after a successful handshake it writes back exactly the
  chunks it reads, unchanged and in order, until the first error; without one it writes nothing.
\<close>

theorem ssl_session_echoes:
  "(let (s, as) = ssl_start ssl_new_session
    in written (as @ snd (deliver ssl_step s (c # cs))) = (if is_error (fst c) then [] else echoed True cs))"
proof -
  have w: "ssl_waiting (fst (ssl_start ssl_new_session)) = Some Handle_Handshake"
    by (simp add: ssl_start_def)
  then have "\<not> ssl_over (fst (ssl_start ssl_new_session))" by (simp add: ssl_over_def)
  from ssl_echo.written_echoed [OF w this, of "c # cs"] show ?thesis
    by (cases c) (simp add: ssl_start_def split: prod.splits if_splits del: deliver.simps(2))
qed

text \<open>The first error is followed by a second one, that of the \<open>shutdown\<close> in the destructor.\<close>

fun shutdown_fails :: "(error_code \<times> 'a) list \<Rightarrow> bool" where
  "shutdown_fails [] = False"
| "shutdown_fails ((ec, d) # cs) =
     (if is_error ec then cs \<noteq> [] \<and> is_error (fst (hd cs)) else shutdown_fails cs)"

lemma Terminated_print_line: "Terminated \<noteq> print_line t"
  by (simp add: print_line_def)

lemma ssl_step_destructor:
  "ssl_waiting s = Some In_Destructor \<Longrightarrow> ssl_step s c = (s\<lparr>ssl_waiting := None\<rparr>, destructor_returns (fst c))"
  by (simp add: ssl_step_def Let_def)

lemma terminated_deliver:
  "ssl_waiting s = Some h \<Longrightarrow> \<not> ssl_over s \<Longrightarrow>
     Terminated \<in> set (snd (deliver ssl_step s cs)) \<longleftrightarrow> shutdown_fails cs"
proof (induction cs arbitrary: s h)
  case Nil
  then show ?case by simp
next
  case (Cons c cs)
  obtain ec d where c: "c = (ec, d)" by (cases c)
  show ?case
  proof (cases "is_error ec")
    case True
    then have "snd (ssl_step s c) = [Start Tls_Shutdown] \<and> ssl_waiting (fst (ssl_step s c)) = Some In_Destructor"
      using Cons.prems c by (cases h) (auto simp: ssl_defs ssl_over_def)
    then show ?thesis using True c
      by (cases cs) (auto simp: deliver_Cons ssl_step_destructor destructor_returns_def ssl_echo.deliver_idle
          simp del: deliver.simps(2))
  next
    case False
    with Cons.prems c obtain k where "ssl_waiting (fst (ssl_step s c)) = Some k" "\<not> ssl_over (fst (ssl_step s c))"
      "Terminated \<notin> set (snd (ssl_step s c))"
      by (cases h) (auto simp: ssl_defs ssl_over_def Terminated_print_line)
    with Cons.IH [of "fst (ssl_step s c)" k] False c show ?thesis
      by (simp add: deliver_Cons del: deliver.simps(2))
  qed
qed



section \<open>Stopping \<open>SSL2\<close>\<close>

abbreviation accepts :: "action list \<Rightarrow> nat" where
  "accepts as \<equiv> length (filter (\<lambda>op. op = Accept) (started as))"

lemma handle_client_trace:
  "accepts (fst (handle_client cs)) = 0 \<and> length (fst (snd (handle_client cs))) \<le> length cs"
proof -
  consider "cs = []" | c where "cs = [c]" | c d where "cs = [c, d]" | c d e es where "cs = c # d # e # es"
    by (metis list.exhaust)
  then show ?thesis
  proof cases
    case 4
    then show ?thesis by (cases c; cases d; cases e) (simp add: handle_client_def io_catch_def io_simps)
  next
    case 3
    then show ?thesis by (cases c; cases d) (simp add: handle_client_def io_catch_def io_simps)
  next
    case 2
    then show ?thesis by (cases c) (simp add: handle_client_def io_catch_def io_simps)
  qed (simp add: handle_client_def io_catch_def io_simps)
qed

lemma server_round_simps:
  "m_stop n \<Longrightarrow> server_round m_stop n cs = ([], cs, Returned (Inr ()))"
  "\<not> m_stop n \<Longrightarrow> server_round m_stop n [] = ([Start Accept], [], Blocked)"
  "\<not> m_stop n \<Longrightarrow> server_round m_stop n ((ec, p) # cs) =
     (if is_error ec then ([Start Accept], cs, Thrown (System_Error [] ec))
      else (Start Accept # fst (handle_client cs), fst (snd (handle_client cs)),
        (case snd (snd (handle_client cs)) of Returned _ \<Rightarrow> Returned (Inl (Suc n)) | Thrown e \<Rightarrow> Thrown e | Blocked \<Rightarrow> Blocked)))"
  by (auto simp: server_round_def acceptor_accept_def io_simps io_bind.simps split: prod.split outcome.split)

lemma server_round_calls: "calls_each_round (server_round m_stop)"
  by (rule calls_guardedI [of "\<lambda>n. \<not> m_stop n"])
    (auto simp: server_round_def acceptor_accept_def handle_client_def intro!: consumes_intros causal_intros)

lemma server_loop_accepts:
  assumes "m_stop n" and "k \<le> n"
  shows "accepts (fst (io_loop (server_round m_stop) k cs)) \<le> n - k"
  using assms(2)
proof (induction "length cs" arbitrary: cs k rule: less_induct)
  case less
  have unfold: "io_loop (server_round m_stop) k cs = io_bind (server_round m_stop k)
      (\<lambda>r. case r of Inl v' \<Rightarrow> io_loop (server_round m_stop) v' | Inr a \<Rightarrow> io_return a) cs"
    by (rule io_loop_unfold [OF server_round_calls])
  show ?case
  proof (cases "m_stop k")
    case True
    then show ?thesis unfolding unfold by (simp add: io_bind.simps server_round_simps io_return_def)
  next
    case False
    with assms(1) less.prems have "Suc k \<le> n" by (metis not_less_eq_eq le_antisym)
    show ?thesis
    proof (cases cs)
      case Nil
      with False \<open>Suc k \<le> n\<close> show ?thesis unfolding unfold by (simp add: io_bind.simps server_round_simps)
    next
      case (Cons c cs')
      then obtain ec p where c: "cs = (ec, p) # cs'" by (cases c) simp
      have "length (fst (snd (handle_client cs'))) < length cs" using handle_client_trace [of cs'] c by simp
      from less.hyps [OF this \<open>Suc k \<le> n\<close>] handle_client_trace [of cs'] False c \<open>Suc k \<le> n\<close>
      show ?thesis unfolding unfold
        by (auto simp: io_bind.simps server_round_simps split: prod.split outcome.split)
    qed
  qed
qed

text \<open>
  \<open>stop\<close> takes effect at the next check of the flag: when the flag is seen set at check \<open>n\<close>, the
  server has accepted at most \<open>n\<close> clients, whatever they do; each is served before the next is accepted.
\<close>

theorem stop_bounds_accepts:
  assumes "m_stop n"
  shows "accepts (fst (server_run m_stop port_num cs)) \<le> n"
  using server_loop_accepts [of m_stop n 0] assms by (cases cs) (auto simp: server_run_def io_simps)

theorem stop_bounds_accepts_witness:
  "accepts (fst (server_run (\<lambda>n. n = 1) 8443
     [(Success, []), (Success, []), (Success, []), (Success, ''q''), (Success, []), (Success, [])])) \<le> 1"
  by (rule stop_bounds_accepts [where m_stop = "\<lambda>n. n = 1"]) simp

end
