(* ===== verification/Hello_Servers.thy ===== *)
theory Hello_Servers
  imports Causal_IO
begin

text \<open>
  The blocking HTTP servers \<open>Beast/http/HTTPServer.cpp\<close> and \<open>Networking/HTTPServer.cpp\<close>: one connection
  at a time, one request for each, always the same answer.
\<close>

section \<open>\<open>handleRequest\<close>\<close>

text \<open>A response that sets nothing else: \<open>keep_alive()\<close> is then the default of its version.\<close>

definition handleRequest :: "request \<Rightarrow> (request, unit) io" where
  "handleRequest q =
     (let response =
        \<lparr>r_status = 200, r_version = q_version q,
          r_fields = set_field Content_Type ''text/plain'' (set_field Server ''My HTTP Server'' []),
          r_keep_alive = (11 \<le> q_version q),
          r_body = String_Body ''Hello, World!'', r_content_length = Some (length ''Hello, World!'')\<rparr>
      in io_bind (io_check (Write_Response response)) (\<lambda>_. io_return ()))"

definition net_handleRequest :: "request \<Rightarrow> (request, unit) io" where
  "net_handleRequest q =
     (let response =
        \<lparr>r_status = 200, r_version = q_version q,
          r_fields = set_field Content_Type ''text/plain'' (set_field Server ''My HTTP Server'' []),
          r_keep_alive = (11 \<le> q_version q),
          r_body = String_Body ''Hello, World!'', r_content_length = Some (length ''Hello, World!'')\<rparr>
      in io_bind (io_check (Write_Response response)) (\<lambda>_. io_return ()))"


section \<open>\<open>runServer\<close> and \<open>start\<close>\<close>

definition serve_round :: "(request \<Rightarrow> (request, unit) io) \<Rightarrow> unit \<Rightarrow> (request, unit + unit) io" where
  "serve_round handle v =
     io_bind (io_check Accept) (\<lambda>_.
     io_bind (io_check Read_Message) (\<lambda>request.
     io_bind (handle request) (\<lambda>_.
     io_bind (io_check Socket_Shutdown_Send) (\<lambda>_. io_return (Inl ())))))"

definition runServer :: "(request, unit) io" where
  "runServer = io_bind (io_check (Acceptor_Construct ''0.0.0.0'' 52525)) (\<lambda>_. io_loop (serve_round handleRequest) ())"

definition net_runServer :: "(request, unit) io" where
  "net_runServer = io_bind (io_check (Acceptor_Construct ''0.0.0.0'' 8080)) (\<lambda>_. io_loop (serve_round net_handleRequest) ())"

definition start_server :: "(request, unit) io" where
  "start_server = io_catch runServer (\<lambda>e. io_emit [Report_What ''Exception'' e])"

definition net_start_server :: "(request, unit) io" where
  "net_start_server = io_catch net_runServer (\<lambda>e. io_emit [Report_What ''Exception'' e])"


section \<open>What the servers do\<close>

definition hello :: "request \<Rightarrow> response" where
  "hello q = \<lparr>r_status = 200, r_version = q_version q,
     r_fields = [(Server, ''My HTTP Server''), (Content_Type, ''text/plain'')],
     r_keep_alive = (11 \<le> q_version q), r_body = String_Body ''Hello, World!'', r_content_length = Some 13\<rparr>"

lemma handleRequest_hello:
  "handleRequest q = io_bind (io_check (Write_Response (hello q))) (\<lambda>_. io_return ())"
  "net_handleRequest q = io_bind (io_check (Write_Response (hello q))) (\<lambda>_. io_return ())"
  by (simp_all add: handleRequest_def net_handleRequest_def hello_def set_field_def numeral_eq_Suc)

text \<open>
  The specification: the server goes through the calls of a round over and over; the first error ends it.
  \<open>stage\<close> is the place in the round.
\<close>

fun hello_served :: "nat \<Rightarrow> request \<Rightarrow> (error_code \<times> request) list \<Rightarrow> operation list" where
  "hello_served stage q [] = [case stage of 0 \<Rightarrow> Accept | Suc 0 \<Rightarrow> Read_Message
     | Suc (Suc 0) \<Rightarrow> Write_Response (hello q) | _ \<Rightarrow> Socket_Shutdown_Send]"
| "hello_served stage q ((ec, p) # cs) = (case stage of 0 \<Rightarrow> Accept | Suc 0 \<Rightarrow> Read_Message
     | Suc (Suc 0) \<Rightarrow> Write_Response (hello q) | _ \<Rightarrow> Socket_Shutdown_Send) #
     (if is_error ec then [] else hello_served (if stage = 3 then 0 else Suc stage) (if stage = 1 then p else q) cs)"

lemma causal_handleRequest [causal_intros]: "causal (handleRequest q)" "causal (net_handleRequest q)"
  unfolding handleRequest_hello by (intro causal_intros)+

lemma serve_round_calls: "calls_each_round (serve_round handleRequest)"
  unfolding serve_round_def by (intro calls_eachI consumes_intros causal_intros)

lemma handlers_agree: "net_handleRequest = handleRequest"
  by (rule ext) (simp add: handleRequest_hello)

lemma serve_loop_operations:
  "started (fst (io_loop (serve_round handleRequest) () cs)) = hello_served 0 q cs"
proof (induction "length cs" arbitrary: cs q rule: less_induct)
  case less
  note unfold = io_loop_unfold [OF serve_round_calls, of "()"]
  consider "cs = []" | a where "cs = [a]" | a b where "cs = [a, b]" | a b c where "cs = [a, b, c]"
    | a b c d es where "cs = a # b # c # d # es"
    by (metis list.exhaust)
  then show ?case
  proof cases
    case 1
    then show ?thesis by (simp add: unfold serve_round_def handleRequest_hello io_simps)
  next
    case 2
    then show ?thesis by (cases a) (simp add: unfold serve_round_def handleRequest_hello io_simps)
  next
    case 3
    then show ?thesis
      by (cases a; cases b) (simp add: unfold serve_round_def handleRequest_hello io_simps numeral_eq_Suc)
  next
    case 4
    then show ?thesis
      by (cases a; cases b; cases c) (simp add: unfold serve_round_def handleRequest_hello io_simps numeral_eq_Suc)
  next
    case 5
    obtain ec q' where b: "b = (ec, q')" by (cases b)
    from 5 have "length es < length cs" by simp
    from less [OF this, of q'] 5 b show ?thesis
      by (cases a; cases c; cases d)
        (simp add: unfold serve_round_def handleRequest_hello io_simps numeral_eq_Suc)
  qed
qed

text \<open>
  both HTTP servers answer every request they read with the same greeting, in the version of the
  request, one connection after the other; the first error of any call, also one that a client causes,
  ends the server.
\<close>

theorem hello_servers_serve:
  "started (fst (start_server ((ec, q) # cs))) = Acceptor_Construct ''0.0.0.0'' 52525 #
     (if is_error ec then [] else hello_served 0 q cs) \<and>
   started (fst (net_start_server ((ec, q) # cs))) = Acceptor_Construct ''0.0.0.0'' 8080 #
     (if is_error ec then [] else hello_served 0 q cs)"
proof -
  have "started (fst (io_catch m (\<lambda>e. io_emit [Report_What what e]) ds)) = started (fst (m ds))"
    for m :: "(request, unit) io" and what ds
    by (simp add: io_catch_def io_emit_def split: prod.split outcome.split)
  then show ?thesis
    by (simp add: start_server_def net_start_server_def runServer_def net_runServer_def handlers_agree io_simps
        serve_loop_operations)
qed

end
