(* ===== verification/Web_Socket_Servers.thy ===== *)
theory Web_Socket_Servers
  imports Causal_IO Async_Objects
begin

text \<open>
  \<open>Beast/web_sockets/WebSocketServers.cpp\<close>: two blocking servers with a thread for each connection, and
  the asynchronous TLS server. \<open>agent\<close> is \<open>BOOST_BEAST_VERSION_STRING\<close>.
\<close>

section \<open>Payloads\<close>

text \<open>A message that was read, whether it was a text message, and the bytes a write has sent.\<close>

record ws_result =
  got_text :: bool
  message_data :: string
  bytes_sent :: nat

text \<open>The messages a trace writes.\<close>

fun ws_written :: "action list \<Rightarrow> (bool \<times> string) list" where
  "ws_written [] = []"
| "ws_written (Start (Ws_Write is_text d) # as) = (is_text, d) # ws_written as"
| "ws_written (a # as) = ws_written as"

lemma ws_written_append [simp]: "ws_written (as @ bs) = ws_written as @ ws_written bs"
  by (induction as rule: ws_written.induct) auto

lemma ws_written_print_line [simp]: "ws_written (print_line t # as) = ws_written as"
  by (simp add: print_line_def)


section \<open>\<open>SimpleServer\<close>\<close>

definition ws_round :: "unit \<Rightarrow> (ws_result, unit + unit) io" where
  "ws_round v =
     io_bind (io_check Read_Message) (\<lambda>m.
     io_seq (io_emit [print_line (''Got '' @ to_string (length (message_data m)) @ '' bytes from client'')])
    (io_bind (io_check (Ws_Write (got_text m) (message_data m))) (\<lambda>w.
     io_seq (io_emit [print_line (to_string (bytes_sent w) @ '' bytes send back'')])
    (io_return (Inl ())))))"

text \<open>The two \<open>catch\<close> clauses: a closed connection is not an error.\<close>

definition ws_catch :: "string \<Rightarrow> (ws_result, unit) io \<Rightarrow> (ws_result, unit) io" where
  "ws_catch what m = io_catch m (\<lambda>exc. case exc of
     System_Error label ec \<Rightarrow> if ec \<noteq> Ws_Closed then io_emit [Report what ec] else io_return ()
   | Std_Exception label \<Rightarrow> io_emit [Report_What ''Error'' exc])"

definition simple_handleSession :: "string \<Rightarrow> (ws_result, unit) io" where
  "simple_handleSession agent =
     ws_catch ''Error''
       (io_bind (io_check (Ws_Accept (agent @ '' websocket-server-sync''))) (\<lambda>_.
        io_seq (io_emit [print_line ''Handling new connection'']) (io_loop ws_round ())))"

text \<open>\<open>runServer\<close>: each accepted socket goes to a thread of its own.\<close>

definition ws_accept_round :: "unit \<Rightarrow> (ws_result, unit + unit) io" where
  "ws_accept_round v = io_bind (io_check Accept) (\<lambda>_. io_seq (io_emit [Spawn_Session]) (io_return (Inl ())))"

definition simple_runServer :: "(ws_result, unit) io" where
  "simple_runServer =
     io_catch
       (io_bind (io_check (Acceptor_Construct ''0.0.0.0'' 6789)) (\<lambda>_. io_loop ws_accept_round ()))
       (\<lambda>e. io_emit [Report_What ''Error'' e])"


section \<open>\<open>SSLServer\<close>\<close>

definition ssl_ws_round :: "unit \<Rightarrow> (ws_result, unit + unit) io" where
  "ssl_ws_round v =
     io_bind (io_check Read_Message) (\<lambda>m.
     io_seq (io_emit [print_line (''Got '' @ to_string (length (message_data m)) @ '' bytes from client'')])
    (io_bind (io_check (Ws_Write (got_text m) (message_data m))) (\<lambda>w.
     io_seq (io_emit [print_line (to_string (bytes_sent w) @ '' bytes send back'')])
    (io_return (Inl ())))))"

definition ssl_handleSession :: "string \<Rightarrow> (ws_result, unit) io" where
  "ssl_handleSession agent =
     ws_catch ''Beast error''
       (io_bind (io_check Tls_Handshake) (\<lambda>_.
        io_bind (io_check (Ws_Accept (agent @ '' websocket-server-sync-ssl''))) (\<lambda>_.
        io_seq (io_emit [print_line ''Handling new connection'']) (io_loop ssl_ws_round ()))))"

definition ssl_runServer :: "(ws_result, unit) io" where
  "ssl_runServer =
     io_catch
       (io_bind (io_check (Acceptor_Construct ''0.0.0.0'' 6789)) (\<lambda>_. io_loop ws_accept_round ()))
       (\<lambda>e. io_emit [Report_What ''Error'' e])"


section \<open>\<open>SSL_Asynch_Server::Session\<close>\<close>

datatype ws_handler = Ws_On_Handshake | Ws_On_Accept | Ws_On_Read | Ws_On_Write

text \<open>
  \<open>ws_got_text\<close> is what \<open>wsStream.got_text()\<close> gives: whether the last message was a text message.
\<close>

record ws_session =
  ws_buffer :: string
  ws_got_text :: bool
  ws_waiting :: "ws_handler option"

definition ws_make_session :: ws_session where
  "ws_make_session = \<lparr>ws_buffer = [], ws_got_text = False, ws_waiting = None\<rparr>"

definition ws_on_run :: "ws_session \<Rightarrow> ws_session \<times> action list" where
  "ws_on_run s = (s\<lparr>ws_waiting := Some Ws_On_Handshake\<rparr>, [Expires_After 30, Start Tls_Handshake])"

text \<open>\<open>run\<close> dispatches \<open>on_run\<close> to the strand of the stream.\<close>

definition ws_run :: "ws_session \<Rightarrow> ws_session \<times> action list" where
  "ws_run s = ws_on_run s"

definition ws_on_handshake :: "string \<Rightarrow> ws_session \<Rightarrow> error_code \<Rightarrow> ws_session \<times> action list" where
  "ws_on_handshake agent s ec =
     (if is_error ec then (s, fail ''handshake'' ec)
      else (s\<lparr>ws_waiting := Some Ws_On_Accept\<rparr>,
        [Expires_Never, Start (Ws_Accept (agent @ '' websocket-server-async-ssl''))]))"

definition ws_do_read :: "ws_session \<Rightarrow> ws_session \<times> action list" where
  "ws_do_read s = (s\<lparr>ws_waiting := Some Ws_On_Read\<rparr>, [Start Read_Message])"

definition ws_on_accept :: "ws_session \<Rightarrow> error_code \<Rightarrow> ws_session \<times> action list" where
  "ws_on_accept s ec = (if is_error ec then (s, fail ''accept'' ec) else ws_do_read s)"

text \<open>
  \<open>responseData\<close> is a local variable of \<open>on_read\<close>: it is destroyed when the handler returns, while the write that was
  started with a buffer over it goes on. So what is written are the bytes that are then found where the text was,
  \<open>lingers t\<close> for a text \<open>t\<close>; nothing says that this is \<open>t\<close>. (That the same text leaves the same bytes is a
  simplification; a client of the program sends one message.)
\<close>

definition ws_on_read :: "(string \<Rightarrow> string) \<Rightarrow> ws_session \<Rightarrow> error_code \<Rightarrow> ws_session \<times> action list" where
  "ws_on_read lingers s ec =
     (if ec = Ws_Closed then (s, [])
      else (s\<lparr>ws_waiting := Some Ws_On_Write\<rparr>,
        (if is_error ec then fail ''read'' ec else []) @
        [Start (Ws_Write (ws_got_text s) (lingers (''['' @ ws_buffer s @ '']'')))]))"

definition ws_on_write :: "ws_session \<Rightarrow> error_code \<Rightarrow> ws_session \<times> action list" where
  "ws_on_write s ec =
     (if is_error ec then (s, fail ''write'' ec) else ws_do_read (s\<lparr>ws_buffer := []\<rparr>))"

text \<open>Beast appends what it reads to the buffer, also when the read fails in the middle of a message.\<close>

definition ws_step :: "(string \<Rightarrow> string) \<Rightarrow> string \<Rightarrow> ws_session \<Rightarrow> error_code \<times> ws_result \<Rightarrow> ws_session \<times> action list" where
  "ws_step lingers agent s c = (let t = s\<lparr>ws_waiting := None\<rparr> in case ws_waiting s of
     None \<Rightarrow> (s, [])
   | Some Ws_On_Handshake \<Rightarrow> ws_on_handshake agent t (fst c)
   | Some Ws_On_Accept \<Rightarrow> ws_on_accept t (fst c)
   | Some Ws_On_Read \<Rightarrow>
       ws_on_read lingers (t\<lparr>ws_buffer := ws_buffer s @ message_data (snd c), ws_got_text := got_text (snd c)\<rparr>) (fst c)
   | Some Ws_On_Write \<Rightarrow> ws_on_write t (fst c))"

lemmas ws_defs = ws_step_def ws_on_handshake_def ws_on_accept_def ws_do_read_def ws_on_read_def
  ws_on_write_def fail_def Let_def

interpretation ws: async_session "ws_step lingers agent" ws_waiting for lingers agent
  by unfold_locales (auto simp: ws_defs split: ws_handler.splits option.splits if_splits)


section \<open>\<open>SSL_Asynch_Server::Listener\<close>\<close>

definition ws_listener_construct :: "(ws_result, unit) io" where
  "ws_listener_construct =
     io_or_fail Acceptor_Open (fail ''open'') (\<lambda>_.
     io_or_fail Acceptor_Set_Option (fail ''set_option'') (\<lambda>_.
     io_or_fail Acceptor_Bind (fail ''bind'') (\<lambda>_.
     io_or_fail Acceptor_Listen (fail ''listen'') (\<lambda>_. io_return ()))))"

record ws_listener =
  ws_accepting :: "unit option"

definition ws_do_accept :: "ws_listener \<Rightarrow> ws_listener \<times> action list" where
  "ws_do_accept l = (l\<lparr>ws_accepting := Some ()\<rparr>, [Start Accept])"

definition ws_listener_run :: "ws_listener \<Rightarrow> ws_listener \<times> action list" where
  "ws_listener_run l = ws_do_accept l"

definition ws_listener_on_accept :: "ws_listener \<Rightarrow> error_code \<Rightarrow> ws_listener \<times> action list" where
  "ws_listener_on_accept l ec =
     (let (l, as) = ws_do_accept l in (l, (if is_error ec then fail ''accept'' ec else [Spawn_Session]) @ as))"

definition ws_listener_step :: "ws_listener \<Rightarrow> error_code \<Rightarrow> ws_listener \<times> action list" where
  "ws_listener_step l ec = (case ws_accepting l of
     None \<Rightarrow> (l, []) | Some _ \<Rightarrow> ws_listener_on_accept (l\<lparr>ws_accepting := None\<rparr>) ec)"

interpretation ws_acceptor: async_session ws_listener_step ws_accepting
  by unfold_locales
    (auto simp: ws_listener_step_def ws_listener_on_accept_def ws_do_accept_def fail_def split: option.splits)


section \<open>The blocking sessions\<close>

text \<open>What a WebSocket echo server has to write: each message, as text if it came as text.\<close>

fun ws_echoed :: "(error_code \<times> ws_result) list \<Rightarrow> (bool \<times> string) list" where
  "ws_echoed [] = []"
| "ws_echoed [(ec, m)] = (if is_error ec then [] else [(got_text m, message_data m)])"
| "ws_echoed ((ec, m) # (ec', w) # cs) =
     (if is_error ec then []
      else (got_text m, message_data m) # (if is_error ec' then [] else ws_echoed cs))"

lemma ws_rounds_agree: "ssl_ws_round = ws_round"
  by (rule ext)+ (simp add: ssl_ws_round_def ws_round_def)

lemma ws_round_simps:
  "ws_round v [] = ([Start Read_Message], [], Blocked)"
  "ws_round v ((ec, m) # cs) =
     (if is_error ec then ([Start Read_Message], cs, Thrown (System_Error [] ec))
      else let as = [Start Read_Message, print_line (''Got '' @ to_string (length (message_data m)) @ '' bytes from client''),
            Start (Ws_Write (got_text m) (message_data m))]
      in case cs of
        [] \<Rightarrow> (as, [], Blocked)
      | (ec', w) # cs' \<Rightarrow>
          if is_error ec' then (as, cs', Thrown (System_Error [] ec'))
          else (as @ [print_line (to_string (bytes_sent w) @ '' bytes send back'')], cs', Returned (Inl ())))"
  by (auto simp: ws_round_def io_simps Let_def split: list.split prod.split)

lemma ws_round_calls: "calls_each_round ws_round"
  unfolding ws_round_def by (intro calls_eachI consumes_intros causal_intros)

lemma ws_loop:
  "ws_written (fst (io_loop ws_round () cs)) = ws_echoed cs \<and> reports (fst (io_loop ws_round () cs)) = [] \<and>
   snd (snd (io_loop ws_round () cs)) = (case find is_error (map fst cs) of
     None \<Rightarrow> Blocked | Some ec \<Rightarrow> Thrown (System_Error [] ec))"
proof (induction cs rule: ws_echoed.induct)
  case 1
  show ?case by (subst (1 2 3) io_loop_unfold [OF ws_round_calls]) (simp add: io_bind.simps ws_round_simps)
next
  case (2 ec m)
  show ?case
    by (subst (1 2 3) io_loop_unfold [OF ws_round_calls]) (simp add: io_bind.simps ws_round_simps Let_def)
next
  case (3 ec m ec' w cs)
  then show ?case
    by (subst (1 2 3) io_loop_unfold [OF ws_round_calls])
      (auto simp: io_bind.simps ws_round_simps Let_def split: prod.split)
qed

lemma ws_catch_trace:
  "ws_written (fst (ws_catch what m cs)) = ws_written (fst (m cs)) \<and>
   reports (fst (ws_catch what m cs)) = reports (fst (m cs)) @ (case snd (snd (m cs)) of
     Thrown (System_Error label ec) \<Rightarrow> if ec \<noteq> Ws_Closed then [(what, ec)] else [] | _ \<Rightarrow> [])"
  by (auto simp: ws_catch_def io_catch_def io_emit_def io_return_def split: prod.split outcome.split exn.split)

text \<open>
  both blocking WebSocket servers echo: after the handshakes they write back each message they read,
  unchanged, in order and with its kind (text or binary), until the first error, which they report unless
  it says that the peer has closed the connection.
\<close>

theorem ws_servers_echo:
  "ws_written (fst (simple_handleSession agent ((Success, a) # cs))) = ws_echoed cs \<and>
   ws_written (fst (ssl_handleSession agent ((Success, a) # (Success, b) # cs))) = ws_echoed cs \<and>
   reports (fst (simple_handleSession agent ((Success, a) # cs))) = (case find is_error (map fst cs) of
     Some ec \<Rightarrow> if ec = Ws_Closed then [] else [(''Error'', ec)] | None \<Rightarrow> []) \<and>
   reports (fst (ssl_handleSession agent ((Success, a) # (Success, b) # cs))) = (case find is_error (map fst cs) of
     Some ec \<Rightarrow> if ec = Ws_Closed then [] else [(''Beast error'', ec)] | None \<Rightarrow> [])"
  using ws_loop [of cs]
  by (simp add: simple_handleSession_def ssl_handleSession_def ws_catch_trace ws_rounds_agree io_simps
      split: option.split)


section \<open>The asynchronous session and its listener\<close>

text \<open>
  What the asynchronous session writes: it answers every completed read except that of a closed
  connection, also a failed one, with what is found where it had put its buffer in brackets.
\<close>

fun ws_replies :: "(string \<Rightarrow> string) \<Rightarrow> bool \<Rightarrow> (error_code \<times> ws_result) list \<Rightarrow> (bool \<times> string) list" where
  "ws_replies lingers reading [] = []"
| "ws_replies lingers True ((ec, m) # cs) =
     (if ec = Ws_Closed then [] else (got_text m, lingers (''['' @ message_data m @ '']'')) # ws_replies lingers False cs)"
| "ws_replies lingers False ((ec, m) # cs) = (if is_error ec then [] else ws_replies lingers True cs)"

lemma ws_step_read:
  "ws_waiting s = Some Ws_On_Read \<Longrightarrow> ws_step lingers agent s c = ws_on_read lingers (s\<lparr>ws_waiting := None,
     ws_buffer := ws_buffer s @ message_data (snd c), ws_got_text := got_text (snd c)\<rparr>) (fst c)"
  by (simp add: ws_step_def Let_def)

lemma ws_step_write:
  "ws_waiting s = Some Ws_On_Write \<Longrightarrow> ws_step lingers agent s c = ws_on_write (s\<lparr>ws_waiting := None\<rparr>) (fst c)"
  by (simp add: ws_step_def Let_def)

lemma ws_deliver:
  "ws_waiting s = Some Ws_On_Read \<Longrightarrow> ws_buffer s = [] \<Longrightarrow>
     ws_written (snd (deliver (ws_step lingers agent) s cs)) = ws_replies lingers True cs"
  "ws_waiting s = Some Ws_On_Write \<Longrightarrow>
     ws_written (snd (deliver (ws_step lingers agent) s cs)) = ws_replies lingers False cs"
proof (induction cs arbitrary: s)
  case Nil
  {
    case 1
    show ?case by simp
  next
    case 2
    show ?case by simp
  }
next
  case (Cons c cs)
  {
    case 1
    then show ?case using Cons.IH(2) [of "fst (ws_step lingers agent s c)"]
      by (cases c) (auto simp: deliver_Cons ws_step_read ws_on_read_def fail_def ws.deliver_idle simp del: deliver.simps(2))
  next
    case 2
    then show ?case using Cons.IH(1) [of "fst (ws_step lingers agent s c)"]
      by (cases c) (auto simp: deliver_Cons ws_step_write ws_on_write_def ws_do_read_def fail_def ws.deliver_idle simp del: deliver.simps(2))
  }
qed

text \<open>
  the asynchronous WebSocket session answers each message it reads, in order and one write for each,
  with the message in brackets as it lingers, and its buffer holds nothing of an earlier message. But it goes on after
  a read that has failed: the code reports the error and then answers as if a message had arrived.
\<close>

theorem ws_session_replies:
  "(let (s, as) = ws_run ws_make_session
    in ws_written (as @ snd (deliver (ws_step lingers agent) s ((Success, a) # (Success, b) # cs))) = ws_replies lingers True cs)"
  using ws_deliver(1) [of "ws_make_session\<lparr>ws_waiting := Some Ws_On_Read\<rparr>" lingers agent cs]
  by (simp add: ws_run_def ws_on_run_def ws_make_session_def deliver_Cons ws_defs del: deliver.simps(2))

lemma ws_listener_deliver:
  "ws_accepting l = Some () \<Longrightarrow>
     spawned (snd (deliver ws_listener_step l ecs)) = length (filter (\<lambda>ec. \<not> is_error ec) ecs) \<and>
     length (started (snd (deliver ws_listener_step l ecs))) = length ecs"
proof (induction ecs arbitrary: l)
  case Nil
  then show ?case by simp
next
  case (Cons ec ecs)
  then show ?case using Cons.IH [of "fst (ws_listener_step l ec)"]
    by (auto simp: deliver_Cons ws_listener_step_def ws_listener_on_accept_def ws_do_accept_def fail_def
        simp del: deliver.simps(2))
qed

text \<open>
  no failed accept stops this listener, unlike the one of the HTTPS server: it creates a session for
  each accept that succeeds, and after every completion the next accept is in flight.
\<close>

theorem ws_listener_keeps_accepting:
  "(let (l, as) = ws_listener_run \<lparr>ws_accepting = None\<rparr>; bs = snd (deliver ws_listener_step l ecs)
    in spawned (as @ bs) = length (filter (\<lambda>ec. \<not> is_error ec) ecs) \<and>
       length (started (as @ bs)) = Suc (length ecs))"
  using ws_listener_deliver [of "\<lparr>ws_accepting = Some ()\<rparr>" ecs]
  by (simp add: ws_listener_run_def ws_do_accept_def)

end
