(* ===== verification/Web_Socket_Clients.thy ===== *)
theory Web_Socket_Clients
  imports Causal_IO Async_Objects
begin

text \<open>
  \<open>Beast/web_sockets/WebSocketClients.cpp\<close>: the two blocking clients and the asynchronous TLS client.
  \<open>agent\<close> is \<open>BOOST_BEAST_VERSION_STRING\<close>.
\<close>

section \<open>Payloads\<close>

text \<open>
  The text a call gives (what the resolver returned, the address connected to, the message read) and its
  number (the port connected to, the bytes written or read).
\<close>

record wsc_result =
  text_of :: string
  number_of :: nat


section \<open>The blocking clients\<close>

definition simple_Client :: "string \<Rightarrow> (wsc_result, unit) io" where
  "simple_Client agent =
     io_bind (io_check (Resolve ''0.0.0.0'' (to_string 6789))) (\<lambda>results.
     io_bind (io_check (Connect (text_of results))) (\<lambda>endpoint.
     io_seq (io_emit [print_line (''endpoint: '' @ text_of endpoint)])
    (io_bind (io_check (Ws_Handshake (''0.0.0.0'' @ '':'' @ to_string 6789) ''/chargeStationState''
        (agent @ '' websocket-client-coro''))) (\<lambda>_.
     io_bind (io_check (Ws_Write True ''CLIENT HELLO'')) (\<lambda>w.
     io_seq (io_emit [print_line (''Bytes send: '' @ to_string (number_of w))])
    (io_bind (io_check Read_Message) (\<lambda>m.
     io_seq (io_emit [print_line (''Bytes read: '' @ to_string (number_of m))])
    (io_bind (io_check Ws_Close) (\<lambda>_.
     io_emit [print_line (text_of m)])))))))))"

definition ssl_Client :: "string \<Rightarrow> (wsc_result, unit) io" where
  "ssl_Client agent =
     io_bind (io_check (Resolve ''0.0.0.0'' (to_string 6789))) (\<lambda>results.
     io_bind (io_check (Connect (text_of results))) (\<lambda>endpoint.
     io_seq (io_emit [print_line (''endpoint: '' @ text_of endpoint)])
    (io_bind (io_call (Set_Sni ''0.0.0.0'')) (\<lambda>(ec, _).
     if is_error ec then io_throw (System_Error ''Failed to set SNI Hostname'' ec) else
     io_bind (io_check Tls_Handshake) (\<lambda>_.
     io_bind (io_check (Ws_Handshake (''0.0.0.0'' @ '':'' @ to_string 6789) ''/chargeStatissonState''
        (agent @ '' websocket-client-coro''))) (\<lambda>_.
     io_bind (io_check (Ws_Write True ''CLIENT HELLO'')) (\<lambda>w.
     io_seq (io_emit [print_line (''Bytes send: '' @ to_string (number_of w))])
    (io_bind (io_check Read_Message) (\<lambda>m.
     io_seq (io_emit [print_line (''Bytes read: '' @ to_string (number_of m))])
    (io_bind (io_check Ws_Close) (\<lambda>_.
     io_emit [print_line (text_of m)])))))))))))"


section \<open>\<open>AsyncSslClient::Session\<close>\<close>

text \<open>
  Each handler first prints \<open>__PRETTY_FUNCTION__\<close>, a text that the compiler makes: \<open>pretty\<close> is a
  parameter. \<open>In_Connect\<close> is the rest of \<open>on_connect\<close>, with the port, when \<open>SSL_set_tlsext_host_name\<close> has
  returned.
\<close>

datatype wsc_handler =
    Wsc_Resolve | Wsc_Connect | In_Connect nat | Wsc_Ssl_Handshake | Wsc_Handshake | Wsc_Write
  | Wsc_Read | Wsc_Close

record wsc_session =
  wsc_buffer :: string
  wsc_host :: string
  wsc_message :: string
  wsc_waiting :: "wsc_handler option"

definition wsc_make_session :: wsc_session where
  "wsc_make_session = \<lparr>wsc_buffer = [], wsc_host = [], wsc_message = [], wsc_waiting = None\<rparr>"

definition wsc_run ::
    "(string \<Rightarrow> string) \<Rightarrow> string \<Rightarrow> nat \<Rightarrow> string \<Rightarrow> wsc_session \<Rightarrow> wsc_session \<times> action list" where
  "wsc_run pretty host port msg s =
     (s\<lparr>wsc_host := host, wsc_message := msg, wsc_waiting := Some Wsc_Resolve\<rparr>,
      [print_line (pretty ''run''), Start (Resolve host (to_string port))])"

definition wsc_on_resolve ::
    "(string \<Rightarrow> string) \<Rightarrow> wsc_session \<Rightarrow> error_code \<Rightarrow> string \<Rightarrow> wsc_session \<times> action list" where
  "wsc_on_resolve pretty s ec results =
     (if is_error ec then (s, print_line (pretty ''on_resolve'') # fail ''resolve'' ec)
      else (s\<lparr>wsc_waiting := Some Wsc_Connect\<rparr>,
        [print_line (pretty ''on_resolve''), Expires_After 30, Start (Connect results)]))"

definition wsc_on_connect ::
    "(string \<Rightarrow> string) \<Rightarrow> wsc_session \<Rightarrow> error_code \<Rightarrow> nat \<Rightarrow> wsc_session \<times> action list" where
  "wsc_on_connect pretty s ec port =
     (if is_error ec then (s, print_line (pretty ''on_connect'') # fail ''connect'' ec)
      else (s\<lparr>wsc_waiting := Some (In_Connect port)\<rparr>,
        [print_line (pretty ''on_connect''), Expires_After 30, Start (Set_Sni (wsc_host s))]))"

definition wsc_in_connect :: "wsc_session \<Rightarrow> error_code \<Rightarrow> nat \<Rightarrow> wsc_session \<times> action list" where
  "wsc_in_connect s err port =
     (if is_error err then (s, fail ''connect'' err)
      else (s\<lparr>wsc_host := wsc_host s @ '':'' @ to_string port, wsc_waiting := Some Wsc_Ssl_Handshake\<rparr>,
        [Start Tls_Handshake]))"

definition wsc_on_ssl_handshake ::
    "(string \<Rightarrow> string) \<Rightarrow> string \<Rightarrow> wsc_session \<Rightarrow> error_code \<Rightarrow> wsc_session \<times> action list" where
  "wsc_on_ssl_handshake pretty agent s ec =
     (if is_error ec then (s, print_line (pretty ''on_ssl_handshake'') # fail ''ssl_handshake'' ec)
      else (s\<lparr>wsc_waiting := Some Wsc_Handshake\<rparr>,
        [print_line (pretty ''on_ssl_handshake''), Expires_Never,
         Start (Ws_Handshake (wsc_host s) ''/'' (agent @ '' websocket-client-async-ssl''))]))"

definition wsc_on_handshake ::
    "(string \<Rightarrow> string) \<Rightarrow> wsc_session \<Rightarrow> error_code \<Rightarrow> wsc_session \<times> action list" where
  "wsc_on_handshake pretty s ec =
     (if is_error ec then (s, print_line (pretty ''on_handshake'') # fail ''handshake'' ec)
      else (s\<lparr>wsc_waiting := Some Wsc_Write\<rparr>,
        [print_line (pretty ''on_handshake''), Start (Ws_Write True (wsc_message s))]))"

definition wsc_on_write ::
    "(string \<Rightarrow> string) \<Rightarrow> wsc_session \<Rightarrow> error_code \<Rightarrow> wsc_session \<times> action list" where
  "wsc_on_write pretty s ec =
     (if is_error ec then (s, print_line (pretty ''on_write'') # fail ''write'' ec)
      else (s\<lparr>wsc_waiting := Some Wsc_Read\<rparr>, [print_line (pretty ''on_write''), Start Read_Message]))"

definition wsc_on_read ::
    "(string \<Rightarrow> string) \<Rightarrow> wsc_session \<Rightarrow> error_code \<Rightarrow> wsc_session \<times> action list" where
  "wsc_on_read pretty s ec =
     (if is_error ec then (s, print_line (pretty ''on_read'') # fail ''read'' ec)
      else (s\<lparr>wsc_waiting := Some Wsc_Close\<rparr>, [print_line (pretty ''on_read''), Start Ws_Close]))"

definition wsc_on_close ::
    "(string \<Rightarrow> string) \<Rightarrow> wsc_session \<Rightarrow> error_code \<Rightarrow> wsc_session \<times> action list" where
  "wsc_on_close pretty s ec =
     (if is_error ec then (s, print_line (pretty ''on_close'') # fail ''close'' ec)
      else (s, [print_line (pretty ''on_close''), print_line (wsc_buffer s)]))"

definition wsc_step ::
    "(string \<Rightarrow> string) \<Rightarrow> string \<Rightarrow> wsc_session \<Rightarrow> error_code \<times> wsc_result \<Rightarrow> wsc_session \<times> action list" where
  "wsc_step pretty agent s c = (let t = s\<lparr>wsc_waiting := None\<rparr> in case wsc_waiting s of
     None \<Rightarrow> (s, [])
   | Some Wsc_Resolve \<Rightarrow> wsc_on_resolve pretty t (fst c) (text_of (snd c))
   | Some Wsc_Connect \<Rightarrow> wsc_on_connect pretty t (fst c) (number_of (snd c))
   | Some (In_Connect port) \<Rightarrow> wsc_in_connect t (fst c) port
   | Some Wsc_Ssl_Handshake \<Rightarrow> wsc_on_ssl_handshake pretty agent t (fst c)
   | Some Wsc_Handshake \<Rightarrow> wsc_on_handshake pretty t (fst c)
   | Some Wsc_Write \<Rightarrow> wsc_on_write pretty t (fst c)
   | Some Wsc_Read \<Rightarrow> wsc_on_read pretty (t\<lparr>wsc_buffer := wsc_buffer s @ text_of (snd c)\<rparr>) (fst c)
   | Some Wsc_Close \<Rightarrow> wsc_on_close pretty t (fst c))"

lemmas wsc_handlers = wsc_on_resolve_def wsc_on_connect_def wsc_in_connect_def wsc_on_ssl_handshake_def
  wsc_on_handshake_def wsc_on_write_def wsc_on_read_def wsc_on_close_def fail_def

definition wsc_trace ::
    "(string \<Rightarrow> string) \<Rightarrow> string \<Rightarrow> string \<Rightarrow> nat \<Rightarrow> string \<Rightarrow> wsc_result script \<Rightarrow> action list" where
  "wsc_trace pretty agent host port msg cs =
     (let (s, as) = wsc_run pretty host port msg wsc_make_session
      in as @ snd (deliver (wsc_step pretty agent) s cs))"

text \<open>\<open>Client\<close>: \<open>now\<close> is the text of the current time.\<close>

definition async_Client :: "(string \<Rightarrow> string) \<Rightarrow> string \<Rightarrow> string \<Rightarrow> wsc_result script \<Rightarrow> action list" where
  "async_Client pretty agent now cs = wsc_trace pretty agent ''0.0.0.0'' 6789 (''Some_Message_'' @ now) cs"

fun wsc_rank :: "wsc_handler \<Rightarrow> nat" where
  "wsc_rank Wsc_Resolve = 7"
| "wsc_rank Wsc_Connect = 6"
| "wsc_rank (In_Connect port) = 5"
| "wsc_rank Wsc_Ssl_Handshake = 4"
| "wsc_rank Wsc_Handshake = 3"
| "wsc_rank Wsc_Write = 2"
| "wsc_rank Wsc_Read = 1"
| "wsc_rank Wsc_Close = 0"

interpretation wsc: staged_session "wsc_step pretty agent" wsc_waiting wsc_rank for pretty agent
  by unfold_locales
    (auto simp: wsc_step_def wsc_handlers Let_def split: wsc_handler.splits option.splits if_splits)


section \<open>The order of the protocol\<close>

text \<open>
  The operations after handler \<open>h\<close>, as they follow each other when everything succeeds.
\<close>

fun wsc_plan :: "string \<Rightarrow> string \<Rightarrow> string \<Rightarrow> wsc_handler \<Rightarrow> wsc_result list \<Rightarrow> operation list" where
  "wsc_plan agent host msg Wsc_Resolve rs = (case rs of [] \<Rightarrow> []
     | r # rs' \<Rightarrow> Connect (text_of r) # wsc_plan agent host msg Wsc_Connect rs')"
| "wsc_plan agent host msg Wsc_Connect rs = (case rs of [] \<Rightarrow> []
     | r # rs' \<Rightarrow> Set_Sni host # wsc_plan agent host msg (In_Connect (number_of r)) rs')"
| "wsc_plan agent host msg (In_Connect port) rs = (case rs of [] \<Rightarrow> []
     | r # rs' \<Rightarrow> Tls_Handshake # wsc_plan agent (host @ '':'' @ to_string port) msg Wsc_Ssl_Handshake rs')"
| "wsc_plan agent host msg Wsc_Ssl_Handshake rs = (case rs of [] \<Rightarrow> []
     | r # rs' \<Rightarrow> Ws_Handshake host ''/'' (agent @ '' websocket-client-async-ssl'') # wsc_plan agent host msg Wsc_Handshake rs')"
| "wsc_plan agent host msg Wsc_Handshake rs = (case rs of [] \<Rightarrow> []
     | r # rs' \<Rightarrow> Ws_Write True msg # wsc_plan agent host msg Wsc_Write rs')"
| "wsc_plan agent host msg Wsc_Write rs = (case rs of [] \<Rightarrow> []
     | r # rs' \<Rightarrow> Read_Message # wsc_plan agent host msg Wsc_Read rs')"
| "wsc_plan agent host msg Wsc_Read rs = (case rs of [] \<Rightarrow> [] | r # rs' \<Rightarrow> [Ws_Close])"
| "wsc_plan agent host msg Wsc_Close rs = []"

abbreviation successes :: "wsc_result script \<Rightarrow> wsc_result list" where
  "successes cs \<equiv> map snd (takeWhile (\<lambda>c. \<not> is_error (fst c)) cs)"

lemma wsc_deliver:
  "wsc_waiting s = Some h \<Longrightarrow>
     started (snd (deliver (wsc_step pretty agent) s cs)) =
       wsc_plan agent (wsc_host s) (wsc_message s) h (successes cs)"
proof (induction cs arbitrary: s h)
  case Nil
  then show ?case by (cases h) simp_all
next
  case (Cons c cs)
  obtain ec r where c: "c = (ec, r)" by (cases c)
  show ?case
  proof (cases "is_error ec \<or> h = Wsc_Close")
    case True
    then have "wsc_waiting (fst (wsc_step pretty agent s c)) = None"
      "started (snd (wsc_step pretty agent s c)) = []"
      using Cons.prems c by (cases h; auto simp: wsc_step_def wsc_handlers Let_def)+
    with True c show ?thesis
      by (cases h) (auto simp: deliver_Cons wsc.deliver_idle simp del: deliver.simps(2))
  next
    case False
    show ?thesis using Cons.prems False c Cons.IH [of "fst (wsc_step pretty agent s c)"]
      by (cases h; simp add: deliver_Cons wsc_step_def wsc_handlers Let_def wsc.deliver_idle
          del: deliver.simps(2))
  qed
qed

text \<open>
  C36: the asynchronous WebSocket client follows its protocol: it resolves, connects to what was resolved,
  sets the host name for TLS, makes the TLS and then the WebSocket handshake with the host and the port
  connected to, writes its message, reads one and closes, each step only when all before it have succeeded.
\<close>

theorem ws_client_protocol:
  "started (wsc_trace pretty agent host port msg cs) =
     Resolve host (to_string port) # wsc_plan agent host msg Wsc_Resolve (successes cs)"
  using wsc_deliver [of "wsc_make_session\<lparr>wsc_host := host, wsc_message := msg, wsc_waiting := Some Wsc_Resolve\<rparr>"]
  by (simp add: wsc_trace_def wsc_run_def)

end
