(* ===== verification/Serial_Console.thy ===== *)
theory Serial_Console
  imports Causal_IO Async_Objects Input_Stream
begin

text \<open>
  \<open>Serial/Serial.cpp\<close>: a console that shows its input and the values that arrive on a serial port. The
  handlers run on one \<open>io_context\<close>; the thread that reads the console posts to it.
\<close>

section \<open>Escape sequences\<close>

definition esc :: "string \<Rightarrow> string" where
  "esc s = CHR 0x1B # s"

definition clearDisplay :: string where "clearDisplay = esc ''[J''"
definition clearEol :: string where "clearEol = esc ''[K''"
definition reverseVideo :: string where "reverseVideo = esc ''[7m''"
definition normalVideo :: string where "normalVideo = esc ''[0m''"
definition graphicCharSet :: string where "graphicCharSet = esc ''(0''"
definition normalCharSet :: string where "normalCharSet = esc ''(B''"
definition graphicDiamond :: char where "graphicDiamond = CHR 0x60"

definition rowCol :: "nat \<Rightarrow> nat \<Rightarrow> string" where
  "rowCol row col = esc ''['' @ to_string row @ '';'' @ to_string col @ ''H''"


section \<open>\<open>Service\<close>\<close>

text \<open>
  The data members, and what is in flight: the read of a line (\<open>line_wait\<close>) and the timer.
\<close>

record service =
  m_serialData :: string
  m_stop :: bool
  m_charCount :: nat
  line_wait :: bool
  timer_wait :: bool

text \<open>The constructor starts the timer and posts the handler that draws the screen.\<close>

definition make_service :: "service \<times> action list" where
  "make_service =
     (\<lparr>m_serialData = [], m_stop = False, m_charCount = 0, line_wait = False, timer_wait = True\<rparr>,
      [Start Wait_Timer])"

definition draw_screen :: "action list" where
  "draw_screen = [Out (clearDisplay @ rowCol 10 3 @ ''Input:'' @ rowCol 12 3 @ ''Value:'' @
     rowCol 14 30 @ ''Type Ctrl+C to exit.'')]"

text \<open>The cancelled operations complete with an error.\<close>

definition service_stop :: "service \<Rightarrow> service \<times> action list" where
  "service_stop s = (s\<lparr>m_stop := True\<rparr>, [Cancel ''timer'', Cancel ''port''])"

text \<open>\<open>isprint\<close> and \<open>iscntrl\<close> in the C locale.\<close>

definition is_print :: "char \<Rightarrow> bool" where
  "is_print c \<longleftrightarrow> 32 \<le> (of_char c :: nat) \<and> (of_char c :: nat) < 127"

definition is_cntrl :: "char \<Rightarrow> bool" where
  "is_cntrl c \<longleftrightarrow> (of_char c :: nat) < 32 \<or> (of_char c :: nat) = 127"

unbundle bit_operations_syntax

definition shown_char :: "char \<Rightarrow> string" where
  "shown_char c =
     (if is_print c then [c]
      else if is_cntrl c then reverseVideo @ [char_of ((of_char c :: nat) OR 0x40)] @ normalVideo
      else graphicCharSet @ [graphicDiamond] @ normalCharSet)"

text \<open>The handler that \<open>input\<close> posts.\<close>

definition service_input :: "service \<Rightarrow> char \<Rightarrow> service \<times> action list" where
  "service_input s c =
     (let count = (if m_charCount s > 60 then 0 else m_charCount s)
      in (s\<lparr>m_charCount := count + 1\<rparr>, [Out (rowCol 10 (10 + count) @ clearEol @ shown_char c)]))"

definition readLine :: "service \<Rightarrow> service \<times> action list" where
  "readLine s = (s\<lparr>line_wait := True\<rparr>, [Start (Read_Until [newline])])"

text \<open>\<open>openSerialPort\<close>: the calls before its \<open>readLine\<close>.\<close>

definition openSerialPort :: "string \<Rightarrow> (unit, unit) io" where
  "openSerialPort device =
     io_bind (io_check (Port_Open device)) (\<lambda>_.
     io_bind (io_check (Port_Set_Baud_Rate 115200)) (\<lambda>_. io_emit [Start (Read_Until [newline])]))"

text \<open>\<open>ctime_now\<close> is the text of \<open>std::ctime\<close> for the current time.\<close>

definition timerExpired :: "service \<Rightarrow> error_code \<Rightarrow> string \<Rightarrow> service \<times> action list" where
  "timerExpired s ec ctime_now =
     (if is_error ec \<or> m_stop s then (s, [])
      else (s\<lparr>timer_wait := True\<rparr>,
        [Out (rowCol 1 40 @ clearEol @ ctime_now), Expires_After 1, Start Wait_Timer]))"

text \<open>The number of boxes for a value; \<open>unsigned int\<close> has 32 bits.\<close>

definition boxes :: "32 word \<Rightarrow> 32 word" where
  "boxes value = min 64 (drop_bit 4 value + 1)"

definition lineReceived :: "service \<Rightarrow> error_code \<Rightarrow> service \<times> action list" where
  "lineReceived s ec =
     (if is_error ec then (s, [])
      else
        let (value, str) = extract_unsigned (stream_of (m_serialData s));
            shown = (if good str
              then [Out (rowCol 12 10 @ graphicCharSet @
                replicate (unat (boxes (of_nat (the value)))) graphicDiamond @ normalCharSet @ clearEol)]
              else []);
            (s, as) = readLine (s\<lparr>m_serialData := remaining str\<rparr>)
        in (s, shown @ as))"

datatype service_event =
    Posted_Input char
  | Timer_Done error_code string
  | Line_Done error_code string

text \<open>\<open>async_read_until\<close> has put the new bytes into the buffer when it completes.\<close>

fun service_step :: "service \<Rightarrow> service_event \<Rightarrow> service \<times> action list" where
  "service_step s (Posted_Input c) = service_input s c"
| "service_step s (Timer_Done ec now) =
     (if timer_wait s then timerExpired (s\<lparr>timer_wait := False\<rparr>) ec now else (s, []))"
| "service_step s (Line_Done ec new_bytes) =
     (if line_wait s
      then lineReceived (s\<lparr>line_wait := False, m_serialData := m_serialData s @ new_bytes\<rparr>) ec
      else (s, []))"


section \<open>\<open>getConsoleInput\<close>\<close>

text \<open>
  The characters posted for a sequence of results of \<open>getchar\<close>, and whether the loop has ended.
\<close>

definition CTRL_C :: int where
  "CTRL_C = 3"

fun getConsoleInput :: "int list \<Rightarrow> string \<times> bool" where
  "getConsoleInput [] = ([], False)"
| "getConsoleInput (c # cs) =
     (if c = CTRL_C then ([], True)
      else let (posted, ended) = getConsoleInput cs in (char_of (nat (c mod 256)) # posted, ended))"


section \<open>Properties\<close>

text \<open>
  the number of boxes shown for a value is its sixteenth plus one, and never more than 64: the values
  0 to 1023 are mapped to 1 to 64, larger ones to 64, and no value wraps around.
\<close>

theorem boxes_shown: "unat (boxes v) = min 64 (unat v div 16 + 1)"
proof -
  have d: "unat (drop_bit 4 v) = unat v div 16"
    by (simp only: unat_drop_bit_eq) (simp add: drop_bit_eq_div)
  have "unat v < 2 ^ LENGTH(32)" by (rule unsigned_less)
  then have "unat (drop_bit 4 v) + 1 < 2 ^ 32" by (simp add: d)
  then have "unat (drop_bit 4 v + 1) = unat v div 16 + 1"
    using d by (simp add: unat_word_ariths)
  then show ?thesis by (simp add: boxes_def min_def word_le_nat_alt)
qed

lemma dropWhile_no_space: "xs \<noteq> [] \<Longrightarrow> \<not> is_space (hd xs) \<Longrightarrow> dropWhile is_space xs = xs"
  by (cases xs) auto

lemma is_digit_not_space: "is_digit c \<Longrightarrow> \<not> is_space c"
  by (auto simp: is_digit_def is_space_def)

lemma takeWhile_digits: "\<forall>c \<in> set ds. is_digit c \<Longrightarrow> takeWhile is_digit (ds @ newline # r) = ds"
  by (induction ds) (auto simp: is_digit_def)

lemma dropWhile_digits: "\<forall>c \<in> set ds. is_digit c \<Longrightarrow> dropWhile is_digit (ds @ newline # r) = newline # r"
  by (induction ds) (auto simp: is_digit_def)

lemma extract_unsigned_line:
  assumes "n < 2 ^ 32"
  shows "extract_unsigned (stream_of (to_string n @ [newline])) = (Some n, stream_of [newline])"
proof -
  have ds: "to_string n \<noteq> []" "\<forall>c \<in> set (to_string n). is_digit c"
    by (simp, rule to_string_digits)
  then have hd: "is_digit (hd (to_string n @ [newline]))" by simp
  then have "\<not> is_space (hd (to_string n @ [newline]))" by (rule is_digit_not_space)
  moreover have "hd (to_string n @ [newline]) \<noteq> CHR ''-''" "hd (to_string n @ [newline]) \<noteq> CHR ''+''"
    using hd by (auto simp: is_digit_def)
  ultimately show ?thesis
    using assms ds(1) takeWhile_digits [OF ds(2), of "[]"] dropWhile_digits [OF ds(2), of "[]"]
    by (simp add: extract_unsigned_def skip_space_def good_def stream_of_def Let_def dropWhile_no_space
        decimal_value_to_string)
qed

lemma extract_unsigned_newline:
  "extract_unsigned (stream_of [newline]) = (None, \<lparr>remaining = [], eofbit = True, failbit = True\<rparr>)"
  by (simp add: extract_unsigned_def skip_space_def good_def stream_of_def is_space_def Let_def)

text \<open>
  a line with a number is shown and consumed: when a line with the decimal digits of a 32-bit number
  arrives, the bar for this number is drawn once, the newline that is left is taken at the next completion
  without drawing anything, and the buffer is empty then.
\<close>

theorem line_shows_value:
  assumes "n < 2 ^ 32" and "m_serialData s = []" and "line_wait s"
  shows "(let (t, as) = deliver service_step s
            [Line_Done Success (to_string n @ [newline]), Line_Done Success []]
          in printed as = rowCol 12 10 @ graphicCharSet @ replicate (min 64 (n div 16 + 1)) graphicDiamond @
               normalCharSet @ clearEol \<and>
             m_serialData t = [] \<and> line_wait t)"
proof -
  have "unat (of_nat n :: 32 word) = n" using assms(1) by (simp add: unat_of_nat take_bit_nat_eq_self)
  moreover define k where "k = min 64 (n div 16 + 1)"
  ultimately have k: "unat (boxes (of_nat n)) = k" by (simp add: boxes_shown)
  let ?t = "s\<lparr>m_serialData := [newline]\<rparr>"
  let ?bar = "Out (rowCol 12 10 @ graphicCharSet @ replicate k graphicDiamond @ normalCharSet @ clearEol)"
  have "service_step s (Line_Done Success (to_string n @ [newline])) = (?t, [?bar, Start (Read_Until [newline])])"
    using assms(2,3) k good_stream_of [of "[newline]"]
    by (cases s) (simp add: lineReceived_def readLine_def extract_unsigned_line [OF assms(1)] Let_def)
  moreover have "service_step ?t (Line_Done Success []) = (?t\<lparr>m_serialData := []\<rparr>, [Start (Read_Until [newline])])"
    using assms(3)
    by (cases s) (simp add: lineReceived_def readLine_def extract_unsigned_newline good_def Let_def)
  ultimately show ?thesis using assms(3) by (simp add: k_def)
qed

theorem line_shows_value_witness:
  "printed (snd (deliver service_step
      \<lparr>m_serialData = [], m_stop = False, m_charCount = 0, line_wait = True, timer_wait = True\<rparr>
      [Line_Done Success (to_string 40 @ [newline]), Line_Done Success []]))
   = rowCol 12 10 @ graphicCharSet @ replicate (min 64 (40 div 16 + 1)) graphicDiamond @ normalCharSet @ clearEol"
  using line_shows_value [of 40
      "\<lparr>m_serialData = [], m_stop = False, m_charCount = 0, line_wait = True, timer_wait = True\<rparr>"]
  by (auto split: prod.splits)

text \<open>The bars drawn for values are the texts that begin at the place of the values on the screen.\<close>

fun value_bar :: "action \<Rightarrow> bool" where
  "value_bar (Out x) \<longleftrightarrow> take 8 x = rowCol 12 10"
| "value_bar _ \<longleftrightarrow> False"

lemma rowCol_digits: "rowCol 12 10 = [CHR 0x1B, CHR ''['', CHR ''1'', CHR ''2'', CHR '';'', CHR ''1'', CHR ''0'', CHR ''H'']"
  "\<exists>x. rowCol 10 n = [CHR 0x1B, CHR ''['', CHR ''1'', CHR ''0''] @ x"
  "\<exists>x. rowCol 1 n = [CHR 0x1B, CHR ''['', CHR ''1'', CHR '';''] @ x"
  by (simp_all add: rowCol_def esc_def to_string.simps [of 12] to_string.simps [of 10] to_string.simps [of "Suc 0"]
      digit_char_def char_of_def bit_0)

lemma other_rows_no_bar [simp]: "\<not> value_bar (Out (rowCol 10 n @ x))" "\<not> value_bar (Out (rowCol (Suc 0) n @ x))"
  using rowCol_digits(2) [of n] rowCol_digits(3) [of n] by (auto simp: rowCol_digits(1))

declare value_bar.simps(1) [simp del]

fun line_done :: "service_event \<Rightarrow> bool" where
  "line_done (Line_Done ec x) \<longleftrightarrow> True"
| "line_done _ \<longleftrightarrow> False"

fun line_failed :: "service_event \<Rightarrow> bool" where
  "line_failed (Line_Done ec x) \<longleftrightarrow> is_error ec"
| "line_failed _ \<longleftrightarrow> False"

abbreviation line_reads :: "action list \<Rightarrow> action list" where
  "line_reads as \<equiv> filter (\<lambda>a. a = Start (Read_Until [newline])) as"

text \<open>A character with which no number starts: nothing is extracted, whatever comes behind it.\<close>

definition junk_start :: "char \<Rightarrow> bool" where
  "junk_start c \<longleftrightarrow> \<not> is_space c \<and> \<not> is_digit c \<and> c \<noteq> CHR ''-'' \<and> c \<noteq> CHR ''+''"

lemma extract_unsigned_junk:
  "junk_start c \<Longrightarrow>
     extract_unsigned (stream_of (c # x)) = (Some 0, \<lparr>remaining = c # x, eofbit = False, failbit = True\<rparr>)"
  by (simp add: junk_start_def extract_unsigned_def skip_space_def good_def stream_of_def Let_def)

lemma junk_step:
  assumes "junk_start c" and "m_serialData s = c # line"
  shows "\<exists>x. m_serialData (fst (service_step s e)) = c # line @ x" (is ?data)
    and "filter value_bar (snd (service_step s e)) = []" (is ?bars)
    and "line_wait s \<Longrightarrow> \<not> line_failed e \<Longrightarrow> line_wait (fst (service_step s e)) \<and>
      length (line_reads (snd (service_step s e))) = (if line_done e then 1 else 0)"
proof -
  have "?data \<and> ?bars \<and> (line_wait s \<longrightarrow> \<not> line_failed e \<longrightarrow> line_wait (fst (service_step s e)) \<and>
      length (line_reads (snd (service_step s e))) = (if line_done e then 1 else 0))"
  proof (cases e)
    case (Line_Done ec x)
    with assms extract_unsigned_junk [OF assms(1), of "line @ x"] show ?thesis
      by (auto simp: lineReceived_def readLine_def good_def Let_def)
  qed (use assms(2) in \<open>auto simp: service_input_def timerExpired_def Let_def\<close>)
  then show ?data and ?bars and "line_wait s \<Longrightarrow> \<not> line_failed e \<Longrightarrow> line_wait (fst (service_step s e)) \<and>
      length (line_reads (snd (service_step s e))) = (if line_done e then 1 else 0)"
    by blast+
qed

text \<open>
  C39: a line that starts with neither a number nor a sign nor a space is never consumed, and no value is shown any
  more. Whatever happens afterwards, characters typed, the timer, lines that arrive, in any order and with any errors:
  the line stays at the front of the buffer and no bar is ever drawn. As the buffer still holds a newline, every
  \<open>async_read_until\<close> completes at once, and every completion without an error starts the next one: the program is
  busy for ever, while the clock and the characters typed are still drawn.
\<close>

theorem junk_line_never_consumed:
  assumes "m_serialData s = c # line" and "junk_start c" and "deliver service_step s es = (t, as)"
  shows "(\<exists>new. m_serialData t = c # line @ new) \<and> filter value_bar as = [] \<and>
    (line_wait s \<longrightarrow> filter line_failed es = [] \<longrightarrow>
       line_wait t \<and> length (line_reads as) = length (filter line_done es))"
  using assms(1,3)
proof (induction es arbitrary: s line as)
  case Nil
  then show ?case by simp
next
  case (Cons e es)
  from junk_step(1) [OF assms(2) Cons.prems(1), of e] obtain x
    where x: "m_serialData (fst (service_step s e)) = c # line @ x" by blast
  from Cons.prems(2) obtain bs where bs: "deliver service_step (fst (service_step s e)) es = (t, bs)"
    and as: "as = snd (service_step s e) @ bs"
    by (auto simp: deliver_Cons simp del: deliver.simps(2)) (metis prod.collapse)
  from Cons.IH [OF x bs] junk_step(2,3) [OF assms(2) Cons.prems(1), of e] show ?case
    by (auto simp: as)
qed

text \<open>A number that comes after the line is not shown; the clock is.\<close>

theorem junk_line_never_consumed_witness:
  "(let (t, as) = deliver service_step
      \<lparr>m_serialData = ''abc'' @ [newline], m_stop = False, m_charCount = 0, line_wait = True, timer_wait = True\<rparr>
      [Line_Done Success [], Timer_Done Success ''now'', Line_Done Success (to_string 40 @ [newline])]
    in take 4 (m_serialData t) = ''abc'' @ [newline] \<and> filter value_bar as = [] \<and> length (line_reads as) = 2 \<and>
       Out (rowCol 1 40 @ clearEol @ ''now'') \<in> set as)"
proof -
  let ?s = "\<lparr>m_serialData = ''abc'' @ [newline], m_stop = False, m_charCount = 0, line_wait = True, timer_wait = True\<rparr>"
  let ?es = "[Line_Done Success [], Timer_Done Success ''now'', Line_Done Success (to_string 40 @ [newline])]"
  obtain t as where t: "deliver service_step ?s ?es = (t, as)" by fastforce
  have j: "junk_start CHR ''a''" by (simp add: junk_start_def is_space_def is_digit_def)
  have "Out (rowCol 1 40 @ clearEol @ ''now'') \<in> set (snd (deliver service_step ?s ?es))"
    using extract_unsigned_junk [OF j]
    by (simp add: deliver_Cons lineReceived_def readLine_def good_def timerExpired_def Let_def del: deliver.simps(2))
  with junk_line_never_consumed [OF _ j t, of "''bc'' @ [newline]"] t show ?thesis by auto
qed

lemma inputs_from:
  "m_charCount s = (if i = 0 then 0 else (i - 1) mod 61 + 1) \<Longrightarrow>
   snd (deliver service_step s (map Posted_Input cs)) =
     map (\<lambda>j. Out (rowCol 10 (10 + (i + j) mod 61) @ clearEol @ shown_char (cs ! j))) [0..<length cs]"
proof (induction cs arbitrary: s i)
  case Nil
  then show ?case by simp
next
  case (Cons c cs)
  let ?count = "if m_charCount s > 60 then 0 else m_charCount s"
  have "?count = i mod 61"
  proof (cases i)
    case (Suc i')
    with Cons.prems mod_less_divisor [of 61 i'] show ?thesis by (auto simp: mod_Suc)
  qed (use Cons.prems in simp)
  moreover from this have "m_charCount (fst (service_step s (Posted_Input c))) =
      (if Suc i = 0 then 0 else (Suc i - 1) mod 61 + 1)"
    by (simp add: service_input_def Let_def)
  note Cons.IH [OF this]
  moreover have "[0..<length (c # cs)] = 0 # map Suc [0..<length cs]"
    by (metis length_Cons map_Suc_upt upt_conv_Cons zero_less_Suc)
  ultimately show ?case
    by (simp add: deliver_Cons service_input_def Let_def comp_def del: deliver.simps(2) upt_Suc)
qed

text \<open>
  the characters typed are shown in one row, one beside the other, in the columns 10 to 70, and start
  again in column 10 after 61 characters; each is drawn as it is, or as its control letter in reverse video,
  or as a diamond.
\<close>

theorem input_columns:
  "snd (deliver service_step (fst make_service) (map Posted_Input cs)) =
     map (\<lambda>i. Out (rowCol 10 (10 + i mod 61) @ clearEol @ shown_char (cs ! i))) [0..<length cs]"
  using inputs_from [of "fst make_service" 0 cs] by (simp add: make_service_def)

text \<open>
  \<open>getConsoleInput\<close> ends only at Ctrl+C: it posts each character before the first one, and at the end
  of the input, where \<open>getchar\<close> returns -1 for ever, it posts the same character for ever.
\<close>

theorem console_ends_only_at_ctrl_c:
  "snd (getConsoleInput cs) = (CTRL_C \<in> set cs) \<and>
   fst (getConsoleInput cs) = map (\<lambda>c. char_of (nat (c mod 256))) (takeWhile (\<lambda>c. c \<noteq> CTRL_C) cs)"
  by (induction cs) (auto split: prod.splits)

end
