(* ===== verification/Fiber_Queue.thy ===== *)
theory Fiber_Queue
  imports Base
begin

text \<open>
  \<open>Threads/Fibers.cpp\<close>: a producer and a consumer fiber that share a vector. Fibers give up the processor
  only at \<open>this_fiber::yield()\<close> or when they end, so a step runs one of them from there to the next such
  point. Which one runs next is up to the scheduler: the step relation leaves it open.
\<close>

section \<open>State and steps\<close>

text \<open>
  \<open>fq_index\<close> is the \<open>i\<close> of the producer's loop, and \<open>None\<close> when the producer has ended. \<open>Undefined\<close> is the state
  after \<open>front()\<close> on an empty vector.
\<close>

datatype consumer = Consuming | Consumer_Ended | Undefined

record fiber_queue =
  buffer :: "nat list"
  done_flag :: bool
  fq_index :: "nat option"
  consumer :: consumer
  consumed :: "nat list"

definition start_fibers :: fiber_queue where
  "start_fibers = \<lparr>buffer = [], done_flag = False, fq_index = Some 0, consumer = Consuming, consumed = []\<rparr>"

definition produce :: "fiber_queue \<Rightarrow> nat \<Rightarrow> fiber_queue" where
  "produce s i =
     (if i < 10 then s\<lparr>buffer := buffer s @ [i], fq_index := Some (i + 1)\<rparr>
      else s\<lparr>done_flag := True, fq_index := None\<rparr>)"

text \<open>\<open>front()\<close> reads the first element, \<open>pop_back()\<close> removes the last one.\<close>

definition consume :: "fiber_queue \<Rightarrow> fiber_queue" where
  "consume s =
     (if \<not> done_flag s then
        (case buffer s of
           [] \<Rightarrow> s\<lparr>consumer := Undefined\<rparr>
         | data # rest \<Rightarrow> s\<lparr>buffer := butlast (buffer s), consumed := consumed s @ [data]\<rparr>)
      else s\<lparr>consumer := Consumer_Ended\<rparr>)"

inductive fiber_step :: "fiber_queue \<Rightarrow> fiber_queue \<Rightarrow> bool" where
  producer: "fq_index s = Some i \<Longrightarrow> consumer s \<noteq> Undefined \<Longrightarrow> fiber_step s (produce s i)"
| consumer: "consumer s = Consuming \<Longrightarrow> fiber_step s (consume s)"

inductive_cases fiber_step_cases: "fiber_step s t"

inductive_simps fiber_step_simps: "fiber_step s t"

inductive fibers_reach :: "fiber_queue \<Rightarrow> bool" where
  start: "fibers_reach start_fibers"
| step: "fibers_reach s \<Longrightarrow> fiber_step s t \<Longrightarrow> fibers_reach t"


section \<open>What every schedule keeps\<close>

text \<open>
  The values produced so far are \<open>0, ..., n - 1\<close>; the vector holds the first of them, and the number of those
  that are gone is the number of values consumed.
\<close>

definition produced :: "fiber_queue \<Rightarrow> nat" where
  "produced s = (case fq_index s of Some i \<Rightarrow> i | None \<Rightarrow> 10)"

definition queue_ok :: "fiber_queue \<Rightarrow> bool" where
  "queue_ok s \<longleftrightarrow> produced s \<le> 10 \<and> done_flag s = (fq_index s = None) \<and>
     length (buffer s) + length (consumed s) = produced s \<and>
     (\<forall>v \<in> set (buffer s) \<union> set (consumed s). v < produced s)"

lemma queue_ok_produce:
  assumes "queue_ok s" and "fq_index s = Some i"
  shows "queue_ok (produce s i)"
  using assms by (auto simp: queue_ok_def produce_def produced_def less_Suc_eq)

lemma queue_ok_consume:
  assumes "queue_ok s"
  shows "queue_ok (consume s)"
  using assms
  by (auto simp: queue_ok_def consume_def produced_def split: list.split option.splits dest: in_set_butlastD)

lemma reach_queue_ok: "fibers_reach s \<Longrightarrow> queue_ok s"
proof (induction rule: fibers_reach.induct)
  case start
  then show ?case by (simp add: queue_ok_def start_fibers_def produced_def)
next
  case (step s t)
  from step.hyps(2) step.IH show ?case
    by (cases rule: fiber_step_cases) (auto intro: queue_ok_produce queue_ok_consume)
qed

text \<open>
  C40: in every state that any schedule of the two fibers reaches, the number of values produced is the number
  consumed plus the number in the vector, every value consumed was produced, and a turn of the consumer makes the program
  undefined exactly when the producer has not ended and as many values have been consumed as were produced. (When the
  producer has ended, a consumer that has consumed everything ends.)
\<close>

theorem fibers_invariant:
  assumes "fibers_reach s"
  shows "length (buffer s) + length (consumed s) = produced s \<and> produced s \<le> 10 \<and>
    set (consumed s) \<subseteq> {..< produced s} \<and>
    (consumer s = Consuming \<and> consumer (consume s) = Undefined \<longleftrightarrow>
     consumer s = Consuming \<and> fq_index s \<noteq> None \<and> length (consumed s) = produced s)"
  using reach_queue_ok [OF assms]
  by (cases "buffer s") (auto simp: queue_ok_def consume_def)

theorem fibers_invariant_witness:
  "length (buffer (produce start_fibers 0)) + length (consumed (produce start_fibers 0)) = produced (produce start_fibers 0)"
proof -
  have "fiber_step start_fibers (produce start_fibers 0)"
    by (rule fiber_step.producer) (simp_all add: start_fibers_def)
  then have "fibers_reach (produce start_fibers 0)" by (rule fibers_reach.step [OF fibers_reach.start])
  from fibers_invariant [OF this] show ?thesis by simp
qed


section \<open>Runs under a given schedule\<close>

text \<open>A schedule says whose turn it is: \<open>True\<close> is the producer's. A fiber that has ended is passed over.\<close>

fun run_fibers :: "fiber_queue \<Rightarrow> bool list \<Rightarrow> fiber_queue" where
  "run_fibers s [] = s"
| "run_fibers s (turn # sched) = run_fibers
     (if turn then (case fq_index s of Some i \<Rightarrow> if consumer s \<noteq> Undefined then produce s i else s | None \<Rightarrow> s)
      else if consumer s = Consuming then consume s else s) sched"

lemma run_fibers_reach: "fibers_reach s \<Longrightarrow> fibers_reach (run_fibers s sched)"
proof (induction sched arbitrary: s)
  case Nil
  then show ?case by simp
next
  case (Cons turn sched)
  have "fibers_reach (if turn then (case fq_index s of Some i \<Rightarrow> if consumer s \<noteq> Undefined then produce s i else s
      | None \<Rightarrow> s) else if consumer s = Consuming then consume s else s)"
    using Cons.prems by (auto intro: fibers_reach.step fiber_step.intros split: option.split)
  from Cons.IH [OF this] show ?case by simp
qed

text \<open>
  when the scheduler alternates between the fibers and starts with the producer, the program is correct:
  it consumes the ten values in their order, each once, and both fibers end.
\<close>

theorem alternating_fibers_consume_all:
  "(let s = run_fibers start_fibers (concat (replicate 11 [True, False]))
    in consumed s = [0..<10] \<and> buffer s = [] \<and> consumer s = Consumer_Ended \<and> fq_index s = None)"
  by (simp add: start_fibers_def produce_def consume_def numeral_eq_Suc upt_conv_Cons Let_def)

text \<open>
  under another schedule the program is undefined, and it does not work as a queue: a consumer that gets
  the first turn reads from an empty vector; after two turns of the producer the consumer takes the first
  value twice and the second one is lost.
\<close>

theorem other_schedules_break:
  "consumer (run_fibers start_fibers [False]) = Undefined \<and>
   consumed (run_fibers start_fibers [True, True, False, False]) = [0, 0]"
  by (simp add: start_fibers_def produce_def consume_def)

end
