(* ===== verification/Timer_Callbacks.thy ===== *)
theory Timer_Callbacks
  imports Async_Objects
begin

text \<open>
  \<open>Timer/Timer.cpp\<close> and the same class in \<open>Experiments/main.cpp\<close>: a handler that re-arms its timer five
  times; the chained timers of \<open>Asio/Timer/Timer.cpp\<close> and \<open>Asio/BackgroundTasks/BackgroundTasks.cpp\<close>; the
  printing of the Boost version. A completion is the error code of a wait.
\<close>

section \<open>\<open>Callback::handler\<close>\<close>

text \<open>\<open>tm_expiry\<close> is the expiry time of \<open>m_timer\<close>, in seconds after its construction; an
  \<open>Expires_After\<close> of this class shows this time.\<close>

record timer_handler =
  m_count :: nat
  tm_expiry :: nat
  tm_waiting :: "unit option"

definition async_wait :: "timer_handler \<Rightarrow> timer_handler \<times> action list" where
  "async_wait h = (h\<lparr>tm_waiting := Some ()\<rparr>, [Expires_After (tm_expiry h), Start Wait_Timer])"

definition make_timer_handler :: "timer_handler \<times> action list" where
  "make_timer_handler = async_wait \<lparr>m_count = 0, tm_expiry = 1, tm_waiting = None\<rparr>"

text \<open>\<open>boost::bind\<close> drops the error code: \<open>message\<close> runs for every completion.\<close>

definition timer_message :: "timer_handler \<Rightarrow> timer_handler \<times> action list" where
  "timer_message h =
     (if m_count h < 5
      then let (h', as) = async_wait (h\<lparr>m_count := m_count h + 1, tm_expiry := tm_expiry h + 1\<rparr>)
           in (h', print_line (to_string (m_count h)) # as)
      else (h, []))"

definition timer_step :: "timer_handler \<Rightarrow> error_code \<Rightarrow> timer_handler \<times> action list" where
  "timer_step h ec = (case tm_waiting h of
     None \<Rightarrow> (h, []) | Some _ \<Rightarrow> timer_message (h\<lparr>tm_waiting := None\<rparr>))"

definition destroy_timer_handler :: "timer_handler \<Rightarrow> action list" where
  "destroy_timer_handler h = [print_line (''The last count : '' @ to_string (m_count h))]"

text \<open>\<open>testCallback\<close>: \<open>io.run()\<close> returns when no wait is in flight, and then the handler is destroyed.\<close>

definition testCallback :: "error_code list \<Rightarrow> action list" where
  "testCallback ecs =
     (let (h, as) = make_timer_handler; (h, bs) = deliver timer_step h ecs
      in as @ bs @ (if tm_waiting h = None then destroy_timer_handler h else []))"

interpretation callback_timer: async_session timer_step tm_waiting
  by unfold_locales (auto simp: timer_step_def timer_message_def async_wait_def split: option.split)


section \<open>Chained timers\<close>

text \<open>\<open>log_message\<close> is what \<open>DEBUG\<close> and \<open>ERROR\<close> print before the text: the time.\<close>

record chained_timer =
  ch_waiting :: "unit option"

definition start_chain :: "chained_timer \<times> action list" where
  "start_chain = (\<lparr>ch_waiting = Some ()\<rparr>, [Expires_After 3, Start Wait_Timer])"

definition chain_handler :: "string \<Rightarrow> chained_timer \<Rightarrow> error_code \<Rightarrow> chained_timer \<times> action list" where
  "chain_handler now t ec =
     (if \<not> is_error ec
      then (t\<lparr>ch_waiting := Some ()\<rparr>, [print_line (now @ ''Handler: Timer expired.''), Expires_After 1, Start Wait_Timer])
      else (t, [Report (now @ ''Handler error'') ec]))"

definition chain_step :: "string \<Rightarrow> chained_timer \<Rightarrow> error_code \<Rightarrow> chained_timer \<times> action list" where
  "chain_step now t ec = (case ch_waiting t of
     None \<Rightarrow> (t, []) | Some _ \<Rightarrow> chain_handler now (t\<lparr>ch_waiting := None\<rparr>) ec)"

interpretation chain: async_session "chain_step now" ch_waiting for now
  by unfold_locales (auto simp: chain_step_def chain_handler_def split: option.split)


section \<open>\<open>PrintBoostVersion\<close>\<close>

definition PrintBoostVersion :: "nat \<Rightarrow> action list" where
  "PrintBoostVersion version =
     [print_line (to_string (version div 100000) @ ''.'' @ to_string (version div 100 mod 1000) @ ''.'' @
        to_string (version mod 100))]"


section \<open>Properties\<close>

fun timeouts :: "action list \<Rightarrow> nat list" where
  "timeouts [] = []"
| "timeouts (Expires_After n # as) = n # timeouts as"
| "timeouts (a # as) = timeouts as"

lemma timeouts_append [simp]: "timeouts (as @ bs) = timeouts as @ timeouts bs"
  by (induction as rule: timeouts.induct) auto

lemma timeouts_print_line [simp]: "timeouts (print_line t # as) = timeouts as"
  by (simp add: print_line_def)

lemma callback_from:
  assumes "tm_waiting h = Some ()" and "m_count h \<le> 5" and "tm_expiry h = m_count h + 1" and "5 - m_count h < length ecs"
  shows "tm_waiting (fst (deliver timer_step h ecs)) = None \<and> m_count (fst (deliver timer_step h ecs)) = 5 \<and>
    printed (snd (deliver timer_step h ecs)) = concat (map (\<lambda>k. to_string k @ [CHR 0x0A]) [m_count h..<5]) \<and>
    timeouts (snd (deliver timer_step h ecs)) = [m_count h + 2..<7]"
  using assms
proof (induction ecs arbitrary: h)
  case Nil
  then show ?case by simp
next
  case (Cons ec ecs)
  show ?case
  proof (cases "m_count h < 5")
    case True
    let ?h = "h\<lparr>m_count := m_count h + 1, tm_expiry := tm_expiry h + 1\<rparr>"
    have s: "timer_step h ec = (?h, [print_line (to_string (m_count h)), Expires_After (m_count h + 2), Start Wait_Timer])"
      using True Cons.prems by (cases h) (simp add: timer_step_def timer_message_def async_wait_def)
    have "[m_count h..<5] = m_count h # [Suc (m_count h)..<5]" "[m_count h + 2..<7] = (m_count h + 2) # [Suc (m_count h) + 2..<7]"
      using True by (simp_all add: upt_conv_Cons)
    moreover have "5 - m_count ?h < length ecs" using Cons.prems(4) True by simp
    ultimately show ?thesis using Cons.IH [of ?h] Cons.prems True s
      by (simp add: deliver_Cons del: deliver.simps(2))
  next
    case False
    with Cons.prems have "timer_step h ec = (h\<lparr>tm_waiting := None\<rparr>, [])" "m_count h = 5"
      by (auto simp: timer_step_def timer_message_def)
    then show ?thesis by (simp add: deliver_Cons callback_timer.deliver_idle del: deliver.simps(2))
  qed
qed

text \<open>
  the callback timer fires six times, at the seconds 1 to 6 (each expiry is a second after the one
  before, however late the handler runs), prints the counts 0 to 4 and at the end the last count, 5.
\<close>

theorem callback_counts_to_five:
  assumes "6 \<le> length ecs"
  shows "printed (testCallback ecs) =
      concat (map (\<lambda>k. to_string k @ [CHR 0x0A]) [0..<5]) @ ''The last count : '' @ to_string 5 @ [CHR 0x0A] \<and>
    timeouts (testCallback ecs) = [1..<7]"
proof -
  define h where "h = \<lparr>m_count = 0, tm_expiry = 1, tm_waiting = Some ()\<rparr>"
  have m: "make_timer_handler = (h, [Expires_After 1, Start Wait_Timer])"
    by (simp add: make_timer_handler_def async_wait_def h_def)
  have l: "[1..<7] = 1 # [0 + 2..<7::nat]" by (simp add: upt_conv_Cons)
  from callback_from [of h ecs] assms show ?thesis unfolding l
    by (simp add: case_prod_beta testCallback_def m destroy_timer_handler_def h_def)
qed

theorem callback_counts_to_five_witness:
  "timeouts (testCallback (replicate 6 Success)) = [1..<7]"
  by (rule callback_counts_to_five [THEN conjunct2]) simp

lemma chain_step_waiting:
  "ch_waiting t = Some u \<Longrightarrow> chain_step now t ec = chain_handler now (t\<lparr>ch_waiting := None\<rparr>) ec"
  by (simp add: chain_step_def)

lemma chain_from:
  "ch_waiting t = Some () \<Longrightarrow>
     (ch_waiting (fst (deliver (chain_step now) t ecs)) = None \<longleftrightarrow>
        length (takeWhile (\<lambda>ec. \<not> is_error ec) ecs) < length ecs) \<and>
     timeouts (snd (deliver (chain_step now) t ecs)) = replicate (length (takeWhile (\<lambda>ec. \<not> is_error ec) ecs)) 1"
proof (induction ecs arbitrary: t)
  case Nil
  then show ?case by simp
next
  case (Cons ec ecs)
  then show ?case using Cons.IH [of "fst (chain_step now t ec)"]
    by (auto simp: deliver_Cons chain_step_waiting chain_handler_def chain.deliver_idle simp del: deliver.simps(2))
qed

text \<open>
  the chain of timers never ends by itself: as long as no wait fails, every expiry arms the next wait
  and prints one line; the first failure is reported and ends it.
\<close>

theorem chain_ends_only_at_error:
  "(let (t, as) = start_chain; (t', bs) = deliver (chain_step now) t ecs;
        n = length (takeWhile (\<lambda>ec. \<not> is_error ec) ecs)
    in timeouts (as @ bs) = 3 # replicate n 1 \<and> (ch_waiting t' = None \<longleftrightarrow> n < length ecs))"
  using chain_from [of "\<lparr>ch_waiting = Some ()\<rparr>" now ecs]
  by (simp add: start_chain_def Let_def case_prod_beta)

text \<open>the printed version determines the number: nothing of \<open>BOOST_VERSION\<close> is lost.\<close>

theorem version_parts:
  "version div 100000 * 100000 + version div 100 mod 1000 * 100 + version mod 100 = (version :: nat) \<and>
   printed (PrintBoostVersion version) = to_string (version div 100000) @ ''.'' @
     to_string (version div 100 mod 1000) @ ''.'' @ to_string (version mod 100) @ [CHR 0x0A]"
proof -
  have "version div 100 div 1000 * 1000 + version div 100 mod 1000 = version div 100"
    by (rule div_mult_mod_eq)
  moreover have "version div 100000 = version div 100 div 1000" by (simp add: div_mult2_eq [symmetric])
  moreover have "version div 100 * 100 + version mod 100 = version" by (rule div_mult_mod_eq)
  ultimately have "version div 100000 * 100000 + version div 100 mod 1000 * 100 + version mod 100 = version"
    by linarith
  then show ?thesis by (simp add: PrintBoostVersion_def)
qed


section \<open>The copies\<close>

text \<open>\<open>Callback\<close> of \<open>Experiments/main.cpp\<close>, as it is written there.\<close>

definition experiments_make_handler :: "timer_handler \<times> action list" where
  "experiments_make_handler = async_wait \<lparr>m_count = 0, tm_expiry = 1, tm_waiting = None\<rparr>"

definition experiments_message :: "timer_handler \<Rightarrow> timer_handler \<times> action list" where
  "experiments_message h =
     (if m_count h < 5
      then let (h', as) = async_wait (h\<lparr>m_count := m_count h + 1, tm_expiry := tm_expiry h + 1\<rparr>)
           in (h', print_line (to_string (m_count h)) # as)
      else (h, []))"

definition experiments_destroy_handler :: "timer_handler \<Rightarrow> action list" where
  "experiments_destroy_handler h = [print_line (''The last count : '' @ to_string (m_count h))]"

definition experiments_step :: "timer_handler \<Rightarrow> error_code \<Rightarrow> timer_handler \<times> action list" where
  "experiments_step h ec = (case tm_waiting h of
     None \<Rightarrow> (h, []) | Some _ \<Rightarrow> experiments_message (h\<lparr>tm_waiting := None\<rparr>))"

definition experiments_testCallback :: "error_code list \<Rightarrow> action list" where
  "experiments_testCallback ecs =
     (let (h, as) = experiments_make_handler; (h, bs) = deliver experiments_step h ecs
      in as @ bs @ (if tm_waiting h = None then experiments_destroy_handler h else []))"

text \<open>\<open>Chained_Asynchronous_Tasks\<close> of \<open>Asio/BackgroundTasks/BackgroundTasks.cpp\<close>.\<close>

definition background_chain_handler :: "string \<Rightarrow> chained_timer \<Rightarrow> error_code \<Rightarrow> chained_timer \<times> action list" where
  "background_chain_handler now t ec =
     (if \<not> is_error ec
      then (t\<lparr>ch_waiting := Some ()\<rparr>, [print_line (now @ ''Handler: Timer expired.''), Expires_After 1, Start Wait_Timer])
      else (t, [Report (now @ ''Handler error'') ec]))"

definition background_chain_run :: "chained_timer \<times> action list" where
  "background_chain_run = (\<lparr>ch_waiting = Some ()\<rparr>, [Expires_After 3, Start Wait_Timer])"

definition background_chain_step :: "string \<Rightarrow> chained_timer \<Rightarrow> error_code \<Rightarrow> chained_timer \<times> action list" where
  "background_chain_step now t ec = (case ch_waiting t of
     None \<Rightarrow> (t, []) | Some _ \<Rightarrow> background_chain_handler now (t\<lparr>ch_waiting := None\<rparr>) ec)"

text \<open>So what is shown above holds for them as well.\<close>

lemma timer_copies_agree:
  "experiments_testCallback = testCallback" "background_chain_run = start_chain" "background_chain_step = chain_step"
proof -
  have "experiments_message = timer_message" by (simp add: fun_eq_iff experiments_message_def timer_message_def)
  then have step: "experiments_step = timer_step" by (intro ext) (simp add: experiments_step_def timer_step_def split: option.split)
  have ends: "experiments_make_handler = make_timer_handler" "experiments_destroy_handler = destroy_timer_handler"
    by (simp_all add: fun_eq_iff experiments_make_handler_def make_timer_handler_def experiments_destroy_handler_def destroy_timer_handler_def)
  show "experiments_testCallback = testCallback"
    by (intro ext) (simp only: experiments_testCallback_def testCallback_def step ends)
  show "background_chain_run = start_chain" by (simp add: background_chain_run_def start_chain_def)
  have "background_chain_handler = chain_handler" by (simp add: fun_eq_iff background_chain_handler_def chain_handler_def)
  then show "background_chain_step = chain_step" by (intro ext) (simp add: background_chain_step_def chain_step_def split: option.split)
qed

end
