(* ===== verification/Smart_Pointers.thy ===== *)
theory Smart_Pointers
  imports Base "HOL-Library.Char_ord" "HOL-Library.List_Lexorder"
begin

text \<open>
  \<open>SmartPointers/SmartPointers.cpp\<close>: the class \<open>Long\<close> that prints what is done to it, the class
  \<open>String\<close> with its comparison, and the demonstrations of reference counts. An object is a value; a
  member function returns the changed objects, its result and what it prints. A \<open>long\<close> has 64 bits, and
  a result outside its range is undefined (\<open>None\<close>).
\<close>

section \<open>\<open>Long\<close>\<close>

datatype long_obj = Long (long_value: int)

definition in_range :: "int \<Rightarrow> int option" where
  "in_range v = (if - (2 ^ 63) \<le> v \<and> v < 2 ^ 63 then Some v else None)"

text \<open>Decimal output of a \<open>long\<close>.\<close>

definition show_long :: "int \<Rightarrow> string" where
  "show_long v = (if v < 0 then ''-'' @ to_string (nat (- v)) else to_string (nat v))"

definition long_text :: "string \<Rightarrow> int \<Rightarrow> string \<Rightarrow> string" where
  "long_text before v after = before @ show_long v @ after"

definition make_Long :: "int \<Rightarrow> long_obj \<times> string list" where
  "make_Long val = (Long val, [long_text ''Long('' val '')''])"

definition copy_Long :: "long_obj \<Rightarrow> long_obj \<times> string list" where
  "copy_Long obj = (Long (long_value obj), [long_text ''Long('' (long_value obj) '') [Copy constructor]''])"

text \<open>The moved-from object comes first.\<close>

definition move_Long :: "long_obj \<Rightarrow> long_obj \<times> long_obj \<times> string list" where
  "move_Long obj =
     (Long 0, Long (long_value obj), [long_text ''Long('' (long_value obj) '') [Move constructor]''])"

definition setValue :: "int \<Rightarrow> long_obj \<Rightarrow> long_obj" where
  "setValue v this = Long v"

definition getValue :: "long_obj \<Rightarrow> int" where
  "getValue this = long_value this"

definition destroy_Long :: "long_obj \<Rightarrow> string list" where
  "destroy_Long this = [long_text ''~Long('' (long_value this) '')'']"

text \<open>Assignment between two objects, or of an object to itself (\<open>self\<close>): the changed left and right.\<close>

definition copy_assign :: "bool \<Rightarrow> long_obj \<Rightarrow> long_obj \<Rightarrow> long_obj \<times> long_obj \<times> string list" where
  "copy_assign self this right =
     ((if \<not> self then Long (long_value right) else this), right,
      [long_text ''Right: Long('' (long_value right) '')'',
       long_text ''[Copy assignment] ('' (long_value this) '' -> '' @ show_long (long_value right) @ '')''])"

definition assign_long :: "int \<Rightarrow> long_obj \<Rightarrow> long_obj \<times> string list" where
  "assign_long val this = (Long val, [''[Copy assignment (from long)]''])"

definition move_assign :: "bool \<Rightarrow> long_obj \<Rightarrow> long_obj \<Rightarrow> long_obj \<times> long_obj \<times> string list" where
  "move_assign self this right =
     (let (this', right') = (if \<not> self then (Long (long_value right), Long 0) else (this, right))
      in (this', right', [''[Move assignment operator]'']))"

text \<open>The member \<open>operator*\<close> multiplies the object itself; the friend makes a new one.\<close>

definition times_Long :: "long_obj \<Rightarrow> long_obj \<Rightarrow> long_obj option" where
  "times_Long this right = map_option Long (in_range (long_value this * long_value right))"

definition times_long :: "long_obj \<Rightarrow> int \<Rightarrow> (long_obj \<times> string list) option" where
  "times_long left v = map_option make_Long (in_range (long_value left * v))"

text \<open>The increments: the changed object, the result (a copy), and what is printed.\<close>

definition postfix_increment :: "long_obj \<Rightarrow> (long_obj \<times> long_obj \<times> string list) option" where
  "postfix_increment this =
     (let (prev, out) = copy_Long this
      in map_option (\<lambda>v. (Long v, prev, out)) (in_range (long_value this + 1)))"

definition prefix_increment :: "long_obj \<Rightarrow> (long_obj \<times> long_obj \<times> string list) option" where
  "prefix_increment this =
     map_option (\<lambda>v. let (res, out) = copy_Long (Long v) in (Long v, res, out)) (in_range (long_value this + 1))"


section \<open>\<open>String\<close>\<close>

datatype ref_string = Ref_String (data: string)

text \<open>The order the class is meant to have: that of the data.\<close>

instantiation ref_string :: linorder
begin

definition less_eq_ref_string :: "ref_string \<Rightarrow> ref_string \<Rightarrow> bool" where
  "less_eq_ref_string a b \<longleftrightarrow> data a \<le> data b"

definition less_ref_string :: "ref_string \<Rightarrow> ref_string \<Rightarrow> bool" where
  "less_ref_string a b \<longleftrightarrow> data a < data b"

instance
  by standard (auto simp: less_eq_ref_string_def less_ref_string_def ref_string.expand)

end

text \<open>
  \<open>operator<=>\<close> returns a \<open>bool\<close>, whether the left data is less. C++ rewrites a comparison \<open>a @ b\<close> to
  \<open>(a <=> b) @ 0\<close>, where the \<open>bool\<close> counts as 0 or 1.
\<close>

definition spaceship :: "ref_string \<Rightarrow> ref_string \<Rightarrow> bool" where
  "spaceship this rhs \<longleftrightarrow> data this < data rhs"

definition cpp_less :: "ref_string \<Rightarrow> ref_string \<Rightarrow> bool" where
  "cpp_less a b \<longleftrightarrow> (of_bool (spaceship a b) :: int) < 0"

definition cpp_greater :: "ref_string \<Rightarrow> ref_string \<Rightarrow> bool" where
  "cpp_greater a b \<longleftrightarrow> (of_bool (spaceship a b) :: int) > 0"

definition cpp_less_eq :: "ref_string \<Rightarrow> ref_string \<Rightarrow> bool" where
  "cpp_less_eq a b \<longleftrightarrow> (of_bool (spaceship a b) :: int) \<le> 0"


section \<open>Reference counts\<close>

text \<open>
  A list of pointers is a list of the objects pointed to. \<open>String\<close> gets \<open>use_count()\<close> from its base class
  \<open>boost::intrusive_ref_counter\<close>. It is the parameter \<open>use_count\<close>: the count of an object, given the lists of
  \<open>intrusive_ptr\<close>s that are alive. Both demonstrations print \<open>entry->use_count()\<close>, which is this function of
  the object, also when \<open>entry\<close> is a \<open>std::shared_ptr\<close>.
\<close>

definition show_entries ::
  "(nat \<Rightarrow> string) \<Rightarrow> (nat \<Rightarrow> string) \<Rightarrow> (nat \<Rightarrow> nat) \<Rightarrow> nat list \<Rightarrow> string list" where
  "show_entries name address count ps =
     map (\<lambda>p. name p @ '' ('' @ address p @ '')'' @ '' | use_count = '' @ to_string (count p)) ps"

definition names :: "string list" where
  "names = [''one'', ''two'', ''three'']"

definition ref_counter_Test :: "(nat list list \<Rightarrow> nat \<Rightarrow> nat) \<Rightarrow> (nat \<Rightarrow> string) \<Rightarrow> string list" where
  "ref_counter_Test use_count address =
     (let listOrig = [0..<length names]; list2 = listOrig; list3 = listOrig;
          count = use_count [listOrig, list2, list3]
      in show_entries ((!) names) address count listOrig @ [''''] @ show_entries ((!) names) address count list2)"

definition Test_SharedPtr :: "(nat list list \<Rightarrow> nat \<Rightarrow> nat) \<Rightarrow> (nat \<Rightarrow> string) \<Rightarrow> string list" where
  "Test_SharedPtr use_count address =
     (let listOrig = [0..<length names]; list2 = listOrig; list3 = listOrig;
          count = use_count []
      in show_entries ((!) names) address count listOrig @ [''''] @ show_entries ((!) names) address count list2)"

text \<open>
  \<open>Intrusive_Ptr\<close>: the two functions that a \<open>boost::intrusive_ptr\<close> calls. The parameter \<open>lifetime\<close> is what
  making and destroying a pointer to an object prints, given these functions.
\<close>

definition intrusive_ptr_add_ref :: "long_obj \<Rightarrow> string list" where
  "intrusive_ptr_add_ref ptr = [long_text ''Called on creation. ('' (getValue ptr) '')'']"

definition intrusive_ptr_release :: "long_obj \<Rightarrow> string list" where
  "intrusive_ptr_release ptr = [long_text ''Called on deletion. ('' (getValue ptr) '')'']"

definition intrusive_ptr_Test ::
  "((long_obj \<Rightarrow> string list) \<Rightarrow> (long_obj \<Rightarrow> string list) \<Rightarrow> long_obj \<Rightarrow> string list) \<Rightarrow> string list" where
  "intrusive_ptr_Test lifetime =
     (let (obj, out) = make_Long 1 in out @ lifetime intrusive_ptr_add_ref intrusive_ptr_release obj)"


section \<open>Properties\<close>

text \<open>
  the comparison of \<open>String\<close> is wrong in every direction: because \<open>operator<=>\<close> returns a \<open>bool\<close>, no string
  is ever less than another, and \<open>a > b\<close> holds exactly when \<open>a\<close> comes before \<open>b\<close> in the order of the data.
\<close>

theorem comparison_is_inverted:
  "\<not> cpp_less a b \<and> cpp_greater a b = (a < b) \<and> cpp_less_eq a b = (b \<le> a)"
  by (auto simp: cpp_less_def cpp_greater_def cpp_less_eq_def spaceship_def less_ref_string_def less_eq_ref_string_def)

text \<open>
  moving a \<open>Long\<close>, by construction or by assignment to another object, hands its value over and leaves
  zero, so it loses and duplicates nothing; assigning an object to itself changes nothing.
\<close>

theorem moves_hand_over:
  "(let (src, new, out) = move_Long a in long_value src = 0 \<and> long_value new = long_value a) \<and>
   (let (left, right, out) = move_assign False a b in left = b \<and> long_value right = 0) \<and>
   (let (left, right, out) = move_assign True a a in left = a \<and> right = a) \<and>
   (let (left, right, out) = copy_assign True a a in left = a \<and> right = a)"
  by (cases a; cases b) (simp add: move_Long_def move_assign_def copy_assign_def)

lemma to_string_digit: "n < 10 \<Longrightarrow> to_string n = [digit_char n]"
  by (simp add: to_string.simps)

lemma indices_of_names: "[0..<length names] = [0, 1, 2]"
  by (simp add: names_def upt_rec)

text \<open>
  when \<open>use_count()\<close> is the number of intrusive pointers to the object, the first demonstration prints 3 for
  each object, which is in the original list and its two copies, but the second prints 0, although as many
  shared pointers share each object: it asks the object instead of the pointer.
\<close>

theorem shared_counts_are_zero:
  assumes "\<And>live p. use_count live p = count_list (concat live) p"
  shows "ref_counter_Test use_count address =
       (let out = show_entries ((!) names) address (\<lambda>p. 3) [0, 1, 2] in out @ [''''] @ out) \<and>
     Test_SharedPtr use_count address =
       (let out = show_entries ((!) names) address (\<lambda>p. 0) [0, 1, 2] in out @ [''''] @ out)"
  unfolding ref_counter_Test_def Test_SharedPtr_def indices_of_names
  by (simp add: show_entries_def assms numeral_3_eq_3)

theorem shared_counts_are_zero_witness:
  "Test_SharedPtr (\<lambda>live. count_list (concat live)) (\<lambda>p. ''0x1'') =
     (let out = show_entries ((!) names) (\<lambda>p. ''0x1'') (\<lambda>p. 0) [0, 1, 2] in out @ [''''] @ out)"
  by (rule shared_counts_are_zero [THEN conjunct2]) simp

text \<open>
  when a pointer calls the first function as it is made and the second as it is destroyed, the object of
  \<open>Intrusive_Ptr::Test\<close> is leaked: neither function deletes it, and no destructor runs.
\<close>

theorem intrusive_object_leaked:
  assumes "\<And>add_ref release obj. lifetime add_ref release obj = add_ref obj @ release obj"
  shows "intrusive_ptr_Test lifetime = [''Long(1)'', ''Called on creation. (1)'', ''Called on deletion. (1)'']"
  by (simp add: intrusive_ptr_Test_def assms make_Long_def intrusive_ptr_add_ref_def intrusive_ptr_release_def
      getValue_def long_text_def show_long_def to_string_digit digit_char_def char_of_def bit_0)

theorem intrusive_object_leaked_witness:
  "intrusive_ptr_Test (\<lambda>add_ref release obj. add_ref obj @ release obj) =
     [''Long(1)'', ''Called on creation. (1)'', ''Called on deletion. (1)'']"
  by (rule intrusive_object_leaked) simp

end
