(* ===== verification/Qi_Expressions.thy ===== *)
theory Qi_Expressions
  imports Boost_Calls
begin

text \<open>
  The parser expressions that \<open>Spirit/Spirit.cpp\<close> builds out of Boost.Spirit Qi. In C++ an expression such as
  \<open>int_ >> ' '\<close> is a value, an expression template: here it is a value of the datatype \<open>qi\<close>. What \<open>qi::parse\<close>
  does with it is not part of the repository: the programs take it as a parameter, and \<open>documented_parse\<close> says
  what its documentation promises, with the relation \<open>qi_match\<close>.
\<close>

section \<open>Expressions\<close>

datatype attr = Int_Attr int | Char_Attr char

datatype rule_name = Start_Rule | Group_Rule | Product_Rule | Factor_Rule

datatype qi =
    Qi_Digit                 \<comment> \<open>\<open>ascii::digit\<close>\<close>
  | Qi_Char                  \<comment> \<open>\<open>qi::char_\<close>\<close>
  | Qi_Int                   \<comment> \<open>\<open>qi::int_\<close>\<close>
  | Qi_Lit char
  | Qi_Seq qi qi             \<comment> \<open>\<open>a >> b\<close>\<close>
  | Qi_Alt qi qi             \<comment> \<open>\<open>a | b\<close>\<close>
  | Qi_Star qi               \<comment> \<open>\<open>*a\<close>\<close>
  | Qi_List qi qi            \<comment> \<open>\<open>a % b\<close>\<close>
  | Qi_Rule rule_name        \<comment> \<open>a \<open>qi::rule\<close>, by reference\<close>

type_synonym grammar = "rule_name \<Rightarrow> qi"

text \<open>A successful match: the attributes it exposes and the rest of the input. \<open>None\<close> is a failed match.\<close>

type_synonym qi_result = "(attr list \<times> string) option"


section \<open>The documented meaning\<close>

text \<open>\<open>int_\<close>: an optional sign and as many digits as there are; it fails when the value is not an \<open>int\<close>.\<close>

definition in_int :: "int \<Rightarrow> bool" where
  "in_int v \<longleftrightarrow> - (2 ^ 31) \<le> v \<and> v < 2 ^ 31"

definition unsigned_prefix :: "int \<Rightarrow> string \<Rightarrow> (int \<times> string) option" where
  "unsigned_prefix sign r =
     (let ds = takeWhile is_digit r; v = sign * int (decimal_value ds)
      in if ds = [] \<or> \<not> in_int v then None else Some (v, dropWhile is_digit r))"

definition int_prefix :: "string \<Rightarrow> (int \<times> string) option" where
  "int_prefix s = (case s of
     [] \<Rightarrow> None
   | c # r \<Rightarrow>
       if c = CHR ''-'' then unsigned_prefix (- 1) r
       else if c = CHR ''+'' then unsigned_prefix 1 r
       else unsigned_prefix 1 s)"

definition one_char :: "(char \<Rightarrow> bool) \<Rightarrow> (char \<Rightarrow> attr list) \<Rightarrow> string \<Rightarrow> qi_result" where
  "one_char P f s = (case s of [] \<Rightarrow> None | c # r \<Rightarrow> if P c then Some (f c, r) else None)"

fun primitive :: "qi \<Rightarrow> (string \<Rightarrow> qi_result) option" where
  "primitive Qi_Digit = Some (one_char is_digit (\<lambda>c. [Char_Attr c]))"
| "primitive Qi_Char = Some (one_char (\<lambda>_. True) (\<lambda>c. [Char_Attr c]))"
| "primitive (Qi_Lit d) = Some (one_char (\<lambda>c. c = d) (\<lambda>_. []))"
| "primitive Qi_Int = Some (\<lambda>s. map_option (\<lambda>(v, r). ([Int_Attr v], r)) (int_prefix s))"
| "primitive _ = None"

text \<open>
  The operators as the documentation of Qi has them: a sequence matches its parts one after the other; an
  alternative takes the first part that matches and never comes back to the other; a star matches as often as
  it can; a list \<open>a % b\<close> is \<open>a >> *(b >> a)\<close>. A rule matches as its definition does; \<open>store\<close> is what it keeps of
  the attributes (a rule of type \<open>int()\<close> keeps one \<open>int\<close>).
\<close>

inductive qi_match :: "(rule_name \<Rightarrow> attr list \<Rightarrow> attr list) \<Rightarrow> grammar \<Rightarrow> qi \<Rightarrow> string \<Rightarrow> qi_result \<Rightarrow> bool"
  for store :: "rule_name \<Rightarrow> attr list \<Rightarrow> attr list" and G :: grammar where
  match_primitive: "primitive p = Some f \<Longrightarrow> qi_match store G p s (f s)"
| match_seq: "qi_match store G p s (Some (a, s')) \<Longrightarrow> qi_match store G q s' (Some (b, s'')) \<Longrightarrow>
    qi_match store G (Qi_Seq p q) s (Some (a @ b, s''))"
| match_seq_fail1: "qi_match store G p s None \<Longrightarrow> qi_match store G (Qi_Seq p q) s None"
| match_seq_fail2: "qi_match store G p s (Some (a, s')) \<Longrightarrow> qi_match store G q s' None \<Longrightarrow>
    qi_match store G (Qi_Seq p q) s None"
| match_alt1: "qi_match store G p s (Some x) \<Longrightarrow> qi_match store G (Qi_Alt p q) s (Some x)"
| match_alt2: "qi_match store G p s None \<Longrightarrow> qi_match store G q s x \<Longrightarrow> qi_match store G (Qi_Alt p q) s x"
| match_star_end: "qi_match store G p s None \<Longrightarrow> qi_match store G (Qi_Star p) s (Some ([], s))"
| match_star: "qi_match store G p s (Some (a, s')) \<Longrightarrow> qi_match store G (Qi_Star p) s' (Some (b, s'')) \<Longrightarrow>
    qi_match store G (Qi_Star p) s (Some (a @ b, s''))"
| match_list: "qi_match store G (Qi_Seq p (Qi_Star (Qi_Seq q p))) s x \<Longrightarrow> qi_match store G (Qi_List p q) s x"
| match_rule: "qi_match store G (G n) s x \<Longrightarrow>
    qi_match store G (Qi_Rule n) s (map_option (\<lambda>(a, r). (store n a, r)) x)"

inductive_cases qi_seq_cases: "qi_match store G (Qi_Seq p q) s x"
inductive_cases qi_alt_cases: "qi_match store G (Qi_Alt p q) s x"
inductive_cases qi_star_cases: "qi_match store G (Qi_Star p) s x"
inductive_cases qi_list_cases: "qi_match store G (Qi_List p q) s x"
inductive_cases qi_rule_cases: "qi_match store G (Qi_Rule n) s x"

text \<open>
  \<open>qi::parse\<close> as the programs use it: whether it matched, the attributes it left in the output variables, and
  where it left the iterator. It has the documented behaviour if it decides every match that is defined; a
  failed match leaves the iterator where it was, and nothing is said of the attributes.
\<close>

type_synonym qi_parse = "grammar \<Rightarrow> qi \<Rightarrow> string \<Rightarrow> bool \<times> attr list \<times> string"

definition documented_parse :: "(rule_name \<Rightarrow> attr list \<Rightarrow> attr list) \<Rightarrow> qi_parse \<Rightarrow> bool" where
  "documented_parse store parse \<longleftrightarrow> (\<forall>G p s x. qi_match store G p s x \<longrightarrow>
     (case x of Some (a, r) \<Rightarrow> parse G p s = (True, a, r)
      | None \<Rightarrow> fst (parse G p s) = False \<and> snd (snd (parse G p s)) = s))"

lemma parse_success:
  "documented_parse store parse \<Longrightarrow> qi_match store G p s (Some (a, r)) \<Longrightarrow> parse G p s = (True, a, r)"
  by (fastforce simp: documented_parse_def)

lemma parse_failure:
  "documented_parse store parse \<Longrightarrow> qi_match store G p s None \<Longrightarrow> \<exists>a. parse G p s = (False, a, s)"
  by (cases "parse G p s") (fastforce simp: documented_parse_def)


section \<open>A parser with this behaviour\<close>

text \<open>The hypothesis can be met: the recursive descent parser below, which need not end on every grammar.\<close>

partial_function (option) qi_run ::
  "(rule_name \<Rightarrow> attr list \<Rightarrow> attr list) \<Rightarrow> grammar \<Rightarrow> qi \<Rightarrow> string \<Rightarrow> qi_result option" where
  "qi_run store G p s = (case p of
     Qi_Seq q r \<Rightarrow> Option.bind (qi_run store G q s) (\<lambda>x. case x of
         None \<Rightarrow> Some None
       | Some (a, s') \<Rightarrow> Option.bind (qi_run store G r s') (\<lambda>y. Some (map_option (\<lambda>(b, s''). (a @ b, s'')) y)))
   | Qi_Alt q r \<Rightarrow> Option.bind (qi_run store G q s) (\<lambda>x. if x = None then qi_run store G r s else Some x)
   | Qi_Star q \<Rightarrow> Option.bind (qi_run store G q s) (\<lambda>x. case x of
         None \<Rightarrow> Some (Some ([], s))
       | Some (a, s') \<Rightarrow> Option.bind (qi_run store G p s') (\<lambda>y. Some (map_option (\<lambda>(b, s''). (a @ b, s'')) y)))
   | Qi_List q r \<Rightarrow> qi_run store G (Qi_Seq q (Qi_Star (Qi_Seq r q))) s
   | Qi_Rule n \<Rightarrow> Option.bind (qi_run store G (G n) s) (\<lambda>x. Some (map_option (\<lambda>(a, r). (store n a, r)) x))
   | _ \<Rightarrow> Some (the (primitive p) s))"

lemma qi_run_complete: "qi_match store G p s x \<Longrightarrow> qi_run store G p s = Some x"
proof (induction rule: qi_match.induct)
  case (match_primitive p f s)
  then show ?case by (subst qi_run.simps) (auto split: qi.split)
next
  case (match_alt2 p s q x)
  then show ?case by (subst qi_run.simps) simp
qed (subst qi_run.simps, simp)+

definition descent_parse :: "(rule_name \<Rightarrow> attr list \<Rightarrow> attr list) \<Rightarrow> qi_parse" where
  "descent_parse store G p s = (case qi_run store G p s of
     Some (Some (a, r)) \<Rightarrow> (True, a, r) | _ \<Rightarrow> (False, [], s))"

lemma descent_parse_documented: "documented_parse store (descent_parse store)"
  by (auto simp: documented_parse_def descent_parse_def dest!: qi_run_complete split: option.split)

lemma qi_match_deterministic: "qi_match store G p s x \<Longrightarrow> qi_match store G p s y \<Longrightarrow> x = y"
  by (drule qi_run_complete)+ simp


section \<open>Languages\<close>

text \<open>
  The strings an expression describes when its operators are read as those of a context-free grammar, given
  the strings of each rule. A match always consumes such a string.
\<close>

primrec described :: "(rule_name \<Rightarrow> string \<Rightarrow> bool) \<Rightarrow> qi \<Rightarrow> string \<Rightarrow> bool" where
  "described L Qi_Digit w \<longleftrightarrow> (\<exists>c. w = [c] \<and> is_digit c)"
| "described L Qi_Char w \<longleftrightarrow> (\<exists>c. w = [c])"
| "described L Qi_Int w \<longleftrightarrow> (\<exists>v. int_prefix w = Some (v, []))"
| "described L (Qi_Lit c) w \<longleftrightarrow> w = [c]"
| "described L (Qi_Seq p q) w \<longleftrightarrow> (\<exists>u v. w = u @ v \<and> described L p u \<and> described L q v)"
| "described L (Qi_Alt p q) w \<longleftrightarrow> described L p w \<or> described L q w"
| "described L (Qi_Star p) w \<longleftrightarrow> (\<exists>ws. w = concat ws \<and> (\<forall>u \<in> set ws. described L p u))"
| "described L (Qi_List p q) w \<longleftrightarrow> (\<exists>u ws. w = u @ concat ws \<and> described L p u \<and>
     (\<forall>x \<in> set ws. \<exists>y z. x = y @ z \<and> described L q y \<and> described L p z))"
| "described L (Qi_Rule n) w \<longleftrightarrow> L n w"

lemma unsigned_prefix_rest:
  "unsigned_prefix g r = Some (v, t) \<longleftrightarrow> (\<exists>ds. r = ds @ t \<and> ds \<noteq> [] \<and> (\<forall>d \<in> set ds. is_digit d) \<and>
     (t \<noteq> [] \<longrightarrow> \<not> is_digit (hd t)) \<and> v = g * int (decimal_value ds) \<and> in_int v)"
proof
  assume l: "unsigned_prefix g r = Some (v, t)"
  then have "r = takeWhile is_digit r @ t \<and> takeWhile is_digit r \<noteq> [] \<and> (\<forall>d \<in> set (takeWhile is_digit r). is_digit d) \<and>
     (t \<noteq> [] \<longrightarrow> \<not> is_digit (hd t)) \<and> v = g * int (decimal_value (takeWhile is_digit r)) \<and> in_int v"
    using hd_dropWhile [of is_digit r]
    by (auto simp: unsigned_prefix_def Let_def dest: set_takeWhileD split: if_splits)
  then show "\<exists>ds. r = ds @ t \<and> ds \<noteq> [] \<and> (\<forall>d \<in> set ds. is_digit d) \<and>
     (t \<noteq> [] \<longrightarrow> \<not> is_digit (hd t)) \<and> v = g * int (decimal_value ds) \<and> in_int v" by blast
next
  assume "\<exists>ds. r = ds @ t \<and> ds \<noteq> [] \<and> (\<forall>d \<in> set ds. is_digit d) \<and>
     (t \<noteq> [] \<longrightarrow> \<not> is_digit (hd t)) \<and> v = g * int (decimal_value ds) \<and> in_int v"
  then obtain ds where ds: "r = ds @ t" "ds \<noteq> []" "\<forall>d \<in> set ds. is_digit d" "t \<noteq> [] \<longrightarrow> \<not> is_digit (hd t)"
    "v = g * int (decimal_value ds)" "in_int v" by blast
  then have "takeWhile is_digit r = ds" "dropWhile is_digit r = t"
    by (cases t; simp add: takeWhile_append dropWhile_append)+
  with ds show "unsigned_prefix g r = Some (v, t)" by (simp add: unsigned_prefix_def)
qed

lemma unsigned_prefix_append:
  "unsigned_prefix g w = Some (v, []) \<Longrightarrow> (t \<noteq> [] \<Longrightarrow> \<not> is_digit (hd t)) \<Longrightarrow> unsigned_prefix g (w @ t) = Some (v, t)"
  by (auto simp: unsigned_prefix_rest)

lemma unsigned_prefix_split:
  "unsigned_prefix g s = Some (v, t) \<Longrightarrow> \<exists>w. s = w @ t \<and> unsigned_prefix g w = Some (v, []) \<and> is_digit (hd w) \<and> w \<noteq> []"
  by (auto simp: unsigned_prefix_rest)

text \<open>An integer is read off the front of a text if no digit follows it.\<close>

lemma int_prefix_append:
  assumes "int_prefix w = Some (v, [])" and "t \<noteq> [] \<Longrightarrow> \<not> is_digit (hd t)"
  shows "int_prefix (w @ t) = Some (v, t)"
proof (cases w)
  case Nil
  with assms show ?thesis by (simp add: int_prefix_def)
next
  case (Cons c r)
  then show ?thesis using assms unsigned_prefix_append [of _ r v t] unsigned_prefix_append [of _ w v t]
    by (simp add: int_prefix_def split: if_splits)
qed

lemma sign_not_digit: "is_digit c \<Longrightarrow> c \<noteq> CHR ''-'' \<and> c \<noteq> CHR ''+''"
  by (auto simp: is_digit_def)

lemma int_prefix_split:
  assumes "int_prefix s = Some (v, t)"
  shows "\<exists>w. s = w @ t \<and> int_prefix w = Some (v, [])"
proof (cases s)
  case Nil
  with assms show ?thesis by (simp add: int_prefix_def)
next
  case (Cons c r)
  consider (sign) g where "c = CHR ''-'' \<and> g = - 1 \<or> c = CHR ''+'' \<and> g = 1" "unsigned_prefix g r = Some (v, t)"
    | (digits) "unsigned_prefix 1 s = Some (v, t)"
    using assms Cons by (auto simp: int_prefix_def split: if_splits)
  then show ?thesis
  proof cases
    case sign
    from unsigned_prefix_split [OF sign(2)] obtain w where "r = w @ t" "unsigned_prefix g w = Some (v, [])" by blast
    with sign(1) Cons show ?thesis by (intro exI [of _ "c # w"]) (auto simp: int_prefix_def)
  next
    case digits
    from unsigned_prefix_split [OF this] obtain w where w: "s = w @ t" "unsigned_prefix 1 w = Some (v, [])"
      "is_digit (hd w)" "w \<noteq> []" by blast
    then have "int_prefix w = Some (v, [])" using sign_not_digit by (cases w) (auto simp: int_prefix_def)
    with w(1) show ?thesis by blast
  qed
qed

lemma int_prefix_not_Nil: "int_prefix w = Some x \<Longrightarrow> w \<noteq> []"
  by (auto simp: int_prefix_def)

theorem match_described:
  assumes "qi_match store G p s (Some (a, r))" and "\<And>n w. described L (G n) w \<Longrightarrow> L n w"
  shows "\<exists>w. s = w @ r \<and> described L p w"
proof -
  have "qi_match store G p s x \<Longrightarrow> x = Some (a, r) \<Longrightarrow> \<exists>w. s = w @ r \<and> described L p w" for x
  proof (induction arbitrary: a r rule: qi_match.induct)
    case (match_primitive p f s)
    then show ?case
      by (cases p) (auto simp: one_char_def dest: int_prefix_split split: list.splits if_splits)
  next
    case (match_seq p s a' s' q b s'')
    from match_seq.IH(1) [OF refl] match_seq.IH(2) [OF refl] match_seq.prems
    show ?case by (metis append.assoc described.simps(5) option.inject prod.inject)
  next
    case (match_star p s a' s' b s'')
    from match_star.IH(1) [OF refl] obtain u where u: "s = u @ s'" "described L p u" by blast
    from match_star.IH(2) [OF refl] obtain ws where "s' = concat ws @ s''" "\<forall>u \<in> set ws. described L p u"
      by auto
    with u match_star.prems show ?case by (intro exI [of _ "concat (u # ws)"]) (auto intro!: exI [of _ "u # ws"])
  next
    case (match_list p q s x)
    from match_list.IH [OF match_list.prems] show ?case by auto
  next
    case (match_rule n s x)
    then obtain b where "x = Some (b, r)" by (cases x) auto
    from match_rule.IH [OF this] assms(2) show ?case by auto
  qed (auto intro: exI [of _ "[]"])
  with assms(1) show ?thesis by blast
qed

end
