(* ===== verification/Spirit_Grammar.thy ===== *)
theory Spirit_Grammar
  imports Qi_Expressions Input_Stream
begin

text \<open>
  \<open>Spirit/Spirit.cpp\<close>: the parsers and the three arithmetic grammars. \<open>qi::parse\<close> is the parameter \<open>parse\<close> of
  each program; output variables are the last values of the attributes it leaves. The properties show which
  inputs the grammars accept.
\<close>

section \<open>Output variables\<close>

text \<open>\<open>get_int\<close> is an \<open>int\<close> variable that was 0, the other two are an empty vector and an empty string.\<close>

fun get_int :: "attr list \<Rightarrow> int" where
  "get_int (Int_Attr n # as) = n"
| "get_int _ = 0"

fun get_ints :: "attr list \<Rightarrow> int list" where
  "get_ints [] = []"
| "get_ints (Int_Attr n # as) = n # get_ints as"
| "get_ints (Char_Attr c # as) = get_ints as"

fun get_string :: "attr list \<Rightarrow> string" where
  "get_string [] = []"
| "get_string (Char_Attr c # as) = c # get_string as"
| "get_string (Int_Attr n # as) = get_string as"


section \<open>\<open>Spirit::Parsers\<close>\<close>

text \<open>No rule is used in this part.\<close>

definition no_rules :: grammar where
  "no_rules = (\<lambda>_. Qi_Int)"

definition digit_input :: string where
  "digit_input = ''aaa'' @ [newline] @ ''bbb'' @ [newline] @ ''ccc'' @ [newline]"

definition ParseTest :: "qi_parse \<Rightarrow> action list" where
  "ParseTest parse =
     (let (matched, attrs, rest) = parse no_rules Qi_Digit digit_input
      in print_line (if matched then ''true'' else ''false'') # (if rest \<noteq> [] then [print_line rest] else []))"

definition parsers_test1 :: "qi_parse \<Rightarrow> action list" where
  "parsers_test1 parse =
     (let (matched, attrs, rest) = parse no_rules Qi_Int ''12345''
      in [print_line (''test1() parse result: '' @ show_int (get_int attrs))])"

definition int_and_text :: qi where
  "int_and_text = Qi_Seq (Qi_Seq Qi_Int (Qi_Lit (CHR '' ''))) (Qi_Star Qi_Char)"

definition parsers_test2 :: "qi_parse \<Rightarrow> action list" where
  "parsers_test2 parse =
     (let (matched, attrs, rest) = parse no_rules int_and_text ''76131 Karlsruhe''
      in [print_line (''test2() parse result: '' @ show_int (get_int attrs) @ '' '' @ get_string attrs)])"

definition print_ints :: "int list \<Rightarrow> action list" where
  "print_ints output = map (\<lambda>i. print_line (show_int i)) output"

definition terminated_list :: qi where
  "terminated_list =
     Qi_Seq (Qi_Seq (Qi_Lit (CHR ''['')) (Qi_Star (Qi_Seq Qi_Int (Qi_Lit (CHR '',''))))) (Qi_Lit (CHR '']''))"

definition parsers_test3 :: "qi_parse \<Rightarrow> action list" where
  "parsers_test3 parse =
     (let (matched, attrs, rest) = parse no_rules terminated_list ''[12345,42,5,]'';
          output = get_ints attrs
      in print_line (''test3() parse result: size '' @ to_string (length output)) # print_ints output)"

text \<open>\<open>std::quoted\<close>\<close>

definition quoted :: "string \<Rightarrow> string" where
  "quoted s = [CHR 0x22] @ concat (map (\<lambda>c. if c = CHR 0x22 \<or> c = CHR 0x5C then [CHR 0x5C, c] else [c]) s) @ [CHR 0x22]"

text \<open>\<open>ParseOrDie\<close>, twice in the file: what it prints, and the exception or the attributes.\<close>

definition ParseOrDie :: "qi_parse \<Rightarrow> grammar \<Rightarrow> string \<Rightarrow> qi \<Rightarrow> action list \<times> (exn + attr list)" where
  "ParseOrDie parse G input p =
     (let (ok, attrs, begin) = parse G p input
      in if \<not> ok \<or> begin \<noteq> []
         then ([print_line (''Unparseable: '' @ quoted begin)], Inl (Std_Exception ''Parse error''))
         else ([], Inr attrs))"

definition separated_list :: qi where
  "separated_list =
     Qi_Seq (Qi_Seq (Qi_Lit (CHR ''['')) (Qi_List Qi_Int (Qi_Lit (CHR '','')))) (Qi_Lit (CHR '']''))"

definition parsers_test4 :: "qi_parse \<Rightarrow> action list \<times> (exn + unit)" where
  "parsers_test4 parse =
     (case ParseOrDie parse no_rules ''[12345,42,5]'' separated_list of
        (out, Inl e) \<Rightarrow> (out, Inl e)
      | (out, Inr attrs) \<Rightarrow>
          (let output = get_ints attrs
           in (out @ print_line (''test4() parse result: size '' @ to_string (length output)) # print_ints output, Inr ())))"


section \<open>\<open>Spirit::Grammar\<close>\<close>

text \<open>A grammar has the rules it declares; the others are not used.\<close>

definition ArithmeticGrammar1 :: grammar where
  "ArithmeticGrammar1 n = Qi_Int"

definition grammar_test1 :: "qi_parse \<Rightarrow> action list \<times> (exn + unit)" where
  "grammar_test1 parse =
     (case ParseOrDie parse ArithmeticGrammar1 ''12345'' (Qi_Rule Start_Rule) of
        (out, Inl e) \<Rightarrow> (out, Inl e) | (out, Inr attrs) \<Rightarrow> (out, Inr ()))"

definition ArithmeticGrammar2 :: grammar where
  "ArithmeticGrammar2 n = Qi_Int"

definition grammar_test2 :: "qi_parse \<Rightarrow> action list \<times> (exn + unit)" where
  "grammar_test2 parse =
     (case ParseOrDie parse ArithmeticGrammar2 ''12345'' (Qi_Rule Start_Rule) of
        (out, Inl e) \<Rightarrow> (out, Inl e)
      | (out, Inr attrs) \<Rightarrow>
          (out @ [print_line (''Parse result: '' @ [CHR 0x27] @ ''12345'' @ [CHR 0x27] @ '' -> '' @ show_int (get_int attrs))],
           Inr ()))"

primrec ArithmeticGrammar3 :: grammar where
  "ArithmeticGrammar3 Start_Rule =
     Qi_Seq (Qi_Rule Product_Rule) (Qi_Star (Qi_Seq (Qi_Lit (CHR ''+'')) (Qi_Rule Product_Rule)))"
| "ArithmeticGrammar3 Product_Rule =
     Qi_Seq (Qi_Rule Factor_Rule) (Qi_Star (Qi_Seq (Qi_Lit (CHR ''*'')) (Qi_Rule Factor_Rule)))"
| "ArithmeticGrammar3 Factor_Rule = Qi_Alt Qi_Int (Qi_Rule Group_Rule)"
| "ArithmeticGrammar3 Group_Rule =
     Qi_Seq (Qi_Seq (Qi_Lit (CHR ''('')) (Qi_Rule Start_Rule)) (Qi_Lit (CHR '')''))"

definition grammar_test3 :: "qi_parse \<Rightarrow> action list \<times> (exn + unit)" where
  "grammar_test3 parse =
     (case ParseOrDie parse ArithmeticGrammar3 ''1+2*3'' (Qi_Rule Start_Rule) of
        (out, Inl e) \<Rightarrow> (out, Inl e)
      | (out, Inr attrs) \<Rightarrow> (out @ [print_line (''test3() parse result: '' @ show_int (get_int attrs))], Inr ()))"


section \<open>Arithmetic expressions\<close>

text \<open>What the third grammar is for: sums of products of integers and sums in parentheses.\<close>

inductive arith :: "rule_name \<Rightarrow> string \<Rightarrow> bool" where
  arith_int: "int_prefix w = Some (v, []) \<Longrightarrow> arith Factor_Rule w"
| arith_paren: "arith Start_Rule w \<Longrightarrow> arith Group_Rule (''('' @ w @ '')'')"
| arith_group: "arith Group_Rule w \<Longrightarrow> arith Factor_Rule w"
| arith_factor: "arith Factor_Rule w \<Longrightarrow> arith Product_Rule w"
| arith_times: "arith Factor_Rule u \<Longrightarrow> arith Product_Rule w \<Longrightarrow> arith Product_Rule (u @ ''*'' @ w)"
| arith_product: "arith Product_Rule w \<Longrightarrow> arith Start_Rule w"
| arith_plus: "arith Product_Rule u \<Longrightarrow> arith Start_Rule w \<Longrightarrow> arith Start_Rule (u @ ''+'' @ w)"

lemma arith_not_Nil: "arith n w \<Longrightarrow> w \<noteq> []"
  by (induction rule: arith.induct) (auto dest: int_prefix_not_Nil)

text \<open>Each rule of the grammar describes the expressions of its kind.\<close>

lemma arith_star:
  assumes "arith A u" and "\<forall>x \<in> set ws. \<exists>z. x = c # z \<and> arith A z"
    and "\<And>w. arith A w \<Longrightarrow> arith B w" and "\<And>u w. arith A u \<Longrightarrow> arith B w \<Longrightarrow> arith B (u @ [c] @ w)"
  shows "arith B (u @ concat ws)"
  using assms(1,2)
proof (induction ws arbitrary: u)
  case Nil
  then show ?case by (simp add: assms(3))
next
  case (Cons x ws)
  then obtain z where "x = c # z" "arith A z" by auto
  with Cons show ?case using assms(4) [of u "z @ concat ws"] by simp
qed

lemma described_arith: "described arith (ArithmeticGrammar3 n) w \<Longrightarrow> arith n w"
proof (cases n)
  case Start_Rule
  assume "described arith (ArithmeticGrammar3 n) w"
  with Start_Rule obtain u ws where "w = u @ concat ws" "arith Product_Rule u"
    "\<forall>x \<in> set ws. \<exists>z. x = CHR ''+'' # z \<and> arith Product_Rule z" by auto
  then show ?thesis using Start_Rule
    by (simp add: arith_star [where A = Product_Rule and c = "CHR ''+''"] arith_product arith_plus [simplified])
next
  case Product_Rule
  assume "described arith (ArithmeticGrammar3 n) w"
  with Product_Rule obtain u ws where "w = u @ concat ws" "arith Factor_Rule u"
    "\<forall>x \<in> set ws. \<exists>z. x = CHR ''*'' # z \<and> arith Factor_Rule z" by auto
  then show ?thesis using Product_Rule
    by (simp add: arith_star [where A = Factor_Rule and c = "CHR ''*''"] arith_factor arith_times [simplified])
next
  case Factor_Rule
  assume "described arith (ArithmeticGrammar3 n) w"
  with Factor_Rule show ?thesis by (auto intro: arith_int arith_group)
next
  case Group_Rule
  assume "described arith (ArithmeticGrammar3 n) w"
  with Group_Rule show ?thesis using arith_paren by auto
qed

lemma match_arith:
  assumes "qi_match store ArithmeticGrammar3 (Qi_Rule n) s (Some (a, r))"
  shows "\<exists>w. s = w @ r \<and> arith n w"
  using match_described [OF assms, of arith] described_arith by auto


section \<open>Every input is decided\<close>

abbreviation arith_match :: "(rule_name \<Rightarrow> attr list \<Rightarrow> attr list) \<Rightarrow> qi \<Rightarrow> string \<Rightarrow> qi_result \<Rightarrow> bool" where
  "arith_match store p s x \<equiv> qi_match store ArithmeticGrammar3 p s x"

definition decided :: "(rule_name \<Rightarrow> attr list \<Rightarrow> attr list) \<Rightarrow> qi \<Rightarrow> string \<Rightarrow> bool" where
  "decided store p s \<longleftrightarrow> (\<exists>x. arith_match store p s x)"

lemma decided_primitive: "primitive p = Some f \<Longrightarrow> decided store p s"
  unfolding decided_def by (blast intro: match_primitive)

lemma decided_rule: "decided store (ArithmeticGrammar3 n) s \<Longrightarrow> decided store (Qi_Rule n) s"
  unfolding decided_def by (blast intro: match_rule)

lemma decided_seq:
  assumes "decided store p s" and "\<And>a r. arith_match store p s (Some (a, r)) \<Longrightarrow> decided store q r"
  shows "decided store (Qi_Seq p q) s"
proof -
  from assms(1) obtain x where x: "arith_match store p s x" by (auto simp: decided_def)
  show ?thesis
  proof (cases x)
    case None
    with x show ?thesis unfolding decided_def by (blast intro: match_seq_fail1)
  next
    case (Some y)
    obtain a r where ar: "y = (a, r)" by (cases y)
    with assms(2) x Some obtain z where z: "arith_match store q r z" by (auto simp: decided_def)
    with x Some ar show ?thesis unfolding decided_def
      by (cases z) (auto intro: match_seq match_seq_fail2)
  qed
qed

lemma decided_alt: "decided store p s \<Longrightarrow> decided store q s \<Longrightarrow> decided store (Qi_Alt p q) s"
  unfolding decided_def by (metis match_alt1 match_alt2 not_None_eq)

text \<open>A star ends if each round consumes something.\<close>

lemma decided_star:
  assumes "\<And>t. length t \<le> length s \<Longrightarrow> decided store p t"
    and "\<And>t a r. arith_match store p t (Some (a, r)) \<Longrightarrow> length r < length t"
  shows "decided store (Qi_Star p) s"
  using assms(1)
proof (induction s rule: length_induct)
  case (1 s)
  from 1(2) obtain x where x: "arith_match store p s x" by (auto simp: decided_def)
  show ?case
  proof (cases x)
    case None
    with x show ?thesis unfolding decided_def by (blast intro: match_star_end)
  next
    case (Some y)
    obtain a r where ar: "y = (a, r)" by (cases y)
    with x Some have "length r < length s" using assms(2) by blast
    with 1 have "decided store (Qi_Star p) r" by simp
    then obtain z where z: "arith_match store (Qi_Star p) r z" by (auto simp: decided_def)
    from z have "z \<noteq> None" by (cases rule: qi_match.cases) simp_all
    with z x Some ar show ?thesis unfolding decided_def by (auto intro: match_star)
  qed
qed

lemma qi_match_primitive: "primitive p = Some f \<Longrightarrow> qi_match store G p s x \<longleftrightarrow> x = f s"
  using match_primitive [of p f store G s] qi_match_deterministic by blast

lemma lit_match:
  "qi_match store G (Qi_Lit c) s x \<longleftrightarrow> x = (case s of [] \<Rightarrow> None | d # r \<Rightarrow> if d = c then Some ([], r) else None)"
  by (subst qi_match_primitive) (auto simp: one_char_def split: list.split)

lemma rule_consumes: "arith_match store (Qi_Rule n) s (Some (a, r)) \<Longrightarrow> length r < length s"
  using match_arith arith_not_Nil by fastforce

lemma lit_rule_consumes:
  "arith_match store (Qi_Seq (Qi_Lit c) (Qi_Rule n)) s (Some (a, r)) \<Longrightarrow> length r < length s"
  by (elim qi_seq_cases) (auto simp: lit_match dest!: rule_consumes split: list.splits if_splits)

lemma decided_lit_rule:
  assumes "\<And>t. length t < length s \<Longrightarrow> decided store (Qi_Rule n) t"
  shows "decided store (Qi_Seq (Qi_Lit c) (Qi_Rule n)) s"
  using assms
  by (intro decided_seq) (auto simp: lit_match intro: decided_primitive split: list.splits if_splits)

lemma decided_separated:
  assumes "decided store (Qi_Rule n) s" and "\<And>t. length t < length s \<Longrightarrow> decided store (Qi_Rule n) t"
  shows "decided store (Qi_Seq (Qi_Rule n) (Qi_Star (Qi_Seq (Qi_Lit c) (Qi_Rule n)))) s"
proof (rule decided_seq [OF assms(1)])
  fix a r assume "arith_match store (Qi_Rule n) s (Some (a, r))"
  then have "length r < length s" by (rule rule_consumes)
  then show "decided store (Qi_Star (Qi_Seq (Qi_Lit c) (Qi_Rule n))) r"
    using lit_rule_consumes by (intro decided_star decided_lit_rule assms(2)) auto
qed

lemma rules_decided: "decided store (Qi_Rule n) s"
proof (induction s arbitrary: n rule: length_induct)
  case (1 s)
  then have shorter: "decided store (Qi_Rule n) t" if "length t < length s" for n t using that by blast
  have group: "decided store (Qi_Rule Group_Rule) s"
    using shorter by (intro decided_rule) (auto intro!: decided_seq decided_lit_rule intro: decided_primitive)
  have factor: "decided store (Qi_Rule Factor_Rule) s"
    using group decided_primitive [of Qi_Int] by (intro decided_rule) (simp add: decided_alt)
  have product: "decided store (Qi_Rule Product_Rule) s"
    using factor shorter by (intro decided_rule) (simp add: decided_separated)
  have start: "decided store (Qi_Rule Start_Rule) s"
    using product shorter by (intro decided_rule) (simp add: decided_separated)
  from group factor product start show ?case by (cases n) auto
qed


section \<open>Every expression is accepted\<close>

text \<open>What must not follow an expression of a kind, so that the greedy match ends where it does.\<close>

definition ends_with :: "rule_name \<Rightarrow> string \<Rightarrow> bool" where
  "ends_with n t \<longleftrightarrow> (case t of [] \<Rightarrow> True | c # _ \<Rightarrow>
     (n \<noteq> Group_Rule \<longrightarrow> \<not> is_digit c) \<and> (n \<in> {Product_Rule, Start_Rule} \<longrightarrow> c \<noteq> CHR ''*'') \<and>
     (n = Start_Rule \<longrightarrow> c \<noteq> CHR ''+''))"

lemma ends_with_parts:
  "ends_with Product_Rule r \<Longrightarrow> ends_with Factor_Rule r" "ends_with Product_Rule r \<Longrightarrow> r \<noteq> [] \<Longrightarrow> hd r \<noteq> CHR ''*''"
  "ends_with Start_Rule r \<Longrightarrow> ends_with Product_Rule r" "ends_with Start_Rule r \<Longrightarrow> r \<noteq> [] \<Longrightarrow> hd r \<noteq> CHR ''+''"
  "ends_with n r \<Longrightarrow> ends_with Group_Rule r"
  by (auto simp: ends_with_def split: list.splits)

definition accepts :: "(rule_name \<Rightarrow> attr list \<Rightarrow> attr list) \<Rightarrow> rule_name \<Rightarrow> string \<Rightarrow> string \<Rightarrow> bool" where
  "accepts store n s r \<longleftrightarrow> (\<exists>a. arith_match store (Qi_Rule n) s (Some (a, r)))"

definition star_accepts ::
  "(rule_name \<Rightarrow> attr list \<Rightarrow> attr list) \<Rightarrow> char \<Rightarrow> rule_name \<Rightarrow> string \<Rightarrow> string \<Rightarrow> bool" where
  "star_accepts store c n s r \<longleftrightarrow> (\<exists>a. arith_match store (Qi_Star (Qi_Seq (Qi_Lit c) (Qi_Rule n))) s (Some (a, r)))"

lemma accepts_rule: "arith_match store (ArithmeticGrammar3 n) s (Some (a, r)) \<Longrightarrow> accepts store n s r"
  using match_rule [of store ArithmeticGrammar3 n s "Some (a, r)"] by (auto simp: accepts_def)

lemma accepts_unfold: "accepts store n s r \<longleftrightarrow> (\<exists>a. arith_match store (ArithmeticGrammar3 n) s (Some (a, r)))"
proof
  assume "accepts store n s r"
  then show "\<exists>a. arith_match store (ArithmeticGrammar3 n) s (Some (a, r))"
    unfolding accepts_def by (auto elim!: qi_rule_cases simp: qi_match_primitive eq_commute [of "Some _"])
qed (auto intro: accepts_rule)

lemma star_accepts_end:
  assumes "s \<noteq> [] \<Longrightarrow> hd s \<noteq> c"
  shows "star_accepts store c n s s"
proof -
  have "arith_match store (Qi_Lit c) s None" using assms by (auto simp: lit_match split: list.split)
  then show ?thesis unfolding star_accepts_def by (blast intro: match_star_end match_seq_fail1)
qed

lemma star_accepts_step:
  assumes "accepts store n s t" and "star_accepts store c n t r"
  shows "star_accepts store c n (c # s) r"
proof -
  from assms obtain a b where a: "arith_match store (Qi_Rule n) s (Some (a, t))"
    and b: "arith_match store (Qi_Star (Qi_Seq (Qi_Lit c) (Qi_Rule n))) t (Some (b, r))"
    by (auto simp: accepts_def star_accepts_def)
  have "arith_match store (Qi_Seq (Qi_Lit c) (Qi_Rule n)) (c # s) (Some ([] @ a, t))"
    by (rule match_seq [OF _ a]) (simp add: lit_match)
  from match_star [OF this b] show ?thesis by (auto simp: star_accepts_def)
qed

text \<open>A rule \<open>m = n >> *(c >> n)\<close>.\<close>

lemma accepts_separated:
  assumes "ArithmeticGrammar3 m = Qi_Seq (Qi_Rule n) (Qi_Star (Qi_Seq (Qi_Lit c) (Qi_Rule n)))"
  shows "accepts store m s r \<longleftrightarrow> (\<exists>t. accepts store n s t \<and> star_accepts store c n t r)"
proof
  assume "accepts store m s r"
  then obtain a where "arith_match store (Qi_Seq (Qi_Rule n) (Qi_Star (Qi_Seq (Qi_Lit c) (Qi_Rule n)))) s (Some (a, r))"
    using assms by (auto simp: accepts_unfold)
  then show "\<exists>t. accepts store n s t \<and> star_accepts store c n t r"
    by (elim qi_seq_cases) (auto simp: accepts_def star_accepts_def)
next
  assume "\<exists>t. accepts store n s t \<and> star_accepts store c n t r"
  then obtain t a b where a: "arith_match store (Qi_Rule n) s (Some (a, t))"
    and b: "arith_match store (Qi_Star (Qi_Seq (Qi_Lit c) (Qi_Rule n))) t (Some (b, r))"
    by (auto simp: accepts_def star_accepts_def)
  from match_seq [OF a b] assms show "accepts store m s r" by (intro accepts_rule) simp
qed

lemma separated_single:
  assumes "ArithmeticGrammar3 m = Qi_Seq (Qi_Rule n) (Qi_Star (Qi_Seq (Qi_Lit c) (Qi_Rule n)))"
    and "accepts store n (w @ r) r" and "r \<noteq> [] \<Longrightarrow> hd r \<noteq> c"
  shows "accepts store m (w @ r) r"
  using assms(2,3) star_accepts_end by (auto simp: accepts_separated [OF assms(1)])

lemma separated_more:
  assumes "ArithmeticGrammar3 m = Qi_Seq (Qi_Rule n) (Qi_Star (Qi_Seq (Qi_Lit c) (Qi_Rule n)))"
    and "accepts store n (u @ c # w @ r) (c # w @ r)" and "accepts store m (w @ r) r"
  shows "accepts store m (u @ c # w @ r) r"
  using assms(2,3) star_accepts_step [of store n "w @ r"] unfolding accepts_separated [OF assms(1)] by blast

lemma group_starts: "arith Group_Rule w \<Longrightarrow> \<exists>v. w = CHR ''('' # v"
  by (erule arith.cases) auto

lemma arith_accepted: "arith n w \<Longrightarrow> ends_with n r \<Longrightarrow> accepts store n (w @ r) r"
proof (induction arbitrary: r rule: arith.induct)
  case (arith_int w v)
  then have "int_prefix (w @ r) = Some (v, r)"
    by (intro int_prefix_append) (auto simp: ends_with_def split: list.splits)
  then have "arith_match store Qi_Int (w @ r) (Some ([Int_Attr v], r))"
    by (simp add: qi_match_primitive)
  then show ?case by (intro accepts_rule) (auto intro: match_alt1)
next
  case (arith_paren w)
  have "accepts store Start_Rule (w @ '')'' @ r) ('')'' @ r)"
    by (rule arith_paren.IH) (simp add: ends_with_def is_digit_def)
  then obtain a where a: "arith_match store (Qi_Rule Start_Rule) (w @ '')'' @ r) (Some (a, '')'' @ r))"
    by (auto simp: accepts_def)
  have "arith_match store (Qi_Seq (Qi_Lit (CHR ''('')) (Qi_Rule Start_Rule)) (''('' @ w @ '')'' @ r) (Some ([] @ a, '')'' @ r))"
    by (rule match_seq [OF _ a]) (simp add: lit_match)
  then have "arith_match store (ArithmeticGrammar3 Group_Rule) (''('' @ w @ '')'' @ r) (Some (([] @ a) @ [], r))"
    unfolding ArithmeticGrammar3.simps by (rule match_seq) (simp add: lit_match)
  then show ?case using accepts_rule by simp
next
  case (arith_group w)
  then have "accepts store Group_Rule (w @ r) r" using ends_with_parts(5) by blast
  then obtain a where "arith_match store (Qi_Rule Group_Rule) (w @ r) (Some (a, r))" by (auto simp: accepts_def)
  moreover have "arith_match store Qi_Int (w @ r) None"
    using group_starts [OF arith_group.hyps]
    by (auto simp: qi_match_primitive int_prefix_def unsigned_prefix_def is_digit_def)
  ultimately have "arith_match store (ArithmeticGrammar3 Factor_Rule) (w @ r) (Some (a, r))"
    by (simp add: match_alt2)
  then show ?case by (rule accepts_rule)
next
  case (arith_factor w)
  show ?case
    by (rule separated_single [OF ArithmeticGrammar3.simps(2)])
      (use arith_factor in \<open>simp_all add: ends_with_parts\<close>)
next
  case (arith_times u w)
  have "accepts store Factor_Rule (u @ CHR ''*'' # w @ r) (CHR ''*'' # w @ r)"
    by (rule arith_times.IH(1)) (simp add: ends_with_def is_digit_def)
  moreover have "accepts store Product_Rule (w @ r) r" using arith_times.IH(2) arith_times.prems by blast
  ultimately show ?case using separated_more [of Product_Rule Factor_Rule "CHR ''*''"] by simp
next
  case (arith_product w)
  show ?case
    by (rule separated_single [OF ArithmeticGrammar3.simps(1)])
      (use arith_product in \<open>simp_all add: ends_with_parts\<close>)
next
  case (arith_plus u w)
  have "accepts store Product_Rule (u @ CHR ''+'' # w @ r) (CHR ''+'' # w @ r)"
    by (rule arith_plus.IH(1)) (simp add: ends_with_def is_digit_def)
  moreover have "accepts store Start_Rule (w @ r) r" using arith_plus.IH(2) arith_plus.prems by blast
  ultimately show ?case using separated_more [of Start_Rule Product_Rule "CHR ''+''"] by simp
qed


section \<open>Lists\<close>

text \<open>The texts of the two kinds of list in brackets: every element followed by a comma, or commas between them.\<close>

definition terminated_text :: "int list \<Rightarrow> string" where
  "terminated_text ns = ''['' @ concat (map (\<lambda>n. show_int n @ '','') ns) @ '']''"

definition separated_text :: "int \<Rightarrow> int list \<Rightarrow> string" where
  "separated_text n ns = ''['' @ show_int n @ concat (map (\<lambda>n. '','' @ show_int n) ns) @ '']''"

lemma int_prefix_show_int: "in_int n \<Longrightarrow> int_prefix (show_int n) = Some (n, [])"
proof -
  assume n: "in_int n"
  have d: "unsigned_prefix g (to_string m) = Some (g * int m, [])" if "in_int (g * int m)" for g m
    unfolding unsigned_prefix_rest using that to_string_digits [of m] by (auto simp: decimal_value_to_string)
  show ?thesis
  proof (cases "n < 0")
    case True
    with n d [of "- 1" "nat (- n)"] show ?thesis by (simp add: show_int_def int_prefix_def)
  next
    case False
    then have "show_int n = to_string (nat n)" by (simp add: show_int_def)
    moreover have "\<exists>c r. to_string (nat n) = c # r \<and> is_digit c"
      using to_string_digits [of "nat n"] by (cases "to_string (nat n)") auto
    ultimately show ?thesis using False n d [of 1 "nat n"] sign_not_digit
      by (auto simp: int_prefix_def)
  qed
qed

lemma int_match:
  assumes "in_int n" and "t \<noteq> [] \<Longrightarrow> \<not> is_digit (hd t)"
  shows "qi_match store G Qi_Int (show_int n @ t) (Some ([Int_Attr n], t))"
  using int_prefix_append [OF int_prefix_show_int [OF assms(1)], of t] assms(2) by (simp add: qi_match_primitive)

lemma bracket_not_int: "qi_match store G Qi_Int ('']'' @ t) None"
  by (simp add: qi_match_primitive int_prefix_def unsigned_prefix_def is_digit_def)

lemma lit_int_match:
  assumes "in_int n" and "t \<noteq> [] \<Longrightarrow> \<not> is_digit (hd t)"
  shows "qi_match store G (Qi_Seq (Qi_Lit c) Qi_Int) (c # show_int n @ t) (Some ([Int_Attr n], t))"
proof -
  have "qi_match store G (Qi_Lit c) (c # show_int n @ t) (Some ([], show_int n @ t))" by (simp add: lit_match)
  from match_seq [OF this int_match [OF assms]] show ?thesis by simp
qed

lemma int_lit_match:
  assumes "in_int n" and "\<not> is_digit c"
  shows "qi_match store G (Qi_Seq Qi_Int (Qi_Lit c)) (show_int n @ c # t) (Some ([Int_Attr n], t))"
proof -
  have "qi_match store G (Qi_Lit c) (c # t) (Some ([], t))" by (simp add: lit_match)
  from match_seq [OF int_match this] assms show ?thesis by fastforce
qed

lemma comma_bracket_not_digit: "\<not> is_digit (CHR '','')" "\<not> is_digit (CHR '']'')"
  by (simp_all add: is_digit_def)

lemma terminated_ints_match:
  assumes "\<forall>n \<in> set ns. in_int n"
  shows "qi_match store G (Qi_Star (Qi_Seq Qi_Int (Qi_Lit (CHR '','')))) (concat (map (\<lambda>n. show_int n @ '','') ns) @ '']'')
    (Some (map Int_Attr ns, '']''))"
  using assms
proof (induction ns)
  case Nil
  from bracket_not_int [of store G "[]"] show ?case by (auto intro: match_star_end match_seq_fail1)
next
  case (Cons n ns)
  then have "qi_match store G (Qi_Seq Qi_Int (Qi_Lit (CHR '','')))
      (show_int n @ CHR '','' # concat (map (\<lambda>n. show_int n @ '','') ns) @ '']'')
      (Some ([Int_Attr n], concat (map (\<lambda>n. show_int n @ '','') ns) @ '']''))"
    by (intro int_lit_match) (auto simp: comma_bracket_not_digit)
  from match_star [OF this Cons.IH] Cons.prems show ?case by simp
qed

lemma separated_ints_match:
  assumes "\<forall>n \<in> set ns. in_int n"
  shows "qi_match store G (Qi_Star (Qi_Seq (Qi_Lit (CHR '','')) Qi_Int)) (concat (map (\<lambda>n. '','' @ show_int n) ns) @ '']'')
    (Some (map Int_Attr ns, '']''))"
  using assms
proof (induction ns)
  case Nil
  have "qi_match store G (Qi_Lit (CHR '','')) '']'' None" by (simp add: lit_match)
  then show ?case by (auto intro: match_star_end match_seq_fail1)
next
  case (Cons n ns)
  have "concat (map (\<lambda>n. '','' @ show_int n) ns) @ '']'' = CHR '','' # tl (concat (map (\<lambda>n. '','' @ show_int n) ns) @ '']'') \<or>
      concat (map (\<lambda>n. '','' @ show_int n) ns) @ '']'' = '']''" by (cases ns) auto
  then have "\<not> is_digit (hd (concat (map (\<lambda>n. '','' @ show_int n) ns) @ '']''))"
    using comma_bracket_not_digit by (metis list.sel(1))
  with Cons.prems have "qi_match store G (Qi_Seq (Qi_Lit (CHR '','')) Qi_Int)
      (CHR '','' # show_int n @ concat (map (\<lambda>n. '','' @ show_int n) ns) @ '']'')
      (Some ([Int_Attr n], concat (map (\<lambda>n. '','' @ show_int n) ns) @ '']''))"
    by (intro lit_int_match) auto
  from match_star [OF this Cons.IH] Cons.prems show ?case by simp
qed

lemma bracketed_match:
  assumes "qi_match store G p (w @ '']'') (Some (a, '']''))"
  shows "qi_match store G (Qi_Seq (Qi_Seq (Qi_Lit (CHR ''['')) p) (Qi_Lit (CHR '']''))) (''['' @ w @ '']'') (Some (a, []))"
proof -
  have "qi_match store G (Qi_Lit (CHR ''['')) (''['' @ w @ '']'') (Some ([], w @ '']''))" by (simp add: lit_match)
  from match_seq [OF this assms] have "qi_match store G (Qi_Seq (Qi_Lit (CHR ''['')) p) (''['' @ w @ '']'') (Some (a, '']''))"
    by simp
  moreover have "qi_match store G (Qi_Lit (CHR '']'')) '']'' (Some ([], []))" by (simp add: lit_match)
  ultimately have "qi_match store G (Qi_Seq (Qi_Seq (Qi_Lit (CHR ''['')) p) (Qi_Lit (CHR '']''))) (''['' @ w @ '']'') (Some (a @ [], []))"
    by (rule match_seq)
  then show ?thesis by simp
qed

lemma terminated_list_match:
  "\<forall>n \<in> set ns. in_int n \<Longrightarrow>
     qi_match store no_rules terminated_list (terminated_text ns) (Some (map Int_Attr ns, []))"
  unfolding terminated_list_def terminated_text_def by (intro bracketed_match terminated_ints_match)

lemma separated_list_match:
  assumes "\<forall>m \<in> set (n # ns). in_int m"
  shows "qi_match store no_rules separated_list (separated_text n ns) (Some (map Int_Attr (n # ns), []))"
proof -
  let ?rest = "concat (map (\<lambda>n. '','' @ show_int n) ns) @ '']''"
  have "\<not> is_digit (hd ?rest)" by (cases ns) (auto simp: is_digit_def)
  with assms have "qi_match store no_rules Qi_Int (show_int n @ ?rest) (Some ([Int_Attr n], ?rest))"
    by (intro int_match) auto
  moreover have "qi_match store no_rules (Qi_Star (Qi_Seq (Qi_Lit (CHR '','')) Qi_Int)) ?rest (Some (map Int_Attr ns, '']''))"
    using assms by (intro separated_ints_match) simp
  ultimately have "qi_match store no_rules (Qi_List Qi_Int (Qi_Lit (CHR '','')))
      ((show_int n @ concat (map (\<lambda>n. '','' @ show_int n) ns)) @ '']'') (Some (map Int_Attr (n # ns), '']''))"
    using match_seq match_list by fastforce
  from bracketed_match [OF this] show ?thesis by (simp add: separated_list_def separated_text_def)
qed

lemma get_ints_map [simp]: "get_ints (map Int_Attr ns) = ns"
  by (induction ns) simp_all


section \<open>Properties\<close>

text \<open>
  C17: with any \<open>qi::parse\<close> that does what is documented, \<open>ParseOrDie\<close> with the third grammar returns exactly
  for the arithmetic expressions; it prints what it could not parse and throws for every other text. In
  particular it decides every text: the grammar, although recursive, never loops.
\<close>

theorem grammar_accepts_arithmetic:
  assumes "documented_parse store parse"
  shows "(case ParseOrDie parse ArithmeticGrammar3 input (Qi_Rule Start_Rule) of
      (out, Inr attrs) \<Rightarrow> arith Start_Rule input \<and> out = []
    | (out, Inl e) \<Rightarrow> \<not> arith Start_Rule input \<and> e = Std_Exception ''Parse error'' \<and>
        (\<exists>rest. suffix rest input \<and> out = [print_line (''Unparseable: '' @ quoted rest)]))"
proof -
  obtain x where x: "arith_match store (Qi_Rule Start_Rule) input x"
    using rules_decided [of store Start_Rule input] by (auto simp: decided_def)
  have complete: "\<exists>a. x = Some (a, [])" if "arith Start_Rule input"
    using arith_accepted [OF that, of "[]"] qi_match_deterministic [OF x] by (auto simp: accepts_def ends_with_def)
  show ?thesis
  proof (cases x)
    case None
    with x obtain a where "parse ArithmeticGrammar3 (Qi_Rule Start_Rule) input = (False, a, input)"
      using parse_failure [OF assms] by blast
    with None complete show ?thesis by (auto simp: ParseOrDie_def)
  next
    case (Some y)
    obtain a r where ar: "y = (a, r)" by (cases y)
    with x Some have p: "parse ArithmeticGrammar3 (Qi_Rule Start_Rule) input = (True, a, r)"
      using parse_success [OF assms] by blast
    from x Some ar obtain w where w: "input = w @ r" "arith Start_Rule w" using match_arith by blast
    with p Some ar complete show ?thesis by (auto simp: ParseOrDie_def suffix_def)
  qed
qed

theorem grammar_accepts_arithmetic_witness:
  "(case ParseOrDie (descent_parse (\<lambda>n. take 1)) ArithmeticGrammar3 ''1+2*3'' (Qi_Rule Start_Rule) of
      (out, Inr attrs) \<Rightarrow> arith Start_Rule ''1+2*3'' \<and> out = []
    | (out, Inl e) \<Rightarrow> \<not> arith Start_Rule ''1+2*3'' \<and> e = Std_Exception ''Parse error'' \<and>
        (\<exists>rest. suffix rest ''1+2*3'' \<and> out = [print_line (''Unparseable: '' @ quoted rest)]))"
  by (rule grammar_accepts_arithmetic [OF descent_parse_documented])

text \<open>
  C37: the two parsers for lists in brackets give the numbers back that a text was made of: the one with a comma
  after each number for every list, and the one with commas between them, used through \<open>ParseOrDie\<close>, for every
  list that is not empty.
\<close>

theorem list_parsers_roundtrip:
  assumes "documented_parse store parse" and "\<forall>m \<in> set (n # ns). in_int m"
  shows "(let (ok, attrs, rest) = parse no_rules terminated_list (terminated_text ns)
      in ok \<and> get_ints attrs = ns \<and> rest = []) \<and>
    (let (out, r) = ParseOrDie parse no_rules (separated_text n ns) separated_list
      in out = [] \<and> map_sum id get_ints r = Inr (n # ns))"
  using parse_success [OF assms(1) terminated_list_match [of ns]]
    parse_success [OF assms(1) separated_list_match [of n ns]] assms(2)
  by (simp add: ParseOrDie_def)

theorem list_parsers_roundtrip_witness:
  "(let (ok, attrs, rest) = descent_parse (\<lambda>n. take 1) no_rules terminated_list (terminated_text [42, 5])
      in ok \<and> get_ints attrs = [42, 5] \<and> rest = [])"
  by (rule list_parsers_roundtrip [OF descent_parse_documented, of 12345, THEN conjunct1]) (simp add: in_int_def)

text \<open>
  what the tests show: \<open>ParseTest\<close> finds no digit and prints the whole text; the others parse their inputs
  completely, so \<open>ParseOrDie\<close> never throws in them, and the numbers printed are those of the inputs.
\<close>

theorem spirit_tests_output:
  assumes "documented_parse store parse" and "\<And>n v. store n [Int_Attr v] = [Int_Attr v]"
  shows "ParseTest parse = [print_line ''false'', print_line digit_input] \<and>
    parsers_test1 parse = [print_line (''test1() parse result: '' @ show_int 12345)] \<and>
    parsers_test2 parse = [print_line (''test2() parse result: '' @ show_int 76131 @ '' '' @ ''Karlsruhe'')] \<and>
    parsers_test3 parse = print_line (''test3() parse result: size '' @ to_string 3) # print_ints [12345, 42, 5] \<and>
    parsers_test4 parse = (print_line (''test4() parse result: size '' @ to_string 3) # print_ints [12345, 42, 5], Inr ()) \<and>
    grammar_test1 parse = ([], Inr ()) \<and>
    grammar_test2 parse = ([print_line (''Parse result: '' @ [CHR 0x27] @ ''12345'' @ [CHR 0x27] @ '' -> '' @ show_int 12345)], Inr ()) \<and>
    snd (grammar_test3 parse) = Inr ()"
proof (intro conjI)
  have n: "show_int 12345 = ''12345''" "show_int 76131 = ''76131''" "show_int 42 = ''42''" "show_int 5 = ''5''"
    by (simp_all add: show_int_def to_string.simps digit_char_def char_of_def bit_0 bit_numeral_rec)
  have i: "qi_match store G Qi_Int ''12345'' (Some ([Int_Attr 12345], []))" for G
    using int_match [of 12345 "[]"] by (simp add: n in_int_def)
  have r: "qi_match store G (Qi_Rule Start_Rule) ''12345'' (Some ([Int_Attr 12345], []))" if "G Start_Rule = Qi_Int" for G
    using match_rule [of store G Start_Rule] i [of G] assms(2) that by fastforce
  have "qi_match store no_rules Qi_Digit digit_input None"
    by (simp add: qi_match_primitive one_char_def digit_input_def is_digit_def)
  from parse_failure [OF assms(1) this] show "ParseTest parse = [print_line ''false'', print_line digit_input]"
    by (auto simp: ParseTest_def digit_input_def)
  from parse_success [OF assms(1) i] show "parsers_test1 parse = [print_line (''test1() parse result: '' @ show_int 12345)]"
    by (simp add: parsers_test1_def)
  have chars: "qi_match store no_rules (Qi_Star Qi_Char) w (Some (map Char_Attr w, []))" for w
  proof (induction w)
    case Nil
    show ?case using match_star_end [of store no_rules Qi_Char "[]"] by (simp add: qi_match_primitive one_char_def)
  next
    case (Cons c w)
    have "qi_match store no_rules Qi_Char (c # w) (Some ([Char_Attr c], w))" by (simp add: qi_match_primitive one_char_def)
    from match_star [OF this Cons] show ?case by simp
  qed
  have g: "get_string (map Char_Attr w) = w" for w by (induction w) simp_all
  have "qi_match store no_rules (Qi_Seq Qi_Int (Qi_Lit (CHR '' ''))) (show_int 76131 @ CHR '' '' # ''Karlsruhe'')
      (Some ([Int_Attr 76131], ''Karlsruhe''))"
    by (rule int_lit_match) (simp_all add: in_int_def is_digit_def)
  from match_seq [OF this chars] have "qi_match store no_rules int_and_text ''76131 Karlsruhe''
      (Some (Int_Attr 76131 # map Char_Attr ''Karlsruhe'', []))" by (simp add: int_and_text_def n)
  from parse_success [OF assms(1) this] g [of "''Karlsruhe''"]
  show "parsers_test2 parse = [print_line (''test2() parse result: '' @ show_int 76131 @ '' '' @ ''Karlsruhe'')]"
    by (simp add: parsers_test2_def)
  have l: "terminated_text [12345, 42, 5] = ''[12345,42,5,]''" "separated_text 12345 [42, 5] = ''[12345,42,5]''"
    by (simp_all add: terminated_text_def separated_text_def n)
  have lists: "qi_match store no_rules terminated_list ''[12345,42,5,]'' (Some (map Int_Attr [12345, 42, 5], []))"
    "qi_match store no_rules separated_list ''[12345,42,5]'' (Some (map Int_Attr [12345, 42, 5], []))"
    using terminated_list_match [of "[12345, 42, 5]"] separated_list_match [of 12345 "[42, 5]"]
    by (simp_all add: l in_int_def)
  from parse_success [OF assms(1) lists(1)]
  show "parsers_test3 parse = print_line (''test3() parse result: size '' @ to_string 3) # print_ints [12345, 42, 5]"
    by (simp add: parsers_test3_def numeral_3_eq_3)
  from parse_success [OF assms(1) lists(2)]
  show "parsers_test4 parse = (print_line (''test4() parse result: size '' @ to_string 3) # print_ints [12345, 42, 5], Inr ())"
    by (simp add: parsers_test4_def ParseOrDie_def numeral_3_eq_3)
  from parse_success [OF assms(1) r] show "grammar_test1 parse = ([], Inr ())"
    by (simp add: grammar_test1_def ParseOrDie_def ArithmeticGrammar1_def)
  from parse_success [OF assms(1) r] show "grammar_test2 parse =
      ([print_line (''Parse result: '' @ [CHR 0x27] @ ''12345'' @ [CHR 0x27] @ '' -> '' @ show_int 12345)], Inr ())"
    by (simp add: grammar_test2_def ParseOrDie_def ArithmeticGrammar2_def)
  have "arith Factor_Rule ''1''" "arith Factor_Rule ''2''" "arith Factor_Rule ''3''"
    by (rule arith_int, code_simp)+
  then have "arith Start_Rule (''1'' @ ''+'' @ ''2'' @ ''*'' @ ''3'')"
    by (intro arith_plus arith_product arith_times arith_factor)
  then obtain a where "qi_match store ArithmeticGrammar3 (Qi_Rule Start_Rule) ''1+2*3'' (Some (a, []))"
    using arith_accepted [of Start_Rule "''1+2*3''" "[]"] by (auto simp: accepts_def ends_with_def)
  from parse_success [OF assms(1) this] show "snd (grammar_test3 parse) = Inr ()"
    by (simp add: grammar_test3_def ParseOrDie_def)
qed

text \<open>The hypothesis on \<open>store\<close> is the documented one: a rule of type \<open>int()\<close> keeps an \<open>int\<close>.\<close>

theorem spirit_tests_output_witness:
  "ParseTest (descent_parse (\<lambda>n. take 1)) = [print_line ''false'', print_line digit_input]"
  by (rule spirit_tests_output [OF descent_parse_documented, THEN conjunct1]) simp

end
