(* ===== verification/Thread_Contexts.thy ===== *)
theory Thread_Contexts
  imports Base "HOL-Library.Multiset"
begin

text \<open>
  Programs that start threads and give work to an \<open>io_context\<close> or a \<open>thread_pool\<close>. What a thread does is a list
  of statements, with the bodies of threads and handlers inside; a world holds what each thread has left to do.
  The scheduler and Boost decide whose turn it is, which of the queued handlers a running thread takes and when
  a wait completes: these decisions are the \<open>choice\<close>s, and every theorem is about all sequences of them. No order
  of the handlers is assumed. Sleeping takes no turn from anybody, so no result rests on timing.
\<close>

section \<open>Statements and worlds\<close>

datatype stmt =
    Say string                       \<comment> \<open>one insertion into a stream, or one \<open>osyncstream\<close>\<close>
  | Sleep_For
  | Post_To nat "stmt list"          \<comment> \<open>\<open>post\<close> of a handler to a context\<close>
  | Dispatch_To nat "stmt list"
  | Run_Ctx nat
  | Stop_Ctx nat
  | Hold_Work nat                    \<comment> \<open>\<open>make_work_guard\<close>\<close>
  | Release_Work nat                 \<comment> \<open>\<open>work_guard.reset()\<close>\<close>
  | Wait_Async nat "stmt list" "stmt list"
                                     \<comment> \<open>\<open>async_wait\<close>: what the handler does on success and on an error\<close>
  | Spawn_Thread nat "stmt list"
  | Join_Thread nat
  | Detach_Thread nat
  | Destroy_Thread nat               \<comment> \<open>the destructor of a \<open>std::thread\<close>\<close>
  | Lock_Mutex nat
  | Unlock_Mutex nat
  | Set_Future nat bool              \<comment> \<open>the handler \<open>use_future\<close> stands for\<close>
  | Get_Future nat "stmt list" "stmt list"
                                     \<comment> \<open>what follows \<open>get()\<close> when it returns and when it throws\<close>
  | End_Task nat                     \<comment> \<open>the end of a handler, put there when it is taken\<close>

text \<open>
  Threads are numbered; \<open>codes\<close> has an entry for each that the program ever starts. \<open>joinable\<close> says which
  \<open>std::thread\<close> objects are. A queued handler and a pending wait carry their context.
\<close>

record world =
  codes :: "stmt list list"
  joinable :: "nat \<Rightarrow> bool"
  queue :: "(nat \<times> stmt list) list"
  pending :: "(nat \<times> stmt list \<times> stmt list) list"
  guards :: "nat \<Rightarrow> nat"
  running :: "nat \<Rightarrow> nat"            \<comment> \<open>handlers being executed\<close>
  stopped :: "nat \<Rightarrow> bool"
  owner :: "nat \<Rightarrow> nat option"
  future :: "nat \<Rightarrow> bool option"
  shown :: "(nat \<times> string) list"
  crashed :: bool

definition start_world :: "nat \<Rightarrow> stmt list \<Rightarrow> world" where
  "start_world n main = \<lparr>codes = main # replicate n [], joinable = (\<lambda>_. False), queue = [], pending = [],
     guards = (\<lambda>_. 0), running = (\<lambda>_. 0), stopped = (\<lambda>_. False), owner = (\<lambda>_. None), future = (\<lambda>_. None),
     shown = [], crashed = False\<rparr>"

text \<open>The outstanding work of a context: \<open>run()\<close> does not return while there is any.\<close>

definition work :: "world \<Rightarrow> nat \<Rightarrow> nat" where
  "work w c = guards w c + running w c + length (filter (\<lambda>q. fst q = c) (queue w)) +
     length (filter (\<lambda>p. fst p = c) (pending w))"

definition goto :: "nat \<Rightarrow> stmt list \<Rightarrow> world \<Rightarrow> world" where
  "goto t k w = w\<lparr>codes := (codes w)[t := k]\<rparr>"


section \<open>Steps\<close>

datatype choice =
    Go nat                 \<comment> \<open>the thread performs its next statement\<close>
  | Take nat nat           \<comment> \<open>the thread, in \<open>run()\<close>, takes the handler at this place of the queue\<close>
  | Complete nat bool      \<comment> \<open>the pending wait at this place completes, with success or an error\<close>

definition remove_nth :: "nat \<Rightarrow> 'a list \<Rightarrow> 'a list" where
  "remove_nth i xs = take i xs @ drop (Suc i) xs"

text \<open>The next statement of a thread; \<open>None\<close> is a statement that has to wait.\<close>

fun exec :: "nat \<Rightarrow> stmt \<Rightarrow> stmt list \<Rightarrow> world \<Rightarrow> world option" where
  "exec t (Say x) k w = Some (goto t k (w\<lparr>shown := shown w @ [(t, x)]\<rparr>))"
| "exec t Sleep_For k w = Some (goto t k w)"
| "exec t (Post_To c h) k w = Some (goto t k (w\<lparr>queue := queue w @ [(c, h)]\<rparr>))"
| "exec t (Dispatch_To c h) k w =
     (if Run_Ctx c \<in> set k then Some (goto t (h @ k) w)
      else Some (goto t k (w\<lparr>queue := queue w @ [(c, h)]\<rparr>)))"
| "exec t (Run_Ctx c) k w =
     (if stopped w c then Some (goto t k w)
      else if work w c = 0 then Some (goto t k (w\<lparr>stopped := (stopped w)(c := True)\<rparr>))
      else None)"
| "exec t (Stop_Ctx c) k w = Some (goto t k (w\<lparr>stopped := (stopped w)(c := True)\<rparr>))"
| "exec t (Hold_Work c) k w = Some (goto t k (w\<lparr>guards := (guards w)(c := guards w c + 1)\<rparr>))"
| "exec t (Release_Work c) k w = Some (goto t k (w\<lparr>guards := (guards w)(c := guards w c - 1)\<rparr>))"
| "exec t (Wait_Async c ok err) k w = Some (goto t k (w\<lparr>pending := pending w @ [(c, ok, err)]\<rparr>))"
| "exec t (Spawn_Thread u b) k w =
     (if u < length (codes w) \<and> codes w ! u = [] \<and> u \<noteq> t
      then Some (goto t k (goto u b (w\<lparr>joinable := (joinable w)(u := True)\<rparr>))) else None)"
| "exec t (Join_Thread u) k w =
     (if u < length (codes w) \<and> codes w ! u = []
      then Some (goto t k (w\<lparr>joinable := (joinable w)(u := False)\<rparr>)) else None)"
| "exec t (Detach_Thread u) k w = Some (goto t k (w\<lparr>joinable := (joinable w)(u := False)\<rparr>))"
| "exec t (Destroy_Thread u) k w = Some (goto t k (w\<lparr>crashed := joinable w u\<rparr>))"
| "exec t (Lock_Mutex m) k w =
     (if owner w m = None then Some (goto t k (w\<lparr>owner := (owner w)(m \<mapsto> t)\<rparr>)) else None)"
| "exec t (Unlock_Mutex m) k w = Some (goto t k (w\<lparr>owner := (owner w)(m := None)\<rparr>))"
| "exec t (Set_Future f b) k w = Some (goto t k (w\<lparr>future := (future w)(f \<mapsto> b)\<rparr>))"
| "exec t (Get_Future f ok err) k w = (case future w f of
     None \<Rightarrow> None | Some b \<Rightarrow> Some (goto t ((if b then ok else err) @ k) w))"
| "exec t (End_Task c) k w = Some (goto t k (w\<lparr>running := (running w)(c := running w c - 1)\<rparr>))"

definition next_code :: "world \<Rightarrow> nat \<Rightarrow> stmt list" where
  "next_code w t = (if t < length (codes w) then codes w ! t else [])"

fun perform :: "choice \<Rightarrow> world \<Rightarrow> world option" where
  "perform (Go t) w =
     (if crashed w then None else case next_code w t of [] \<Rightarrow> None | x # k \<Rightarrow> exec t x k w)"
| "perform (Take t i) w =
     (if crashed w then None else case next_code w t of
        Run_Ctx c # k \<Rightarrow>
          (if \<not> stopped w c \<and> i < length (queue w) \<and> fst (queue w ! i) = c
           then Some (goto t (snd (queue w ! i) @ End_Task c # Run_Ctx c # k)
             (w\<lparr>queue := remove_nth i (queue w), running := (running w)(c := running w c + 1)\<rparr>))
           else None)
      | _ \<Rightarrow> None)"
| "perform (Complete i ok) w =
     (if crashed w \<or> length (pending w) \<le> i then None
      else (case pending w ! i of (c, s, e) \<Rightarrow>
        Some (w\<lparr>pending := remove_nth i (pending w), queue := queue w @ [(c, if ok then s else e)]\<rparr>)))"

text \<open>\<open>reaches w ds w'\<close>: the choices \<open>ds\<close> are possible one after the other and lead to \<open>w'\<close>.\<close>

fun execute :: "world \<Rightarrow> choice list \<Rightarrow> world option" where
  "execute w [] = Some w"
| "execute w (d # ds) = (case perform d w of None \<Rightarrow> None | Some w' \<Rightarrow> execute w' ds)"

definition blocked :: "world \<Rightarrow> bool" where
  "blocked w \<longleftrightarrow> (\<forall>d. perform d w = None)"

definition finished :: "world \<Rightarrow> bool" where
  "finished w \<longleftrightarrow> (\<forall>k \<in> set (codes w). k = [])"

lemma execute_invariant:
  assumes "execute w ds = Some w'" and "I w" and "\<And>w d w'. I w \<Longrightarrow> perform d w = Some w' \<Longrightarrow> I w'"
  shows "I w'"
  using assms(1,2) by (induction ds arbitrary: w) (auto split: option.splits intro: assms(3))

lemma execute_append:
  "execute w (ds @ es) = Option.bind (execute w ds) (\<lambda>w'. execute w' es)"
  by (induction ds arbitrary: w) (auto split: option.split)


section \<open>Every execution ends\<close>

lemma sum_list_update_add:
  fixes f :: "'a \<Rightarrow> 'b::comm_monoid_add"
  shows "t < length xs \<Longrightarrow> f (xs ! t) + sum_list (map f (xs[t := y])) = sum_list (map f xs) + f y"
proof (induction xs arbitrary: t)
  case Nil
  then show ?case by simp
next
  case (Cons x xs)
  show ?case
  proof (cases t)
    case 0
    then show ?thesis by (simp add: ac_simps)
  next
    case (Suc n)
    with Cons.prems Cons.IH [of n]
    have "f x + (f (xs ! n) + sum_list (map f (xs[n := y]))) = f x + (sum_list (map f xs) + f y)" by simp
    with Suc show ?thesis by (simp add: add.assoc add.left_commute [of "f (xs ! n)"])
  qed
qed

lemma sum_list_remove_nth:
  fixes f :: "'a \<Rightarrow> 'b::comm_monoid_add"
  shows "i < length xs \<Longrightarrow> sum_list (map f xs) = f (xs ! i) + sum_list (map f (remove_nth i xs))"
  by (subst id_take_nth_drop [of i xs]) (simp_all add: remove_nth_def ac_simps)

text \<open>
  A bound on the steps that are left: every statement, every queued handler and every pending wait counts, a
  statement that creates one a little more.
\<close>

fun weight :: "stmt \<Rightarrow> nat" where
  "weight (Post_To c h) = 3 + sum_list (map weight h)"
| "weight (Dispatch_To c h) = 3 + sum_list (map weight h)"
| "weight (Wait_Async c ok err) = 4 + sum_list (map weight ok) + sum_list (map weight err)"
| "weight (Spawn_Thread u b) = 1 + sum_list (map weight b)"
| "weight (Get_Future f ok err) = 1 + sum_list (map weight ok) + sum_list (map weight err)"
| "weight _ = 1"

abbreviation weights :: "stmt list \<Rightarrow> nat" where
  "weights k \<equiv> sum_list (map weight k)"

definition steps_left :: "world \<Rightarrow> nat" where
  "steps_left w = sum_list (map weights (codes w)) + sum_list (map (\<lambda>q. 2 + weights (snd q)) (queue w)) +
     sum_list (map (\<lambda>p. 3 + weights (fst (snd p)) + weights (snd (snd p))) (pending w))"

lemma next_code_Cons: "next_code w t = x # k \<longleftrightarrow> t < length (codes w) \<and> codes w ! t = x # k"
  by (simp add: next_code_def)

lemma weights_goto:
  "t < length (codes w) \<Longrightarrow>
     weights (codes w ! t) + sum_list (map weights (codes (goto t k w))) = sum_list (map weights (codes w)) + weights k"
  unfolding goto_def using sum_list_update_add [of t "codes w" weights k] by simp

lemma goto_simps [simp]:
  "queue (goto t k w) = queue w" "pending (goto t k w) = pending w" "guards (goto t k w) = guards w"
  "running (goto t k w) = running w" "stopped (goto t k w) = stopped w" "owner (goto t k w) = owner w"
  "future (goto t k w) = future w" "shown (goto t k w) = shown w" "crashed (goto t k w) = crashed w"
  "joinable (goto t k w) = joinable w" "length (codes (goto t k w)) = length (codes w)"
  "codes (goto t k w) = (codes w)[t := k]"
  by (simp_all add: goto_def)

lemma exec_decreases:
  assumes "exec t x k w = Some w'" and "t < length (codes w)" and "codes w ! t = x # k"
  shows "steps_left w' < steps_left w"
proof (cases x)
  case (Spawn_Thread u b)
  with assms have "u < length (codes w)" "codes w ! u = []" "u \<noteq> t"
    and w': "w' = goto t k (goto u b (w\<lparr>joinable := (joinable w)(u := True)\<rparr>))"
    by (auto split: if_splits)
  with sum_list_update_add [of u "codes w" weights b] sum_list_update_add [of t "(codes w)[u := b]" weights k]
    assms(2,3) Spawn_Thread show ?thesis by (simp add: steps_left_def)
next
  case (Dispatch_To c h)
  with assms sum_list_update_add [of t "codes w" weights k] sum_list_update_add [of t "codes w" weights "h @ k"]
  show ?thesis by (auto simp: steps_left_def split: if_splits)
next
  case (Get_Future f ok err)
  with assms sum_list_update_add [of t "codes w" weights "ok @ k"] sum_list_update_add [of t "codes w" weights "err @ k"]
  show ?thesis by (auto simp: steps_left_def split: if_splits option.splits)
qed (use assms sum_list_update_add [of t "codes w" weights k] in
    \<open>auto simp: steps_left_def split: if_splits option.splits\<close>)

lemma perform_decreases:
  assumes "perform d w = Some w'"
  shows "steps_left w' < steps_left w"
proof (cases d)
  case (Go t)
  with assms show ?thesis
    by (auto split: if_splits list.splits simp: next_code_Cons intro: exec_decreases)
next
  case (Take t i)
  with assms obtain c k where k: "t < length (codes w)" "codes w ! t = Run_Ctx c # k" "i < length (queue w)"
    and w': "w' = goto t (snd (queue w ! i) @ End_Task c # Run_Ctx c # k)
      (w\<lparr>queue := remove_nth i (queue w), running := (running w)(c := running w c + 1)\<rparr>)"
    by (auto split: if_splits list.splits stmt.splits simp: next_code_Cons)
  from sum_list_update_add [of t "codes w" weights "snd (queue w ! i) @ End_Task c # Run_Ctx c # k"] k
    sum_list_remove_nth [of i "queue w" "\<lambda>q. 2 + weights (snd q)"]
  show ?thesis by (simp add: w' steps_left_def)
next
  case (Complete i ok)
  with assms obtain c a e where p: "i < length (pending w)" "pending w ! i = (c, a, e)"
    and w': "w' = w\<lparr>pending := remove_nth i (pending w), queue := queue w @ [(c, if ok then a else e)]\<rparr>"
    by (auto split: if_splits prod.splits)
  from sum_list_remove_nth [of i "pending w" "\<lambda>p. 3 + weights (fst (snd p)) + weights (snd (snd p))"] p
  show ?thesis by (simp add: w' steps_left_def)
qed

text \<open>So no execution is longer than the bound of its program: there is no loop and no livelock.\<close>

lemma execution_bounded: "execute w ds = Some w' \<Longrightarrow> length ds + steps_left w' \<le> steps_left w"
proof (induction ds arbitrary: w)
  case Nil
  then show ?case by simp
next
  case (Cons d ds)
  then obtain v where v: "perform d w = Some v" "execute v ds = Some w'" by (auto split: option.splits)
  with Cons.IH [OF v(2)] perform_decreases [OF v(1)] show ?case by simp
qed

text \<open>Every execution can be continued until nothing is possible any more.\<close>

lemma execution_completes: "\<exists>ds w'. execute w ds = Some w' \<and> blocked w'"
proof (induction "steps_left w" arbitrary: w rule: less_induct)
  case less
  show ?case
  proof (cases "blocked w")
    case True
    then show ?thesis by (intro exI [of _ "[]"]) simp
  next
    case False
    then obtain d v where v: "perform d w = Some v" by (auto simp: blocked_def)
    from less [OF perform_decreases [OF v]] obtain ds w' where "execute v ds = Some w'" "blocked w'" by blast
    with v show ?thesis by (intro exI [of _ "d # ds"]) auto
  qed
qed


section \<open>No line is lost\<close>

text \<open>
  The lines a statement stands for, those of the handlers and threads it creates included. In a program
  without waits and futures the lines shown and those still to come are always the same multiset.
\<close>

fun lines_of :: "stmt \<Rightarrow> string multiset" where
  "lines_of (Say x) = {#x#}"
| "lines_of (Post_To c h) = sum_list (map lines_of h)"
| "lines_of (Dispatch_To c h) = sum_list (map lines_of h)"
| "lines_of (Spawn_Thread u b) = sum_list (map lines_of b)"
| "lines_of _ = {#}"

fun plain :: "stmt \<Rightarrow> bool" where
  "plain (Wait_Async c ok err) = False"
| "plain (Get_Future f ok err) = False"
| "plain (Post_To c h) = list_all plain h"
| "plain (Dispatch_To c h) = list_all plain h"
| "plain (Spawn_Thread u b) = list_all plain b"
| "plain _ = True"

abbreviation lines :: "stmt list \<Rightarrow> string multiset" where
  "lines k \<equiv> sum_list (map lines_of k)"

definition all_lines :: "world \<Rightarrow> string multiset" where
  "all_lines w = mset (map snd (shown w)) + sum_list (map lines (codes w)) + sum_list (map (\<lambda>q. lines (snd q)) (queue w))"

definition plain_world :: "world \<Rightarrow> bool" where
  "plain_world w \<longleftrightarrow> (\<forall>k \<in> set (codes w). list_all plain k) \<and> (\<forall>q \<in> set (queue w). list_all plain (snd q)) \<and>
     pending w = []"

lemma lines_update:
  "t < length ks \<Longrightarrow> ks ! t = x # k \<Longrightarrow>
     lines_of x + lines k + sum_list (map lines (ks[t := k'])) = sum_list (map lines ks) + lines k'"
  using sum_list_update_add [of t ks lines k'] by simp

lemma exchange:
  fixes a :: "'a multiset"
  assumes "a + y = b + x" and "x + S' = S + y"
  shows "a + S' = b + S"
proof -
  have "(a + y) + (x + S') = (b + x) + (S + y)" by (simp add: assms)
  then show ?thesis by (simp add: ac_simps)
qed

lemma set_codes_update: "k' \<in> set (ks[t := k]) \<Longrightarrow> k' = k \<or> k' \<in> set ks"
  using set_update_subset_insert by fastforce

lemma plain_goto:
  assumes "plain_world w" and "list_all plain k"
  shows "plain_world (goto t k w)"
  using assms by (auto simp: plain_world_def dest!: set_codes_update)

lemma exec_plain:
  assumes "plain_world w" and "t < length (codes w)" and "codes w ! t = x # k" and "exec t x k w = Some w'"
  shows "plain_world w' \<and> all_lines w' = all_lines w"
proof -
  have p: "plain x" "list_all plain k" using assms(1-3) by (auto simp: plain_world_def list_all_iff dest: nth_mem)
  note u = lines_update [OF assms(2,3)]
  have other: "plain_world w' \<and> all_lines w' = all_lines w"
    if "codes w' = (codes w)[t := k']" "list_all plain k'" "pending w' = []" "\<forall>q \<in> set (queue w'). list_all plain (snd q)"
      "mset (map snd (shown w')) + sum_list (map (\<lambda>q. lines (snd q)) (queue w')) + lines k' =
        mset (map snd (shown w)) + sum_list (map (\<lambda>q. lines (snd q)) (queue w)) + (lines_of x + lines k)" for k'
  proof
    show "plain_world w'" using that assms(1) by (auto simp: plain_world_def dest!: set_codes_update)
    show "all_lines w' = all_lines w"
      using exchange [OF that(5) u [of k']] by (simp add: all_lines_def that(1) ac_simps)
  qed
  note pw = assms(1) [unfolded plain_world_def]
  show ?thesis
  proof (cases x)
    case (Spawn_Thread v b)
    with assms have v: "v < length (codes w)" "codes w ! v = []" "v \<noteq> t"
      and w': "w' = goto t k (goto v b (w\<lparr>joinable := (joinable w)(v := True)\<rparr>))"
      by (auto split: if_splits)
    with lines_update [of t "(codes w)[v := b]" x k k] sum_list_update_add [of v "codes w" lines b] assms(2,3) Spawn_Thread
    have "all_lines w' = all_lines w" by (simp add: all_lines_def)
    moreover have "plain_world w'" unfolding w' using p Spawn_Thread assms(1)
      by (auto simp: plain_world_def dest!: set_codes_update)
    ultimately show ?thesis by simp
  next
    case (Dispatch_To c h)
    with assms(4) p pw show ?thesis
      by (intro other [of "if Run_Ctx c \<in> set k then h @ k else k"]) (auto split: if_splits)
  next
    case (Say y)
    with assms(4) p pw show ?thesis by (intro other [of k]) auto
  next
    case (Post_To c h)
    with assms(4) p pw show ?thesis by (intro other [of k]) auto
  qed (rule other [of k]; use assms(4) p pw in \<open>auto split: if_splits\<close>)+
qed

lemma perform_plain:
  assumes "plain_world w" and "perform d w = Some w'"
  shows "plain_world w' \<and> all_lines w' = all_lines w"
proof (cases d)
  case (Go t)
  with assms show ?thesis by (auto split: if_splits list.splits simp: next_code_Cons dest: exec_plain)
next
  case (Take t i)
  with assms obtain c k where k: "t < length (codes w)" "codes w ! t = Run_Ctx c # k" "i < length (queue w)"
    and w': "w' = goto t (snd (queue w ! i) @ End_Task c # Run_Ctx c # k)
      (w\<lparr>queue := remove_nth i (queue w), running := (running w)(c := running w c + 1)\<rparr>)"
    by (auto split: if_splits list.splits stmt.splits simp: next_code_Cons)
  have "list_all plain (codes w ! t)" using assms(1) k(1) by (simp add: plain_world_def)
  with k have h: "list_all plain (snd (queue w ! i))" "list_all plain k" using assms(1) by (simp_all add: plain_world_def)
  moreover have "set (remove_nth i (queue w)) \<subseteq> set (queue w)"
    by (auto simp: remove_nth_def dest: in_set_takeD in_set_dropD)
  ultimately have "plain_world w'" using assms(1) unfolding w' plain_world_def
    by (auto dest!: set_codes_update dest: subsetD)
  moreover have "all_lines w' = all_lines w"
    using lines_update [OF k(1,2), of "snd (queue w ! i) @ End_Task c # Run_Ctx c # k"]
      sum_list_remove_nth [OF k(3), of "\<lambda>q. lines (snd q)"]
    by (simp add: w' all_lines_def ac_simps)
  ultimately show ?thesis by simp
next
  case (Complete i ok)
  with assms show ?thesis by (auto simp: plain_world_def)
qed

lemma execute_plain:
  assumes "execute w ds = Some w'" and "plain_world w"
  shows "plain_world w' \<and> all_lines w' = all_lines w"
  using execute_invariant [of w ds w' "\<lambda>v. plain_world v \<and> all_lines v = all_lines w", OF assms(1)] assms(2) perform_plain
  by metis

lemma plain_start: "list_all plain main \<Longrightarrow> plain_world (start_world n main)"
  by (auto simp: plain_world_def start_world_def)

lemma lines_replicate_Nil: "sum_list (replicate n {#}) = {#}"
  by (induction n) simp_all

lemma lines_finished: "\<forall>k \<in> set ks. k = [] \<Longrightarrow> sum_list (map lines ks) = {#}"
  by (induction ks) simp_all

lemma all_lines_start: "all_lines (start_world n main) = lines main"
  by (simp add: all_lines_def start_world_def lines_replicate_Nil)

text \<open>
  When every thread has ended, the lines shown are those of the program except for the handlers that are still
  in a queue: none is lost in any other way, and none is shown twice.
\<close>

lemma finished_lines:
  assumes "execute (start_world n main) ds = Some w" and "list_all plain main" and "finished w"
  shows "mset (map snd (shown w)) + sum_list (map (\<lambda>q. lines (snd q)) (queue w)) = lines main"
proof -
  have "all_lines w = lines main"
    using execute_plain [OF assms(1) plain_start [OF assms(2)]] by (simp add: all_lines_start)
  moreover have "sum_list (map lines (codes w)) = {#}"
    using assms(3) by (auto simp: finished_def intro: lines_finished)
  ultimately show ?thesis by (simp add: all_lines_def)
qed

end
