(* ===== verification/Thread_Pools.thy ===== *)
theory Thread_Pools
  imports Thread_Contexts
begin

text \<open>
  The programs that post tasks and let a number of threads run them: the thread pools of \<open>Experiments/main.cpp\<close>
  and \<open>Threads/Threads.cpp\<close> and the context with several threads of \<open>Asio/IO_Context/IoContext.cpp\<close>. A
  \<open>boost::asio::thread_pool\<close> of \<open>n\<close> threads is documented to run its handlers on \<open>n\<close> threads, and its \<open>join()\<close>
  to wait until there are no more of them: it is context 0 with threads \<open>1, ..., n\<close> that run it, held by a work
  guard until \<open>join()\<close>. \<open>main_ok\<close> is the discipline these programs share; what follows from it for every
  schedule is proved once.
\<close>

section \<open>The programs\<close>

definition make_pool :: "nat \<Rightarrow> stmt list" where
  "make_pool n = Hold_Work 0 # map (\<lambda>u. Spawn_Thread (Suc u) [Run_Ctx 0]) [0..<n]"

definition pool_join :: "nat \<Rightarrow> stmt list" where
  "pool_join n = Release_Work 0 # map (\<lambda>u. Join_Thread (Suc u)) [0..<n]"

definition newline_text :: string where
  "newline_text = [CHR 0x0A]"

text \<open>\<open>ThreadPool::Test\<close>, where the tasks print under a mutex, and \<open>Worker\<close>.\<close>

definition print_locked :: "string \<Rightarrow> nat \<Rightarrow> stmt list" where
  "print_locked text i = [Lock_Mutex 0, Say text, Say (to_string i), Say newline_text, Unlock_Mutex 0]"

definition pool_task :: "nat \<Rightarrow> stmt list" where
  "pool_task i = print_locked ''Task started '' i @ [Sleep_For] @ print_locked ''Task completed '' i"

definition thread_pool_Test :: "nat \<Rightarrow> stmt list" where
  "thread_pool_Test hardware_concurrency =
     make_pool hardware_concurrency @ map (\<lambda>i. Post_To 0 (pool_task i)) [0..<100] @
     pool_join hardware_concurrency @ [Say (''Done'' @ newline_text)]"

definition worker_handler :: "nat \<Rightarrow> stmt list" where
  "worker_handler i = print_locked ''Task started '' i @ [Sleep_For] @ print_locked ''Task completed '' i"

definition Worker_Run :: "nat \<Rightarrow> stmt list" where
  "Worker_Run n = map (\<lambda>i. Post_To 0 (worker_handler i)) [0..<100] @ pool_join n"

text \<open>The constructor makes the pool, the destructor stops it.\<close>

definition thread_pool_Test2 :: "nat \<Rightarrow> stmt list" where
  "thread_pool_Test2 hardware_concurrency =
     make_pool hardware_concurrency @ Worker_Run hardware_concurrency @ [Stop_Ctx 0]"

text \<open>
  \<open>Threads::SimpleTest\<close> and \<open>Threads::Pools::Worker\<close>: one thread, nothing locked, and the main thread prints
  too. The printed id is that of the thread: an empty text stands for it.
\<close>

definition id_task :: "stmt list" where
  "id_task = [Say ''Task statred: Id:'', Say [], Say newline_text, Sleep_For,
     Say ''Task completed: Id:'', Say [], Say newline_text]"

definition post_and_tell :: "stmt list \<Rightarrow> stmt list" where
  "post_and_tell h = [Post_To 0 h, Say ''Added'', Say newline_text]"

definition Threads_SimpleTest :: "stmt list" where
  "Threads_SimpleTest = make_pool 1 @ concat (replicate 10 (post_and_tell id_task)) @ pool_join 1"

definition id_handler :: "stmt list" where
  "id_handler = [Say ''Task statred: Id:'', Say [], Say newline_text, Sleep_For,
     Say ''Task completed: Id:'', Say [], Say newline_text]"

definition RunTest :: "stmt list" where
  "RunTest = concat (replicate 10 (post_and_tell id_handler)) @ pool_join 1"

definition TestPool :: "stmt list" where
  "TestPool = make_pool 1 @ RunTest @ [Stop_Ctx 0]"

text \<open>\<open>example_MultipleThreads\<close>: the \<open>jthread\<close>s are joined when the vector is destroyed.\<close>

definition example_MultipleThreads :: "string \<Rightarrow> stmt list" where
  "example_MultipleThreads now =
     map (\<lambda>i. Post_To 0 [Say (now @ ''Task '' @ to_string i @ '' on thread '')]) [0..<5] @
     map (\<lambda>u. Spawn_Thread (Suc u) [Run_Ctx 0]) [0..<3] @ map (\<lambda>u. Join_Thread (Suc u)) [0..<3]"


section \<open>The discipline\<close>

text \<open>A task prints, sleeps and locks mutex 0; \<open>held\<close> says whether it has it.\<close>

fun task_ok :: "bool \<Rightarrow> stmt list \<Rightarrow> bool" where
  "task_ok held [] \<longleftrightarrow> \<not> held"
| "task_ok held (Say x # k) \<longleftrightarrow> task_ok held k"
| "task_ok held (Sleep_For # k) \<longleftrightarrow> task_ok held k"
| "task_ok held (Lock_Mutex m # k) \<longleftrightarrow> m = 0 \<and> \<not> held \<and> task_ok True k"
| "task_ok held (Unlock_Mutex m # k) \<longleftrightarrow> m = 0 \<and> held \<and> task_ok False k"
| "task_ok held _ \<longleftrightarrow> False"

text \<open>
  The main thread of a program with \<open>n\<close> workers: \<open>a\<close> of them are started and \<open>j\<close> are joined, in order, and \<open>held\<close>
  says whether the guard is held. Tasks are posted while it is, or before the first worker starts.
\<close>

fun main_ok :: "nat \<Rightarrow> bool \<Rightarrow> nat \<Rightarrow> nat \<Rightarrow> stmt list \<Rightarrow> bool" where
  "main_ok n held a j [] \<longleftrightarrow> \<not> held \<and> a = n \<and> j = n"
| "main_ok n held a j (Say x # k) \<longleftrightarrow> main_ok n held a j k"
| "main_ok n held a j (Post_To c h # k) \<longleftrightarrow> c = 0 \<and> task_ok False h \<and> (held \<or> a = 0) \<and> main_ok n held a j k"
| "main_ok n held a j (Hold_Work c # k) \<longleftrightarrow> c = 0 \<and> \<not> held \<and> a = 0 \<and> main_ok n True a j k"
| "main_ok n held a j (Release_Work c # k) \<longleftrightarrow> c = 0 \<and> held \<and> a = n \<and> main_ok n False a j k"
| "main_ok n held a j (Spawn_Thread u b # k) \<longleftrightarrow> u = Suc a \<and> a < n \<and> b = [Run_Ctx 0] \<and> main_ok n held (Suc a) j k"
| "main_ok n held a j (Join_Thread u # k) \<longleftrightarrow> u = Suc j \<and> j < n \<and> a = n \<and> \<not> held \<and> main_ok n held a (Suc j) k"
| "main_ok n held a j (Stop_Ctx c # k) \<longleftrightarrow> c = 0 \<and> j = n \<and> a = n \<and> \<not> held \<and> main_ok n held a j k"
| "main_ok n held a j _ \<longleftrightarrow> False"

text \<open>What a worker has left to do; \<open>busy\<close> is one that executes a task.\<close>

definition busy :: "stmt list \<Rightarrow> bool" where
  "busy k \<longleftrightarrow> End_Task 0 \<in> set k"

definition worker_ok :: "bool \<Rightarrow> stmt list \<Rightarrow> bool" where
  "worker_ok held k \<longleftrightarrow> (k = [] \<or> k = [Run_Ctx 0]) \<and> \<not> held \<or>
     (\<exists>l. k = l @ [End_Task 0, Run_Ctx 0] \<and> task_ok held l)"

definition pool_inv :: "nat \<Rightarrow> bool \<Rightarrow> nat \<Rightarrow> nat \<Rightarrow> world \<Rightarrow> bool" where
  "pool_inv n held a j w \<longleftrightarrow>
     length (codes w) = Suc n \<and> \<not> crashed w \<and> pending w = [] \<and>
     main_ok n held a j (codes w ! 0) \<and> a \<le> n \<and> j \<le> a \<and> guards w 0 = (if held then 1 else 0) \<and> owner w 0 \<noteq> Some 0 \<and>
     (\<forall>u < n. worker_ok (owner w 0 = Some (Suc u)) (codes w ! Suc u) \<and>
        (a \<le> u \<or> u < j \<longrightarrow> codes w ! Suc u = []) \<and> (u < a \<and> codes w ! Suc u = [] \<longrightarrow> stopped w 0)) \<and>
     (\<forall>m. owner w 0 = Some m \<longrightarrow> m \<le> n) \<and>
     (\<forall>q \<in> set (queue w). fst q = 0 \<and> task_ok False (snd q)) \<and>
     running w 0 = length (filter busy (codes w)) \<and>
     (stopped w 0 \<longrightarrow> 0 < a \<and> \<not> held \<and> queue w = [] \<and> running w 0 = 0)"

lemma main_ok_not_busy: "main_ok n held a j k \<Longrightarrow> \<not> busy k"
  by (induction n held a j k rule: main_ok.induct) (auto simp: busy_def)

lemma task_ok_not_busy: "task_ok held l \<Longrightarrow> End_Task c \<notin> set l"
  by (induction held l rule: task_ok.induct) auto

lemma length_filter_update:
  "t < length xs \<Longrightarrow> length (filter P (xs[t := y])) + (if P (xs ! t) then 1 else 0) =
     length (filter P xs) + (if P y then 1 else 0)"
proof (induction xs arbitrary: t)
  case Nil
  then show ?case by simp
next
  case (Cons x xs)
  then show ?case by (cases t) auto
qed

lemma pool_inv_facts:
  assumes "pool_inv n held a j w"
  shows "\<not> crashed w" "pending w = []" "guards w 0 = (if held then 1 else 0)" "a \<le> n" "j \<le> a"
    "\<forall>q \<in> set (queue w). fst q = 0 \<and> task_ok False (snd q)"
    "stopped w 0 \<Longrightarrow> 0 < a \<and> \<not> held \<and> queue w = [] \<and> running w 0 = 0"
    "owner w 0 \<noteq> Some 0" "\<And>m. owner w 0 = Some m \<Longrightarrow> m \<le> n"
    "length (codes w) = Suc n" "main_ok n held a j (codes w ! 0)"
    "\<And>u. u < n \<Longrightarrow> worker_ok (owner w 0 = Some (Suc u)) (codes w ! Suc u)"
    "running w 0 = length (filter busy (codes w))"
  using assms by (auto simp: pool_inv_def)

text \<open>A step of the main thread.\<close>

lemma main_step:
  assumes inv: "pool_inv n held a j w" and n: "0 < n" and step: "perform (Go 0) w = Some w'"
  shows "\<exists>held a j. pool_inv n held a j w'"
proof -
  from inv have len: "0 < length (codes w)" and main: "main_ok n held a j (codes w ! 0)" and c: "\<not> crashed w"
    by (simp_all add: pool_inv_def)
  from step c len obtain x k where xk: "codes w ! 0 = x # k" and ex: "exec 0 x k w = Some w'"
    by (auto simp: next_code_def split: list.splits)
  have k: "\<not> busy k" "\<not> busy (x # k)"
    using main_ok_not_busy [OF main] xk by (auto simp: busy_def)
  then have b: "length (filter busy ((codes w)[0 := k])) = length (filter busy (codes w))"
    using length_filter_update [OF len, of busy k] xk by simp
  have upd: "pool_inv n h a i w'"
    if "main_ok n h a i k" "codes w' = (codes w)[0 := k]" "\<not> crashed w'" "pending w' = []" "owner w' = owner w"
      "guards w' 0 = (if h then 1 else 0)" "running w' = running w" "j \<le> i" "i \<le> a"
      "\<forall>u. j \<le> u \<and> u < i \<longrightarrow> codes w ! Suc u = []"
      "\<forall>q \<in> set (queue w'). fst q = 0 \<and> task_ok False (snd q)"
      "stopped w 0 \<Longrightarrow> stopped w' 0" "stopped w' 0 \<Longrightarrow> 0 < a \<and> \<not> h \<and> queue w' = [] \<and> running w 0 = 0" for h i
  proof -
    have "codes w ! Suc u = []" if "u < n" "u < i" for u
      using that inv \<open>\<forall>u. j \<le> u \<and> u < i \<longrightarrow> codes w ! Suc u = []\<close> by (cases "u < j") (auto simp: pool_inv_def)
    with that b inv show ?thesis unfolding pool_inv_def by simp
  qed
  note f = pool_inv_facts [OF inv]
  show ?thesis
  proof (cases x)
    case (Spawn_Thread u body)
    with main xk have u: "u = Suc a" "a < n" "body = [Run_Ctx 0]" "main_ok n held (Suc a) j k" by auto
    have "\<not> busy [Run_Ctx 0]" by (simp add: busy_def)
    with b len inv u(1,2) have "length (filter busy ((codes w)[Suc a := [Run_Ctx 0], 0 := k])) = length (filter busy (codes w))"
      using length_filter_update [of "Suc a" "(codes w)[0 := k]" busy "[Run_Ctx 0]"]
      by (auto simp: pool_inv_def list_update_swap busy_def)
    moreover from ex Spawn_Thread u inv
    have w': "w' = goto 0 k (goto (Suc a) [Run_Ctx 0] (w\<lparr>joinable := (joinable w)(Suc a := True)\<rparr>))"
      by (auto split: if_splits)
    moreover from inv u(2) have "owner w 0 \<noteq> Some (Suc a)" by (auto simp: pool_inv_def worker_ok_def)
    ultimately have "pool_inv n held (Suc a) j w'" using inv u
      unfolding pool_inv_def by (simp add: nth_list_update worker_ok_def) force
    then show ?thesis by blast
  next
    case (Post_To c h)
    with main xk ex f have "pool_inv n held a j w'" by (intro upd) auto
    then show ?thesis by blast
  next
    case (Hold_Work c)
    with main xk ex f have "pool_inv n True a j w'" by (intro upd) auto
    then show ?thesis by blast
  next
    case (Release_Work c)
    with main xk ex f have "pool_inv n False a j w'" by (intro upd) auto
    then show ?thesis by blast
  next
    case (Join_Thread u)
    with main xk ex have u: "u = Suc j" "j < n" "a = n" "\<not> held" "main_ok n held a (Suc j) k" "codes w ! Suc j = []"
      and w': "w' = goto 0 k (w\<lparr>joinable := (joinable w)(u := False)\<rparr>)" by (auto split: if_splits)
    have "\<forall>v. j \<le> v \<and> v < Suc j \<longrightarrow> codes w ! Suc v = []" using u(6) by (auto dest: le_less_Suc_eq)
    with u f have "pool_inv n held a (Suc j) w'" by (intro upd) (simp_all add: w')
    then show ?thesis by blast
  next
    case (Stop_Ctx c)
    with main xk have "codes w ! Suc 0 = []" using inv n by (auto simp: pool_inv_def)
    with inv n main xk Stop_Ctx have "stopped w 0" by (auto simp: pool_inv_def)
    with Stop_Ctx main xk ex f have "pool_inv n held a j w'" by (intro upd) auto
    then show ?thesis by blast
  next
    case (Say y)
    with main xk ex f have "pool_inv n held a j w'" by (intro upd) auto
    then show ?thesis by blast
  qed (use main xk in auto)
qed

text \<open>A step of a worker: it leaves \<open>run()\<close>, or performs a statement of its task.\<close>

lemma worker_update:
  assumes inv: "pool_inv n held a j w" and u: "u < n" and ne: "codes w ! Suc u \<noteq> []"
    and main: "codes w' = (codes w)[Suc u := k]" "\<not> crashed w'" "pending w' = []" "guards w' = guards w"
    and own: "owner w' 0 \<noteq> Some 0" "\<forall>m. owner w' 0 = Some m \<longrightarrow> m \<le> n"
    and others: "\<forall>v < n. v \<noteq> u \<longrightarrow> (owner w' 0 = Some (Suc v) \<longleftrightarrow> owner w 0 = Some (Suc v))"
    and self: "worker_ok (owner w' 0 = Some (Suc u)) k" "k = [] \<Longrightarrow> stopped w' 0"
    and q: "\<forall>q \<in> set (queue w'). fst q = 0 \<and> task_ok False (snd q)"
    and run: "running w' 0 + (if busy (codes w ! Suc u) then 1 else 0) = running w 0 + (if busy k then 1 else 0)"
    and st: "stopped w 0 \<Longrightarrow> stopped w' 0" "stopped w' 0 \<Longrightarrow> guards w 0 = 0 \<and> queue w' = [] \<and> running w' 0 = 0"
  shows "pool_inv n held a j w'"
proof -
  from inv have len: "Suc u < length (codes w)" using u by (simp add: pool_inv_def)
  have "running w' 0 = length (filter busy (codes w'))"
    using length_filter_update [OF len, of busy k] run inv by (simp add: main(1) pool_inv_def)
  moreover from inv u ne have "u < a" "\<not> u < j" by (auto simp: pool_inv_def not_le)
  ultimately show ?thesis using inv main own others self q st u
    unfolding pool_inv_def by (simp add: nth_list_update) (metis less_zeroE not_gr_zero zero_neq_one)
qed

lemma worker_step:
  assumes inv: "pool_inv n held a j w" and u: "u < n" and step: "perform (Go (Suc u)) w = Some w'"
  shows "pool_inv n held a j w'"
proof -
  from inv u have len: "Suc u < length (codes w)" by (simp add: pool_inv_def)
  from step len obtain x k where xk: "codes w ! Suc u = x # k" and ex: "exec (Suc u) x k w = Some w'"
    by (auto simp: next_code_def split: list.splits if_splits)
  from inv u have wo: "worker_ok (owner w 0 = Some (Suc u)) (x # k)" by (simp add: pool_inv_def flip: xk)
  note upd = worker_update [OF inv u]
  note f = pool_inv_facts [OF inv]
  show ?thesis
  proof (cases "x = Run_Ctx 0 \<and> k = []")
    case True
    with wo have "owner w 0 \<noteq> Some (Suc u)" by (auto simp: worker_ok_def Cons_eq_append_conv)
    moreover from True ex f have "w' = goto (Suc u) [] (w\<lparr>stopped := (stopped w)(0 := True)\<rparr>) \<and> work w 0 = 0 \<or>
        w' = goto (Suc u) [] w \<and> stopped w 0" by (auto split: if_splits)
    then have "codes w' = (codes w)[Suc u := []]" "crashed w' = crashed w" "pending w' = pending w" "guards w' = guards w"
      "owner w' = owner w" "queue w' = queue w" "running w' = running w" "stopped w' 0"
      "guards w 0 = 0 \<and> queue w = [] \<and> running w 0 = 0"
      using f(3,6,7) by (auto simp: work_def filter_empty_conv)
    ultimately show ?thesis using True xk f(1,2,6,8,9)
      by (intro upd [where k = "[]"]) (simp_all add: worker_ok_def busy_def)
  next
    case False
    with wo obtain l where l: "x # k = l @ [End_Task 0, Run_Ctx 0]" "task_ok (owner w 0 = Some (Suc u)) l"
      by (auto simp: worker_ok_def)
    show ?thesis
    proof (cases l)
      case Nil
      with l have x: "x = End_Task 0" "k = [Run_Ctx 0]" "owner w 0 \<noteq> Some (Suc u)" by auto
      have "busy (codes w ! Suc u)" "codes w ! Suc u \<in> set (codes w)"
        using nth_mem [OF len] xk x by (simp_all add: busy_def)
      then have "0 < length (filter busy (codes w))" by (auto simp: filter_empty_conv)
      with f(13) have "0 < running w 0" "\<not> stopped w 0" using f(7) by auto
      with x ex xk f(1,2,6,8,9) show ?thesis
        by (intro upd [where k = k]) (auto simp: worker_ok_def busy_def)
    next
      case (Cons y l')
      with l have y: "x = y" "k = l' @ [End_Task 0, Run_Ctx 0]" by auto
      then have b: "busy (x # k)" "busy k" by (simp_all add: busy_def)
      have wk: "worker_ok h k" if "task_ok h l'" for h using that y by (auto simp: worker_ok_def)
      from l Cons have t: "task_ok (owner w 0 = Some (Suc u)) (y # l')" by simp
      have w': "codes w' = (codes w)[Suc u := k]" "\<not> crashed w'" "pending w' = []" "guards w' = guards w"
        "queue w' = queue w" "running w' = running w" "stopped w' = stopped w"
        using t ex y(1) f(1,2) by (cases y; auto split: if_splits)+
      have "owner w' 0 = owner w 0 \<and> task_ok (owner w 0 = Some (Suc u)) l' \<or>
          owner w 0 = None \<and> owner w' 0 = Some (Suc u) \<and> task_ok True l' \<or>
          owner w 0 = Some (Suc u) \<and> owner w' 0 = None \<and> task_ok False l'"
        using t ex y(1) by (cases y) (auto split: if_splits)
      then have own: "owner w' 0 \<noteq> Some 0" "\<forall>m. owner w' 0 = Some m \<longrightarrow> m \<le> n"
        "\<forall>v < n. v \<noteq> u \<longrightarrow> (owner w' 0 = Some (Suc v) \<longleftrightarrow> owner w 0 = Some (Suc v))"
        "worker_ok (owner w' 0 = Some (Suc u)) k"
        using wk f(8,9) u by (elim disjE; simp)+
      show ?thesis
        by (rule upd [OF _ w'(1-4) own]) (use f b xk y in \<open>auto simp: w'\<close>)
    qed
  qed
qed

text \<open>A worker takes a task.\<close>

lemma take_step:
  assumes inv: "pool_inv n held a j w" and step: "perform (Take t i) w = Some w'"
  shows "pool_inv n held a j w'"
proof -
  note f = pool_inv_facts [OF inv]
  from step obtain c k where k: "t < length (codes w)" "codes w ! t = Run_Ctx c # k" "i < length (queue w)"
    "fst (queue w ! i) = c" "\<not> stopped w c"
    and w': "w' = goto t (snd (queue w ! i) @ End_Task c # Run_Ctx c # k)
      (w\<lparr>queue := remove_nth i (queue w), running := (running w)(c := running w c + 1)\<rparr>)"
    by (auto split: if_splits list.splits stmt.splits simp: next_code_Cons)
  have "t \<noteq> 0" using k(2) f(11) by (cases "t = 0") auto
  with k(1) f(10) obtain u where u: "t = Suc u" "u < n" by (cases t) auto
  with f(12) [of u] k(2) have "worker_ok (owner w 0 = Some (Suc u)) (Run_Ctx c # k)" by simp
  then have h: "k = []" "c = 0" "owner w 0 \<noteq> Some (Suc u)"
    by (auto simp: worker_ok_def Cons_eq_append_conv)
  have q: "queue w ! i \<in> set (queue w)" using k(3) by simp
  have "set (remove_nth i (queue w)) \<subseteq> set (queue w)"
    by (auto simp: remove_nth_def dest: in_set_takeD in_set_dropD)
  with f(6) have "\<forall>q \<in> set (remove_nth i (queue w)). fst q = 0 \<and> task_ok False (snd q)" by blast
  moreover have "worker_ok False (snd (queue w ! i) @ [End_Task 0, Run_Ctx 0])"
    using f(6) q by (auto simp: worker_ok_def)
  moreover have "\<not> busy (codes w ! Suc u)" using k(2) u h by (simp add: busy_def)
  ultimately show ?thesis using f h u k(2,5)
    by (intro worker_update [OF inv u(2), where k = "snd (queue w ! i) @ [End_Task 0, Run_Ctx 0]"])
      (auto simp: w' busy_def)
qed

lemma pool_step:
  assumes "\<exists>held a j. pool_inv n held a j w" and "0 < n" and "perform d w = Some w'"
  shows "\<exists>held a j. pool_inv n held a j w'"
proof -
  from assms(1) obtain held a j where inv: "pool_inv n held a j w" by blast
  show ?thesis
  proof (cases d)
    case (Go t)
    show ?thesis
    proof (cases t)
      case 0
      with main_step [OF inv assms(2)] assms(3) Go show ?thesis by simp
    next
      case (Suc u)
      with assms(3) Go inv have "u < n" by (auto simp: next_code_def pool_inv_def split: if_splits)
      with worker_step [OF inv] assms(3) Go Suc show ?thesis by blast
    qed
  next
    case (Take t i)
    with take_step [OF inv] assms(3) show ?thesis by blast
  next
    case (Complete i ok)
    with assms(3) pool_inv_facts [OF inv] show ?thesis by simp
  qed
qed

lemma pool_start:
  assumes "main_ok n False 0 0 main"
  shows "pool_inv n False 0 0 (start_world n main)"
proof -
  have "\<not> busy main" using main_ok_not_busy [OF assms] .
  then have "filter busy (main # replicate n []) = []" by (auto simp: busy_def filter_empty_conv)
  with assms show ?thesis by (auto simp: pool_inv_def start_world_def worker_ok_def)
qed

lemma pool_invariant:
  assumes "execute (start_world n main) ds = Some w" and "main_ok n False 0 0 main" and "0 < n"
  shows "\<exists>held a j. pool_inv n held a j w"
  by (rule execute_invariant [OF assms(1)]) (use pool_start [OF assms(2)] pool_step assms(3) in blast)+


section \<open>No deadlock\<close>

lemma free_progress:
  assumes "pool_inv n held a j w" and "v < n" and "codes w ! Suc v = x # k"
    and "x \<in> {Sleep_For, End_Task 0} \<or> (\<exists>t. x = Say t) \<or> (\<exists>m. x = Unlock_Mutex m)"
  shows "perform (Go (Suc v)) w \<noteq> None"
  using assms(2-) pool_inv_facts(1,10) [OF assms(1)] by (auto simp: next_code_def)

lemma holder_progress:
  assumes inv: "pool_inv n held a j w" and v: "v < n" "owner w 0 = Some (Suc v)"
  shows "perform (Go (Suc v)) w \<noteq> None"
proof -
  from pool_inv_facts(12) [OF inv v(1)] v(2) obtain l where l: "codes w ! Suc v = l @ [End_Task 0, Run_Ctx 0]"
    "task_ok True l" by (auto simp: worker_ok_def)
  then obtain y l' where y: "l = y # l'" by (cases l) auto
  with l(2) have "y \<in> {Sleep_For, End_Task 0} \<or> (\<exists>t. y = Say t) \<or> (\<exists>m. y = Unlock_Mutex m)" by (cases y) auto
  with l(1) y show ?thesis by (intro free_progress [OF inv v(1)]) auto
qed

lemma busy_progress:
  assumes inv: "pool_inv n held a j w" and u: "u < n" and b: "busy (codes w ! Suc u)"
  shows "\<exists>d. perform d w \<noteq> None"
proof -
  note f = pool_inv_facts [OF inv]
  from f(12) [OF u] b obtain l where l: "codes w ! Suc u = l @ [End_Task 0, Run_Ctx 0]"
    "task_ok (owner w 0 = Some (Suc u)) l" by (auto simp: worker_ok_def busy_def)
  show ?thesis
  proof (cases "\<exists>l'. l = Lock_Mutex 0 # l'")
    case True
    then obtain l' where l': "l = Lock_Mutex 0 # l'" by blast
    show ?thesis
    proof (cases "owner w 0")
      case None
      with l' l(1) u f(1,10) have "perform (Go (Suc u)) w \<noteq> None" by (simp add: next_code_def)
      then show ?thesis by blast
    next
      case (Some t)
      with f(8,9) obtain v where "t = Suc v" "v < n" by (cases t) (auto simp: less_eq_Suc_le)
      with holder_progress [OF inv] Some show ?thesis by blast
    qed
  next
    case False
    obtain y k where y: "l @ [End_Task 0, Run_Ctx 0] = y # k" by (cases l) auto
    with False l(2) have "y \<in> {Sleep_For, End_Task 0} \<or> (\<exists>t. y = Say t) \<or> (\<exists>m. y = Unlock_Mutex m)"
      by (cases l; cases y) auto
    with l(1) y have "perform (Go (Suc u)) w \<noteq> None" by (intro free_progress [OF inv u]) auto
    then show ?thesis by blast
  qed
qed

lemma worker_progress:
  assumes inv: "pool_inv n held a j w" and u: "u < n" and ne: "codes w ! Suc u \<noteq> []" and h: "\<not> held"
  shows "\<exists>d. perform d w \<noteq> None"
proof (cases "busy (codes w ! Suc u)")
  case True
  then show ?thesis by (rule busy_progress [OF inv u])
next
  case False
  note f = pool_inv_facts [OF inv]
  from inv u ne False have k: "codes w ! Suc u = [Run_Ctx 0]" and len: "Suc u < length (codes w)"
    by (auto simp: pool_inv_def worker_ok_def busy_def)
  show ?thesis
  proof (cases "stopped w 0 \<or> work w 0 = 0")
    case True
    with k len f(1) have "perform (Go (Suc u)) w \<noteq> None" by (auto simp: next_code_def)
    then show ?thesis by blast
  next
    case False
    show ?thesis
    proof (cases "queue w")
      case Nil
      with False f(2,3,13) h have "0 < length (filter busy (codes w))" by (simp add: work_def)
      then obtain x where "x \<in> set (codes w)" "busy x" by (auto simp: filter_empty_conv)
      then obtain t where t: "t < length (codes w)" "busy (codes w ! t)" by (auto simp: in_set_conv_nth)
      have "t \<noteq> 0" using t(2) main_ok_not_busy [OF f(11)] by (cases "t = 0") auto
      with t f(10) obtain v where "t = Suc v" "v < n" by (cases t) auto
      with t(2) busy_progress [OF inv] show ?thesis by blast
    next
      case (Cons q qs)
      with False k len f(1,6) have "perform (Take (Suc u) 0) w \<noteq> None" by (simp add: next_code_def)
      then show ?thesis by blast
    qed
  qed
qed

text \<open>While anything is left to do, some step is possible.\<close>

lemma pool_progress:
  assumes inv: "pool_inv n held a j w" and "\<not> finished w"
  shows "\<exists>d. perform d w \<noteq> None"
proof (cases "codes w ! 0")
  case Nil
  with inv have "j = n" by (simp add: pool_inv_def)
  with inv have "\<forall>u < n. codes w ! Suc u = []" by (simp add: pool_inv_def)
  with Nil pool_inv_facts(10) [OF inv] have "\<forall>t < length (codes w). codes w ! t = []"
    by (simp add: All_less_Suc2)
  then have "finished w" by (auto simp: finished_def in_set_conv_nth)
  with assms(2) show ?thesis by simp
next
  case (Cons x k)
  note f = pool_inv_facts [OF inv]
  show ?thesis
  proof (cases "exec 0 x k w")
    case (Some w')
    with Cons f(1,10) have "perform (Go 0) w \<noteq> None" by (simp add: next_code_def)
    then show ?thesis by blast
  next
    case None
    show ?thesis
    proof (cases x)
      case (Join_Thread u)
      with f(10,11) Cons None have "\<not> held" "j < n" "codes w ! Suc j \<noteq> []" by (auto split: if_splits)
      with worker_progress [OF inv] show ?thesis by blast
    next
      case (Spawn_Thread u b)
      with f(11) Cons have "u = Suc a" "a < n" by auto
      with inv have "codes w ! u = []" by (simp add: pool_inv_def)
      with None Spawn_Thread f(10) \<open>u = Suc a\<close> \<open>a < n\<close> show ?thesis by simp
    qed (use f(11) Cons None in auto)
  qed
qed

section \<open>The programs keep the discipline\<close>

lemma main_ok_posts:
  "held \<or> a = 0 \<Longrightarrow> \<forall>i \<in> set is. task_ok False (f i) \<Longrightarrow>
     main_ok n held a j (map (\<lambda>i. Post_To 0 (f i)) is @ k) = main_ok n held a j k"
  by (induction "is") auto

lemma main_ok_spawns:
  assumes "a \<le> n" and "main_ok n held n j k"
  shows "main_ok n held a j (map (\<lambda>u. Spawn_Thread (Suc u) [Run_Ctx 0]) [a..<n] @ k)"
  using assms(1)
proof (induction "n - a" arbitrary: a)
  case 0
  with assms(2) show ?case by simp
next
  case (Suc d)
  then have "a < n" by simp
  with Suc.hyps(1) [of "Suc a"] Suc.hyps(2) show ?case by (simp add: upt_conv_Cons)
qed

lemma main_ok_joins:
  assumes "j \<le> n" and "main_ok n False n n k"
  shows "main_ok n False n j (map (\<lambda>u. Join_Thread (Suc u)) [j..<n] @ k)"
  using assms(1)
proof (induction "n - j" arbitrary: j)
  case 0
  with assms(2) show ?case by simp
next
  case (Suc d)
  then have "j < n" by simp
  with Suc.hyps(1) [of "Suc j"] Suc.hyps(2) show ?case by (simp add: upt_conv_Cons)
qed

lemma main_ok_make_pool: "main_ok n True n 0 k \<Longrightarrow> main_ok n False 0 0 (make_pool n @ k)"
  by (simp add: make_pool_def main_ok_spawns)

lemma main_ok_pool_join: "main_ok n False n n k \<Longrightarrow> main_ok n True n 0 (pool_join n @ k)"
  by (simp add: pool_join_def main_ok_joins)

lemma main_ok_post_and_tell:
  "task_ok False h \<Longrightarrow> main_ok n True a j (concat (replicate m (post_and_tell h)) @ k) = main_ok n True a j k"
  by (induction m) (simp_all add: post_and_tell_def)

text \<open>The programs, with the number of threads that run the tasks.\<close>

definition pool_program :: "nat \<Rightarrow> stmt list \<Rightarrow> bool" where
  "pool_program n p \<longleftrightarrow> 0 < n \<and>
     (p \<in> {thread_pool_Test n, thread_pool_Test2 n} \<or> n = 1 \<and> p \<in> {Threads_SimpleTest, TestPool} \<or>
      n = 3 \<and> (\<exists>now. p = example_MultipleThreads now))"

lemma pool_program_ok: "pool_program n p \<Longrightarrow> main_ok n False 0 0 p"
proof -
  have t: "task_ok False (pool_task i)" "task_ok False (worker_handler i)" "task_ok False id_task" "task_ok False id_handler" for i
    by (simp_all add: pool_task_def worker_handler_def print_locked_def id_task_def id_handler_def)
  have "main_ok n False 0 0 (thread_pool_Test n)"
    unfolding thread_pool_Test_def
    by (intro main_ok_make_pool) (simp add: main_ok_posts t main_ok_pool_join)
  moreover have "main_ok n False 0 0 (thread_pool_Test2 n)"
    unfolding thread_pool_Test2_def Worker_Run_def append_assoc
    by (intro main_ok_make_pool) (simp add: main_ok_posts t main_ok_pool_join)
  moreover have "main_ok 1 False 0 0 Threads_SimpleTest" "main_ok 1 False 0 0 TestPool"
    unfolding Threads_SimpleTest_def TestPool_def RunTest_def append_assoc
    using main_ok_pool_join [of 1 "[]"]
    by (intro main_ok_make_pool; simp add: main_ok_post_and_tell t main_ok_pool_join)+
  moreover have "main_ok 3 False 0 0 (example_MultipleThreads now)" for now
    unfolding example_MultipleThreads_def
    using main_ok_joins [of 0 3 "[]"] by (simp add: main_ok_posts main_ok_spawns)
  moreover assume "pool_program n p"
  ultimately show ?thesis by (auto simp: pool_program_def)
qed

lemma main_ok_plain: "main_ok n held a j k \<Longrightarrow> list_all plain k"
proof (induction n held a j k rule: main_ok.induct)
  case (3 n held a j c h k)
  have "task_ok b h \<Longrightarrow> list_all plain h" for b h by (induction b h rule: task_ok.induct) auto
  with 3 show ?case by auto
qed auto


section \<open>Lines under the mutex\<close>

text \<open>
  What a thread that holds the mutex prints before it unlocks it, and the tasks that print only whole lines
  under it. The main thread prints whole lines too, after the last join.
\<close>

fun until_unlock :: "stmt list \<Rightarrow> string" where
  "until_unlock [] = []"
| "until_unlock (Say x # k) = x @ until_unlock k"
| "until_unlock (Unlock_Mutex m # k) = []"
| "until_unlock (_ # k) = until_unlock k"

definition whole_line :: "string \<Rightarrow> bool" where
  "whole_line l \<longleftrightarrow> (\<exists>i. l = ''Task started '' @ to_string i @ newline_text \<or>
     l = ''Task completed '' @ to_string i @ newline_text) \<or> l = ''Done'' @ newline_text"

definition whole_lines :: "string \<Rightarrow> bool" where
  "whole_lines t \<longleftrightarrow> (\<exists>ls. t = concat ls \<and> (\<forall>l \<in> set ls. whole_line l))"

fun tidy :: "bool \<Rightarrow> stmt list \<Rightarrow> bool" where
  "tidy held [] \<longleftrightarrow> True"
| "tidy held (Say x # k) \<longleftrightarrow> held \<and> tidy True k"
| "tidy held (Lock_Mutex m # k) \<longleftrightarrow> whole_line (until_unlock k) \<and> tidy True k"
| "tidy held (Unlock_Mutex m # k) \<longleftrightarrow> tidy False k"
| "tidy held (_ # k) \<longleftrightarrow> tidy held k"

fun tidy_main :: "stmt list \<Rightarrow> bool" where
  "tidy_main [] \<longleftrightarrow> True"
| "tidy_main (Say x # k) \<longleftrightarrow> whole_line x \<and> (\<forall>u. Join_Thread u \<notin> set k) \<and> tidy_main k"
| "tidy_main (Post_To c h # k) \<longleftrightarrow> tidy False h \<and> tidy_main k"
| "tidy_main (_ # k) \<longleftrightarrow> tidy_main k"

definition printed_text :: "world \<Rightarrow> string" where
  "printed_text w = concat (map snd (shown w))"

definition tidy_world :: "nat \<Rightarrow> world \<Rightarrow> bool" where
  "tidy_world n w \<longleftrightarrow> tidy_main (codes w ! 0) \<and> (\<forall>q \<in> set (queue w). tidy False (snd q)) \<and>
     (\<forall>u < n. tidy (owner w 0 = Some (Suc u)) (codes w ! Suc u)) \<and>
     (case owner w 0 of None \<Rightarrow> whole_lines (printed_text w)
      | Some t \<Rightarrow> whole_lines (printed_text w @ until_unlock (codes w ! t)))"

lemma whole_lines_append: "whole_lines s \<Longrightarrow> whole_line l \<Longrightarrow> whole_lines (s @ l)"
  unfolding whole_lines_def
proof (elim exE conjE)
  fix ls assume "whole_line l" "s = concat ls" "\<forall>l \<in> set ls. whole_line l"
  then show "\<exists>ls. s @ l = concat ls \<and> (\<forall>l \<in> set ls. whole_line l)" by (intro exI [of _ "ls @ [l]"]) auto
qed

lemma tidy_append: "task_ok held l \<Longrightarrow> tidy held l \<Longrightarrow> tidy False k \<Longrightarrow> tidy held (l @ k)"
proof (induction held l rule: task_ok.induct)
  case (4 held m k')
  have "task_ok True l \<Longrightarrow> until_unlock (l @ k) = until_unlock l" for l
    by (induction l rule: until_unlock.induct) auto
  with 4 show ?case by auto
qed auto

text \<open>With no join left in a well-behaved main thread, all workers have ended.\<close>

lemma no_joins_left: "main_ok n held a j k \<Longrightarrow> \<forall>u. Join_Thread u \<notin> set k \<Longrightarrow> j = n"
  by (induction n held a j k rule: main_ok.induct) auto

lemma tidy_main_step:
  assumes inv: "pool_inv n held a j w" and t: "tidy_world n w" and step: "perform (Go 0) w = Some w'"
  shows "tidy_world n w'"
proof -
  note f = pool_inv_facts [OF inv]
  from step f(1,10) obtain x k where xk: "codes w ! 0 = x # k" and ex: "exec 0 x k w = Some w'"
    by (auto simp: next_code_def split: list.splits)
  from f(11) xk have main: "main_ok n held a j (x # k)" by simp
  from t xk have tm: "tidy_main (x # k)" by (simp add: tidy_world_def)
  have same: "tidy_world n w'"
    if "codes w' = (codes w)[0 := k]" "owner w' = owner w" "shown w' = shown w" "tidy_main k"
      "\<forall>q \<in> set (queue w'). tidy False (snd q)"
    using that t f(8,10) by (auto simp: tidy_world_def printed_text_def nth_list_update split: option.splits)
  note tq = t [unfolded tidy_world_def, THEN conjunct2, THEN conjunct1]
  show ?thesis
  proof (cases x)
    case (Say y)
    with main tm no_joins_left [of n held a j k] have "j = n" by simp
    with inv have "\<forall>u < n. codes w ! Suc u = []" by (simp add: pool_inv_def)
    then have "owner w 0 \<noteq> Some (Suc u)" if "u < n" for u
      using f(12) [OF that] that by (auto simp: worker_ok_def)
    then have o: "owner w 0 = None"
      using f(8,9) by (metis Suc_le_eq not0_implies_Suc option.exhaust)
    with t have "whole_lines (printed_text w)" by (simp add: tidy_world_def)
    with tm Say have "whole_lines (printed_text w @ y)" by (auto intro: whole_lines_append)
    with t tm o Say ex f(10) show ?thesis
      by (auto simp: tidy_world_def printed_text_def nth_list_update)
  next
    case (Spawn_Thread u b)
    with main have u: "u = Suc a" "a < n" "b = [Run_Ctx 0]" by auto
    with ex Spawn_Thread have w': "w' = goto 0 k (goto (Suc a) [Run_Ctx 0] (w\<lparr>joinable := (joinable w)(u := True)\<rparr>))"
      by (auto split: if_splits)
    from inv u have "codes w ! Suc a = []" by (simp add: pool_inv_def)
    with f(12) [OF u(2)] have "owner w 0 \<noteq> Some (Suc a)" by (auto simp: worker_ok_def)
    with t tm Spawn_Thread f(8,10) u(2) show ?thesis
      by (auto simp: w' tidy_world_def printed_text_def nth_list_update split: option.splits)
  qed (rule same; use main ex tm tq in \<open>auto split: if_splits\<close>)+
qed

lemma tidy_worker_step:
  assumes inv: "pool_inv n held a j w" and t: "tidy_world n w" and u: "u < n" and step: "perform (Go (Suc u)) w = Some w'"
  shows "tidy_world n w'"
proof -
  note f = pool_inv_facts [OF inv]
  from step f(1,10) u obtain x k where xk: "codes w ! Suc u = x # k" and ex: "exec (Suc u) x k w = Some w'"
    by (auto simp: next_code_def split: list.splits)
  from f(12) [OF u] have wo: "worker_ok (owner w 0 = Some (Suc u)) (x # k)" by (simp add: xk)
  from t u have tk: "tidy (owner w 0 = Some (Suc u)) (x # k)" by (auto simp: tidy_world_def simp flip: xk)
  have others: "tidy False (codes w ! Suc v)" if "owner w 0 = Some (Suc u)" "v < n" "v \<noteq> u" for v
  proof -
    from t that(2) have "tidy (owner w 0 = Some (Suc v)) (codes w ! Suc v)" by (simp add: tidy_world_def)
    with that(1,3) show ?thesis by simp
  qed
  have same: "tidy_world n w'"
    if "codes w' = (codes w)[Suc u := k]" "owner w' = owner w" "shown w' = shown w" "tidy (owner w 0 = Some (Suc u)) k"
      "queue w' = queue w" "until_unlock (x # k) = until_unlock k"
    using that t f(10) u xk by (auto simp: tidy_world_def printed_text_def nth_list_update split: option.splits)
  show ?thesis
  proof (cases x)
    case (Say y)
    with tk have o: "owner w 0 = Some (Suc u)" "tidy True k" by auto
    with others [OF o(1)] Say t ex f(10) u xk show ?thesis
      by (auto simp: tidy_world_def printed_text_def nth_list_update)
  next
    case (Lock_Mutex m)
    with wo have m: "m = 0" by (auto simp: worker_ok_def Cons_eq_append_conv)
    with ex Lock_Mutex have o: "owner w 0 = None" and w': "w' = goto (Suc u) k (w\<lparr>owner := (owner w)(0 \<mapsto> Suc u)\<rparr>)"
      by (auto split: if_splits)
    from tk Lock_Mutex have "whole_line (until_unlock k)" "tidy True k" by auto
    with t o u f(10) show ?thesis
      by (auto simp: w' tidy_world_def printed_text_def nth_list_update intro: whole_lines_append)
  next
    case (Unlock_Mutex m)
    with wo have m: "m = 0" "owner w 0 = Some (Suc u)" by (auto simp: worker_ok_def Cons_eq_append_conv)
    with others [OF m(2)] Unlock_Mutex t ex tk u xk f(10) show ?thesis
      by (auto simp: tidy_world_def printed_text_def nth_list_update)
  next
    case (Run_Ctx c)
    with wo have "owner w 0 \<noteq> Some (Suc u)" "k = []" by (auto simp: worker_ok_def Cons_eq_append_conv)
    with Run_Ctx ex show ?thesis by (intro same) (auto split: if_splits)
  qed (rule same; use wo ex tk in \<open>auto simp: worker_ok_def Cons_eq_append_conv split: if_splits\<close>)+
qed

lemma tidy_take_step:
  assumes inv: "pool_inv n held a j w" and t: "tidy_world n w" and step: "perform (Take v i) w = Some w'"
  shows "tidy_world n w'"
proof -
  note f = pool_inv_facts [OF inv]
  from step obtain c k where k: "v < length (codes w)" "codes w ! v = Run_Ctx c # k" "i < length (queue w)"
    and w': "w' = goto v (snd (queue w ! i) @ End_Task c # Run_Ctx c # k)
      (w\<lparr>queue := remove_nth i (queue w), running := (running w)(c := running w c + 1)\<rparr>)"
    by (auto split: if_splits list.splits stmt.splits simp: next_code_Cons)
  have "v \<noteq> 0" using k(2) f(11) by (cases "v = 0") auto
  with k(1) f(10) obtain u where u: "v = Suc u" "u < n" by (cases v) auto
  with f(12) [of u] k(2) have h: "k = []" "owner w 0 \<noteq> Some (Suc u)"
    by (auto simp: worker_ok_def Cons_eq_append_conv)
  have q: "queue w ! i \<in> set (queue w)" "set (remove_nth i (queue w)) \<subseteq> set (queue w)"
    using k(3) by (auto simp: remove_nth_def dest: in_set_takeD in_set_dropD)
  with t f(6) have "tidy False (snd (queue w ! i))" "task_ok False (snd (queue w ! i))" by (auto simp: tidy_world_def)
  then have "tidy False (snd (queue w ! i) @ [End_Task c, Run_Ctx c])" by (intro tidy_append) auto
  with t q(2) u h f(10) show ?thesis
    by (auto simp: w' tidy_world_def printed_text_def nth_list_update split: option.splits)
qed

lemma tidy_step:
  assumes "(\<exists>held a j. pool_inv n held a j w) \<and> tidy_world n w" and "perform d w = Some w'"
  shows "tidy_world n w'"
proof -
  from assms(1) obtain held a j where inv: "pool_inv n held a j w" and t: "tidy_world n w" by blast
  show ?thesis
  proof (cases d)
    case (Go v)
    show ?thesis
    proof (cases v)
      case 0
      with tidy_main_step [OF inv t] assms(2) Go show ?thesis by simp
    next
      case (Suc u)
      with assms(2) Go inv have "u < n" by (auto simp: next_code_def pool_inv_def split: if_splits)
      with tidy_worker_step [OF inv t] assms(2) Go Suc show ?thesis by blast
    qed
  next
    case (Take v i)
    with tidy_take_step [OF inv t] assms(2) show ?thesis by blast
  next
    case (Complete i ok)
    with assms(2) pool_inv_facts(2) [OF inv] show ?thesis by simp
  qed
qed

lemma tidy_main_append:
  "list_all (\<lambda>x. case x of Say _ \<Rightarrow> False | Post_To c h \<Rightarrow> tidy False h | _ \<Rightarrow> True) k \<Longrightarrow>
     tidy_main (k @ l) = tidy_main l"
proof (induction k)
  case (Cons x k)
  then show ?case by (cases x) auto
qed simp

lemma tidy_programs:
  "tidy_main (thread_pool_Test n)" "tidy_main (thread_pool_Test2 n)"
proof -
  have l: "whole_line (''Task started '' @ to_string i @ newline_text)" "whole_line (''Task completed '' @ to_string i @ newline_text)"
    "whole_line (''Done'' @ newline_text)" for i
    unfolding whole_line_def by blast+
  then have t: "tidy False (pool_task i)" "tidy False (worker_handler i)" for i
    by (simp_all add: pool_task_def worker_handler_def print_locked_def newline_text_def)
  have d: "tidy_main [Say (''Done'' @ newline_text)]" using l(3) by simp
  show "tidy_main (thread_pool_Test n)"
    unfolding thread_pool_Test_def append_assoc [symmetric]
    by (subst tidy_main_append) (use t d in \<open>auto simp: make_pool_def pool_join_def list_all_iff\<close>)
  show "tidy_main (thread_pool_Test2 n)"
    unfolding thread_pool_Test2_def Worker_Run_def append_assoc [symmetric]
    by (subst tidy_main_append) (use t in \<open>auto simp: make_pool_def pool_join_def list_all_iff\<close>)
qed


section \<open>Properties\<close>

text \<open>
  C18: whatever the scheduler does, the programs that let threads run posted tasks never deadlock and always
  end; when the main thread has ended, so have the workers, no task is left in the queue, and exactly the
  text of all tasks has been printed, each piece once.
\<close>

theorem pool_programs_complete:
  assumes "pool_program n p" and "execute (start_world n p) ds = Some w"
  shows "length ds \<le> weights p \<and> \<not> crashed w \<and> (blocked w \<longrightarrow> codes w ! 0 = []) \<and>
    (codes w ! 0 = [] \<longrightarrow> finished w \<and> queue w = [] \<and> mset (map snd (shown w)) = lines p)"
proof -
  have n: "0 < n" and ok: "main_ok n False 0 0 p"
    using assms(1) pool_program_ok by (auto simp: pool_program_def)
  from pool_invariant [OF assms(2) ok n] obtain held a j where inv: "pool_inv n held a j w" by blast
  note f = pool_inv_facts [OF inv]
  have "steps_left (start_world n p) = weights p" by (simp add: steps_left_def start_world_def sum_list_replicate)
  with execution_bounded [OF assms(2)] have bound: "length ds \<le> weights p" by simp
  have "finished w" if "blocked w" using pool_progress [OF inv] that by (auto simp: blocked_def)
  then have b: "blocked w \<longrightarrow> codes w ! 0 = []" using f(10) by (auto simp: finished_def)
  have "finished w \<and> queue w = []" if z: "codes w ! 0 = []"
  proof -
    from z f(11) have j: "j = n" "a = n" by simp_all
    with inv have e: "\<forall>u < n. codes w ! Suc u = []" by (simp add: pool_inv_def)
    with z f(10) have "finished w" by (auto simp: finished_def in_set_conv_nth less_Suc_eq_0_disj)
    moreover from e inv j n have "stopped w 0" by (auto simp: pool_inv_def)
    ultimately show ?thesis using f(7) by simp
  qed
  with finished_lines [OF assms(2) main_ok_plain [OF ok]] bound b f(1) show ?thesis by auto
qed

theorem pool_programs_complete_witness:
  "\<exists>w. execute (start_world 4 (thread_pool_Test 4)) [Go 0, Go 0] = Some w \<and> \<not> crashed w \<and>
     (codes w ! 0 = [] \<longrightarrow> finished w)"
proof -
  have "pool_program 4 (thread_pool_Test 4)" by (simp add: pool_program_def)
  moreover obtain w where "execute (start_world 4 (thread_pool_Test 4)) [Go 0, Go 0] = Some w"
    by (simp add: thread_pool_Test_def make_pool_def start_world_def next_code_def goto_def upt_rec numeral_eq_Suc)
  ultimately show ?thesis using pool_programs_complete by blast
qed

text \<open>
  C19: the two programs that lock a mutex around their output never tear a line: whenever no thread holds the
  mutex, and in particular at the end, the text printed is a sequence of whole lines.
\<close>

theorem locked_lines_are_whole:
  assumes "0 < n" and "p \<in> {thread_pool_Test n, thread_pool_Test2 n}"
    and "execute (start_world n p) ds = Some w" and "owner w 0 = None"
  shows "whole_lines (printed_text w)"
proof -
  have "pool_program n p" using assms(1,2) by (auto simp: pool_program_def)
  then have inv: "pool_inv n False 0 0 (start_world n p)" by (intro pool_start pool_program_ok)
  have "tidy_world n (start_world n p)"
    using tidy_programs assms(2) by (auto simp: tidy_world_def start_world_def printed_text_def whole_lines_def intro!: exI [of _ "[]"])
  with inv have start: "(\<exists>held a j. pool_inv n held a j (start_world n p)) \<and> tidy_world n (start_world n p)" by blast
  have "(\<exists>held a j. pool_inv n held a j w) \<and> tidy_world n w"
    by (rule execute_invariant [OF assms(3), where I = "\<lambda>v. (\<exists>held a j. pool_inv n held a j v) \<and> tidy_world n v"])
      (rule start, meson assms(1) pool_step tidy_step)
  with assms(4) show ?thesis by (simp add: tidy_world_def)
qed

theorem locked_lines_are_whole_witness:
  "\<exists>w. execute (start_world 4 (thread_pool_Test2 4)) [Go 0] = Some w \<and> whole_lines (printed_text w)"
proof -
  obtain w where w: "execute (start_world 4 (thread_pool_Test2 4)) [Go 0] = Some w" "owner w 0 = None"
    by (simp add: thread_pool_Test2_def make_pool_def start_world_def next_code_def goto_def)
  show ?thesis by (rule exI [of _ w], rule conjI [OF w(1)], rule locked_lines_are_whole [OF _ _ w]) simp_all
qed

text \<open>Without a mutex a line can be torn: the main thread prints between two pieces of a line of the task.\<close>

lemma unlocked_lines_torn:
  "map_option printed_text (execute (start_world 1 TestPool) [Go 0, Go 0, Go 0, Take 1 0, Go 1, Go 0]) =
     Some (''Task statred: Id:'' @ ''Added'')"
  by (simp add: TestPool_def RunTest_def make_pool_def post_and_tell_def id_handler_def start_world_def next_code_def
      goto_def printed_text_def numeral_eq_Suc remove_nth_def)

end
