(* ===== verification/Thread_Exploration.thy ===== *)
theory Thread_Exploration
  imports Thread_Contexts
begin

text \<open>
  A decision procedure for small programs: all executions are explored, with the reduction that a statement that
  only prints or sleeps is performed at once. It is proved sound: printing and sleeping commute with every other
  step, up to the order of the lines, so what the exploration finds of the last worlds holds of every execution
  that can go no further.
\<close>

section \<open>Worlds that differ in the order of the lines\<close>

definition similar :: "world \<Rightarrow> world \<Rightarrow> bool" where
  "similar w v \<longleftrightarrow> v\<lparr>shown := shown w\<rparr> = w \<and> mset (shown v) = mset (shown w)"

lemma similar_refl [simp]: "similar w w"
  by (simp add: similar_def)

lemma similar_fields:
  assumes "similar w v"
  shows "codes v = codes w" "joinable v = joinable w" "queue v = queue w" "pending v = pending w" "guards v = guards w"
    "running v = running w" "stopped v = stopped w" "owner v = owner w" "future v = future w" "crashed v = crashed w"
    "mset (shown v) = mset (shown w)"
  using assms by (auto simp: similar_def dest: arg_cong [where f = codes] arg_cong [where f = joinable]
      arg_cong [where f = queue] arg_cong [where f = pending] arg_cong [where f = guards] arg_cong [where f = running]
      arg_cong [where f = stopped] arg_cong [where f = owner] arg_cong [where f = future] arg_cong [where f = crashed])

lemma similarI:
  "codes v = codes w \<Longrightarrow> joinable v = joinable w \<Longrightarrow> queue v = queue w \<Longrightarrow> pending v = pending w \<Longrightarrow>
     guards v = guards w \<Longrightarrow> running v = running w \<Longrightarrow> stopped v = stopped w \<Longrightarrow> owner v = owner w \<Longrightarrow>
     future v = future w \<Longrightarrow> crashed v = crashed w \<Longrightarrow> mset (shown v) = mset (shown w) \<Longrightarrow> similar w v"
  by (simp add: similar_def)

lemma similar_sym: "similar w v \<Longrightarrow> similar v w"
  by (rule similarI) (simp_all add: similar_fields)

lemma similar_trans: "similar w v \<Longrightarrow> similar v u \<Longrightarrow> similar w u"
  by (rule similarI) (simp_all add: similar_fields)

lemma similar_exec:
  assumes s: "similar w v" and "exec t x k w = Some w'"
  shows "\<exists>v'. exec t x k v = Some v' \<and> similar w' v'"
  using assms(2) similar_fields [OF s]
  by (cases x) (auto simp: work_def split: if_splits option.splits intro!: similarI)

lemma similar_perform:
  assumes s: "similar w v" and "perform d w = Some w'"
  shows "\<exists>v'. perform d v = Some v' \<and> similar w' v'"
proof (cases d)
  case (Go t)
  with assms similar_fields [OF s] show ?thesis
    by (auto simp: next_code_def split: list.splits if_splits intro: similar_exec)
next
  case (Take t i)
  with assms(2) similar_fields [OF s] show ?thesis
    by (auto simp: next_code_def split: list.splits if_splits stmt.splits intro!: similarI)
next
  case (Complete i b)
  with assms(2) similar_fields [OF s] show ?thesis
    by (auto split: prod.splits if_splits intro!: similarI)
qed

lemma similar_execute:
  "similar w v \<Longrightarrow> execute w ds = Some w' \<Longrightarrow> \<exists>v'. execute v ds = Some v' \<and> similar w' v'"
proof (induction ds arbitrary: w v)
  case (Cons d ds)
  then obtain u where u: "perform d w = Some u" "execute u ds = Some w'" by (auto split: option.splits)
  from similar_perform [OF Cons.prems(1) u(1)] obtain u' where "perform d v = Some u'" "similar u u'" by blast
  with Cons.IH [OF _ u(2)] show ?case by simp
qed simp


section \<open>Printing and sleeping commute with the rest\<close>

fun quick :: "stmt list \<Rightarrow> bool" where
  "quick (Say x # k) = True"
| "quick (Sleep_For # k) = True"
| "quick _ = False"

lemma quick_step:
  assumes "quick (next_code w t)" and "\<not> crashed w"
  obtains k l where "perform (Go t) w = Some (w\<lparr>codes := (codes w)[t := k], shown := shown w @ l\<rparr>)"
    "\<And>v. next_code v t = next_code w t \<Longrightarrow> \<not> crashed v \<Longrightarrow>
      perform (Go t) v = Some (v\<lparr>codes := (codes v)[t := k], shown := shown v @ l\<rparr>)"
  using assms(1)
proof (cases "next_code w t" rule: quick.cases)
  case (1 x k)
  with assms(2) show ?thesis by (intro that [where k = k and l = "[(t, x)]"]) (simp_all add: goto_def)
next
  case (2 k)
  with assms(2) show ?thesis by (intro that [where k = k and l = "[]"]) (simp_all add: goto_def)
qed simp_all

abbreviation ahead :: "nat \<Rightarrow> stmt list \<Rightarrow> (nat \<times> string) list \<Rightarrow> world \<Rightarrow> world" where
  "ahead t k l w \<equiv> w\<lparr>codes := (codes w)[t := k], shown := shown w @ l\<rparr>"

lemma exec_commutes:
  assumes "exec u x k' w = Some v" and "u \<noteq> t" and "codes w ! t \<noteq> []"
  shows "next_code v t = next_code w t"
    and "\<exists>v'. exec u x k' (ahead t k l w) = Some v' \<and> similar v' (ahead t k l v)"
proof -
  from assms show "next_code v t = next_code w t"
    by (cases x) (auto simp: next_code_def nth_list_update split: if_splits option.splits)
  have other: "(codes w)[t := k] ! y = []" "(codes w)[y := b, t := k] = (codes w)[t := k, y := b]"
    if "codes w ! y = []" for y b
  proof -
    from that assms(3) have "t \<noteq> y" by auto
    with that show "(codes w)[t := k] ! y = []" "(codes w)[y := b, t := k] = (codes w)[t := k, y := b]"
      by (simp_all add: list_update_swap)
  qed
  from assms(1,2) show "\<exists>v'. exec u x k' (ahead t k l w) = Some v' \<and> similar v' (ahead t k l v)"
  proof (cases x)
    case (Spawn_Thread y b)
    with assms(1) have y: "y < length (codes w)" "codes w ! y = []" "y \<noteq> u"
      and v: "v = goto u k' (goto y b (w\<lparr>joinable := (joinable w)(y := True)\<rparr>))" by (auto split: if_splits)
    have "(codes w)[y := b, u := k', t := k] = (codes w)[t := k, y := b, u := k']"
      using other(2) [OF y(2), of b] list_update_swap [OF assms(2), of "(codes w)[y := b]" k' k] by simp
    with y other(1) show ?thesis unfolding Spawn_Thread v by (auto intro!: similarI)
  next
    case (Join_Thread y)
    with assms(1,2) other(1) show ?thesis by (auto simp: list_update_swap split: if_splits intro!: similarI)
  qed (auto simp: work_def list_update_swap split: if_splits option.splits intro!: similarI)
qed

lemma perform_commutes:
  assumes "perform d w = Some v" and "d \<noteq> Go t" and "quick (next_code w t)"
  shows "next_code v t = next_code w t"
    and "\<exists>v'. perform d (ahead t k l w) = Some v' \<and> similar v' (ahead t k l v)"
proof -
  have ne: "codes w ! t \<noteq> []" "t < length (codes w)" using assms(3) by (auto simp: next_code_def split: if_splits)
  have "next_code v t = next_code w t \<and> (\<exists>v'. perform d (ahead t k l w) = Some v' \<and> similar v' (ahead t k l v))"
  proof (cases d)
    case (Go u)
    with assms(2) have "u \<noteq> t" by simp
    from Go assms(1) obtain x k' where x: "next_code w u = x # k'" "\<not> crashed w" and e: "exec u x k' w = Some v"
      by (auto split: if_splits list.splits)
    from x(1) \<open>u \<noteq> t\<close> have "next_code (ahead t k l w) u = x # k'" by (auto simp: next_code_def split: if_splits)
    with Go x exec_commutes [OF e \<open>u \<noteq> t\<close> ne(1)] show ?thesis by simp
  next
    case (Take u i)
    with assms(1) obtain c k' where u: "next_code w u = Run_Ctx c # k'" by (auto split: if_splits list.splits stmt.splits)
    with assms(3) have "u \<noteq> t" by auto
    with Take u assms(1) show ?thesis
      by (auto simp: next_code_def list_update_swap split: if_splits intro!: similarI)
  next
    case (Complete i b)
    with assms(1) show ?thesis by (auto simp: next_code_def split: if_splits prod.splits intro!: similarI)
  qed
  then show "next_code v t = next_code w t"
    and "\<exists>v'. perform d (ahead t k l w) = Some v' \<and> similar v' (ahead t k l v)" by blast+
qed

text \<open>So an execution to a last world can be changed into one that starts with the quick step.\<close>

lemma quick_first:
  assumes "execute w ds = Some w'" and "blocked w'" and "\<not> crashed w'" and "quick (next_code w t)"
    and "perform (Go t) w = Some u"
  shows "\<exists>es u'. execute u es = Some u' \<and> similar w' u'"
  using assms
proof (induction ds arbitrary: w u)
  case Nil
  then show ?case by (simp add: blocked_def)
next
  case (Cons d ds)
  from Cons.prems(1) obtain v where v: "perform d w = Some v" "execute v ds = Some w'" by (auto split: option.splits)
  show ?case
  proof (cases "d = Go t")
    case True
    with v Cons.prems(5) show ?thesis by (intro exI [of _ ds] exI [of _ w']) simp
  next
    case False
    have "\<not> crashed v"
    proof
      assume "crashed v"
      then have "perform e v = None" for e by (cases e) simp_all
      with v(2) have "w' = v" by (cases ds) simp_all
      with \<open>crashed v\<close> Cons.prems(3) show False by simp
    qed
    have "\<not> crashed w" using Cons.prems(5) by auto
    obtain k l where u: "perform (Go t) w = Some (ahead t k l w)"
      and other: "\<And>v. next_code v t = next_code w t \<Longrightarrow> \<not> crashed v \<Longrightarrow> perform (Go t) v = Some (ahead t k l v)"
      using quick_step [OF Cons.prems(4) \<open>\<not> crashed w\<close>] by blast
    note c = perform_commutes [OF v(1) False Cons.prems(4)]
    from c(2) obtain v' where v': "perform d (ahead t k l w) = Some v'" "similar v' (ahead t k l v)" by blast
    have "quick (next_code v t)" using c(1) Cons.prems(4) by simp
    from Cons.IH [OF v(2) Cons.prems(2,3) this other [OF c(1) \<open>\<not> crashed v\<close>]]
    obtain es u' where e: "execute (ahead t k l v) es = Some u'" "similar w' u'" by blast
    from similar_execute [OF similar_sym [OF v'(2)] e(1)] obtain u'' where "execute v' es = Some u''" "similar u' u''"
      by blast
    with v'(1) u Cons.prems(5) e(2) show ?thesis
      by (intro exI [of _ "d # es"] exI [of _ u'']) (auto intro: similar_trans)
  qed
qed


section \<open>Exploration\<close>

definition choices :: "world \<Rightarrow> choice list" where
  "choices w = map Go [0..<length (codes w)] @
     concat (map (\<lambda>t. map (Take t) [0..<length (queue w)]) [0..<length (codes w)]) @
     concat (map (\<lambda>i. [Complete i True, Complete i False]) [0..<length (pending w)])"

text \<open>All worlds one step away, or only the one after a quick step; none when the program is blocked.\<close>

definition outcomes :: "world \<Rightarrow> choice list \<Rightarrow> world list" where
  "outcomes w ds = concat (map (\<lambda>d. case perform d w of None \<Rightarrow> [] | Some v \<Rightarrow> [v]) ds)"

definition successors :: "world \<Rightarrow> world list" where
  "successors w = outcomes w
     (case List.find (\<lambda>t. quick (next_code w t)) [0..<length (codes w)] of Some t \<Rightarrow> [Go t] | None \<Rightarrow> choices w)"

fun explore :: "nat \<Rightarrow> (world \<Rightarrow> bool) \<Rightarrow> world \<Rightarrow> bool" where
  "explore 0 P w = False"
| "explore (Suc n) P w = (let ws = successors w in if ws = [] then P w else list_all (explore n P) ws)"

lemma choices_complete: "perform d w = Some v \<Longrightarrow> d \<in> set (choices w)"
proof (cases d)
  case (Go t)
  then show "perform d w = Some v \<Longrightarrow> d \<in> set (choices w)"
    by (auto simp: choices_def next_code_def split: if_splits)
next
  case (Take t i)
  then show "perform d w = Some v \<Longrightarrow> d \<in> set (choices w)"
    by (simp add: choices_def next_code_def image_iff split: if_splits list.splits stmt.splits)
next
  case (Complete i b)
  then show "perform d w = Some v \<Longrightarrow> d \<in> set (choices w)"
    by (cases b) (auto simp: choices_def split: if_splits)
qed

lemma set_outcomes: "v \<in> set (outcomes w ds) \<longleftrightarrow> (\<exists>d \<in> set ds. perform d w = Some v)"
  by (auto simp: outcomes_def split: option.splits) force

lemma set_successors: "v \<in> set (successors w) \<Longrightarrow> \<exists>d. perform d w = Some v"
  unfolding successors_def set_outcomes by blast

lemma successors_cover:
  assumes "execute w ds = Some w'" and "blocked w'" and "\<not> crashed w'" and "\<not> blocked w"
  shows "\<exists>v es u. v \<in> set (successors w) \<and> execute v es = Some u \<and> similar w' u"
proof (cases "List.find (\<lambda>t. quick (next_code w t)) [0..<length (codes w)]")
  case None
  from assms(1,2,4) obtain d es v where "perform d w = Some v" "execute v es = Some w'"
    by (cases ds) (auto split: option.splits)
  moreover from this choices_complete have "v \<in> set (successors w)"
    by (auto simp: successors_def None set_outcomes)
  ultimately show ?thesis by (meson similar_refl)
next
  case (Some t)
  then have q: "quick (next_code w t)" by (auto simp: find_Some_iff)
  have "\<not> crashed w" 
  proof
    assume "crashed w"
    then have "perform e w = None" for e by (cases e) simp_all
    with assms(4) show False by (simp add: blocked_def)
  qed
  with quick_step [OF q] obtain u where u: "perform (Go t) w = Some u" by blast
  from quick_first [OF assms(1-3) q u] u show ?thesis
    by (simp add: successors_def Some set_outcomes)
qed

theorem explore_sound:
  assumes "explore n P w" and "execute w ds = Some w'" and "blocked w'" and "\<not> crashed w'"
    and "\<And>w v. similar w v \<Longrightarrow> P w \<Longrightarrow> P v"
  shows "P w'"
  using assms(1-4)
proof (induction n arbitrary: w ds w')
  case 0
  then show ?case by simp
next
  case (Suc n)
  show ?case
  proof (cases "blocked w")
    case True
    with Suc.prems(2) have "w' = w" by (cases ds) (auto simp: blocked_def split: option.splits)
    moreover from True set_successors have "successors w = []"
      by (metis blocked_def list.set_intros(1) neq_Nil_conv option.distinct(1))
    ultimately show ?thesis using Suc.prems(1) by simp
  next
    case False
    from successors_cover [OF Suc.prems(2-4) False] obtain v es u
      where v: "v \<in> set (successors w)" "execute v es = Some u" "similar w' u" by blast
    from v(1) have "explore n P v" using Suc.prems(1) by (cases "successors w") (auto simp: Let_def list_all_iff)
    moreover have "blocked u"
    proof (rule ccontr)
      assume "\<not> blocked u"
      then obtain d u' where "perform d u = Some u'" by (auto simp: blocked_def)
      from similar_perform [OF similar_sym [OF v(3)] this] Suc.prems(3) show False by (auto simp: blocked_def)
    qed
    moreover have "\<not> crashed u" using similar_fields(10) [OF v(3)] Suc.prems(4) by simp
    ultimately have "P u" using v(2) Suc.IH by blast
    with assms(5) [OF similar_sym [OF v(3)]] show ?thesis by blast
  qed
qed


section \<open>What no statement does, no execution does\<close>

text \<open>A property of the statements of a program, those of its handlers and threads included.\<close>

fun every :: "(stmt \<Rightarrow> bool) \<Rightarrow> stmt \<Rightarrow> bool" where
  "every Q (Post_To c h) \<longleftrightarrow> Q (Post_To c h) \<and> list_all (every Q) h"
| "every Q (Dispatch_To c h) \<longleftrightarrow> Q (Dispatch_To c h) \<and> list_all (every Q) h"
| "every Q (Wait_Async c ok err) \<longleftrightarrow> Q (Wait_Async c ok err) \<and> list_all (every Q) ok \<and> list_all (every Q) err"
| "every Q (Spawn_Thread u b) \<longleftrightarrow> Q (Spawn_Thread u b) \<and> list_all (every Q) b"
| "every Q (Get_Future f ok err) \<longleftrightarrow> Q (Get_Future f ok err) \<and> list_all (every Q) ok \<and> list_all (every Q) err"
| "every Q x \<longleftrightarrow> Q x"

abbreviation all_every :: "(stmt \<Rightarrow> bool) \<Rightarrow> stmt list \<Rightarrow> bool" where
  "all_every Q k \<equiv> list_all (every Q) k"

definition stored_every :: "(stmt \<Rightarrow> bool) \<Rightarrow> world \<Rightarrow> bool" where
  "stored_every Q w \<longleftrightarrow> (\<forall>q \<in> set (queue w). all_every Q (snd q)) \<and>
     (\<forall>p \<in> set (pending w). all_every Q (fst (snd p)) \<and> all_every Q (snd (snd p)))"

definition every_world :: "(stmt \<Rightarrow> bool) \<Rightarrow> world \<Rightarrow> bool" where
  "every_world Q w \<longleftrightarrow> (\<forall>k \<in> set (codes w). all_every Q k) \<and> stored_every Q w"

lemma every_head: "every Q x \<Longrightarrow> Q x"
  by (cases x) auto

lemma in_set_remove_nth: "x \<in> set (remove_nth i xs) \<Longrightarrow> x \<in> set xs"
  by (auto simp: remove_nth_def dest: in_set_takeD in_set_dropD)

lemma every_exec:
  assumes "every_world Q w" and "all_every Q (x # k)" and "exec t x k w = Some w'"
  shows "every_world Q w'"
  using assms
  by (cases x) (auto simp: every_world_def stored_every_def split: if_splits option.splits dest!: set_codes_update)

lemma every_perform:
  assumes "every_world Q w" and "perform d w = Some w'" and "\<And>c. Q (End_Task c)"
  shows "every_world Q w'"
proof (cases d)
  case (Go t)
  with assms(2) obtain x k where k: "t < length (codes w)" "codes w ! t = x # k" and e: "exec t x k w = Some w'"
    by (auto split: if_splits list.splits simp: next_code_Cons)
  from k assms(1) have "all_every Q (x # k)" unfolding every_world_def by (metis nth_mem)
  with every_exec [OF assms(1) _ e] show ?thesis by blast
next
  case (Take t i)
  with assms(2) obtain c k where k: "t < length (codes w)" "codes w ! t = Run_Ctx c # k" "i < length (queue w)"
    and w': "w' = goto t (snd (queue w ! i) @ End_Task c # Run_Ctx c # k)
      (w\<lparr>queue := remove_nth i (queue w), running := (running w)(c := running w c + 1)\<rparr>)"
    by (auto split: if_splits list.splits stmt.splits simp: next_code_Cons)
  from k assms(1) have "all_every Q (Run_Ctx c # k)" unfolding every_world_def by (metis nth_mem)
  moreover have "all_every Q (snd (queue w ! i))" using k(3) assms(1) by (simp add: every_world_def stored_every_def)
  ultimately show ?thesis using assms(1,3) unfolding w' every_world_def stored_every_def
    by (auto dest!: set_codes_update in_set_remove_nth)
next
  case (Complete i b)
  with assms(2) obtain c ok err where p: "i < length (pending w)" "pending w ! i = (c, ok, err)"
    and w': "w' = w\<lparr>pending := remove_nth i (pending w), queue := queue w @ [(c, if b then ok else err)]\<rparr>"
    by (auto split: prod.splits if_splits)
  from p have "(c, ok, err) \<in> set (pending w)" by (metis nth_mem)
  with assms(1) have "all_every Q ok \<and> all_every Q err" by (auto simp: every_world_def stored_every_def)
  with assms(1) show ?thesis unfolding w' every_world_def stored_every_def by (auto dest!: in_set_remove_nth)
qed

lemma every_start: "all_every Q main \<Longrightarrow> every_world Q (start_world n main)"
  by (auto simp: every_world_def stored_every_def start_world_def)

text \<open>Only the destructor of a thread object ends the program.\<close>

definition no_destructor :: "stmt \<Rightarrow> bool" where
  "no_destructor x \<longleftrightarrow> (case x of Destroy_Thread u \<Rightarrow> False | _ \<Rightarrow> True)"

lemma no_crash:
  assumes "execute (start_world n main) ds = Some w" and "all_every no_destructor main"
  shows "\<not> crashed w"
proof -
  have "every_world no_destructor w \<and> \<not> crashed w"
  proof (rule execute_invariant [OF assms(1)])
    show "every_world no_destructor (start_world n main) \<and> \<not> crashed (start_world n main)"
      using every_start [OF assms(2)] by (simp add: start_world_def)
  next
    fix v d v'
    assume v: "every_world no_destructor v \<and> \<not> crashed v" and d: "perform d v = Some v'"
    have "\<not> crashed v'"
    proof (cases d)
      case (Go t)
      with d obtain x k where k: "t < length (codes v)" "codes v ! t = x # k" and e: "exec t x k v = Some v'"
        by (auto split: if_splits list.splits simp: next_code_Cons)
      from k v have "all_every no_destructor (x # k)" unfolding every_world_def by (metis nth_mem)
      then have "no_destructor x" by (auto intro: every_head)
      with e v show ?thesis by (cases x) (auto simp: no_destructor_def split: if_splits option.splits)
    qed (use d v in \<open>auto split: if_splits list.splits stmt.splits prod.splits\<close>)
    with every_perform [OF _ d] v show "every_world no_destructor v' \<and> \<not> crashed v'"
      by (simp add: no_destructor_def)
  qed
  then show ?thesis by simp
qed

text \<open>The form in which the programs use it.\<close>

lemma explore_program:
  assumes "explore n P (start_world m main)" and "all_every no_destructor main"
    and "\<And>w v. similar w v \<Longrightarrow> P w \<Longrightarrow> P v"
    and "execute (start_world m main) ds = Some w" and "blocked w"
  shows "P w"
  using explore_sound [OF assms(1,4,5) no_crash [OF assms(4,2)] assms(3)] .

end
