(* ===== verification/Background_Tasks.thy ===== *)
theory Background_Tasks
  imports Thread_Exploration Serial_Console
begin

text \<open>
  The programs that combine an \<open>io_context\<close> with threads of their own: \<open>Asio/BackgroundTasks/BackgroundTasks.cpp\<close>,
  \<open>Asio/Threading/Threading.cpp\<close>, \<open>Asio/IO_Context/IoContext.cpp\<close>, \<open>Asio/ExceptionHandling/ExceptionHandling.cpp\<close>
  and the functions of the servers and of the serial console that start threads. Context 0 is the \<open>io_context\<close>
  of the function, context 1 the system executor. A text is that of one line, without the time that \<open>DEBUG\<close>
  puts in front and without the newline at its end; \<open>DEBUG\<close> is an \<open>osyncstream\<close>, which writes a line at once.
\<close>

section \<open>\<open>BackgroundTasks::Simple\<close>\<close>

definition completion_task :: "stmt list" where
  "completion_task = [Sleep_For, Say ''Background task completed!'']"

definition background_task :: "stmt list" where
  "background_task = [Sleep_For, Say ''Posting a background task.'', Post_To 0 completion_task]"

definition io_thread :: "stmt list" where
  "io_thread = [Say ''--> Running io_context.'', Run_Ctx 0, Say ''<-- io_context stopped.'']"

definition runBackgroundTask :: "stmt list" where
  "runBackgroundTask = [Hold_Work 0, Spawn_Thread 1 io_thread, Spawn_Thread 2 background_task, Sleep_For,
     Say ''Removing work_guard.'', Release_Work 0, Join_Thread 2, Join_Thread 1]"


section \<open>One thread runs the context, another stops it\<close>

text \<open>
  \<open>BackgroundTasks::Main_Thread\<close> and \<open>Threading::MultithreadedThread::run_async_task\<close>. The handler is queued in the midst
  of \<open>post()\<close>; the \<open>Sleep_For\<close> behind it is the rest of that call, during which the handler may already run. The function
  may then return, and destroys its context, while the detached thread is still in the call. The world goes on after the
  main thread has ended; what the threads do then is lost when the process ends.
\<close>

definition stop_task :: "string \<Rightarrow> stmt list" where
  "stop_task text = [Say text, Stop_Ctx 0]"

definition backgroundTask :: "string \<Rightarrow> stmt list" where
  "backgroundTask duration = [Say (''Background task started: Duration = '' @ duration @ '' seconds.''), Sleep_For,
     Post_To 0 (stop_task ''Background task completed.''), Sleep_For]"

definition main_thread_run :: "stmt list" where
  "main_thread_run = [Hold_Work 0,
     Post_To 0 [Spawn_Thread 1 (backgroundTask ''2''), Say ''Detaching thread'', Detach_Thread 1],
     Say ''Running io_context...'', Run_Ctx 0, Say ''io_context exit.'']"

definition long_running_task :: "string \<Rightarrow> stmt list" where
  "long_running_task duration = [Say (''Background task started: Duration = '' @ duration @ '' seconds.''), Sleep_For,
     Post_To 0 (stop_task ''Background task completed.''), Sleep_For, Say ''long_running_task() exited'']"

definition run_async_task :: "stmt list" where
  "run_async_task = [Say ''run_async_task() entered'', Hold_Work 0,
     Post_To 0 ([Spawn_Thread 1 (long_running_task ''2''), Say ''Detaching thread'', Detach_Thread 1] @
       concat (replicate 5 [Say ''doing something else ..... '', Sleep_For])),
     Say ''------> Running io_context...'', Run_Ctx 0, Say ''<------ io_context exit.'']"


section \<open>A context for each thread\<close>

text \<open>
  \<open>BackgroundTasks::Separate_Threads\<close> and \<open>Threading::run_async_task_own_thread\<close>: thread \<open>Suc i\<close> has the context
  \<open>Suc i\<close>. The \<open>jthread\<close>s are joined when the vector is destroyed; \<open>message\<close> is the text of the error code.
\<close>

definition own_context_task :: "string \<Rightarrow> nat \<Rightarrow> stmt list" where
  "own_context_task message idx =
     [Say (''Thread '' @ to_string idx @ '': Starting...''), Hold_Work (Suc idx),
      Say (''Thread '' @ to_string idx @ '': Setup timer...''),
      Wait_Async (Suc idx) [Say ''Timer expired successfully!'', Release_Work (Suc idx)]
        [Say (''Timer error: '' @ message), Release_Work (Suc idx)],
      Say (''Thread '' @ to_string idx @ '': Running io_context...''), Run_Ctx (Suc idx)]"

definition separate_threads_run :: "string \<Rightarrow> stmt list" where
  "separate_threads_run message = map (\<lambda>i. Spawn_Thread (Suc i) (own_context_task message i)) [0..<4] @
     map (\<lambda>i. Join_Thread (Suc i)) [0..<4]"

definition threading_background_task :: "string \<Rightarrow> nat \<Rightarrow> stmt list" where
  "threading_background_task message i =
     [Say ''background_task() entered'', Say (''Thread '' @ to_string i @ '': Starting...''), Hold_Work (Suc i),
      Say (''Thread '' @ to_string i @ '': Setup timer...''),
      Wait_Async (Suc i) [Say ''Timer expired successfully!'', Release_Work (Suc i)]
        [Say (''Timer error: '' @ message), Release_Work (Suc i)],
      Say (''Thread '' @ to_string i @ '': Running io_context...''), Run_Ctx (Suc i), Say ''background_task() exited'']"

definition run_async_task_own_thread :: "string \<Rightarrow> stmt list" where
  "run_async_task_own_thread message = [Say ''run_async_task_own_thread() entered''] @
     map (\<lambda>i. Spawn_Thread (Suc i) (threading_background_task message i)) [0..<4] @
     [Say ''run_async_task_own_thread() exited''] @ map (\<lambda>i. Join_Thread (Suc i)) [0..<4]"


section \<open>A context nobody gives work to\<close>

text \<open>
  \<open>SingleContext_MultipleThreads\<close>: \<open>boost::asio::post\<close> without an executor posts to the system executor. Its
  threads exist before the function starts: they run context 1, which is held. The vector of threads stays
  empty; the \<open>jthread\<close> is joined at the end.
\<close>

definition single_task :: "nat \<Rightarrow> stmt list" where
  "single_task i = [Say (''Task '' @ to_string i @ '' is being handled in thread ''), Sleep_For,
     Say (''Task '' @ to_string i @ '' complete.'')]"

definition system_start :: "nat \<Rightarrow> stmt list \<Rightarrow> world" where
  "system_start k main = (start_world 1 main)\<lparr>codes := main # [] # replicate k [Run_Ctx 1], guards := (\<lambda>_. 0)(1 := 1)\<rparr>"

definition single_context_run :: "stmt list" where
  "single_context_run = [Hold_Work 0, Spawn_Thread 1 [Run_Ctx 0]] @ map (\<lambda>i. Post_To 1 (single_task i)) [0..<4] @
     [Sleep_For, Release_Work 0, Join_Thread 1]"


section \<open>\<open>post\<close> and \<open>dispatch\<close>\<close>

definition post_vs_dispatch_task :: "stmt list" where
  "post_vs_dispatch_task = [Post_To 0 [Sleep_For, Say ''This will always run asynchronously.''],
     Dispatch_To 0 [Say ''This might run immediately or be queued.''], Run_Ctx 0]"

definition Post_vs_Dispatch :: "stmt list" where
  "Post_vs_Dispatch = [Post_To 0 [Say ''This will always run asynchronously.''],
     Dispatch_To 0 [Say ''This might run immediately or be queued.''], Run_Ctx 0]"

definition io_example_1 :: "stmt list" where
  "io_example_1 = [Post_To 0 [Say ''Hello from io_context!''], Run_Ctx 0]"


section \<open>One timer and one thread\<close>

text \<open>\<open>Threading::SingleThread\<close>, \<open>Timeouts::SimpleTest\<close> and \<open>IoContext::getExecutor\<close>.\<close>

definition run_single_thread :: "string \<Rightarrow> stmt list" where
  "run_single_thread message = [Say ''run_single_thread() entered'',
     Wait_Async 0 [Say ''Timer expired!''] [Say (''Error in timer: '' @ message)], Run_Ctx 0,
     Say ''run_single_thread() exited'']"

definition timeouts_SimpleTest :: "string \<Rightarrow> stmt list" where
  "timeouts_SimpleTest message = [Say ''SimpleTest() started'',
     Wait_Async 0 [Say ''Timer expired.''] [Say (''Error: '' @ message)], Run_Ctx 0]"

definition getExecutor :: "stmt list" where
  "getExecutor = [Wait_Async 0 [Say ''Timer fired!''] [], Run_Ctx 0]"


section \<open>A future\<close>

text \<open>
  \<open>Future_Exception_Handling\<close>: \<open>use_future\<close> makes a handler that sets the future; the timer is cancelled, which
  completes its wait with an error.
\<close>

definition Future_Exception_Handling :: "string \<Rightarrow> stmt list" where
  "Future_Exception_Handling message = [Spawn_Thread 1 [Run_Ctx 0],
     Wait_Async 0 [Set_Future 0 True] [Set_Future 0 False], Sleep_For,
     Get_Future 0 [Say ''Timer expired successfully!''] [Say (''Timer failed: '' @ message)], Join_Thread 1]"

text \<open>
  \<open>SimpleAsynchTest\<close> of \<open>Experiments/main.cpp\<close>: \<open>std::async\<close> without a policy either starts a thread, and \<open>wait()\<close> waits for
  its end, or defers the task, which \<open>wait()\<close> then runs.
\<close>

definition async_task :: "stmt list" where
  "async_task = concat (map (\<lambda>i. [Say (to_string i), Sleep_For]) [0..<10])"

definition SimpleAsynchTest :: "bool \<Rightarrow> stmt list" where
  "SimpleAsynchTest deferred = (if deferred then async_task else [Spawn_Thread 1 async_task, Join_Thread 1])"


section \<open>Threads of the servers\<close>

text \<open>
  \<open>HTTPS_Server_ASync::runServer\<close> and \<open>SSL_Asynch_Server::runServer\<close>: the listener starts its operations, \<open>threads
  - 1\<close> threads and the main thread run the context, and at the end the vector of threads is destroyed. \<open>thrown\<close> is the
  text of an exception that the set-up throws before there is a thread, in the context, the certificate or the listener;
  the catch clause prints it. (What leaves \<open>run()\<close> as an exception ends the program, like the end of the function.)
\<close>

definition server_threads :: nat where
  "server_threads = 4"

definition https_runServer :: "string option \<Rightarrow> stmt list \<Rightarrow> stmt list" where
  "https_runServer thrown listener = (case thrown of
     None \<Rightarrow> listener @
       map (\<lambda>i. Spawn_Thread (Suc i) [Run_Ctx 0]) [0..<server_threads - 1] @ [Run_Ctx 0] @
       map (\<lambda>i. Destroy_Thread (Suc i)) [0..<server_threads - 1]
   | Some what \<Rightarrow> [Say (''Error: '' @ what)])"

definition ws_runServer :: "string option \<Rightarrow> stmt list \<Rightarrow> stmt list" where
  "ws_runServer thrown listener = (case thrown of
     None \<Rightarrow> listener @
       map (\<lambda>i. Spawn_Thread (Suc i) [Run_Ctx 0]) [0..<server_threads - 1] @ [Run_Ctx 0] @
       map (\<lambda>i. Destroy_Thread (Suc i)) [0..<server_threads - 1]
   | Some what \<Rightarrow> [Say (''Error: '' @ what)])"

text \<open>
  \<open>Serial::TestAll\<close>: \<open>console\<close> is what \<open>getConsoleInput\<close> and \<open>stop\<close> do, \<open>service\<close> what the constructor of the
  service and \<open>openSerialPort\<close> start. \<open>thrown\<close> is \<open>None\<close> when \<open>run()\<close> returns; when it throws, what the handlers
  did before and the message: the thread object is destroyed on the way to the catch clause.
\<close>

definition serial_TestAll :: "stmt list \<Rightarrow> stmt list \<Rightarrow> (stmt list \<times> string) option \<Rightarrow> stmt list" where
  "serial_TestAll service console thrown = service @ [Spawn_Thread 1 console] @
     (case thrown of None \<Rightarrow> [Run_Ctx 0, Join_Thread 1, Destroy_Thread 1]
      | Some (handlers, bang) \<Rightarrow> handlers @ [Destroy_Thread 1, Say (rowCol 24 1), Say (bang @ [CHR 0x0A])]) @
     [Say (rowCol 24 1)]"


section \<open>The guard\<close>

definition ended :: "world \<Rightarrow> bool" where
  "ended w \<longleftrightarrow> list_all (\<lambda>k. case k of [] \<Rightarrow> True | _ \<Rightarrow> False) (codes w)"

lemma ended_finished: "ended w \<longleftrightarrow> finished w"
proof -
  have "(case k of [] \<Rightarrow> True | _ \<Rightarrow> False) = (k = [])" for k :: "stmt list" by (cases k) simp_all
  then show ?thesis by (simp add: ended_def finished_def list_all_iff)
qed

lemma explore_simple:
  "explore 40 (\<lambda>w. ended w \<and> (queue w = [] \<or> queue w = [(0, completion_task)])) (start_world 2 runBackgroundTask)"
  by code_simp

lemma explore_posts:
  "explore 20 (\<lambda>w. ended w \<and> queue w = []) (start_world 0 post_vs_dispatch_task)"
  "explore 20 (\<lambda>w. ended w \<and> queue w = []) (start_world 0 Post_vs_Dispatch)"
  "explore 20 (\<lambda>w. ended w \<and> queue w = []) (start_world 0 io_example_1)"
  "explore 60 (\<lambda>w. ended w \<and> queue w = []) (start_world 1 (SimpleAsynchTest False))"
  "explore 60 (\<lambda>w. ended w \<and> queue w = []) (start_world 1 (SimpleAsynchTest True))"
  by code_simp+

text \<open>Executions that are evaluated.\<close>

lemma run_result: "map_option f (execute s ds) = Some y \<Longrightarrow> \<exists>ds w. execute s ds = Some w \<and> f w = y"
  by blast

lemma finished_blocked:
  assumes "finished w" and "pending w = []"
  shows "blocked w"
proof -
  have n: "next_code w t = []" for t using assms(1) by (simp add: next_code_def finished_def)
  have "perform d w = None" for d by (cases d) (simp_all add: n assms(2))
  then show ?thesis by (simp add: blocked_def)
qed

fun waits_in_get :: "(nat \<Rightarrow> bool option) \<Rightarrow> stmt list list \<Rightarrow> bool" where
  "waits_in_get F [Get_Future f ok err # k, []] \<longleftrightarrow> F f = None"
| "waits_in_get F _ \<longleftrightarrow> False"

definition waits_forever :: "world \<Rightarrow> bool" where
  "waits_forever w \<longleftrightarrow> waits_in_get (future w) (codes w)"

lemma explore_future:
  "explore 30 (\<lambda>w. ended w \<or> waits_forever w) (start_world 1 (Future_Exception_Handling message))"
  by code_simp

lemma ended_similar: "similar w v \<Longrightarrow> ended w \<Longrightarrow> ended v"
  by (simp add: ended_def similar_fields)

lemma explored:
  assumes "explore k (\<lambda>w. ended w \<and> queue w = []) (start_world n p)" and "all_every no_destructor p"
    and "execute (start_world n p) ds = Some w" and "blocked w"
  shows "finished w \<and> queue w = []"
  using explore_program [OF assms(1,2) _ assms(3,4)] by (auto simp: ended_finished [symmetric] ended_similar similar_fields)

lemma waits_forever_step:
  assumes "waits_forever w" and "perform d w = Some v"
  shows "waits_forever v"
proof -
  from assms(1) obtain f ok err k where w: "codes w = [Get_Future f ok err # k, []]" "future w f = None"
    by (cases "(future w, codes w)" rule: waits_in_get.cases) (auto simp: waits_forever_def)
  show ?thesis
  proof (cases d)
    case (Go t)
    with w assms(2) show ?thesis by (cases "t = 0") (auto simp: next_code_def nth_Cons split: if_splits nat.splits)
  next
    case (Take t i)
    with w assms(2) show ?thesis by (cases "t = 0") (auto simp: next_code_def nth_Cons split: if_splits nat.splits)
  next
    case (Complete i b)
    with w assms(2) show ?thesis by (auto simp: waits_forever_def split: if_splits prod.splits)
  qed
qed

lemma background_task_done:
  "map_option (\<lambda>w. (ended w, queue w)) (execute (start_world 2 runBackgroundTask)
     [Go 0, Go 0, Go 0, Go 2, Go 2, Go 2, Go 1, Take 1 0, Go 1, Go 1, Go 1, Go 0, Go 0, Go 0, Go 1, Go 1, Go 0, Go 0]) =
   Some (True, [])"
  by code_simp

lemma background_task_dropped:
  "map_option (\<lambda>w. (ended w, queue w, pending w)) (execute (start_world 2 runBackgroundTask)
     [Go 0, Go 0, Go 0, Go 0, Go 0, Go 0, Go 1, Go 1, Go 1, Go 2, Go 2, Go 2, Go 0, Go 0]) =
   Some (True, [(0, completion_task)], [])"
  by code_simp

lemma future_done:
  "map_option (\<lambda>w. (ended w, map snd (shown w))) (execute (start_world 1 (Future_Exception_Handling message))
     [Go 0, Go 0, Complete 0 False, Take 1 0, Go 1, Go 1, Go 1, Go 0, Go 0, Go 0, Go 0]) =
   Some (True, [''Timer failed: '' @ message])"
  by code_simp

lemma future_stuck:
  "map_option waits_forever (execute (start_world 1 (Future_Exception_Handling message)) [Go 0, Go 1, Go 0, Go 0]) = Some True"
  by code_simp

section \<open>A detached thread\<close>

text \<open>
  The common form of the two programs whose thread is detached: \<open>ta\<close> is what the thread does before its \<open>post\<close> and \<open>tb\<close>
  behind it.
\<close>

definition detaching :: "stmt list \<Rightarrow> stmt list \<Rightarrow> stmt list \<Rightarrow> stmt list \<Rightarrow> stmt \<Rightarrow> stmt \<Rightarrow> stmt list" where
  "detaching pre ta tb rest a b = pre @ [Hold_Work 0,
     Post_To 0 (Spawn_Thread 1 (ta @ Post_To 0 (stop_task ''Background task completed.'') # tb) # rest), a, Run_Ctx 0, b]"

definition calm :: "stmt \<Rightarrow> bool" where
  "calm x \<longleftrightarrow> x \<in> {Sleep_For, Detach_Thread 1} \<union> range Say"

lemma calm_simps [simp]: "calm (Say x)" "calm Sleep_For" "calm (Detach_Thread (Suc 0))"
  by (simp_all add: calm_def)

datatype detaching_phase = Before | Asked | Running | Stopping | Stopped

text \<open>
  The phases: nothing has been asked of the context; the first handler is queued or at its first statement; the thread
  runs and the handler that stops has not begun; it has begun; the context is stopped. Until then the guard is held, so
  the main thread cannot leave \<open>run()\<close>.
\<close>

fun in_phase :: "stmt list \<Rightarrow> stmt list \<Rightarrow> stmt list \<Rightarrow> stmt \<Rightarrow> stmt \<Rightarrow> detaching_phase \<Rightarrow>
    stmt list \<Rightarrow> stmt list \<Rightarrow> (nat \<times> stmt list) list \<Rightarrow> bool \<Rightarrow> nat \<Rightarrow> bool" where
  "in_phase ta tb rest a b Before m k q st g \<longleftrightarrow> k = [] \<and> q = [] \<and> \<not> st \<and>
     (g = 0 \<and> (\<exists>x. list_all calm x \<and> m = detaching x ta tb rest a b) \<or> g = 1 \<and> m = tl (detaching [] ta tb rest a b))"
| "in_phase ta tb rest a b Asked m k q st g \<longleftrightarrow> k = [] \<and> \<not> st \<and> g = 1 \<and>
     (let first = Spawn_Thread 1 (ta @ Post_To 0 (stop_task ''Background task completed.'') # tb) # rest
      in q = [(0, first)] \<and> m \<in> {[a, Run_Ctx 0, b], [Run_Ctx 0, b]} \<or> q = [] \<and> m = first @ [End_Task 0, Run_Ctx 0, b])"
| "in_phase ta tb rest a b Running m k q st g \<longleftrightarrow> \<not> st \<and> g = 1 \<and>
     ((\<exists>x. list_all calm x \<and> m = x @ [End_Task 0, Run_Ctx 0, b]) \<or> m = [Run_Ctx 0, b]) \<and>
     (q = [] \<and> (\<exists>y. list_all calm y \<and> k = y @ Post_To 0 (stop_task ''Background task completed.'') # tb) \<or>
      q = [(0, stop_task ''Background task completed.'')] \<and> suffix k tb)"
| "in_phase ta tb rest a b Stopping m k q st g \<longleftrightarrow> \<not> st \<and> q = [] \<and> suffix k tb \<and>
     m \<in> {stop_task ''Background task completed.'' @ [End_Task 0, Run_Ctx 0, b], [Stop_Ctx 0, End_Task 0, Run_Ctx 0, b]}"
| "in_phase ta tb rest a b Stopped m k q st g \<longleftrightarrow> st \<and> q = [] \<and> suffix k tb \<and> suffix m [End_Task 0, Run_Ctx 0, b]"

definition detaching_inv :: "stmt list \<Rightarrow> stmt list \<Rightarrow> stmt list \<Rightarrow> stmt \<Rightarrow> stmt \<Rightarrow> world \<Rightarrow> bool" where
  "detaching_inv ta tb rest a b w \<longleftrightarrow> pending w = [] \<and> \<not> crashed w \<and>
     (\<exists>m k ph. codes w = [m, k] \<and> in_phase ta tb rest a b ph m k (queue w) (stopped w 0) (guards w 0))"

definition calm_parts :: "stmt list \<Rightarrow> stmt list \<Rightarrow> stmt list \<Rightarrow> stmt \<Rightarrow> stmt \<Rightarrow> bool" where
  "calm_parts ta tb rest a b \<longleftrightarrow> list_all calm (a # b # ta @ tb @ rest)"

lemma exec_calm:
  "calm x \<Longrightarrow> exec t x k w = Some v \<Longrightarrow> codes v = (codes w)[t := k] \<and> queue v = queue w \<and> pending v = pending w \<and>
     guards v = guards w \<and> running v = running w \<and> stopped v = stopped w \<and> crashed v = crashed w"
  by (auto simp: calm_def)

lemma suffix_tail: "suffix (x # k) xs \<Longrightarrow> suffix k xs \<and> x \<in> set xs"
  by (auto simp: suffix_def)

lemma detaching_invI:
  "pending w = [] \<Longrightarrow> \<not> crashed w \<Longrightarrow> codes w = [m, k] \<Longrightarrow>
     in_phase ta tb rest a b ph m k (queue w) (stopped w 0) (guards w 0) \<Longrightarrow> detaching_inv ta tb rest a b w"
  by (auto simp: detaching_inv_def)

lemma detached_thread_step:
  assumes c: "calm_parts ta tb rest a b" and w: "pending w = []" "\<not> crashed w" "codes w = [m, x # k]"
    and ph: "in_phase ta tb rest a b ph m (x # k) (queue w) (stopped w 0) (guards w 0)"
    and e: "exec 1 x k w = Some v"
  shows "detaching_inv ta tb rest a b v"
proof -
  have tb: "list_all calm tb" using c by (simp add: calm_parts_def)
  have rest_of_tb: "calm x \<and> suffix k tb" if "suffix (x # k) tb"
    using suffix_tail [OF that] tb by (auto simp: list_all_iff)
  consider (post) "x = Post_To 0 (stop_task ''Background task completed.'')" "k = tb" "ph = Running" "queue w = []"
    | (before) y where "calm x" "list_all calm y" "k = y @ Post_To 0 (stop_task ''Background task completed.'') # tb" "ph = Running" "queue w = []"
    | (behind) "calm x" "suffix k tb" "ph = Running \<Longrightarrow> queue w \<noteq> []"
    using ph rest_of_tb by (cases ph) (auto simp: Cons_eq_append_conv)
  then show ?thesis
  proof cases
    case post
    with ph e w show ?thesis by (intro detaching_invI [where ph = Running and m = m and k = tb]) auto
  next
    case before
    with exec_calm [OF before(1) e] ph w show ?thesis by (intro detaching_invI [where ph = Running and m = m and k = k]) auto
  next
    case behind
    have "in_phase ta tb rest a b ph m k (queue w) (stopped w 0) (guards w 0)"
    proof (cases ph)
      case Running
      with ph behind show ?thesis by auto
    qed (use ph behind in auto)
    with exec_calm [OF behind(1) e] w show ?thesis by (intro detaching_invI [where ph = ph and m = m and k = k]) auto
  qed
qed

lemma detaching_main_step:
  assumes c: "calm_parts ta tb rest a b" and w: "pending w = []" "\<not> crashed w" "codes w = [x # m, k]"
    and ph: "in_phase ta tb rest a b ph (x # m) k (queue w) (stopped w 0) (guards w 0)"
    and e: "exec 0 x m w = Some v"
  shows "detaching_inv ta tb rest a b v"
proof (cases ph)
  case Before
  from ph Before consider (calm) y where "calm x" "list_all calm y" "m = detaching y ta tb rest a b" "guards w 0 = 0"
    | (hold) "x = Hold_Work 0" "m = tl (detaching [] ta tb rest a b)" "guards w 0 = 0"
    | (post) "guards w 0 = 1" "x # m = tl (detaching [] ta tb rest a b)"
    by (auto simp: detaching_def Cons_eq_append_conv)
  then show ?thesis
  proof cases
    case calm
    with exec_calm [OF calm(1) e] ph w Before show ?thesis
      by (intro detaching_invI [where ph = Before and m = m and k = k]) auto
  next
    case hold
    with e ph w Before show ?thesis by (intro detaching_invI [where ph = Before and m = m and k = k]) auto
  next
    case post
    with e ph w Before show ?thesis
      by (intro detaching_invI [where ph = Asked and m = m and k = k]) (auto simp: detaching_def Let_def)
  qed
next
  case Asked
  have a: "calm a" using c by (simp add: calm_parts_def)
  from ph Asked consider (calm) "x = a" "m = [Run_Ctx 0, b]" | (run) "x = Run_Ctx 0"
    | (spawn) "x = Spawn_Thread 1 (ta @ Post_To 0 (stop_task ''Background task completed.'') # tb)" "m = rest @ [End_Task 0, Run_Ctx 0, b]" "queue w = []"
    by (auto simp: Let_def)
  then show ?thesis
  proof cases
    case calm
    with exec_calm [OF a] e ph w Asked show ?thesis
      by (intro detaching_invI [where ph = Asked and m = m and k = k]) (auto simp: Let_def)
  next
    case run
    with e ph w Asked show ?thesis by (auto simp: work_def Let_def split: if_splits)
  next
    case spawn
    with e ph w Asked c show ?thesis
      by (intro detaching_invI [where ph = Running and m = m]) (auto simp: calm_parts_def split: if_splits)
  qed
next
  case Running
  from ph Running consider (calm) y where "calm x" "list_all calm y" "m = y @ [End_Task 0, Run_Ctx 0, b]"
    | (task) "x = End_Task 0" "m = [Run_Ctx 0, b]" | (run) "x = Run_Ctx 0"
    by (auto simp: Cons_eq_append_conv)
  then show ?thesis
  proof cases
    case calm
    with exec_calm [OF calm(1) e] ph w Running show ?thesis
      by (intro detaching_invI [where ph = Running and m = m and k = k]) auto
  next
    case task
    with e ph w Running show ?thesis by (intro detaching_invI [where ph = Running and m = m and k = k]) auto
  next
    case run
    with e ph w Running show ?thesis by (auto simp: work_def split: if_splits)
  qed
next
  case Stopping
  with ph consider "x = Say ''Background task completed.''" "m = [Stop_Ctx 0, End_Task 0, Run_Ctx 0, b]"
    | "x = Stop_Ctx 0" "m = [End_Task 0, Run_Ctx 0, b]"
    by (auto simp: stop_task_def)
  then show ?thesis
  proof cases
    case 1
    with e ph w Stopping show ?thesis by (intro detaching_invI [where ph = Stopping and m = m and k = k]) auto
  next
    case 2
    with e ph w Stopping show ?thesis by (intro detaching_invI [where ph = Stopped and m = m and k = k]) auto
  qed
next
  case Stopped
  have b: "calm b" using c by (simp add: calm_parts_def)
  from ph Stopped have "suffix (x # m) [End_Task 0, Run_Ctx 0, b]" by simp
  then consider "x = End_Task 0" "m = [Run_Ctx 0, b]" | "x = Run_Ctx 0" "m = [b]" | "x = b" "m = []"
    by (auto simp: suffix_Cons)
  then show ?thesis
  proof cases
    case 3
    with exec_calm [OF b] e ph w Stopped show ?thesis
      by (intro detaching_invI [where ph = Stopped and m = m and k = k]) auto
  qed (use e ph w Stopped in \<open>auto intro!: detaching_invI [where ph = Stopped and m = m and k = k] simp: suffix_Cons\<close>)
qed

lemma detached_thread_stmts:
  assumes "calm_parts ta tb rest a b" and "in_phase ta tb rest a b ph m k q st g" and "x \<in> set k"
  shows "calm x \<or> (\<exists>h. x = Post_To 0 h)"
proof -
  have tb: "calm x" if "suffix k tb" "x \<in> set k" for x
    using that assms(1) set_mono_suffix [OF that(1)] by (auto simp: calm_parts_def list_all_iff)
  show ?thesis
  proof (cases ph)
    case Running
    with assms tb show ?thesis by (auto simp: calm_parts_def list_all_iff)
  qed (use assms tb in auto)
qed

lemma detaching_take:
  assumes c: "calm_parts ta tb rest a b" and w: "pending w = []" "\<not> crashed w" "codes w = [m, k]"
    and ph: "in_phase ta tb rest a b ph m k (queue w) (stopped w 0) (guards w 0)"
    and d: "perform (Take t i) w = Some v"
  shows "detaching_inv ta tb rest a b v"
proof -
  have no: "Run_Ctx z \<notin> set k" for z
    using detached_thread_stmts [OF c ph] by (auto simp: calm_def)
  from d obtain z k' where k': "next_code w t = Run_Ctx z # k'" "\<not> stopped w z" "i < length (queue w)" "fst (queue w ! i) = z"
    and v: "v = goto t (snd (queue w ! i) @ End_Task z # Run_Ctx z # k')
      (w\<lparr>queue := remove_nth i (queue w), running := (running w)(z := running w z + 1)\<rparr>)"
    using w(2) by (auto split: list.splits if_splits stmt.splits)
  from k'(1) no w(3) have t: "t = 0" "m = Run_Ctx z # k'"
    by (auto simp: next_code_def nth_Cons split: if_splits nat.splits)
  show ?thesis
  proof (cases ph)
    case Asked
    have "\<not> calm (Run_Ctx z)" by (auto simp: calm_def)
    with Asked ph t k' c obtain h where h: "queue w = [(0, h)]" "z = 0" "k' = [b]" "i = 0" "k = []" "guards w 0 = 1" "\<not> stopped w 0"
      "h = Spawn_Thread 1 (ta @ Post_To 0 (stop_task ''Background task completed.'') # tb) # rest"
      by (auto simp: Let_def calm_parts_def)
    with w t show ?thesis
      by (intro detaching_invI [where ph = Asked and m = "h @ End_Task z # Run_Ctx z # k'" and k = k])
        (auto simp: v Let_def remove_nth_def)
  next
    case Running
    with ph t k' w have "queue w = [(0, stop_task ''Background task completed.'')]" "suffix k tb" "z = 0" "k' = [b]" "i = 0"
      by (auto simp: Cons_eq_append_conv calm_def)
    with ph w t Running show ?thesis
      by (intro detaching_invI [where ph = Stopping and m = "stop_task ''Background task completed.'' @ [End_Task 0, Run_Ctx 0, b]" and k = k])
        (auto simp: v remove_nth_def)
  qed (use ph k' in auto)
qed

lemma detaching_step:
  assumes c: "calm_parts ta tb rest a b" and inv: "detaching_inv ta tb rest a b w" and d: "perform d w = Some v"
  shows "detaching_inv ta tb rest a b v"
proof -
  from inv obtain m k ph where w: "pending w = []" "\<not> crashed w" "codes w = [m, k]"
    and ph: "in_phase ta tb rest a b ph m k (queue w) (stopped w 0) (guards w 0)"
    by (auto simp: detaching_inv_def)
  show ?thesis
  proof (cases d)
    case (Go t)
    with d w obtain x k' where "next_code w t = x # k'" "exec t x k' w = Some v" by (auto split: list.splits)
    moreover from this w(3) have "t = 0 \<and> m = x # k' \<or> t = 1 \<and> k = x # k'"
      by (auto simp: next_code_def nth_Cons split: if_splits nat.splits)
    ultimately show ?thesis
      using detached_thread_step [OF c w(1,2)] detaching_main_step [OF c w(1,2)] w(3) ph by auto
  next
    case (Take t i)
    with detaching_take [OF c w ph] d show ?thesis by blast
  next
    case (Complete i x)
    with d w show ?thesis by simp
  qed
qed

lemma detaching_execute:
  assumes "calm_parts ta tb rest a b" and "list_all calm pre"
    and "execute (start_world 1 (detaching pre ta tb rest a b)) ds = Some w"
  shows "detaching_inv ta tb rest a b w"
proof (rule execute_invariant [OF assms(3)])
  show "detaching_inv ta tb rest a b (start_world 1 (detaching pre ta tb rest a b))"
    using assms(2) by (intro detaching_invI [where ph = Before]) (auto simp: start_world_def)
qed (rule detaching_step [OF assms(1)])

text \<open>When the main thread has ended, only what the detached thread does behind its \<open>post\<close> can be left.\<close>

lemma detaching_main_ended:
  assumes "detaching_inv ta tb rest a b w" and "codes w ! 0 = []"
  shows "queue w = [] \<and> (\<exists>k. codes w = [[], k] \<and> suffix k tb)"
proof -
  from assms(1) obtain m k ph where w: "codes w = [m, k]"
    and ph: "in_phase ta tb rest a b ph m k (queue w) (stopped w 0) (guards w 0)"
    by (auto simp: detaching_inv_def)
  from ph w assms(2) show ?thesis by (cases ph) (auto simp: detaching_def stop_task_def Let_def)
qed

text \<open>It does not get stuck.\<close>

lemma calm_runs: "calm x \<Longrightarrow> exec t x k w \<noteq> None"
  by (auto simp: calm_def)

lemma detaching_blocked:
  assumes c: "calm_parts ta tb rest a b" and inv: "detaching_inv ta tb rest a b w" and "blocked w"
  shows "finished w"
proof -
  from inv obtain m k ph where w: "pending w = []" "\<not> crashed w" "codes w = [m, k]"
    and ph: "in_phase ta tb rest a b ph m k (queue w) (stopped w 0) (guards w 0)"
    by (auto simp: detaching_inv_def)
  have n: "perform d w = None" for d using assms(3) by (simp add: blocked_def)
  have m0: "exec 0 x m' w = None" if "m = x # m'" for x m' using n [of "Go 0"] w that by (simp add: next_code_def)
  have k0: "exec 1 x k' w = None" if "k = x # k'" for x k' using n [of "Go 1"] w that by (simp add: next_code_def)
  have q: "\<not> (m = Run_Ctx 0 # m' \<and> \<not> stopped w 0 \<and> (\<exists>h. queue w = [(0, h)]))" for m'
    using n [of "Take 0 0"] w by (auto simp: next_code_def)
  have k: "k = []"
  proof (rule ccontr)
    assume "k \<noteq> []"
    then obtain x k' where x: "k = x # k'" by (cases k) auto
    have "calm x \<or> (\<exists>h. x = Post_To 0 h)" using detached_thread_stmts [OF c ph] x by simp
    with k0 [OF x] calm_runs [of x 1 k' w] show False by auto
  qed
  have "m = []"
  proof (rule ccontr)
    assume "m \<noteq> []"
    then obtain x m' where x: "m = x # m'" by (cases m) auto
    from m0 [OF x] have nc: "\<not> calm x" "x \<noteq> Hold_Work 0" "\<And>h. x \<noteq> Post_To 0 h" "x \<noteq> End_Task 0" "x \<noteq> Stop_Ctx 0"
        "\<And>h. x = Spawn_Thread 1 h \<Longrightarrow> False" "x = Run_Ctx 0 \<Longrightarrow> \<not> stopped w 0"
      using calm_runs [of x 0 m' w] w(3) k by (auto split: if_splits)
    from ph c x k nc q [of m'] show False
      by (cases ph) (auto simp: calm_parts_def detaching_def stop_task_def Let_def Cons_eq_append_conv suffix_Cons calm_def)
  qed
  with k w(3) show ?thesis by (simp add: finished_def)
qed

text \<open>The two programs; what the detached thread does after it has queued the handler that stops the context.\<close>

definition left_behind :: "stmt list \<Rightarrow> stmt list" where
  "left_behind p = (if p = main_thread_run then [Sleep_For]
     else if p = run_async_task then [Sleep_For, Say ''long_running_task() exited''] else [])"

definition detaching_program :: "stmt list \<Rightarrow> bool" where
  "detaching_program p \<longleftrightarrow> p \<in> {main_thread_run, run_async_task}"

lemma detaching_program_form:
  assumes "detaching_program p"
  shows "\<exists>pre ta rest a b. p = detaching pre ta (left_behind p) rest a b \<and> calm_parts ta (left_behind p) rest a b \<and> list_all calm pre"
proof -
  have n: "main_thread_run \<noteq> run_async_task" by (simp add: main_thread_run_def run_async_task_def)
  let ?ta = "[Say (''Background task started: Duration = '' @ ''2'' @ '' seconds.''), Sleep_For]"
  consider "p = main_thread_run" | "p = run_async_task" using assms by (auto simp: detaching_program_def)
  then show ?thesis
  proof cases
    case 1
    have "main_thread_run = detaching [] ?ta (left_behind main_thread_run) [Say ''Detaching thread'', Detach_Thread 1]
        (Say ''Running io_context...'') (Say ''io_context exit.'')"
      by (simp add: detaching_def main_thread_run_def backgroundTask_def left_behind_def)
    moreover have "calm_parts ?ta (left_behind main_thread_run) [Say ''Detaching thread'', Detach_Thread 1]
        (Say ''Running io_context...'') (Say ''io_context exit.'')"
      by (simp add: calm_parts_def left_behind_def)
    moreover have "list_all calm []" by simp
    ultimately show ?thesis using 1 by blast
  next
    case 2
    let ?rest = "[Say ''Detaching thread'', Detach_Thread 1] @ concat (replicate 5 [Say ''doing something else ..... '', Sleep_For])"
    have "run_async_task = detaching [Say ''run_async_task() entered''] ?ta (left_behind run_async_task) ?rest
        (Say ''------> Running io_context...'') (Say ''<------ io_context exit.'')"
      using n by (simp add: detaching_def run_async_task_def long_running_task_def left_behind_def)
    moreover have "calm_parts ?ta (left_behind run_async_task) ?rest
        (Say ''------> Running io_context...'') (Say ''<------ io_context exit.'')"
      by (simp add: calm_parts_def left_behind_def list_all_iff)
    moreover have "list_all calm [Say ''run_async_task() entered'']" by simp
    ultimately show ?thesis using 2 by blast
  qed
qed

text \<open>The programs with their number of threads besides the main one.\<close>

definition background_program :: "nat \<Rightarrow> stmt list \<Rightarrow> bool" where
  "background_program n p \<longleftrightarrow>
     n = 1 \<and> (detaching_program p \<or> p \<in> {SimpleAsynchTest False, SimpleAsynchTest True}) \<or>
     n = 0 \<and> p \<in> {post_vs_dispatch_task, Post_vs_Dispatch, io_example_1}"

lemmas program_defs = main_thread_run_def run_async_task_def SimpleAsynchTest_def post_vs_dispatch_task_def
  Post_vs_Dispatch_def io_example_1_def backgroundTask_def long_running_task_def stop_task_def async_task_def

lemma background_program_ok:
  "background_program n p \<Longrightarrow> all_every no_destructor p \<and> list_all plain p"
  unfolding background_program_def detaching_program_def
  by (elim disjE conjE; simp; elim disjE; simp add: program_defs no_destructor_def list_all_iff)

lemma detaching_program_inv:
  assumes "detaching_program p" and "execute (start_world 1 p) ds = Some w"
  shows "\<exists>ta rest a b. calm_parts ta (left_behind p) rest a b \<and> detaching_inv ta (left_behind p) rest a b w"
proof -
  from detaching_program_form [OF assms(1)] obtain pre ta rest a b
    where p: "p = detaching pre ta (left_behind p) rest a b" "calm_parts ta (left_behind p) rest a b" "list_all calm pre" by blast
  from assms(2) have "execute (start_world 1 (detaching pre ta (left_behind p) rest a b)) ds = Some w"
    using p(1) by simp
  from detaching_execute [OF p(2,3) this] p(2) show ?thesis by blast
qed

lemma background_program_ends:
  assumes "background_program n p" and "execute (start_world n p) ds = Some w" and "blocked w"
  shows "finished w \<and> queue w = []"
proof (cases "n = 1 \<and> detaching_program p")
  case True
  with assms(2) obtain ta rest a b where i: "calm_parts ta (left_behind p) rest a b" "detaching_inv ta (left_behind p) rest a b w"
    using detaching_program_inv by blast
  from detaching_blocked [OF i assms(3)] have f: "finished w" .
  moreover from i(2) have "codes w \<noteq> []" by (auto simp: detaching_inv_def)
  ultimately have "codes w ! 0 = []" by (simp add: finished_def)
  with detaching_main_ended [OF i(2)] f show ?thesis by blast
next
  case False
  then have "\<exists>k. explore k (\<lambda>w. ended w \<and> queue w = []) (start_world n p)"
    using assms(1) explore_posts by (auto simp: background_program_def)
  with explored [OF _ _ assms(2,3)] background_program_ok [OF assms(1)] show ?thesis by blast
qed

text \<open>In the programs that detach nothing the main thread is the last to end.\<close>

definition joining :: "world \<Rightarrow> bool" where
  "joining w \<longleftrightarrow> pending w = [] \<and> queue w = [] \<and>
     (codes w = [SimpleAsynchTest False, []] \<or> (\<exists>k. list_all calm k \<and> codes w \<in> {[[Join_Thread 1], k], [k, []]}))"

lemma calm_task: "list_all calm async_task"
  by (auto simp: async_task_def list_all_iff)

lemma joining_step:
  assumes "joining w" and "perform d w = Some v"
  shows "joining v"
proof -
  from assms(1) consider (start) "codes w = [SimpleAsynchTest False, []]" | (thread) k where "list_all calm k" "codes w = [[Join_Thread 1], k]"
    | (main) k where "list_all calm k" "codes w = [k, []]" by (auto simp: joining_def)
  then show ?thesis
  proof cases
    case start
    with assms have "pending v = [] \<and> queue v = [] \<and> codes v = [[Join_Thread 1], async_task]"
      by (cases d) (auto simp: joining_def SimpleAsynchTest_def next_code_def nth_Cons split: if_splits list.splits nat.splits)
    with calm_task show ?thesis by (auto simp: joining_def)
  next
    case thread
    show ?thesis
    proof (cases d)
      case (Go t)
      with thread assms consider "t = 0" "k = []" | x k' where "t = 1" "k = x # k'" "exec 1 x k' w = Some v"
        by (auto simp: next_code_def nth_Cons split: if_splits list.splits nat.splits)
      then show ?thesis
      proof cases
        case 1
        with thread assms Go show ?thesis
          by (auto simp: joining_def SimpleAsynchTest_def next_code_def split: if_splits)
      next
        case 2
        with thread exec_calm [of x 1 k' w v] assms(1) show ?thesis by (auto simp: joining_def)
      qed
    next
      case (Take t i)
      with thread assms show ?thesis by (auto simp: joining_def split: if_splits list.splits stmt.splits)
    qed (use assms in \<open>auto simp: joining_def\<close>)
  next
    case main
    show ?thesis
    proof (cases d)
      case (Go t)
      with main assms obtain x k' where "t = 0" "k = x # k'" "exec 0 x k' w = Some v"
        by (auto simp: next_code_def nth_Cons split: if_splits list.splits nat.splits)
      with main exec_calm [of x 0 k' w v] assms(1) show ?thesis by (auto simp: joining_def)
    next
      case (Take t i)
      with main assms show ?thesis by (auto simp: joining_def split: if_splits list.splits stmt.splits)
    qed (use assms in \<open>auto simp: joining_def\<close>)
  qed
qed

lemma exec_keeps_threads: "exec t x k w = Some v \<Longrightarrow> length (codes v) = length (codes w)"
  by (cases x) (auto split: if_splits option.splits)

lemma perform_keeps_threads: "length (codes w) = n \<Longrightarrow> perform d w = Some v \<Longrightarrow> length (codes v) = n"
  by (cases d) (auto split: if_splits list.splits stmt.splits prod.splits dest: exec_keeps_threads)

lemma main_ends_last:
  assumes "background_program n p" and "\<not> (n = 1 \<and> detaching_program p)" and "execute (start_world n p) ds = Some w"
    and "codes w ! 0 = []"
  shows "finished w"
proof (cases n)
  case 0
  have "length (codes w) = 1"
    by (rule execute_invariant [OF assms(3)]) (simp add: start_world_def 0, rule perform_keeps_threads)
  with assms(4) show ?thesis by (auto simp: finished_def length_Suc_conv)
next
  case (Suc m)
  with assms(1,2) have p: "n = 1" "p \<in> {SimpleAsynchTest False, SimpleAsynchTest True}"
    by (auto simp: background_program_def)
  have "joining w"
  proof (rule execute_invariant [OF assms(3)])
    show "joining (start_world n p)"
      using p calm_task by (auto simp: joining_def start_world_def SimpleAsynchTest_def)
  qed (rule joining_step)
  with assms(4) show ?thesis by (auto simp: joining_def finished_def SimpleAsynchTest_def)
qed

text \<open>
  C27: whatever the scheduler does, \<open>Main_Thread::run\<close>, \<open>run_async_task\<close>, the posting demonstrations and
  \<open>SimpleAsynchTest\<close> take a bounded number of steps and never deadlock, although in the first two a work guard keeps the
  context running until a handler posted from another thread stops it: when nothing can happen any more all threads
  have ended, no handler is queued and every line has been printed once. And when the main thread has ended, and with it
  the process may, everything has been done except for what a detached thread does after it has queued the handler
  that stops the context: it may still be inside \<open>post()\<close>, and the last line of \<open>long_running_task\<close> may be lost.
\<close>

theorem background_programs_complete:
  assumes "background_program n p" and "execute (start_world n p) ds = Some w"
  shows "length ds \<le> weights p \<and> \<not> crashed w \<and>
    (blocked w \<longrightarrow> finished w \<and> queue w = [] \<and> mset (map snd (shown w)) = lines p) \<and>
    (codes w ! 0 = [] \<longrightarrow> queue w = [] \<and> (\<forall>k \<in> set (codes w). suffix k (left_behind p)) \<and>
       mset (map snd (shown w)) + sum_list (map lines (codes w)) = lines p)"
proof -
  from background_program_ok [OF assms(1)] have p: "all_every no_destructor p" "list_all plain p" by simp_all
  have "steps_left (start_world n p) = weights p" by (simp add: steps_left_def start_world_def sum_list_replicate)
  with execution_bounded [OF assms(2)] have "length ds \<le> weights p" by simp
  moreover have b: "finished w \<and> queue w = [] \<and> mset (map snd (shown w)) = lines p" if "blocked w"
    using background_program_ends [OF assms that] finished_lines [OF assms(2) p(2)] by auto
  from execute_plain [OF assms(2) plain_start [OF p(2)]] have l: "plain_world w" "all_lines w = lines p"
    by (simp_all add: all_lines_start)
  have "queue w = [] \<and> (\<forall>k \<in> set (codes w). suffix k (left_behind p))" if m: "codes w ! 0 = []"
  proof (cases "n = 1 \<and> detaching_program p")
    case True
    with assms(2) obtain ta rest a b where "detaching_inv ta (left_behind p) rest a b w"
      using detaching_program_inv by blast
    from detaching_main_ended [OF this m] show ?thesis by auto
  next
    case False
    from main_ends_last [OF assms(1) False assms(2) m] have f: "finished w" .
    with finished_blocked l(1) b show ?thesis by (auto simp: plain_world_def finished_def)
  qed
  moreover from this l(2) have "mset (map snd (shown w)) + sum_list (map lines (codes w)) = lines p" if "codes w ! 0 = []"
    using that by (simp add: all_lines_def)
  ultimately show ?thesis using no_crash [OF assms(2) p(1)] b by blast
qed

text \<open>The main thread of \<open>run_async_task\<close> has ended while the detached thread is inside \<open>post()\<close>.\<close>

abbreviation main_ends_first :: "choice list" where
  "main_ends_first \<equiv> replicate 4 (Go 0) @ [Take 0 0, Go 0] @ replicate 3 (Go 1) @ replicate 13 (Go 0) @ [Take 0 0] @ replicate 5 (Go 0)"

lemma async_main_ends_first:
  "map_option codes (execute (start_world 1 run_async_task) main_ends_first) =
     Some [[], [Sleep_For, Say ''long_running_task() exited'']]"
  by code_simp

theorem background_programs_complete_witness:
  "\<exists>w. execute (start_world 1 run_async_task) main_ends_first = Some w \<and>
     add_mset ''long_running_task() exited'' (mset (map snd (shown w))) = lines run_async_task"
proof -
  obtain w where w: "execute (start_world 1 run_async_task) main_ends_first = Some w"
      "codes w = [[], [Sleep_For, Say ''long_running_task() exited'']]"
    using async_main_ends_first by blast
  have "background_program 1 run_async_task" by (simp add: background_program_def detaching_program_def)
  from background_programs_complete [OF this w(1)] w show ?thesis by simp
qed

text \<open>
  So the contexts of both functions may be destroyed while the detached thread is still inside \<open>post()\<close>, which uses the
  context, and a line may be lost: the main thread has ended and the thread has not.
\<close>

theorem context_destroyed_in_post:
  "\<exists>ds w. execute (start_world 1 main_thread_run) ds = Some w \<and> codes w = [[], [Sleep_For]] \<and> queue w = []"
  "\<exists>ds w. execute (start_world 1 run_async_task) ds = Some w \<and>
     codes w = [[], [Sleep_For, Say ''long_running_task() exited'']] \<and>
     ''long_running_task() exited'' \<notin> set (map snd (shown w))"
proof -
  have "map_option (\<lambda>w. (codes w, queue w)) (execute (start_world 1 main_thread_run)
      ([Go 0, Go 0, Go 0, Take 0 0, Go 0, Go 1, Go 1, Go 1, Go 0, Go 0, Go 0, Take 0 0] @ replicate 5 (Go 0))) =
    Some ([[], [Sleep_For]], [])"
    by code_simp
  from run_result [OF this]
  show "\<exists>ds w. execute (start_world 1 main_thread_run) ds = Some w \<and> codes w = [[], [Sleep_For]] \<and> queue w = []" by simp
  have "map_option (\<lambda>w. (codes w, ''long_running_task() exited'' \<in> set (map snd (shown w))))
      (execute (start_world 1 run_async_task) main_ends_first) =
    Some ([[], [Sleep_For, Say ''long_running_task() exited'']], False)"
    by code_simp
  from run_result [OF this]
  show "\<exists>ds w. execute (start_world 1 run_async_task) ds = Some w \<and>
     codes w = [[], [Sleep_For, Say ''long_running_task() exited'']] \<and>
     ''long_running_task() exited'' \<notin> set (map snd (shown w))" by simp
qed


text \<open>
  C26: \<open>runBackgroundTask\<close> always ends without a deadlock, but only sleeping keeps the worker ahead of
  \<open>work_guard.reset()\<close>: every execution ends with all lines printed or with all but the one of the background
  task, whose handler then stays in the queue of a context nobody runs any more. Both happen.
\<close>

theorem runBackgroundTask_may_drop_task:
  "(\<forall>ds w. execute (start_world 2 runBackgroundTask) ds = Some w \<and> blocked w \<longrightarrow> finished w \<and>
     (queue w = [] \<and> mset (map snd (shown w)) = lines runBackgroundTask \<or>
      queue w = [(0, completion_task)] \<and>
        add_mset ''Background task completed!'' (mset (map snd (shown w))) = lines runBackgroundTask)) \<and>
   (\<exists>ds w. execute (start_world 2 runBackgroundTask) ds = Some w \<and> finished w \<and> queue w = []) \<and>
   (\<exists>ds w. execute (start_world 2 runBackgroundTask) ds = Some w \<and> finished w \<and> queue w = [(0, completion_task)])"
proof (intro conjI allI impI)
  fix ds w assume "execute (start_world 2 runBackgroundTask) ds = Some w \<and> blocked w"
  then have e: "execute (start_world 2 runBackgroundTask) ds = Some w" "blocked w" by simp_all
  have p: "all_every no_destructor runBackgroundTask" "list_all plain runBackgroundTask"
    by (simp_all add: runBackgroundTask_def io_thread_def background_task_def completion_task_def no_destructor_def)
  have "ended w \<and> (queue w = [] \<or> queue w = [(0, completion_task)])"
    by (rule explore_program [OF explore_simple p(1) _ e]) (auto simp: ended_similar similar_fields)
  then have f: "finished w" "queue w = [] \<or> queue w = [(0, completion_task)]" by (simp_all add: ended_finished)
  then show "finished w" by simp
  from finished_lines [OF e(1) p(2) f(1)] f(2)
  show "queue w = [] \<and> mset (map snd (shown w)) = lines runBackgroundTask \<or>
      queue w = [(0, completion_task)] \<and>
        add_mset ''Background task completed!'' (mset (map snd (shown w))) = lines runBackgroundTask"
    by (auto simp: completion_task_def)
next
  show "\<exists>ds w. execute (start_world 2 runBackgroundTask) ds = Some w \<and> finished w \<and> queue w = []"
    using run_result [OF background_task_done] by (simp add: ended_finished)
next
  show "\<exists>ds w. execute (start_world 2 runBackgroundTask) ds = Some w \<and> finished w \<and> queue w = [(0, completion_task)]"
    using run_result [OF background_task_dropped] by (auto simp: ended_finished)
qed

theorem runBackgroundTask_may_drop_task_witness:
  "\<exists>ds w. execute (start_world 2 runBackgroundTask) ds = Some w \<and> finished w \<and>
     add_mset ''Background task completed!'' (mset (map snd (shown w))) = lines runBackgroundTask"
proof -
  obtain ds w where e: "execute (start_world 2 runBackgroundTask) ds = Some w" "finished w"
      "queue w = [(0, completion_task)]" "pending w = []"
    using run_result [OF background_task_dropped] by (auto simp: ended_finished)
  with runBackgroundTask_may_drop_task finished_blocked [OF e(2,4)] show ?thesis by fastforce
qed

text \<open>
  C31: \<open>Future_Exception_Handling\<close> has two kinds of executions: those that end, and those in which the thread
  runs the context before the wait is started, finds no work and returns; nobody completes the wait then, and
  \<open>get()\<close> never returns.
\<close>

theorem future_may_wait_forever:
  "(\<forall>ds w. execute (start_world 1 (Future_Exception_Handling message)) ds = Some w \<and> blocked w \<longrightarrow>
      finished w \<or> waits_forever w) \<and>
   (\<exists>ds w. execute (start_world 1 (Future_Exception_Handling message)) ds = Some w \<and> finished w \<and>
      map snd (shown w) = [''Timer failed: '' @ message]) \<and>
   (\<exists>ds w. execute (start_world 1 (Future_Exception_Handling message)) ds = Some w \<and>
      (\<forall>es v. execute w es = Some v \<longrightarrow> waits_forever v))"
proof (intro conjI allI impI)
  fix ds w assume "execute (start_world 1 (Future_Exception_Handling message)) ds = Some w \<and> blocked w"
  then have e: "execute (start_world 1 (Future_Exception_Handling message)) ds = Some w" "blocked w" by simp_all
  have p: "all_every no_destructor (Future_Exception_Handling message)"
    by (simp add: Future_Exception_Handling_def no_destructor_def)
  have "ended w \<or> waits_forever w"
    by (rule explore_program [OF explore_future p _ e]) (auto simp: ended_similar waits_forever_def similar_fields)
  then show "finished w \<or> waits_forever w" by (simp add: ended_finished)
next
  show "\<exists>ds w. execute (start_world 1 (Future_Exception_Handling message)) ds = Some w \<and> finished w \<and>
      map snd (shown w) = [''Timer failed: '' @ message]"
    using run_result [OF future_done] by (simp add: ended_finished)
next
  obtain ds w where e: "execute (start_world 1 (Future_Exception_Handling message)) ds = Some w" "waits_forever w"
    using run_result [OF future_stuck [of message]] by blast
  then show "\<exists>ds w. execute (start_world 1 (Future_Exception_Handling message)) ds = Some w \<and>
      (\<forall>es v. execute w es = Some v \<longrightarrow> waits_forever v)"
    using execute_invariant [where I = waits_forever] waits_forever_step by blast
qed

theorem future_may_wait_forever_witness:
  "\<exists>ds w. execute (start_world 1 (Future_Exception_Handling ''canceled'')) ds = Some w \<and>
      execute w [] = Some w \<and> waits_forever w"
proof -
  from future_may_wait_forever [of "''canceled''"] obtain ds w where
    w: "execute (start_world 1 (Future_Exception_Handling ''canceled'')) ds = Some w"
       "\<forall>es v. execute w es = Some v \<longrightarrow> waits_forever v" by (elim conjE exE)
  from w(2) [rule_format, of "[]" w] w(1) show ?thesis by auto
qed


section \<open>Who executes the tasks\<close>

text \<open>
  The states of \<open>single_context_run\<close>: the queue holds tasks of the system executor only, so the thread that runs
  the function's own context never gets one.
\<close>

definition quiet_main :: "stmt \<Rightarrow> bool" where
  "quiet_main x \<longleftrightarrow> x \<in> {Hold_Work 0, Spawn_Thread 1 [Run_Ctx 0], Sleep_For, Release_Work 0, Join_Thread 1} \<or>
     (\<exists>i. x = Post_To 1 (single_task i))"

definition system_stmt :: "stmt \<Rightarrow> bool" where
  "system_stmt x \<longleftrightarrow> x \<in> {Sleep_For, End_Task 1, Run_Ctx 1} \<or> (\<exists>y. x = Say y)"

definition system_task :: "nat \<times> stmt list \<Rightarrow> bool" where
  "system_task q \<longleftrightarrow> (\<exists>i. q = (1, single_task i))"

lemma system_task [simp]: "system_task (1, single_task i)" "system_task (Suc 0, single_task i)"
  by (auto simp: system_task_def)

definition system_inv :: "world \<Rightarrow> bool" where
  "system_inv w \<longleftrightarrow> 2 \<le> length (codes w) \<and> pending w = [] \<and> list_all quiet_main (codes w ! 0) \<and>
     codes w ! 1 \<in> {[], [Run_Ctx 0]} \<and> (\<forall>t. 2 \<le> t \<and> t < length (codes w) \<longrightarrow> list_all system_stmt (codes w ! t)) \<and>
     (\<forall>q \<in> set (queue w). system_task q) \<and> (\<forall>l \<in> set (shown w). 2 \<le> fst l)"

lemma system_step:
  assumes inv: "system_inv w" and step: "perform d w = Some w'"
  shows "system_inv w'"
proof (cases d)
  case (Go t)
  with step obtain x k where k: "t < length (codes w)" "codes w ! t = x # k" and ex: "exec t x k w = Some w'"
    by (auto split: if_splits list.splits simp: next_code_Cons)
  consider "t = 0" | "t = 1" | "2 \<le> t" by linarith
  then show ?thesis
  proof cases
    case 1
    with inv k have "quiet_main x" "list_all quiet_main k" by (simp_all add: system_inv_def)
    have upd: "system_inv w'"
      if "codes w' = (codes w)[0 := k] \<or> codes w' = (codes w)[1 := [Run_Ctx 0], 0 := k]"
        "pending w' = pending w" "shown w' = shown w" "\<forall>q \<in> set (queue w'). system_task q"
      using that inv k(1) 1 \<open>list_all quiet_main k\<close> by (elim disjE) (simp_all add: system_inv_def)
    have q: "\<forall>q \<in> set (queue w). system_task q" using inv by (simp add: system_inv_def)
    from \<open>quiet_main x\<close> 1 ex q show ?thesis
      by (intro upd) (auto simp: quiet_main_def split: if_splits)
  next
    case 2
    with inv k have "x = Run_Ctx 0" "k = []" by (simp_all add: system_inv_def)
    with 2 ex have "codes w' = (codes w)[1 := []]" "queue w' = queue w" "pending w' = pending w" "shown w' = shown w"
      by (auto split: if_splits)
    with inv show ?thesis by (simp add: system_inv_def)
  next
    case 3
    with inv k have "list_all system_stmt (x # k)" unfolding system_inv_def by metis
    then have x: "system_stmt x" "list_all system_stmt k" by simp_all
    have upd: "system_inv w'"
      if "codes w' = (codes w)[t := k]" "pending w' = pending w" "queue w' = queue w" "\<forall>l \<in> set (shown w'). 2 \<le> fst l"
      using that inv k(1) 3 x(2) by (simp add: system_inv_def nth_list_update)
    have l: "2 \<le> u" if "(u, y) \<in> set (shown w)" for u y using inv that by (auto simp: system_inv_def)
    from x(1) ex 3 show ?thesis
      by (intro upd) (auto simp: system_stmt_def split: if_splits; rule l; assumption)+
  qed
next
  case (Take t i)
  with step obtain c k where k: "t < length (codes w)" "codes w ! t = Run_Ctx c # k" "i < length (queue w)"
    "fst (queue w ! i) = c"
    and w': "w' = goto t (snd (queue w ! i) @ End_Task c # Run_Ctx c # k)
      (w\<lparr>queue := remove_nth i (queue w), running := (running w)(c := running w c + 1)\<rparr>)"
    by (auto split: if_splits list.splits stmt.splits simp: next_code_Cons)
  from inv k(3) obtain j where j: "queue w ! i = (1, single_task j)"
    unfolding system_inv_def system_task_def by (metis nth_mem)
  with k(4) have c: "c = 1" by simp
  have "2 \<le> t"
  proof (rule ccontr)
    assume "\<not> 2 \<le> t"
    then consider "t = 0" | "t = 1" by linarith
    then show False using inv k(2) c by cases (auto simp: system_inv_def quiet_main_def)
  qed
  then have "list_all system_stmt (Run_Ctx c # k)" using inv k unfolding system_inv_def by metis
  moreover have "list_all system_stmt (single_task j)" by (simp add: single_task_def system_stmt_def)
  moreover have "\<forall>q \<in> set (remove_nth i (queue w)). system_task q"
    using inv by (auto simp: system_inv_def dest: in_set_remove_nth)
  ultimately show ?thesis using inv j c \<open>2 \<le> t\<close> k(1)
    by (simp add: w' system_inv_def nth_list_update system_stmt_def)
next
  case (Complete i b)
  with step inv show ?thesis by (simp add: system_inv_def)
qed

lemma system_start_inv: "system_inv (system_start k single_context_run)"
  by (auto simp: system_inv_def system_start_def start_world_def single_context_run_def quiet_main_def system_stmt_def
      nth_Cons numeral_2_eq_2 list_all_iff split: nat.splits)

text \<open>
  in \<open>SingleContext_MultipleThreads\<close> no task ever runs on the function's context: whatever is printed is
  printed by a thread of the system executor, and the thread that runs \<open>ioCtx\<close> never executes a handler.
\<close>

theorem tasks_run_elsewhere:
  assumes "execute (system_start k single_context_run) ds = Some w"
  shows "(\<forall>l \<in> set (shown w). 2 \<le> fst l) \<and> codes w ! 1 \<in> {[], [Run_Ctx 0]} \<and> (\<forall>q \<in> set (queue w). fst q \<noteq> 0)"
proof -
  have "system_inv w"
    by (rule execute_invariant [OF assms, where I = system_inv]) (rule system_start_inv, rule system_step)
  then show ?thesis unfolding system_inv_def system_task_def by fastforce
qed

theorem tasks_run_elsewhere_witness:
  "\<exists>w. execute (system_start 1 single_context_run) [Go 0, Go 0, Go 0, Take 2 0, Go 2] = Some w \<and>
     shown w \<noteq> [] \<and> (\<forall>l \<in> set (shown w). 2 \<le> fst l)"
proof -
  have "map_option (\<lambda>w. length (shown w)) (execute (system_start 1 single_context_run) [Go 0, Go 0, Go 0, Take 2 0, Go 2]) = Some 1"
    by code_simp
  then obtain w where w: "execute (system_start 1 single_context_run) [Go 0, Go 0, Go 0, Take 2 0, Go 2] = Some w"
    and s: "length (shown w) = 1" by blast
  from tasks_run_elsewhere [OF w] s w show ?thesis by (intro exI [of _ w]) auto
qed


section \<open>Thread objects\<close>

text \<open>
  A main thread whose end is \<open>tail\<close>, with statements before it, and in the handlers and threads, that leave all
  thread objects alone. How far the tail is done determines which objects are joinable and whether the
  destructor of a joinable one has ended the program.
\<close>

definition no_thread_object :: "stmt \<Rightarrow> bool" where
  "no_thread_object x \<longleftrightarrow> (case x of Spawn_Thread u b \<Rightarrow> False | Join_Thread u \<Rightarrow> False | Detach_Thread u \<Rightarrow> False
     | Destroy_Thread u \<Rightarrow> False | _ \<Rightarrow> True)"

fun effect :: "stmt \<Rightarrow> (nat \<Rightarrow> bool) \<Rightarrow> nat \<Rightarrow> bool" where
  "effect (Spawn_Thread u b) J = J(u := True)"
| "effect (Join_Thread u) J = J(u := False)"
| "effect (Detach_Thread u) J = J(u := False)"
| "effect _ J = J"

definition joins :: "stmt list \<Rightarrow> nat \<Rightarrow> bool" where
  "joins k = fold effect k (\<lambda>_. False)"

fun fatal :: "stmt \<Rightarrow> (nat \<Rightarrow> bool) \<Rightarrow> bool" where
  "fatal (Destroy_Thread u) J = J u"
| "fatal _ J = False"

definition tail_body :: "stmt \<Rightarrow> bool" where
  "tail_body x \<longleftrightarrow> (case x of Spawn_Thread u b \<Rightarrow> 0 < u \<and> all_every no_thread_object b | Join_Thread u \<Rightarrow> True
     | Destroy_Thread u \<Rightarrow> True | _ \<Rightarrow> every no_thread_object x)"

definition tail_inv :: "stmt list \<Rightarrow> nat \<Rightarrow> stmt list \<Rightarrow> world \<Rightarrow> bool" where
  "tail_inv tail i l w \<longleftrightarrow> 0 < length (codes w) \<and> codes w ! 0 = l @ drop i tail \<and> i \<le> length tail \<and>
     all_every no_thread_object l \<and> joinable w = joins (take i tail) \<and>
     (crashed w \<longleftrightarrow> 0 < i \<and> fatal (tail ! (i - 1)) (joins (take (i - 1) tail))) \<and>
     (\<forall>j. Suc j < i \<longrightarrow> \<not> fatal (tail ! j) (joins (take j tail))) \<and>
     (\<forall>t. 0 < t \<and> t < length (codes w) \<longrightarrow> all_every no_thread_object (codes w ! t)) \<and> stored_every no_thread_object w"

lemma joins_Suc: "i < length tail \<Longrightarrow> joins (take (Suc i) tail) = effect (tail ! i) (joins (take i tail))"
  by (simp add: joins_def take_Suc_conv_app_nth)

lemma exec_no_thread_object:
  assumes "exec t x k w = Some w'" and "every no_thread_object x"
  shows "\<exists>k'. codes w' = (codes w)[t := k' @ k] \<and> all_every no_thread_object k' \<and> joinable w' = joinable w \<and>
    crashed w' = crashed w" and "stored_every no_thread_object w \<Longrightarrow> stored_every no_thread_object w'"
proof -
  from assms show "\<exists>k'. codes w' = (codes w)[t := k' @ k] \<and> all_every no_thread_object k' \<and> joinable w' = joinable w \<and>
    crashed w' = crashed w"
  proof (cases x)
    case (Dispatch_To c h)
    with assms show ?thesis
      by (intro exI [of _ "if Run_Ctx c \<in> set k then h else []"]) (auto split: if_splits)
  next
    case (Get_Future f ok err)
    with assms show ?thesis
      by (intro exI [of _ "if future w f = Some True then ok else err"]) (auto split: if_splits option.splits)
  qed (use assms in \<open>auto simp: no_thread_object_def split: if_splits intro!: exI [of _ "[]"]\<close>)
  from assms show "stored_every no_thread_object w \<Longrightarrow> stored_every no_thread_object w'"
    by (cases x) (auto simp: no_thread_object_def stored_every_def split: if_splits option.splits)
qed


lemma tail_main_step:
  assumes inv: "tail_inv tail i l w" and tail: "list_all tail_body tail" and step: "perform (Go 0) w = Some w'"
  shows "\<exists>i l. tail_inv tail i l w'"
proof -
  note f = inv [unfolded tail_inv_def]
  from step obtain x k where xk: "codes w ! 0 = x # k" and ex: "exec 0 x k w = Some w'" and c: "\<not> crashed w"
    by (auto simp: next_code_def split: list.splits if_splits)
  show ?thesis
  proof (cases l)
    case (Cons y l')
    with f xk have y: "y = x" "k = l' @ drop i tail" "every no_thread_object x" "all_every no_thread_object l'" by auto
    from exec_no_thread_object(1) [OF ex y(3)] obtain k' where k': "codes w' = (codes w)[0 := k' @ k]"
      "all_every no_thread_object k'" "joinable w' = joinable w" "crashed w' = crashed w" by blast
    with f y exec_no_thread_object(2) [OF ex y(3)] have "tail_inv tail i (k' @ l') w'" by (simp add: tail_inv_def)
    then show ?thesis by blast
  next
    case Nil
    with f xk have d: "drop i tail = x # k" by simp
    then have i: "i < length tail" by (metis drop_eq_Nil2 linorder_not_le list.distinct(1))
    with d have i: "i < length tail" "tail ! i = x" "drop (Suc i) tail = k"
      by (simp_all add: Cons_nth_drop_Suc [symmetric])
    then have x: "tail_body x" using tail by (auto simp: list_all_length)
    have upd: "tail_inv tail (Suc i) k' w'"
      if "codes w' ! 0 = k' @ k" "codes w' \<noteq> []" "joinable w' = effect x (joinable w)" "crashed w' \<longleftrightarrow> fatal x (joinable w)"
        "\<forall>t. 0 < t \<and> t < length (codes w') \<longrightarrow> all_every no_thread_object (codes w' ! t)" "stored_every no_thread_object w'"
        "all_every no_thread_object k'" for k'
    proof -
      have "\<not> fatal (tail ! j) (joins (take j tail))" if "j < i" for j
        using f c that by (cases "Suc j = i") auto
      with that f i joins_Suc [OF i(1)] show ?thesis by (simp add: tail_inv_def)
    qed
    have g: "\<forall>t. 0 < t \<and> t < length (codes w) \<longrightarrow> all_every no_thread_object (codes w ! t)"
      "stored_every no_thread_object w" "codes w \<noteq> []" using f by auto
    show ?thesis
    proof (cases "every no_thread_object x")
      case True
      from exec_no_thread_object(1) [OF ex True] obtain k' where k': "codes w' = (codes w)[0 := k' @ k]"
        "all_every no_thread_object k'" "joinable w' = joinable w" "crashed w' = crashed w" by blast
      moreover have "effect x J = J" "\<not> fatal x J" for J using True by (cases x; simp add: no_thread_object_def)+
      ultimately have "tail_inv tail (Suc i) k' w'"
        using g c exec_no_thread_object(2) [OF ex True] by (intro upd) simp_all
      then show ?thesis by blast
    next
      case False
      have "tail_inv tail (Suc i) [] w'"
      proof (cases x)
        case (Spawn_Thread u b)
        with x have u: "0 < u" "all_every no_thread_object b" by (auto simp: tail_body_def)
        from ex Spawn_Thread have "u < length (codes w)"
          and w': "w' = goto 0 k (goto u b (w\<lparr>joinable := (joinable w)(u := True)\<rparr>))" by (auto split: if_splits)
        with u Spawn_Thread g c show ?thesis by (intro upd) (auto simp: nth_list_update stored_every_def)
      qed (rule upd; use x ex g c False in \<open>auto simp: tail_body_def stored_every_def split: if_splits\<close>)+
      then show ?thesis by blast
    qed
  qed
qed

lemma tail_step:
  assumes inv: "tail_inv tail i l w" and tail: "list_all tail_body tail" and step: "perform d w = Some w'"
  shows "\<exists>i l. tail_inv tail i l w'"
proof (cases d)
  case (Go t)
  show ?thesis
  proof (cases t)
    case 0
    with tail_main_step [OF inv tail] step Go show ?thesis by simp
  next
    case (Suc u)
    from step Go obtain x k where xk: "t < length (codes w)" "codes w ! t = x # k" and ex: "exec t x k w = Some w'"
      by (auto split: if_splits list.splits simp: next_code_Cons)
    with inv Suc have "all_every no_thread_object (x # k)" unfolding tail_inv_def by (metis zero_less_Suc)
    then have x: "every no_thread_object x" "all_every no_thread_object k" by simp_all
    from exec_no_thread_object(1) [OF ex x(1)] obtain k' where k': "codes w' = (codes w)[t := k' @ k]"
      "all_every no_thread_object k'" "joinable w' = joinable w" "crashed w' = crashed w" by blast
    with inv x Suc xk(1) exec_no_thread_object(2) [OF ex x(1)] have "tail_inv tail i l w'"
      by (simp add: tail_inv_def nth_list_update)
    then show ?thesis by blast
  qed
next
  case (Take t j)
  from step Take obtain c k where k: "t < length (codes w)" "codes w ! t = Run_Ctx c # k" "j < length (queue w)"
    and w': "w' = goto t (snd (queue w ! j) @ End_Task c # Run_Ctx c # k)
      (w\<lparr>queue := remove_nth j (queue w), running := (running w)(c := running w c + 1)\<rparr>)"
    by (auto split: if_splits list.splits stmt.splits simp: next_code_Cons)
  have h: "all_every no_thread_object (snd (queue w ! j) @ [End_Task c])"
    using inv k(3) by (simp add: tail_inv_def stored_every_def no_thread_object_def)
  have s: "stored_every no_thread_object w'"
    using inv by (auto simp: w' tail_inv_def stored_every_def dest: in_set_remove_nth)
  show ?thesis
  proof (cases t)
    case 0
    with inv k(2) have "l @ drop i tail = Run_Ctx c # k" by (simp add: tail_inv_def)
    with inv h s 0 have "tail_inv tail i ((snd (queue w ! j) @ [End_Task c]) @ l) w'"
      by (simp add: tail_inv_def w')
    then show ?thesis by blast
  next
    case (Suc u)
    with inv k(1,2) have "all_every no_thread_object (Run_Ctx c # k)" unfolding tail_inv_def by (metis zero_less_Suc)
    with inv h s Suc k(1) have "tail_inv tail i l w'" by (simp add: tail_inv_def w' nth_list_update)
    then show ?thesis by blast
  qed
next
  case (Complete j b)
  with step obtain c ok err where p: "j < length (pending w)" "pending w ! j = (c, ok, err)"
    and w': "w' = w\<lparr>pending := remove_nth j (pending w), queue := queue w @ [(c, if b then ok else err)]\<rparr>"
    by (auto split: prod.splits if_splits)
  from p have "(c, ok, err) \<in> set (pending w)" by (metis nth_mem)
  with inv have "stored_every no_thread_object w'"
    by (auto simp: tail_inv_def stored_every_def w' dest!: in_set_remove_nth)
  with inv have "tail_inv tail i l w'" by (simp add: tail_inv_def w')
  then show ?thesis by blast
qed

lemma tail_invariant:
  assumes "execute (start_world n (l @ tail)) ds = Some w" and "all_every no_thread_object l" and "list_all tail_body tail"
  shows "\<exists>i l. tail_inv tail i l w"
proof (rule execute_invariant [OF assms(1), where I = "\<lambda>v. \<exists>i l. tail_inv tail i l v"])
  have "tail_inv tail 0 l (start_world n (l @ tail))"
    using assms(2) by (auto simp: tail_inv_def start_world_def joins_def stored_every_def nth_Cons split: nat.splits)
  then show "\<exists>i l'. tail_inv tail i l' (start_world n (l @ tail))" by blast
qed (use tail_step [OF _ assms(3)] in blast)


text \<open>The three uses: what \<open>run\<close> of the servers and of the console leaves behind.\<close>

definition server_tail :: "stmt list" where
  "server_tail = map (\<lambda>i. Spawn_Thread (Suc i) [Run_Ctx 0]) [0..<server_threads - 1] @ [Run_Ctx 0] @
     map (\<lambda>i. Destroy_Thread (Suc i)) [0..<server_threads - 1]"

lemma server_tail:
  "server_tail = [Spawn_Thread 1 [Run_Ctx 0], Spawn_Thread 2 [Run_Ctx 0], Spawn_Thread 3 [Run_Ctx 0], Run_Ctx 0,
     Destroy_Thread 1, Destroy_Thread 2, Destroy_Thread 3]"
  by code_simp

lemma tail_finished:
  assumes inv: "tail_inv tail i l w" and "codes w ! 0 = []"
  shows "i = length tail" "joinable w = joins tail"
  using assms by (auto simp: tail_inv_def)

lemma server_fatal: "fatal (server_tail ! 4) (joins (take 4 server_tail))"
  by (simp add: server_tail joins_def)

text \<open>
  C29: a server that runs its context on the threads of a local vector cannot return once it is set up: main is never
  past its end, and when \<open>run()\<close> has returned and main is about to leave the function, its next step, the destructor of
  a thread that nobody has joined, ends the whole program.
\<close>

theorem servers_cannot_return:
  assumes "all_every no_thread_object listener" and "p \<in> {https_runServer None listener, ws_runServer None listener}"
    and "execute (start_world n p) ds = Some w"
  shows "codes w ! 0 \<noteq> [] \<and>
    (\<not> crashed w \<and> codes w ! 0 = map (\<lambda>i. Destroy_Thread (Suc i)) [0..<server_threads - 1] \<longrightarrow>
      (\<exists>w'. perform (Go 0) w = Some w' \<and> crashed w'))"
proof -
  have p: "p = listener @ server_tail"
    using assms(2) by (auto simp: https_runServer_def ws_runServer_def server_tail_def)
  have t: "list_all tail_body server_tail" by (simp add: server_tail tail_body_def no_thread_object_def)
  from tail_invariant [OF assms(3) [unfolded p] assms(1) t] obtain i l where inv: "tail_inv server_tail i l w" by blast
  then have no: "\<not> 5 < i" using server_fatal by (auto simp: tail_inv_def)
  have "codes w ! 0 \<noteq> []"
    using tail_finished(1) [OF inv] no by (auto simp: server_tail)
  moreover have "\<exists>w'. perform (Go 0) w = Some w' \<and> crashed w'"
    if c: "\<not> crashed w" and m: "codes w ! 0 = map (\<lambda>i. Destroy_Thread (Suc i)) [0..<server_threads - 1]"
  proof -
    from m have d: "codes w ! 0 = [Destroy_Thread 1, Destroy_Thread 2, Destroy_Thread 3]"
      by (simp add: server_threads_def upt_rec)
    from inv d have "l @ drop i server_tail = [Destroy_Thread 1, Destroy_Thread 2, Destroy_Thread 3]"
      and "all_every no_thread_object l" by (simp_all add: tail_inv_def)
    then have "l = []" by (cases l) (auto simp: no_thread_object_def)
    with inv d have e: "drop i server_tail = [Destroy_Thread 1, Destroy_Thread 2, Destroy_Thread 3]"
      by (simp add: tail_inv_def)
    from arg_cong [OF e, of length] have "length server_tail - i = 3" by simp
    then have "i = 4" by (simp add: server_tail)
    with inv have "joinable w 1" "codes w \<noteq> []" by (simp_all add: tail_inv_def server_tail joins_def)
    with d c show ?thesis by (simp add: next_code_def)
  qed
  ultimately show ?thesis by blast
qed

theorem servers_cannot_return_witness:
  "\<exists>w. execute (start_world 3 (https_runServer None [])) [Go 0, Go 0, Go 0, Go 0] = Some w \<and>
     (\<exists>w'. perform (Go 0) w = Some w' \<and> crashed w')"
proof -
  have "map_option (\<lambda>w. (crashed w, codes w ! 0)) (execute (start_world 3 (https_runServer None [])) [Go 0, Go 0, Go 0, Go 0]) =
      Some (False, map (\<lambda>i. Destroy_Thread (Suc i)) [0..<server_threads - 1])"
    by code_simp
  then obtain w where w: "execute (start_world 3 (https_runServer None [])) [Go 0, Go 0, Go 0, Go 0] = Some w"
    and m: "\<not> crashed w" "codes w ! 0 = map (\<lambda>i. Destroy_Thread (Suc i)) [0..<server_threads - 1]" by auto
  with servers_cannot_return [of "[]", OF _ _ w] show ?thesis by auto
qed

text \<open>When the set-up throws there is no thread yet: the message is printed and the function returns.\<close>

lemma failed_setup_returns:
  "p \<in> {https_runServer (Some what) listener, ws_runServer (Some what) listener} \<Longrightarrow>
     map_option (\<lambda>w. (codes w ! 0, crashed w, shown w)) (execute (start_world n p) [Go 0]) = Some ([], False, [(0, ''Error: '' @ what)])"
  by (auto simp: https_runServer_def ws_runServer_def start_world_def next_code_def)

lemma no_effect: "all_every no_thread_object k \<Longrightarrow> fold effect k J = J"
proof (induction k arbitrary: J)
  case (Cons x k)
  then have "effect x J = J" by (cases x) (simp_all add: no_thread_object_def)
  with Cons show ?case by simp
qed simp

text \<open>
  \<open>Serial::TestAll\<close> joins its thread when \<open>run()\<close> returns, and then ends well; when \<open>run()\<close> throws, the
  joinable thread is destroyed on the way to the catch clause, which is never reached: the program is
  terminated instead of reporting the error.
\<close>

theorem serial_thread_joined:
  assumes "all_every no_thread_object service" and "all_every no_thread_object console"
    and "case thrown of None \<Rightarrow> True | Some (handlers, bang) \<Rightarrow> all_every no_thread_object handlers"
    and "execute (start_world n (serial_TestAll service console thrown)) ds = Some w"
  shows "(crashed w \<longrightarrow> thrown \<noteq> None) \<and> (codes w ! 0 = [] \<longrightarrow> thrown = None)"
proof -
  define tail where "tail = [Spawn_Thread 1 console] @
     (case thrown of None \<Rightarrow> [Run_Ctx 0, Join_Thread 1, Destroy_Thread 1]
      | Some (handlers, bang) \<Rightarrow> handlers @ [Destroy_Thread 1, Say (rowCol 24 1), Say (bang @ [CHR 0x0A])]) @
     [Say (rowCol 24 1)]"
  have p: "serial_TestAll service console thrown = service @ tail" by (simp add: serial_TestAll_def tail_def)
  have t: "list_all tail_body tail"
    using assms(2,3) by (auto simp: tail_def tail_body_def no_thread_object_def list_all_iff split: option.splits stmt.splits)
  from tail_invariant [OF assms(4) [unfolded p] assms(1) t] obtain i l where inv: "tail_inv tail i l w" by blast
  show ?thesis
  proof (cases thrown)
    case None
    with inv show ?thesis
      by (auto simp: tail_inv_def tail_def joins_def less_Suc_eq le_Suc_eq)
  next
    case (Some hb)
    obtain h bang where hb: "hb = (h, bang)" by (cases hb)
    with Some assms(3) have "all_every no_thread_object h" by simp
    then have "fatal (tail ! Suc (length h)) (joins (take (Suc (length h)) tail))"
      using Some hb by (simp add: tail_def joins_def nth_append no_effect)
    with inv have "\<not> Suc (Suc (length h)) < i" by (auto simp: tail_inv_def)
    with inv tail_finished(1) [OF inv] Some hb show ?thesis by (auto simp: tail_def)
  qed
qed

theorem serial_thread_joined_witness:
  "\<exists>w. execute (start_world 1 (serial_TestAll [] [Say ''q''] (Some ([], ''bad'')))) [Go 0, Go 0] = Some w \<and>
     codes w ! 0 \<noteq> []"
proof -
  have "execute (start_world 1 (serial_TestAll [] [Say ''q''] (Some ([], ''bad'')))) [Go 0, Go 0] \<noteq> None"
    by code_simp
  then obtain w where w: "execute (start_world 1 (serial_TestAll [] [Say ''q''] (Some ([], ''bad'')))) [Go 0, Go 0] = Some w"
    by auto
  from serial_thread_joined [OF _ _ _ w] have "codes w ! 0 \<noteq> []" by (auto simp: no_thread_object_def)
  with w(1) show ?thesis by blast
qed

end
