(* ===== verification/Typed_Handlers.thy ===== *)
theory Typed_Handlers
  imports Https_Server Beast_Clients Http_Clients Echo_Servers Ssl_Servers Web_Socket_Servers Web_Socket_Clients
begin

text \<open>
  A completion handler has the signature of one operation: \<open>on_write\<close> cannot take what \<open>async_read\<close> delivers. In
  the sources each member function that starts an operation names its handler by hand, in
  \<open>beast::bind_front_handler\<close> or a lambda. This theory shows for the asynchronous classes with one operation in flight
  at a time that the handler that waits is always one for this operation.
\<close>

section \<open>The contract\<close>

definition fits :: "('h \<Rightarrow> operation \<Rightarrow> bool) \<Rightarrow> 'h option \<Rightarrow> action list \<Rightarrow> bool" where
  "fits serves w as \<longleftrightarrow> (case w of None \<Rightarrow> True | Some h \<Rightarrow> started as \<noteq> [] \<and> serves h (last (started as)))"

locale typed_session = async_session step waiting
  for step :: "'s \<Rightarrow> 'e \<Rightarrow> 's \<times> action list" and waiting :: "'s \<Rightarrow> 'h option" +
  fixes serves :: "'h \<Rightarrow> operation \<Rightarrow> bool"
  assumes serves_started: "waiting s = Some h \<Longrightarrow> waiting (fst (step s e)) = Some k \<Longrightarrow>
      list_all (serves k) (started (snd (step s e)))"
begin

lemma fits_step:
  assumes "fits serves (waiting s) as"
  shows "fits serves (waiting (fst (step s e))) (as @ snd (step s e))"
proof (cases "waiting s")
  case None
  then show ?thesis by (simp add: idle fits_def)
next
  case (Some h)
  show ?thesis
  proof (cases "waiting (fst (step s e))")
    case (Some k)
    from \<open>waiting s = Some h\<close> Some one_operation [of s h e] have l: "length (started (snd (step s e))) = 1" by simp
    then obtain q where q: "started (snd (step s e)) = [q]" by (cases "started (snd (step s e))") auto
    with serves_started [OF \<open>waiting s = Some h\<close> Some] Some show ?thesis by (simp add: fits_def)
  qed (simp add: fits_def)
qed

lemma fits_deliver:
  "fits serves (waiting s) as \<Longrightarrow> fits serves (waiting (fst (deliver step s es))) (as @ snd (deliver step s es))"
proof (induction es arbitrary: s as)
  case Nil
  then show ?case by simp
next
  case (Cons e es)
  from Cons.IH [OF fits_step [OF Cons.prems]] show ?case by (simp add: deliver_Cons del: deliver.simps(2))
qed

end


section \<open>The operation each handler is for\<close>

fun https_serves :: "https_session_handler \<Rightarrow> operation \<Rightarrow> bool" where
  "https_serves On_Handshake op \<longleftrightarrow> op = Tls_Handshake"
| "https_serves On_Read op \<longleftrightarrow> op = Read_Message"
| "https_serves (On_Write keep) op \<longleftrightarrow> (\<exists>msg. op = Write_Response msg \<and> keep = r_keep_alive msg)"
| "https_serves On_Shutdown op \<longleftrightarrow> op = Tls_Shutdown"

interpretation https_typed: typed_session "https_session_step env" waiting https_serves for env
  by unfold_locales (auto simp: handler_defs split: https_session_handler.splits option.splits if_splits)

fun ws_serves :: "ws_handler \<Rightarrow> operation \<Rightarrow> bool" where
  "ws_serves Ws_On_Handshake op \<longleftrightarrow> op = Tls_Handshake"
| "ws_serves Ws_On_Accept op \<longleftrightarrow> (\<exists>name. op = Ws_Accept name)"
| "ws_serves Ws_On_Read op \<longleftrightarrow> op = Read_Message"
| "ws_serves Ws_On_Write op \<longleftrightarrow> (\<exists>text data. op = Ws_Write text data)"

interpretation ws_typed: typed_session "ws_step lingers agent" ws_waiting ws_serves for lingers agent
  by unfold_locales (auto simp: ws_defs split: ws_handler.splits option.splits if_splits)

fun beast_serves :: "beast_handler \<Rightarrow> operation \<Rightarrow> bool" where
  "beast_serves Beast_Clients.Resolved op \<longleftrightarrow> (\<exists>host port. op = Resolve host port)"
| "beast_serves Beast_Clients.Connected op \<longleftrightarrow> (\<exists>endpoints. op = Connect endpoints)"
| "beast_serves Beast_Clients.Written op \<longleftrightarrow> (\<exists>q. op = Write_Request q)"
| "beast_serves Beast_Clients.Message_Read op \<longleftrightarrow> op = Read_Message"
| "beast_serves Beast_Clients.In_Shutdown op \<longleftrightarrow> op = Socket_Shutdown"

interpretation beast_typed: typed_session beast_step beast_waiting beast_serves
  by unfold_locales (auto simp: beast_defs Let_def split: beast_handler.splits option.splits if_splits)

fun hc_serves :: "http_client_handler \<Rightarrow> operation \<Rightarrow> bool" where
  "hc_serves Http_Clients.Resolved op \<longleftrightarrow> (\<exists>host port. op = Resolve host port)"
| "hc_serves Http_Clients.Connected op \<longleftrightarrow> (\<exists>endpoints. op = Connect endpoints)"
| "hc_serves Http_Clients.Written op \<longleftrightarrow> (\<exists>q. op = Write_Request q)"
| "hc_serves Http_Clients.Message_Read op \<longleftrightarrow> op = Read_Message"
| "hc_serves (Http_Clients.In_Shutdown ec) op \<longleftrightarrow> op = Socket_Shutdown"

interpretation hc_typed: typed_session hc_step hc_waiting hc_serves
  by unfold_locales (auto simp: hc_defs Let_def split: http_client_handler.splits option.splits if_splits)

fun sc_serves :: "https_client_handler \<Rightarrow> operation \<Rightarrow> bool" where
  "sc_serves (In_Run host port target version) op \<longleftrightarrow> op = Set_Sni host"
| "sc_serves Https_Resolved op \<longleftrightarrow> (\<exists>host port. op = Resolve host port)"
| "sc_serves Https_Connected op \<longleftrightarrow> (\<exists>endpoints. op = Connect endpoints)"
| "sc_serves Handshaken op \<longleftrightarrow> op = Tls_Handshake"
| "sc_serves Https_Written op \<longleftrightarrow> (\<exists>q. op = Write_Request q)"
| "sc_serves Https_Message_Read op \<longleftrightarrow> op = Read_Message"
| "sc_serves Shut_Down op \<longleftrightarrow> op = Tls_Shutdown"

interpretation sc_typed: typed_session "sc_step agent" sc_waiting sc_serves for agent
  by unfold_locales (auto simp: sc_defs Let_def split: https_client_handler.splits option.splits if_splits)

fun wsc_serves :: "wsc_handler \<Rightarrow> operation \<Rightarrow> bool" where
  "wsc_serves Wsc_Resolve op \<longleftrightarrow> (\<exists>host port. op = Resolve host port)"
| "wsc_serves Wsc_Connect op \<longleftrightarrow> (\<exists>endpoints. op = Connect endpoints)"
| "wsc_serves (In_Connect port) op \<longleftrightarrow> (\<exists>name. op = Set_Sni name)"
| "wsc_serves Wsc_Ssl_Handshake op \<longleftrightarrow> op = Tls_Handshake"
| "wsc_serves Wsc_Handshake op \<longleftrightarrow> (\<exists>host target name. op = Ws_Handshake host target name)"
| "wsc_serves Wsc_Write op \<longleftrightarrow> (\<exists>text data. op = Ws_Write text data)"
| "wsc_serves Wsc_Read op \<longleftrightarrow> op = Read_Message"
| "wsc_serves Wsc_Close op \<longleftrightarrow> op = Ws_Close"

interpretation wsc_typed: typed_session "wsc_step pretty agent" wsc_waiting wsc_serves for pretty agent
  by unfold_locales
    (auto simp: wsc_step_def wsc_handlers Let_def split: wsc_handler.splits option.splits if_splits)

fun echo_serves :: "echo_handler \<Rightarrow> operation \<Rightarrow> bool" where
  "echo_serves Echo_Read op \<longleftrightarrow> op = Read_Some maxLength"
| "echo_serves Echo_Written op \<longleftrightarrow> (\<exists>data. op = Write data)"

interpretation echo_typed: typed_session "echo_step at" echo_waiting echo_serves for at
  by unfold_locales (auto simp: echo_defs split: echo_handler.splits option.splits if_splits)

fun ssl_serves :: "ssl_handler \<Rightarrow> operation \<Rightarrow> bool" where
  "ssl_serves Handle_Handshake op \<longleftrightarrow> op = Tls_Handshake"
| "ssl_serves Handle_Read op \<longleftrightarrow> op = Read_Some max_length"
| "ssl_serves Handle_Write op \<longleftrightarrow> (\<exists>data. op = Write data)"
| "ssl_serves In_Destructor op \<longleftrightarrow> op = Tls_Shutdown"

interpretation ssl_typed: typed_session ssl_step ssl_waiting ssl_serves
  by unfold_locales (auto simp: ssl_defs split: ssl_handler.splits option.splits if_splits)

fun udp_serves :: "udp_handler \<Rightarrow> operation \<Rightarrow> bool" where
  "udp_serves Udp_Received op \<longleftrightarrow> op = Receive_From maxLength"
| "udp_serves Udp_Sent op \<longleftrightarrow> (\<exists>data endpoint. op = Send_To data endpoint)"

interpretation udp_typed: typed_session "udp_step at" udp_waiting udp_serves for at
  by unfold_locales (auto simp: udp_defs split: udp_handler.splits option.splits if_splits)

text \<open>The objects that accept connections. The one of the SSL server also runs the destructor of a session whose accept failed.\<close>

fun accept_serves :: "unit \<Rightarrow> operation \<Rightarrow> bool" where
  "accept_serves h op \<longleftrightarrow> op = Accept"

interpretation https_acceptor_typed: typed_session https_listener_step accept_waiting accept_serves
  by unfold_locales (auto simp: handler_defs split: option.splits)

interpretation ws_acceptor_typed: typed_session ws_listener_step ws_accepting accept_serves
  by unfold_locales
    (auto simp: ws_listener_step_def ws_listener_on_accept_def ws_do_accept_def fail_def split: option.splits)

interpretation echo_acceptor_typed: typed_session "echo_server_step at" server_waiting accept_serves for at
  by unfold_locales
    (auto simp: echo_server_step_def echo_accept_handler_def echo_do_accept_def log_at_def split: option.splits)

fun ssl_accept_serves :: "ssl_server_handler \<Rightarrow> operation \<Rightarrow> bool" where
  "ssl_accept_serves Handle_Accept op \<longleftrightarrow> op = Accept"
| "ssl_accept_serves Deleting_Session op \<longleftrightarrow> op = Tls_Shutdown"

interpretation ssl_acceptor_typed: typed_session ssl_server_step sv_waiting ssl_accept_serves
  by unfold_locales (auto simp: ssl_server_defs split: ssl_server_handler.splits option.splits if_splits)


section \<open>Properties\<close>

text \<open>An object, from the actions that start it, over the completions that arrive.\<close>

definition life :: "('s \<Rightarrow> 'e \<Rightarrow> 's \<times> action list) \<Rightarrow> 's \<times> action list \<Rightarrow> 'e list \<Rightarrow> 's \<times> action list" where
  "life step start es = (fst (deliver step (fst start) es), snd start @ snd (deliver step (fst start) es))"

lemma accepting_objects_typed:
  "fits accept_serves (accept_waiting (fst (life https_listener_step (https_listener_run \<lparr>accept_waiting = None\<rparr>) es)))
     (snd (life https_listener_step (https_listener_run \<lparr>accept_waiting = None\<rparr>) es))"
  "fits accept_serves (ws_accepting (fst (life ws_listener_step (ws_listener_run \<lparr>ws_accepting = None\<rparr>) es)))
     (snd (life ws_listener_step (ws_listener_run \<lparr>ws_accepting = None\<rparr>) es))"
  "fits accept_serves (server_waiting (fst (life (echo_server_step at) (echo_make_server at) es)))
     (snd (life (echo_server_step at) (echo_make_server at) es))"
  "fits ssl_accept_serves (sv_waiting (fst (life ssl_server_step make_ssl_server es)))
     (snd (life ssl_server_step make_ssl_server es))"
  unfolding life_def fst_conv snd_conv
  by (rule https_acceptor_typed.fits_deliver ws_acceptor_typed.fits_deliver echo_acceptor_typed.fits_deliver
      ssl_acceptor_typed.fits_deliver;
    simp add: fits_def https_listener_run_def https_do_accept_def ws_listener_run_def ws_do_accept_def echo_make_server_def
      echo_do_accept_def log_at_def make_ssl_server_def start_accept_def)+

lemma sessions_typed:
  "fits https_serves (waiting (fst (life (https_session_step env) (https_session_run (https_make_session root)) es)))
     (snd (life (https_session_step env) (https_session_run (https_make_session root)) es))"
  "fits ws_serves (ws_waiting (fst (life (ws_step lingers agent) (ws_run ws_make_session) ws_es)))
     (snd (life (ws_step lingers agent) (ws_run ws_make_session) ws_es))"
  "fits echo_serves (echo_waiting (fst (life (echo_step at) (echo_start at echo_make_session) echo_es)))
     (snd (life (echo_step at) (echo_start at echo_make_session) echo_es))"
  "fits ssl_serves (ssl_waiting (fst (life ssl_step (ssl_start ssl_new_session) ssl_es)))
     (snd (life ssl_step (ssl_start ssl_new_session) ssl_es))"
  "fits udp_serves (udp_waiting (fst (life (udp_step at) (udp_make_server at) udp_es)))
     (snd (life (udp_step at) (udp_make_server at) udp_es))"
  unfolding life_def fst_conv snd_conv
  by (rule https_typed.fits_deliver ws_typed.fits_deliver echo_typed.fits_deliver ssl_typed.fits_deliver udp_typed.fits_deliver;
    simp add: fits_def start_defs ws_run_def ws_on_run_def echo_defs ssl_start_def udp_make_server_def udp_defs)+

text \<open>
  C25: in the five session classes of the asynchronous servers (HTTPS, WebSocket, TCP echo, SSL echo, and the UDP server)
  and the four classes that accept for them (both \<open>Listener\<close>s, the TCP echo \<open>Server\<close> and the SSL \<open>server\<close>) the handler that
  waits is one for the operation in flight, after any completions: the read handler waits for a read into the whole
  buffer, the write handler for a write, the accept handler for an accept, and the write handler of the HTTPS session
  carries the \<open>keep_alive\<close> of the very response being written. (The classes of \<open>Asio_TcpServer/main.cpp\<close> have several
  operations in flight at once and are not among them.)
\<close>

theorem server_handlers_typed:
  "(let (s, as) = life (https_session_step env) (https_session_run (https_make_session root)) es
    in fits https_serves (waiting s) as) \<and>
   (let (s, as) = life (ws_step lingers agent) (ws_run ws_make_session) ws_es in fits ws_serves (ws_waiting s) as) \<and>
   (let (s, as) = life (echo_step at) (echo_start at echo_make_session) echo_es in fits echo_serves (echo_waiting s) as) \<and>
   (let (s, as) = life ssl_step (ssl_start ssl_new_session) ssl_es in fits ssl_serves (ssl_waiting s) as) \<and>
   (let (s, as) = life (udp_step at) (udp_make_server at) udp_es in fits udp_serves (udp_waiting s) as) \<and>
   (let (l, as) = life https_listener_step (https_listener_run \<lparr>accept_waiting = None\<rparr>) ecs
    in fits accept_serves (accept_waiting l) as) \<and>
   (let (l, as) = life ws_listener_step (ws_listener_run \<lparr>ws_accepting = None\<rparr>) ecs
    in fits accept_serves (ws_accepting l) as) \<and>
   (let (v, as) = life (echo_server_step at) (echo_make_server at) ecs in fits accept_serves (server_waiting v) as) \<and>
   (let (v, as) = life ssl_server_step make_ssl_server ecs in fits ssl_accept_serves (sv_waiting v) as)"
  unfolding Let_def case_prod_beta by (intro conjI sessions_typed accepting_objects_typed)

text \<open>
  the same for the asynchronous clients of HTTP, HTTPS and WebSocket: whatever the completions, the stage of
  the protocol the object is in is the one whose operation is in flight.
\<close>

theorem client_handlers_typed:
  "(let (s, as) = life beast_step (beast_run agent host port target version beast_make_session) es
    in fits beast_serves (beast_waiting s) as) \<and>
   (let (s, as) = life hc_step (hc_run agent host port target version hc_make_session) es
    in fits hc_serves (hc_waiting s) as) \<and>
   (let (s, as) = life (sc_step agent) (sc_run host n target version sc_make_session) es
    in fits sc_serves (sc_waiting s) as) \<and>
   (let (s, as) = life (wsc_step pretty agent) (wsc_run pretty host n msg wsc_make_session) ws_es
    in fits wsc_serves (wsc_waiting s) as)"
proof -
  have "fits beast_serves (beast_waiting (fst (beast_run agent host port target version beast_make_session)))
      (snd (beast_run agent host port target version beast_make_session))"
    by (simp add: beast_run_def Let_def fits_def)
  moreover have "fits hc_serves (hc_waiting (fst (hc_run agent host port target version hc_make_session)))
      (snd (hc_run agent host port target version hc_make_session))"
    by (simp add: hc_run_def Let_def fits_def)
  moreover have "fits sc_serves (sc_waiting (fst (sc_run host n target version sc_make_session)))
      (snd (sc_run host n target version sc_make_session))"
    by (simp add: sc_run_def fits_def)
  moreover have "fits wsc_serves (wsc_waiting (fst (wsc_run pretty host n msg wsc_make_session)))
      (snd (wsc_run pretty host n msg wsc_make_session))"
    by (simp add: wsc_run_def fits_def print_line_def)
  ultimately show ?thesis
    by (simp add: life_def beast_typed.fits_deliver hc_typed.fits_deliver sc_typed.fits_deliver wsc_typed.fits_deliver)
qed

end
