(* ===== verification/Server_Refinement.thy ===== *)
theory Server_Refinement
  imports Tcp_Server
begin

text \<open>
  What the server of \<open>Asio_TcpServer/main.cpp\<close> promises, without its pool: a list of connections in the order
  they were accepted, up to \<open>MAX_SESSIONS\<close>. The array of optional sessions, the slot that is reserved before a
  connection exists, and its release and new reservation when an accept fails are shown to refine it.
\<close>

section \<open>The specification\<close>

definition next_accept :: "session list \<Rightarrow> action list" where
  "next_accept ss = (if length ss < MAX_SESSIONS then [Start Accept] else [])"

fun spec_event :: "session list \<Rightarrow> event \<Rightarrow> session list \<times> action list" where
  "spec_event ss (Accept_Done ec) =
     (if length ss < MAX_SESSIONS then
        (if is_error ec then (ss, next_accept ss)
         else let ss' = ss @ [fst (start new_session)] in (ss', snd (start new_session) @ next_accept ss'))
      else (ss, []))"
| "spec_event ss (Session_Event i e) =
     (if i < length ss then let (s, as) = session_step (ss ! i) e in (ss[i := s], as) else (ss, []))"


section \<open>The refinement\<close>

text \<open>The server that holds the connections \<open>ss\<close>: connection \<open>i\<close> is in slot \<open>i\<close>, and the next slot is reserved.\<close>

definition server_of :: "session list \<Rightarrow> server" where
  "server_of ss = (if length ss < MAX_SESSIONS
     then \<lparr>pool = map Some ss @ Some new_session # replicate (MAX_SESSIONS - Suc (length ss)) None,
           accepting = Some (length ss)\<rparr>
     else \<lparr>pool = map Some ss, accepting = None\<rparr>)"

lemma acquire_prefix:
  "acquire (map Some ss) = None"
  "acquire (map Some ss @ None # p) = Some (map Some ss @ Some new_session # p, length ss)"
  by (induction ss) simp_all

lemma do_accept_prefix:
  assumes "length ss \<le> MAX_SESSIONS"
  shows "do_accept \<lparr>pool = map Some ss @ replicate (MAX_SESSIONS - length ss) None, accepting = None\<rparr> =
     (server_of ss, next_accept ss)"
proof (cases "MAX_SESSIONS - length ss")
  case 0
  with assms acquire_prefix(1) [of ss] show ?thesis by (simp add: do_accept_def server_of_def next_accept_def)
next
  case (Suc m)
  then have "m = MAX_SESSIONS - Suc (length ss)" "length ss < MAX_SESSIONS" by simp_all
  with Suc show ?thesis by (simp add: do_accept_def acquire_prefix server_of_def next_accept_def)
qed

lemma idle_session: "session_step new_session e = (new_session, [])"
  by (cases e) (simp_all add: new_session_def)

lemma spec_event_length: "length ss \<le> MAX_SESSIONS \<Longrightarrow> length (fst (spec_event ss e)) \<le> MAX_SESSIONS"
  by (cases e) (auto simp: Let_def split: prod.split)

lemma server_event_refines:
  assumes "length ss \<le> MAX_SESSIONS"
  shows "server_event (server_of ss) e = (server_of (fst (spec_event ss e)), snd (spec_event ss e))"
proof (cases e)
  case (Session_Event i se)
  consider "i < length ss" | "i = length ss" "length ss < MAX_SESSIONS" | "i = length ss" "length ss = MAX_SESSIONS"
    | "length ss < i"
    using assms by linarith
  then show ?thesis
  proof cases
    case 1
    then show ?thesis
      by (auto simp: Session_Event with_session_def server_of_def nth_append map_update list_update_append split: prod.split)
  next
    case 2
    then show ?thesis
      by (simp add: Session_Event with_session_def server_of_def nth_append idle_session list_update_append)
  next
    case 3
    then show ?thesis by (simp add: Session_Event with_session_def server_of_def)
  next
    case 4
    then show ?thesis
      by (auto simp: Session_Event with_session_def server_of_def nth_append nth_Cons split: nat.split)
  qed
next
  case (Accept_Done ec)
  show ?thesis
  proof (cases "length ss < MAX_SESSIONS")
    case False
    with Accept_Done show ?thesis by (simp add: server_of_def)
  next
    case True
    let ?n = "MAX_SESSIONS - Suc (length ss)"
    let ?p = "map Some ss @ Some new_session # replicate ?n None"
    have s: "server_of ss = \<lparr>pool = ?p, accepting = Some (length ss)\<rparr>" using True by (simp add: server_of_def)
    have n: "Suc ?n = MAX_SESSIONS - length ss" using True by simp
    have "release (length ss) ?p = map Some ss @ replicate (MAX_SESSIONS - length ss) None"
      by (simp add: release_eq used_def nth_append list_update_append flip: n)
    moreover have "with_session (length ss) start \<lparr>pool = ?p, accepting = None\<rparr> =
      (\<lparr>pool = map Some (ss @ [fst (start new_session)]) @ replicate (MAX_SESSIONS - length (ss @ [fst (start new_session)])) None,
        accepting = None\<rparr>, snd (start new_session))"
      by (simp add: with_session_def nth_append list_update_append split: prod.split)
    ultimately show ?thesis
      using True do_accept_prefix [of ss] do_accept_prefix [of "ss @ [fst (start new_session)]"]
      by (simp add: Accept_Done s accept_handler_def Let_def)
  qed
qed

lemma deliver_refines:
  "length ss \<le> MAX_SESSIONS \<Longrightarrow> deliver server_event (server_of ss) es =
     (server_of (fst (deliver spec_event ss es)), snd (deliver spec_event ss es))"
proof (induction es arbitrary: ss)
  case Nil
  then show ?case by simp
next
  case (Cons e es)
  from Cons.IH [OF spec_event_length [OF Cons.prems], of e] show ?case
    by (simp add: deliver_Cons server_event_refines [OF Cons.prems] del: deliver.simps(2))
qed

text \<open>
  C4: the server refines the list of connections: after any completions, legal or not, its pool holds exactly
  the connections accepted so far, the \<open>k\<close>th in slot \<open>k\<close>, each in the state it reaches on its own, and its
  trace of actions is that of the specification. In particular no connection disturbs another, and an accept
  that fails leaves no trace in the pool.
\<close>

theorem server_refines_connections:
  "run es = (server_of (fst (deliver spec_event [] es)), Start Accept # snd (deliver spec_event [] es))"
proof -
  have "0 < MAX_SESSIONS" by (simp add: MAX_SESSIONS_def)
  then have "server_start new_server = (server_of [], [Start Accept])"
    using do_accept_prefix [of "[]"] by (simp add: server_start_def new_server_def new_pool_def next_accept_def)
  with deliver_refines [of "[]" es] show ?thesis by (simp add: run_def)
qed

end
