(* ===== verification/Property_Trees.thy ===== *)
theory Property_Trees
  imports Boost_Calls
begin

text \<open>
  What the program relies on of \<open>boost::property_tree\<close>. The library is a parameter, a record of the operations
  the program calls on trees of any type; \<open>documented_trees\<close> is the hypothesis that they behave as the
  documentation says, on the tree of keys and data that a library tree stands for. Paths are separated by the
  character that is given with them.
\<close>

section \<open>Trees\<close>

datatype tree = Tree string "(string \<times> tree) list"

primrec tree_data :: "tree \<Rightarrow> string" where
  "tree_data (Tree d es) = d"

primrec tree_entries :: "tree \<Rightarrow> (string \<times> tree) list" where
  "tree_entries (Tree d es) = es"

text \<open>The parts of a path; the empty path leads to the node itself.\<close>

fun split_path :: "char \<Rightarrow> string \<Rightarrow> string list" where
  "split_path sep [] = [[]]"
| "split_path sep (x # xs) =
     (if x = sep then [] # split_path sep xs
      else case split_path sep xs of [] \<Rightarrow> [[x]] | k # ks \<Rightarrow> (x # k) # ks)"

definition path_of :: "char \<Rightarrow> string \<Rightarrow> string list" where
  "path_of sep p = (if p = [] then [] else split_path sep p)"

text \<open>A key leads to the first child that has it; a missing child is created after the others.\<close>

fun tree_child :: "string list \<Rightarrow> tree \<Rightarrow> tree option" where
  "tree_child [] t = Some t"
| "tree_child (k # ks) t = (case map_of (tree_entries t) k of None \<Rightarrow> None | Some c \<Rightarrow> tree_child ks c)"

fun at_key :: "string \<Rightarrow> (tree \<Rightarrow> tree) \<Rightarrow> (string \<times> tree) list \<Rightarrow> (string \<times> tree) list" where
  "at_key k f [] = [(k, f (Tree [] []))]"
| "at_key k f ((k', c) # es) = (if k' = k then (k', f c) # es else (k', c) # at_key k f es)"

fun at_path :: "string list \<Rightarrow> (tree \<Rightarrow> tree) \<Rightarrow> tree \<Rightarrow> tree" where
  "at_path [] f t = f t"
| "at_path (k # ks) f t = Tree (tree_data t) (at_key k (at_path ks f) (tree_entries t))"

definition with_data :: "string \<Rightarrow> tree \<Rightarrow> tree" where
  "with_data v t = Tree v (tree_entries t)"

definition with_entry :: "string \<Rightarrow> tree \<Rightarrow> tree \<Rightarrow> tree" where
  "with_entry k c t = Tree (tree_data t) (tree_entries t @ [(k, c)])"


section \<open>The library\<close>

text \<open>
  \<open>t_read_int\<close> and \<open>t_read_double\<close> are the conversions of \<open>get_value<int>()\<close> and \<open>get_value<double>()\<close>; of a
  \<open>double\<close> only the text that \<open>operator<<\<close> prints is used. \<open>t_through\<close> changes the node a reference stands for.
\<close>

record 't tree_library =
  t_empty :: 't
  t_leaf :: "string \<Rightarrow> 't"
  t_put :: "char \<Rightarrow> string \<Rightarrow> string \<Rightarrow> 't \<Rightarrow> 't"
  t_put_value :: "string \<Rightarrow> 't \<Rightarrow> 't"
  t_push_back :: "string \<Rightarrow> 't \<Rightarrow> 't \<Rightarrow> 't"
  t_put_child :: "char \<Rightarrow> string \<Rightarrow> 't \<Rightarrow> 't \<Rightarrow> 't"
  t_add_child :: "char \<Rightarrow> string \<Rightarrow> 't \<Rightarrow> 't \<Rightarrow> 't"
  t_through :: "char \<Rightarrow> string \<Rightarrow> ('t \<Rightarrow> 't) \<Rightarrow> 't \<Rightarrow> 't"
  t_child :: "char \<Rightarrow> string \<Rightarrow> 't \<Rightarrow> 't option"
  t_data :: "'t \<Rightarrow> string"
  t_entries :: "'t \<Rightarrow> (string \<times> 't) list"
  t_bool_text :: "bool \<Rightarrow> string"
  t_read_int :: "string \<Rightarrow> int option"
  t_read_double :: "string \<Rightarrow> string option"
  t_write_json :: "'t \<Rightarrow> string"

definition documented_trees :: "'t tree_library \<Rightarrow> ('t \<Rightarrow> tree) \<Rightarrow> bool" where
  "documented_trees L val \<longleftrightarrow>
     val (t_empty L) = Tree [] [] \<and>
     (\<forall>d. val (t_leaf L d) = Tree d []) \<and>
     (\<forall>sep p v t. val (t_put L sep p v t) = at_path (path_of sep p) (with_data v) (val t)) \<and>
     (\<forall>v t. val (t_put_value L v t) = with_data v (val t)) \<and>
     (\<forall>k c t. val (t_push_back L k c t) = with_entry k (val c) (val t)) \<and>
     (\<forall>sep p c t. val (t_put_child L sep p c t) = at_path (path_of sep p) (\<lambda>_. val c) (val t)) \<and>
     (\<forall>sep p c t. val (t_add_child L sep p c t) =
        at_path (butlast (path_of sep p)) (with_entry (last (path_of sep p)) (val c)) (val t)) \<and>
     (\<forall>sep p f g t. (\<forall>u. val (f u) = g (val u)) \<longrightarrow> val (t_through L sep p f t) = at_path (path_of sep p) g (val t)) \<and>
     (\<forall>sep p t. map_option val (t_child L sep p t) = tree_child (path_of sep p) (val t)) \<and>
     (\<forall>t. t_data L t = tree_data (val t)) \<and>
     (\<forall>t. map (\<lambda>(k, c). (k, val c)) (t_entries L t) = tree_entries (val t)) \<and>
     t_bool_text L True = ''true'' \<and> t_bool_text L False = ''false'' \<and>
     (\<forall>n. - (2 ^ 31) \<le> n \<and> n < 2 ^ 31 \<longrightarrow> t_read_int L (show_int n) = Some n)"

lemma documented_treesD:
  assumes "documented_trees L val"
  shows "val (t_empty L) = Tree [] []" "val (t_leaf L d) = Tree d []"
    "val (t_put L sep p v t) = at_path (path_of sep p) (with_data v) (val t)"
    "val (t_put_value L v t) = with_data v (val t)"
    "val (t_push_back L k c t) = with_entry k (val c) (val t)"
    "val (t_put_child L sep p c t) = at_path (path_of sep p) (\<lambda>_. val c) (val t)"
    "val (t_add_child L sep p c t) =
       at_path (butlast (path_of sep p)) (with_entry (last (path_of sep p)) (val c)) (val t)"
    "(\<And>u. val (f u) = g (val u)) \<Longrightarrow> val (t_through L sep p f t) = at_path (path_of sep p) g (val t)"
    "map_option val (t_child L sep p t) = tree_child (path_of sep p) (val t)"
    "t_data L t = tree_data (val t)"
    "map (\<lambda>(k, c). (k, val c)) (t_entries L t) = tree_entries (val t)"
    "t_bool_text L True = ''true''" "t_bool_text L False = ''false''"
    "- (2 ^ 31) \<le> n \<Longrightarrow> n < 2 ^ 31 \<Longrightarrow> t_read_int L (show_int n) = Some n"
  using assms by (simp_all add: documented_trees_def)

text \<open>A library that satisfies the hypothesis: the trees themselves, with the integers read back from their text.\<close>

definition read_decimal :: "string \<Rightarrow> int option" where
  "read_decimal s = (case s of
     [] \<Rightarrow> None
   | c # ds \<Rightarrow> if c = CHR ''-'' then Some (- int (decimal_value ds)) else Some (int (decimal_value s)))"

definition plain_trees :: "(string \<Rightarrow> string option) \<Rightarrow> (tree \<Rightarrow> string) \<Rightarrow> tree tree_library" where
  "plain_trees read_double write = \<lparr>
     t_empty = Tree [] [], t_leaf = (\<lambda>d. Tree d []),
     t_put = (\<lambda>sep p v. at_path (path_of sep p) (with_data v)), t_put_value = with_data, t_push_back = with_entry,
     t_put_child = (\<lambda>sep p c. at_path (path_of sep p) (\<lambda>_. c)),
     t_add_child = (\<lambda>sep p c. at_path (butlast (path_of sep p)) (with_entry (last (path_of sep p)) c)),
     t_through = (\<lambda>sep p. at_path (path_of sep p)), t_child = (\<lambda>sep p. tree_child (path_of sep p)),
     t_data = tree_data, t_entries = tree_entries, t_bool_text = (\<lambda>b. if b then ''true'' else ''false''),
     t_read_int = read_decimal, t_read_double = read_double, t_write_json = write\<rparr>"

lemma read_decimal_show_int: "read_decimal (show_int n) = Some n"
proof (cases "n < 0")
  case True
  then show ?thesis by (simp add: read_decimal_def show_int_def decimal_value_to_string)
next
  case False
  have "hd (to_string m) \<noteq> CHR ''-''" for m
  proof -
    have "is_digit (hd (to_string m))" using to_string_digits [of m] hd_in_set [OF to_string_not_Nil] by blast
    then show ?thesis by (auto simp: is_digit_def)
  qed
  note minus = this [of "nat n"]
  obtain c ds where e: "to_string (nat n) = c # ds" using to_string_not_Nil by (meson neq_Nil_conv)
  with minus decimal_value_to_string [of "nat n"] have "c \<noteq> CHR ''-''" "decimal_value (c # ds) = nat n" by simp_all
  with False e show ?thesis by (simp add: read_decimal_def show_int_def)
qed

lemma plain_trees_documented: "documented_trees (plain_trees read_double write) (\<lambda>t. t)"
proof -
  have "at_path ks f t = at_path ks g t" if "\<forall>u. f u = g u" for f g :: "tree \<Rightarrow> tree" and ks t
  proof -
    from that have "f = g" by (intro ext) simp
    then show ?thesis by simp
  qed
  then show ?thesis unfolding documented_trees_def
    by (intro conjI allI impI) (simp_all add: plain_trees_def read_decimal_show_int option.map_id0 [unfolded id_def])
qed

end
