(* ===== verification/Json_Trees.thy ===== *)
theory Json_Trees
  imports Property_Trees Input_Stream
begin

text \<open>
  \<open>Json/Json.cpp\<close>: the demonstrations of \<open>boost::property_tree\<close>. The library \<open>L\<close> is the parameter of
  \<open>Property_Trees\<close>. A function is the text it prints, followed by the exception it throws or its result;
  \<open>Std_Exception\<close> names the class of the exception.
\<close>

type_synonym 'a printing = "action list \<times> (exn + 'a)"

definition and_then :: "'a printing \<Rightarrow> ('a \<Rightarrow> 'b printing) \<Rightarrow> 'b printing" where
  "and_then m f = (case m of (as, Inl e) \<Rightarrow> (as, Inl e)
     | (as, Inr a) \<Rightarrow> (case f a of (bs, r) \<Rightarrow> (as @ bs, r)))"

definition say :: "string \<Rightarrow> unit printing" where
  "say text = ([print_line text], Inr ())"

definition nothing :: "unit printing" where
  "nothing = ([], Inr ())"

text \<open>\<open>get_child\<close> and \<open>get_value\<close> of the library throw when there is no such node or value.\<close>

definition bad_path :: exn where
  "bad_path = Std_Exception ''ptree_bad_path''"

definition bad_data :: exn where
  "bad_data = Std_Exception ''ptree_bad_data''"

definition get_child :: "'t tree_library \<Rightarrow> char \<Rightarrow> string \<Rightarrow> 't \<Rightarrow> 't printing" where
  "get_child L sep p t = (case t_child L sep p t of None \<Rightarrow> ([], Inl bad_path) | Some c \<Rightarrow> ([], Inr c))"

definition value_or_throw :: "'v option \<Rightarrow> 'v printing" where
  "value_or_throw v = (case v of None \<Rightarrow> ([], Inl bad_data) | Some x \<Rightarrow> ([], Inr x))"

abbreviation dot :: char where
  "dot \<equiv> CHR ''.''"

abbreviation backslash :: char where
  "backslash \<equiv> CHR 0x5C"


section \<open>The translators\<close>

text \<open>
  \<open>std::strtol\<close> in base 10: white space, a sign, digits; without a digit nothing is consumed. A value
  that does not fit a \<open>long\<close> of 64 bits is replaced by the nearest one. The cast to \<open>int\<close> keeps 32 bits.
\<close>

definition clamp_long :: "int \<Rightarrow> int" where
  "clamp_long n = max (- (2 ^ 63)) (min (2 ^ 63 - 1) n)"

definition to_int :: "int \<Rightarrow> int" where
  "to_int n = (n + 2 ^ 31) mod 2 ^ 32 - 2 ^ 31"

definition strtol :: "string \<Rightarrow> (int \<times> string) option" where
  "strtol s = (let t = dropWhile is_space s;
       minus = (t \<noteq> [] \<and> hd t = CHR ''-'');
       r = (if t \<noteq> [] \<and> (hd t = CHR ''-'' \<or> hd t = CHR ''+'') then tl t else t);
       ds = takeWhile is_digit r; n = int (decimal_value ds)
     in if ds = [] then None else Some (clamp_long (if minus then - n else n), dropWhile is_digit r))"

definition string_to_int :: "string \<Rightarrow> int option" where
  "string_to_int s = (case strtol s of None \<Rightarrow> None | Some (l, rest) \<Rightarrow> Some (to_int l))"

text \<open>
  \<open>my_id_translator\<close>: \<open>v.substr(1, v.size() - 2)\<close> throws when the position is past the end, and the count
  is a \<open>size_t\<close>, which wraps around for a string of one character.
\<close>

definition id_get_value :: "string \<Rightarrow> exn + string option" where
  "id_get_value v = (if length v < 1 then Inl (Std_Exception ''out_of_range'')
     else let count = nat ((int (length v) - 2) mod 2 ^ 64) in Inr (Some (take count (drop 1 v))))"

definition id_put_value :: "string \<Rightarrow> string option" where
  "id_put_value v = Some (CHR 0x22 # v @ [CHR 0x22])"


section \<open>Reading\<close>

text \<open>\<open>pt\<close> is the tree that \<open>read_json\<close> has filled.\<close>

definition print_item :: "'t tree_library \<Rightarrow> string \<times> 't \<Rightarrow> string" where
  "print_item L item = CHR 0x09 # fst item @ '' '' @
     concat (map (\<lambda>node. t_data L (snd node) @ '' '') (t_entries L (snd item))) @ [newline]"

definition print_row :: "'t tree_library \<Rightarrow> string \<times> 't \<Rightarrow> string" where
  "print_row L row = fst row @ '': '' @ [newline] @ concat (map (print_item L) (t_entries L (snd row))) @ [newline]"

definition Simple_Parse :: "'t tree_library \<Rightarrow> 't \<Rightarrow> unit printing" where
  "Simple_Parse L pt = and_then (get_child L dot [] pt) (\<lambda>t.
     ([Out (concat (map (print_row L) (t_entries L t)) @ [newline])], Inr ()))"

fun parse_entries :: "'t tree_library \<Rightarrow> (string \<times> 't) list \<Rightarrow> unit printing" where
  "parse_entries L [] = nothing"
| "parse_entries L (entry # es) = and_then (value_or_throw (t_read_double L (t_data L (snd entry)))) (\<lambda>v.
     and_then (say v) (\<lambda>_. parse_entries L es))"

definition Parse :: "'t tree_library \<Rightarrow> 't \<Rightarrow> unit printing" where
  "Parse L node = parse_entries L (t_entries L node)"

fun eigen_values :: "'t tree_library \<Rightarrow> (string \<times> 't) list \<Rightarrow> unit printing" where
  "eigen_values L [] = nothing"
| "eigen_values L (v # vs) = and_then
     (if fst v = ''val'' then and_then (get_child L dot [] (snd v)) (Parse L) else nothing) (\<lambda>_. eigen_values L vs)"

fun eigen_rows :: "'t tree_library \<Rightarrow> (string \<times> 't) list \<Rightarrow> unit printing" where
  "eigen_rows L [] = nothing"
| "eigen_rows L (value # vs) = and_then
     (if fst value = ''electron''
      then and_then (get_child L dot [] (snd value)) (\<lambda>t. eigen_values L (t_entries L t)) else nothing)
     (\<lambda>_. eigen_rows L vs)"

definition Parse_EigenVector :: "'t tree_library \<Rightarrow> 't \<Rightarrow> unit printing" where
  "Parse_EigenVector L pt = and_then (get_child L dot [] pt) (\<lambda>t. eigen_rows L (t_entries L t))"


section \<open>Writing\<close>

definition fish_tree :: "'t tree_library \<Rightarrow> int \<Rightarrow> 't" where
  "fish_tree L height = (let
       root = t_put L dot ''height'' (show_int height) (t_empty L);
       root = t_put L dot ''some.complex.path'' ''bonjour'' root;
       fish1 = t_put_value L ''blue'' (t_empty L);
       fish2 = t_put_value L ''yellow'' (t_empty L);
       root = t_push_back L ''fish'' fish1 root
     in t_push_back L ''fish'' fish2 root)"

definition cout_tree :: "'t tree_library \<Rightarrow> 't" where
  "cout_tree L = (let
       root = fish_tree L 123;
       root = t_put_child L dot ''modellingData'' (t_empty L) root;
       root = t_through L dot ''modellingData'' (t_add_child L dot ''11'' (t_empty L)) root;
       root = t_through L dot ''modellingData.11'' (t_add_child L dot ''axes'' (t_empty L)) root;
       root = t_through L dot ''modellingData.11'' (t_add_child L dot ''origin'' (t_empty L)) root;
       root = t_through L dot ''modellingData.11'' (t_add_child L dot ''quaternion'' (t_empty L)) root
     in t_through L dot ''modellingData.11.axes'' (t_put L dot ''nice'' (t_bool_text L True)) root)"

definition WriteJsonTest_COUT :: "'t tree_library \<Rightarrow> action list" where
  "WriteJsonTest_COUT L = [Out (t_write_json L (cout_tree L))]"

text \<open>The path of the file and what is written into it.\<close>

definition WriteJsonTest_ToFile :: "'t tree_library \<Rightarrow> string \<times> string" where
  "WriteJsonTest_ToFile L = (''../data/out.json'', t_write_json L (fish_tree L 1223))"


section \<open>\<open>AccessingData\<close>\<close>

definition accessing_data :: "'t tree_library \<Rightarrow> unit printing" where
  "accessing_data L = (let pt = t_put L dot ''C:.Windows.System'' ''20 files'' (t_empty L) in
     and_then (get_child L dot ''C:'' pt) (\<lambda>c.
     and_then (get_child L dot ''Windows'' c) (\<lambda>windows.
     and_then (get_child L dot ''System'' windows) (\<lambda>system. say (t_data L system)))))"

definition windows_dir :: string where
  "windows_dir = ''C:'' @ [backslash] @ ''Windows''"

definition windows_path :: "string \<Rightarrow> string" where
  "windows_path name = ''C:'' @ [backslash] @ ''Windows'' @ [backslash] @ name"

fun count_files :: "'t tree_library \<Rightarrow> int \<Rightarrow> (string \<times> 't) list \<Rightarrow> int printing" where
  "count_files L files [] = ([], Inr files)"
| "count_files L files (p # ps) = and_then (value_or_throw (t_read_int L (t_data L (snd p)))) (\<lambda>n.
     and_then (say (''Path: '' @ fst p @ '', files count: '' @ show_int n)) (\<lambda>_. count_files L (files + n) ps))"

definition accessing_data2 :: "'t tree_library \<Rightarrow> unit printing" where
  "accessing_data2 L = (let
       pt = t_put L backslash (windows_path ''System'') (show_int 20) (t_empty L);
       pt = t_put L backslash (windows_path ''Cursors'') (show_int 50) pt
     in and_then (get_child L backslash windows_dir pt) (\<lambda>windows.
        and_then (count_files L 0 (t_entries L windows)) (\<lambda>files. say (show_int files))))"

definition get_translated :: "'t tree_library \<Rightarrow> (string \<Rightarrow> int option) \<Rightarrow> char \<Rightarrow> string \<Rightarrow> 't \<Rightarrow> int printing" where
  "get_translated L tr sep p t = and_then (get_child L sep p t) (\<lambda>c. value_or_throw (tr (t_data L c)))"

definition lower_path :: "string \<Rightarrow> string" where
  "lower_path name = ''c:'' @ [backslash] @ ''windows'' @ [backslash] @ name"

definition accessing_data_translator :: "'t tree_library \<Rightarrow> unit printing" where
  "accessing_data_translator L = (let
       pt = t_put L backslash (windows_path ''System'') ''20 files'' (t_empty L);
       pt = t_put L backslash (windows_path ''Cursors'') ''50 files'' pt
     in and_then (get_translated L string_to_int backslash (lower_path ''system'') pt) (\<lambda>m.
        and_then (get_translated L string_to_int backslash (lower_path ''cursors'') pt) (\<lambda>n. say (show_int (m + n)))))"

definition get_optional :: "'t tree_library \<Rightarrow> unit printing" where
  "get_optional L = (let c = map_option (t_data L) (t_child L dot ''C:'' (t_put L dot ''C:'' ''20 files'' (t_empty L)));
       d = map_option (t_data L) (t_child L dot ''C:'' (t_put L dot ''D:'' ''20 files'' (t_empty L)))
     in and_then (case c of Some v \<Rightarrow> say (''Value: '' @ v) | None \<Rightarrow> nothing) (\<lambda>_.
        case d of None \<Rightarrow> say ''Not exists'' | Some v \<Rightarrow> nothing))"

definition get_child_optional :: "'t tree_library \<Rightarrow> unit printing" where
  "get_child_optional L = (let root = t_put L dot ''C:.Windows.System'' ''Some_Secret'' (t_empty L) in
     case t_child L dot ''C:'' root of None \<Rightarrow> nothing
     | Some node \<Rightarrow> (case t_child L dot ''Windows'' node of None \<Rightarrow> nothing
       | Some windows \<Rightarrow> (case map_option (t_data L) (t_child L dot ''System'' windows) of None \<Rightarrow> nothing
         | Some sys \<Rightarrow> say (''System: '' @ sys))))"

definition bool_text :: "bool \<Rightarrow> string" where
  "bool_text b = (if b then ''true'' else ''false'')"

fun say_data :: "'t tree_library \<Rightarrow> (string \<times> 't) list \<Rightarrow> unit printing" where
  "say_data L [] = nothing"
| "say_data L (p # ps) = and_then (say (t_data L (snd p))) (\<lambda>_. say_data L ps)"

definition various_member_functions :: "'t tree_library \<Rightarrow> unit printing" where
  "various_member_functions L = (let
       root = t_put L dot ''C:.Windows.System'' ''20 files'' (t_empty L);
       c = t_child L dot ''C:'' root;
       root = t_put_child L dot ''D:.Program Files'' (t_leaf L ''50 files'') root;
       root = t_add_child L dot ''D:.Program Files'' (t_leaf L ''60 files'') root
     in and_then (say (bool_text (c \<noteq> None))) (\<lambda>_.
        and_then (get_child L dot ''D:'' root) (\<lambda>d.
        and_then (say_data L (t_entries L d)) (\<lambda>_. say (bool_text (t_child L dot ''E:'' root \<noteq> None))))))"


section \<open>What a documented library gives\<close>

lemma child_Some:
  assumes "documented_trees L val" and "tree_child (path_of sep p) (val t) = Some u"
  obtains c where "t_child L sep p t = Some c" "val c = u"
  using documented_treesD(9) [OF assms(1), of sep p t] assms(2) by (cases "t_child L sep p t") auto

lemma child_None:
  assumes "documented_trees L val" and "tree_child (path_of sep p) (val t) = None"
  shows "t_child L sep p t = None"
  using documented_treesD(9) [OF assms(1), of sep p t] assms(2) by simp

lemma and_then_simps [simp]:
  "and_then (as, Inl e) f = (as, Inl e)"
  "and_then (as, Inr a) f = (as @ fst (f a), snd (f a))"
  by (simp_all add: and_then_def split: prod.split)

lemma get_child_Some: "t_child L sep p t = Some c \<Longrightarrow> get_child L sep p t = ([], Inr c)"
  by (simp add: get_child_def)

lemma get_child_None: "t_child L sep p t = None \<Longrightarrow> get_child L sep p t = ([], Inl bad_path)"
  by (simp add: get_child_def)

lemma get_child_self:
  assumes "documented_trees L val"
  obtains c where "get_child L sep [] t = ([], Inr c)" "val c = val t"
  by (rule child_Some [OF assms, of sep "[]" t "val t"]) (auto simp: path_of_def get_child_def)

lemma entries_val:
  "documented_trees L val \<Longrightarrow> map fst (t_entries L t) = map fst (tree_entries (val t))"
  "documented_trees L val \<Longrightarrow> map (val \<circ> snd) (t_entries L t) = map snd (tree_entries (val t))"
  using documented_treesD(11) [of L val t]
  by (auto dest: arg_cong [where f = "map fst"] arg_cong [where f = "map snd"] simp: case_prod_beta comp_def)

lemma paths:
  "path_of dot ''C:.Windows.System'' = [''C:'', ''Windows'', ''System'']"
  "path_of dot ''C:'' = [''C:'']" "path_of dot ''D:'' = [''D:'']" "path_of dot ''E:'' = [''E:'']"
  "path_of dot ''Windows'' = [''Windows'']" "path_of dot ''System'' = [''System'']"
  "path_of dot ''D:.Program Files'' = [''D:'', ''Program Files'']"
  "path_of backslash (windows_path ''System'') = [''C:'', ''Windows'', ''System'']"
  "path_of backslash (windows_path ''Cursors'') = [''C:'', ''Windows'', ''Cursors'']"
  "path_of backslash windows_dir = [''C:'', ''Windows'']"
  "path_of backslash (lower_path ''system'') = [''c:'', ''windows'', ''system'']"
  by code_simp+

lemma json_paths:
  "path_of dot ''height'' = [''height'']" "path_of dot ''some.complex.path'' = [''some'', ''complex'', ''path'']"
  "path_of dot ''modellingData'' = [''modellingData'']"
  "path_of dot ''modellingData.11'' = [''modellingData'', ''11'']"
  "path_of dot ''modellingData.11.axes'' = [''modellingData'', ''11'', ''axes'']"
  "path_of dot ''11'' = [''11'']" "path_of dot ''axes'' = [''axes'']" "path_of dot ''origin'' = [''origin'']"
  "path_of dot ''quaternion'' = [''quaternion'']" "path_of dot ''nice'' = [''nice'']"
  by code_simp+


section \<open>Reading\<close>

text \<open>Conversions in order, each printed, until one fails.\<close>

definition printed_until :: "(string \<Rightarrow> string option) \<Rightarrow> string list \<Rightarrow> unit printing" where
  "printed_until conv ds = (map (\<lambda>d. print_line (the (conv d))) (takeWhile (\<lambda>d. conv d \<noteq> None) ds),
     if \<forall>d \<in> set ds. conv d \<noteq> None then Inr () else Inl bad_data)"

lemma printed_until_append:
  "printed_until conv (ds @ es) = and_then (printed_until conv ds) (\<lambda>_. printed_until conv es)"
  by (auto simp: printed_until_def takeWhile_append2 takeWhile_append1 takeWhile_eq_all_conv [THEN iffD2])

lemma printed_until_Nil [simp]: "printed_until conv [] = ([], Inr ())"
  by (simp add: printed_until_def)

lemma parse_entries_printed:
  "parse_entries L es = printed_until (t_read_double L) (map (\<lambda>e. t_data L (snd e)) es)"
  by (induction es) (auto simp: nothing_def printed_until_def say_def value_or_throw_def split: option.split)

text \<open>The data that \<open>Parse_EigenVector\<close> converts: of the entries of \<open>val\<close> in \<open>electron\<close>, all of them, in order.\<close>

definition eigen_texts :: "tree \<Rightarrow> string list" where
  "eigen_texts t = concat (map (\<lambda>(k, u). if k = ''electron''
     then concat (map (\<lambda>(k, v). if k = ''val'' then map (\<lambda>(k, e). tree_data e) (tree_entries v) else []) (tree_entries u))
     else []) (tree_entries t))"

lemma Parse_printed:
  assumes "documented_trees L val"
  shows "Parse L t = printed_until (t_read_double L) (map (\<lambda>(k, e). tree_data e) (tree_entries (val t)))"
  unfolding Parse_def parse_entries_printed documented_treesD(11) [OF assms, symmetric]
  by (simp add: documented_treesD(10) [OF assms] comp_def case_prod_beta)

lemma eigen_values_printed:
  assumes "documented_trees L val"
  shows "eigen_values L vs = printed_until (t_read_double L) (concat (map (\<lambda>(k, v).
     if k = ''val'' then map (\<lambda>(k, e). tree_data e) (tree_entries v) else []) (map (\<lambda>(k, c). (k, val c)) vs)))"
proof (induction vs)
  case Nil
  then show ?case by (simp add: nothing_def printed_until_def)
next
  case (Cons v vs)
  obtain c where "get_child L dot [] (snd v) = ([], Inr c)" "val c = val (snd v)" by (rule get_child_self [OF assms])
  with Cons Parse_printed [OF assms, of c] show ?case
    by (auto simp: printed_until_append case_prod_beta nothing_def)
qed

lemma eigen_rows_printed:
  assumes "documented_trees L val"
  shows "eigen_rows L vs = printed_until (t_read_double L) (concat (map (\<lambda>(k, u). if k = ''electron''
     then concat (map (\<lambda>(k, v). if k = ''val'' then map (\<lambda>(k, e). tree_data e) (tree_entries v) else []) (tree_entries u))
     else []) (map (\<lambda>(k, c). (k, val c)) vs)))"
proof (induction vs)
  case Nil
  then show ?case by (simp add: nothing_def printed_until_def)
next
  case (Cons v vs)
  obtain c where "get_child L dot [] (snd v) = ([], Inr c)" "val c = val (snd v)" by (rule get_child_self [OF assms])
  with Cons eigen_values_printed [OF assms, of "t_entries L c"] documented_treesD(11) [OF assms, of c] show ?case
    by (auto simp: printed_until_append case_prod_beta nothing_def)
qed


section \<open>Properties\<close>

text \<open>
  \<open>Parse_EigenVector\<close> prints the numbers under every \<open>electron.val\<close> of the document, all of them and in
  their order, and nothing else; at the first entry that is no number it throws, after printing those before.
\<close>

theorem eigen_vector_printed:
  assumes "documented_trees L val"
  shows "Parse_EigenVector L pt = (let ds = eigen_texts (val pt); conv = t_read_double L in
    (map (\<lambda>d. print_line (the (conv d))) (takeWhile (\<lambda>d. conv d \<noteq> None) ds),
     if \<exists>d \<in> set ds. conv d = None then Inl bad_data else Inr ()))"
proof -
  obtain c where c: "get_child L dot [] pt = ([], Inr c)" "val c = val pt" by (rule get_child_self [OF assms])
  have "Parse_EigenVector L pt = printed_until (t_read_double L) (eigen_texts (val pt))"
    using eigen_rows_printed [OF assms, of "t_entries L c"] documented_treesD(11) [OF assms, of c] c
    by (simp add: Parse_EigenVector_def eigen_texts_def)
  then show ?thesis by (auto simp: printed_until_def Let_def) 
qed

theorem eigen_vector_printed_witness:
  "Parse_EigenVector (plain_trees Some tree_data)
     (Tree [] [(''proton'', Tree [] []), (''electron'', Tree [] [(''val'', Tree [] [([], Tree ''0.5'' []), ([], Tree ''2'' [])])])])
   = ([print_line ''0.5'', print_line ''2''], Inr ())"
  by (subst eigen_vector_printed [OF plain_trees_documented])
    (simp add: eigen_texts_def plain_trees_def)

lemma numbers: "show_int 20 = ''20''" "show_int 50 = ''50''" "show_int 70 = ''70''"
  by code_simp+

lemma files_counted:
  assumes "documented_trees L val"
  shows "accessing_data2 L = ([print_line ''Path: System, files count: 20'', print_line ''Path: Cursors, files count: 50'',
    print_line ''70''], Inr ())"
proof -
  note d = documented_treesD [OF assms]
  let ?pt = "t_put L backslash (windows_path ''Cursors'') (show_int 50)
    (t_put L backslash (windows_path ''System'') (show_int 20) (t_empty L))"
  obtain w where w: "t_child L backslash windows_dir ?pt = Some w"
      "val w = Tree [] [(''System'', Tree (show_int 20) []), (''Cursors'', Tree (show_int 50) [])]"
    by (rule child_Some [OF assms, of backslash windows_dir ?pt]) (simp_all add: d paths with_data_def)
  from d(11) [of w] obtain a b where e: "t_entries L w = [(''System'', a), (''Cursors'', b)]"
    "val a = Tree (show_int 20) []" "val b = Tree (show_int 50) []"
    by (auto simp: w(2) map_eq_Cons_conv)
  have "count_files L 0 (t_entries L w) = ([print_line ''Path: System, files count: 20'',
      print_line ''Path: Cursors, files count: 50''], Inr 70)"
    by (simp add: e d(10) d(14) value_or_throw_def say_def) (simp add: numbers)
  then show ?thesis
    using get_child_Some [OF w(1)] by (simp add: accessing_data2_def Let_def say_def numbers)
qed

lemma data_printed:
  assumes "documented_trees L val"
  shows "accessing_data L = ([print_line ''20 files''], Inr ())"
proof -
  note d = documented_treesD [OF assms]
  note child = child_Some [OF assms]
  let ?pt = "t_put L dot ''C:.Windows.System'' ''20 files'' (t_empty L)"
  obtain c where c: "t_child L dot ''C:'' ?pt = Some c"
      "val c = Tree [] [(''Windows'', Tree [] [(''System'', Tree ''20 files'' [])])]"
    by (rule child [of dot "''C:''" ?pt]) (simp_all add: d paths with_data_def)
  obtain w where w: "t_child L dot ''Windows'' c = Some w" "val w = Tree [] [(''System'', Tree ''20 files'' [])]"
    by (rule child [of dot "''Windows''" c]) (simp_all add: paths c)
  obtain s where s: "t_child L dot ''System'' w = Some s" "val s = Tree ''20 files'' []"
    by (rule child [of dot "''System''" w]) (simp_all add: paths w)
  show ?thesis
    by (simp add: accessing_data_def Let_def get_child_Some [OF c(1)] get_child_Some [OF w(1)] get_child_Some [OF s(1)]
        say_def d(10) s(2))
qed

lemma optionals_printed:
  assumes "documented_trees L val"
  shows "get_optional L = ([print_line ''Value: 20 files'', print_line ''Not exists''], Inr ())"
    and "get_child_optional L = ([print_line ''System: Some_Secret''], Inr ())"
proof -
  note d = documented_treesD [OF assms]
  note child = child_Some [OF assms]
  have p: "path_of dot ''C:'' = [''C:'']" "path_of dot ''D:'' = [''D:'']" by (fact paths)+
  obtain a where a: "t_child L dot ''C:'' (t_put L dot ''C:'' ''20 files'' (t_empty L)) = Some a" "val a = Tree ''20 files'' []"
    by (rule child [of dot "''C:''" "t_put L dot ''C:'' ''20 files'' (t_empty L)"]) (simp_all add: d paths with_data_def)
  have "t_child L dot ''C:'' (t_put L dot ''D:'' ''20 files'' (t_empty L)) = None"
    by (rule child_None [OF assms]) (simp add: d paths with_data_def)
  with a show "get_optional L = ([print_line ''Value: 20 files'', print_line ''Not exists''], Inr ())"
    by (simp add: get_optional_def Let_def d(10) say_def)
  let ?pt = "t_put L dot ''C:.Windows.System'' ''Some_Secret'' (t_empty L)"
  obtain c where c: "t_child L dot ''C:'' ?pt = Some c"
      "val c = Tree [] [(''Windows'', Tree [] [(''System'', Tree ''Some_Secret'' [])])]"
    by (rule child [of dot "''C:''" ?pt]) (simp_all add: d paths with_data_def)
  obtain w where w: "t_child L dot ''Windows'' c = Some w" "val w = Tree [] [(''System'', Tree ''Some_Secret'' [])]"
    by (rule child [of dot "''Windows''" c]) (simp_all add: paths c)
  obtain s where s: "t_child L dot ''System'' w = Some s" "val s = Tree ''Some_Secret'' []"
    by (rule child [of dot "''System''" w]) (simp_all add: paths w)
  show "get_child_optional L = ([print_line ''System: Some_Secret''], Inr ())"
    by (simp add: get_child_optional_def c(1) w(1) s d(10) say_def)
qed

lemma members_printed:
  assumes "documented_trees L val"
  shows "various_member_functions L = ([print_line ''true'', print_line ''50 files'', print_line ''60 files'',
    print_line ''false''], Inr ())"
proof -
  note d = documented_treesD [OF assms]
  note child = child_Some [OF assms]
  let ?a = "t_put L dot ''C:.Windows.System'' ''20 files'' (t_empty L)"
  let ?b = "t_put_child L dot ''D:.Program Files'' (t_leaf L ''50 files'') ?a"
  let ?c = "t_add_child L dot ''D:.Program Files'' (t_leaf L ''60 files'') ?b"
  obtain x where x: "t_child L dot ''C:'' ?a = Some x"
    by (rule child [of dot "''C:''" ?a]) (simp_all add: d paths with_data_def)
  obtain y where y: "t_child L dot ''D:'' ?c = Some y"
      "val y = Tree [] [(''Program Files'', Tree ''50 files'' []), (''Program Files'', Tree ''60 files'' [])]"
    by (rule child [of dot "''D:''" ?c]) (simp_all add: d paths with_data_def with_entry_def)
  from d(11) [of y] obtain u v where e: "t_entries L y = [(''Program Files'', u), (''Program Files'', v)]"
    "val u = Tree ''50 files'' []" "val v = Tree ''60 files'' []"
    by (auto simp: y(2) map_eq_Cons_conv)
  have "t_child L dot ''E:'' ?c = None"
    by (rule child_None [OF assms]) (simp add: d paths with_data_def with_entry_def)
  with x y(1) e show ?thesis
    by (simp add: various_member_functions_def Let_def get_child_Some [OF y(1)] say_def nothing_def bool_text_def d(10))
qed

text \<open>
  the demonstrations of access print what their paths lead to: the data written under a path is read back
  step by step or at once, the files are summed over the children of \<open>Windows\<close> in the order they were put,
  a path that was only passed through has an empty value, and \<open>add_child\<close> adds a second child with the same key.
\<close>

theorem accessing_data_outputs:
  assumes "documented_trees L val"
  shows "accessing_data L = ([print_line ''20 files''], Inr ()) \<and>
    accessing_data2 L = ([print_line ''Path: System, files count: 20'', print_line ''Path: Cursors, files count: 50'',
      print_line ''70''], Inr ()) \<and>
    get_optional L = ([print_line ''Value: 20 files'', print_line ''Not exists''], Inr ()) \<and>
    get_child_optional L = ([print_line ''System: Some_Secret''], Inr ()) \<and>
    various_member_functions L = ([print_line ''true'', print_line ''50 files'', print_line ''60 files'',
      print_line ''false''], Inr ())"
  using data_printed [OF assms] files_counted [OF assms] optionals_printed [OF assms] members_printed [OF assms] by simp

theorem accessing_data_outputs_witness:
  "fst (accessing_data2 (plain_trees Some tree_data)) = [print_line ''Path: System, files count: 20'',
     print_line ''Path: Cursors, files count: 50'', print_line ''70'']"
  using accessing_data_outputs [OF plain_trees_documented] by (metis fst_conv)

text \<open>
  \<open>accessing_data_translator\<close> looks the files up under other keys than it has stored them: it throws at the
  first access and prints no sum, although the translator would read both values.
\<close>

theorem translator_never_used:
  assumes "documented_trees L val"
  shows "accessing_data_translator L = ([], Inl bad_path) \<and>
    string_to_int ''20 files'' = Some 20 \<and> string_to_int ''50 files'' = Some 50"
proof (intro conjI)
  let ?pt = "t_put L backslash (windows_path ''Cursors'') ''50 files''
    (t_put L backslash (windows_path ''System'') ''20 files'' (t_empty L))"
  have "t_child L backslash (lower_path ''system'') ?pt = None"
    by (rule child_None [OF assms]) (simp add: documented_treesD [OF assms] paths with_data_def)
  then show "accessing_data_translator L = ([], Inl bad_path)"
    by (simp add: accessing_data_translator_def Let_def get_translated_def get_child_None)
  show "string_to_int ''20 files'' = Some 20" "string_to_int ''50 files'' = Some 50" by code_simp+
qed

theorem translator_never_used_witness:
  "accessing_data_translator (plain_trees Some tree_data) = ([], Inl bad_path)"
  using translator_never_used [OF plain_trees_documented] by blast


lemma show_int_parts:
  "show_int n = (if n < 0 then [CHR ''-''] else []) @ to_string (nat \<bar>n\<bar>)"
  by (simp add: show_int_def)

lemma digit_not_space: "is_digit c \<Longrightarrow> \<not> is_space c \<and> c \<noteq> CHR ''-'' \<and> c \<noteq> CHR ''+''"
  by (auto simp: is_digit_def is_space_def)

lemma take_digits:
  assumes "r = [] \<or> \<not> is_digit (hd r)"
  shows "takeWhile is_digit (to_string m @ r) = to_string m" "dropWhile is_digit (to_string m @ r) = r"
  using assms to_string_digits [of m]
  by (cases r; simp add: takeWhile_append2 dropWhile_append2)+

lemma strtol_show_int:
  assumes "- (2 ^ 31) \<le> n" "n < 2 ^ 31" and "r = [] \<or> \<not> is_digit (hd r)" and "\<forall>c \<in> set sp. is_space c"
  shows "strtol (sp @ show_int n @ r) = Some (n, r)"
proof -
  obtain c ds where e: "to_string (nat \<bar>n\<bar>) = c # ds" using to_string_not_Nil by (meson neq_Nil_conv)
  then have "is_digit c" using to_string_digits [of "nat \<bar>n\<bar>"] by simp
  note c = digit_not_space [OF this]
  have m: "\<not> is_space (CHR ''-'')" by (simp add: is_space_def)
  have "dropWhile is_space (sp @ show_int n @ r) = show_int n @ r"
    using assms(4) c m e by (auto simp: dropWhile_append2 show_int_parts)
  with assms(1-3) c e take_digits [OF assms(3), of "nat \<bar>n\<bar>"] show ?thesis
    by (auto simp: strtol_def Let_def show_int_parts clamp_long_def decimal_value_to_string [of "nat \<bar>n\<bar>", unfolded e])
qed

text \<open>
  the two translators invert what is written: a number that fits an \<open>int\<close> is read back from its decimal text,
  with white space before and any other text after it, and the quotes put around a value are taken off again.
\<close>

theorem translators_roundtrip:
  assumes "- (2 ^ 31) \<le> n" "n < 2 ^ 31" and "r = [] \<or> \<not> is_digit (hd r)" and "\<forall>c \<in> set sp. is_space c"
    and "length v + 2 < 2 ^ 64"
  shows "string_to_int (sp @ show_int n @ r) = Some n \<and>
    (case id_put_value v of None \<Rightarrow> False | Some q \<Rightarrow> id_get_value q = Inr (Some v))"
proof -
  have "to_int n = n" using assms(1,2) by (simp add: to_int_def)
  moreover have "nat ((int (length v)) mod 2 ^ 64) = length v" using assms(5) by simp
  ultimately show ?thesis
    using strtol_show_int [OF assms(1-4)] by (simp add: string_to_int_def id_put_value_def id_get_value_def)
qed

theorem translators_roundtrip_witness:
  "string_to_int ('' '' @ show_int (- 42) @ '' files'') = Some (- 42)"
proof -
  have "string_to_int ('' '' @ show_int (- 42) @ '' files'') = Some (- 42) \<and>
    (case id_put_value ''x'' of None \<Rightarrow> False | Some q \<Rightarrow> id_get_value q = Inr (Some ''x''))"
    by (rule translators_roundtrip) (simp_all add: is_digit_def is_space_def)
  then show ?thesis by simp
qed

text \<open>The documents that are written.\<close>

lemma written_trees:
  assumes "documented_trees L val"
  shows "val (fish_tree L h) = Tree [] [(''height'', Tree (show_int h) []),
      (''some'', Tree [] [(''complex'', Tree [] [(''path'', Tree ''bonjour'' [])])]),
      (''fish'', Tree ''blue'' []), (''fish'', Tree ''yellow'' [])]"
    and "val (cout_tree L) = Tree [] (tree_entries (val (fish_tree L 123)) @ [(''modellingData'', Tree [] [(''11'', Tree []
      [(''axes'', Tree [] [(''nice'', Tree ''true'' [])]), (''origin'', Tree [] []), (''quaternion'', Tree [] [])])])])"
proof -
  note d = documented_treesD [OF assms]
  show f: "val (fish_tree L h) = Tree [] [(''height'', Tree (show_int h) []),
      (''some'', Tree [] [(''complex'', Tree [] [(''path'', Tree ''bonjour'' [])])]),
      (''fish'', Tree ''blue'' []), (''fish'', Tree ''yellow'' [])]" for h
    by (simp add: fish_tree_def Let_def d json_paths with_data_def with_entry_def)
  have add: "val (t_through L dot p (t_add_child L dot k (t_empty L)) t) =
      at_path (path_of dot p) (at_path (butlast (path_of dot k)) (with_entry (last (path_of dot k)) (Tree [] []))) (val t)" for p k t
    by (rule d(8)) (simp add: d)
  have nice: "val (t_through L dot p (t_put L dot k v) t) =
      at_path (path_of dot p) (at_path (path_of dot k) (with_data v)) (val t)" for p k v t
    by (rule d(8)) (simp add: d)
  show "val (cout_tree L) = Tree [] (tree_entries (val (fish_tree L 123)) @ [(''modellingData'', Tree [] [(''11'', Tree []
      [(''axes'', Tree [] [(''nice'', Tree ''true'' [])]), (''origin'', Tree [] []), (''quaternion'', Tree [] [])])])])"
    by (simp add: cout_tree_def Let_def add nice d(1,6,12) f json_paths with_data_def with_entry_def)
qed

end
