(* ===== verification/Client_Server.thy ===== *)
theory Client_Server
  imports Echo_Servers
begin

text \<open>
  A client and a server of the program on the two ends of one TCP connection. Each end is one of the models of the
  other theories, seen as the function from the completions it has received to its trace; here the completions are
  no longer arbitrary: what a read delivers are the bytes that the other end has written and that have not been read yet,
  in pieces of any size. Every operation can also fail, at any time. The theory closes the programs of
  \<open>Networking/TCPEchoServerClient.cpp\<close> and \<open>Asio/Coroutines/CoroutineApps.cpp\<close> in this way.
\<close>

section \<open>A connection\<close>

type_synonym peer = "string script \<Rightarrow> action list"

text \<open>The operation in flight: the last one started, if it is the one that no completion belongs to.\<close>

definition in_flight_op :: "peer \<Rightarrow> string script \<Rightarrow> operation option" where
  "in_flight_op P cs = (let ops = started (P cs) in if length ops = Suc (length cs) then Some (last ops) else None)"

definition bytes_sent_by :: "peer \<Rightarrow> string script \<Rightarrow> string" where
  "bytes_sent_by P cs = concat (written (P cs))"

definition bytes_received :: "string script \<Rightarrow> string" where
  "bytes_received cs = concat (map snd cs)"

text \<open>\<open>completes op unread c\<close>: operation \<open>op\<close> can complete with \<open>c\<close> when \<open>unread\<close> is on its way.\<close>

fun completes :: "operation \<Rightarrow> string \<Rightarrow> error_code \<times> string \<Rightarrow> bool" where
  "completes (Read_Some n) unread (ec, d) \<longleftrightarrow>
     (if is_error ec then d = [] else d \<noteq> [] \<and> length d \<le> n \<and> prefix d unread)"
| "completes (Read_Exactly n) unread (ec, d) \<longleftrightarrow>
     (if is_error ec then d = [] else length d = n \<and> prefix d unread)"
| "completes op unread (ec, d) \<longleftrightarrow> d = []"

text \<open>\<open>connected P Q a b\<close>: the two ends can have received the completions \<open>a\<close> and \<open>b\<close>.\<close>

inductive connected :: "peer \<Rightarrow> peer \<Rightarrow> string script \<Rightarrow> string script \<Rightarrow> bool" for P Q where
  Opened: "connected P Q [] []"
| First: "connected P Q a b \<Longrightarrow> in_flight_op P a = Some op \<Longrightarrow>
    completes op (drop (length (bytes_received a)) (bytes_sent_by Q b)) c \<Longrightarrow> connected P Q (a @ [c]) b"
| Second: "connected P Q a b \<Longrightarrow> in_flight_op Q b = Some op \<Longrightarrow>
    completes op (drop (length (bytes_received b)) (bytes_sent_by P a)) c \<Longrightarrow> connected P Q a (b @ [c])"

text \<open>Nothing can happen without a failure.\<close>

definition at_rest :: "peer \<Rightarrow> peer \<Rightarrow> string script \<Rightarrow> string script \<Rightarrow> bool" where
  "at_rest P Q a b \<longleftrightarrow>
     (\<forall>op d. in_flight_op P a = Some op \<longrightarrow> \<not> completes op (drop (length (bytes_received a)) (bytes_sent_by Q b)) (Success, d)) \<and>
     (\<forall>op d. in_flight_op Q b = Some op \<longrightarrow> \<not> completes op (drop (length (bytes_received b)) (bytes_sent_by P a)) (Success, d))"

definition no_failures :: "string script \<Rightarrow> bool" where
  "no_failures cs \<longleftrightarrow> (\<forall>c \<in> set cs. \<not> is_error (fst c))"

lemma bytes_received_snoc [simp]: "bytes_received (cs @ [c]) = bytes_received cs @ snd c"
  by (simp add: bytes_received_def)

lemma completes_prefix: "completes op unread c \<Longrightarrow> prefix (snd c) unread"
  by (cases c) (cases op; auto split: if_splits)

lemma prefix_drop: "prefix xs ys \<Longrightarrow> prefix zs (drop (length xs) ys) \<Longrightarrow> prefix (xs @ zs) ys"
  by (auto simp: prefix_def)

text \<open>What an end has received is a prefix of what the other end has sent.\<close>

definition grows :: "peer \<Rightarrow> bool" where
  "grows P \<longleftrightarrow> (\<forall>cs c. prefix (bytes_sent_by P cs) (bytes_sent_by P (cs @ [c])))"

lemma received_prefix:
  assumes "connected P Q a b" and "grows P" and "grows Q"
  shows "prefix (bytes_received a) (bytes_sent_by Q b) \<and> prefix (bytes_received b) (bytes_sent_by P a)"
  using assms(1)
proof (induction rule: connected.induct)
  case Opened
  then show ?case by (simp add: bytes_received_def)
next
  case (First a b op c)
  have "prefix (bytes_sent_by P a) (bytes_sent_by P (a @ [c]))" using assms(2) unfolding grows_def by blast
  then show ?case using First.IH completes_prefix [OF First.hyps(3)]
    by (auto intro: prefix_drop prefix_order.trans)
next
  case (Second a b op c)
  have "prefix (bytes_sent_by Q b) (bytes_sent_by Q (b @ [c]))" using assms(3) unfolding grows_def by blast
  then show ?case using Second.IH completes_prefix [OF Second.hyps(3)]
    by (auto intro: prefix_drop prefix_order.trans)
qed


section \<open>An echo server on one end\<close>

text \<open>The operations of an echo session with a buffer of \<open>n\<close> bytes.\<close>

fun echo_ops :: "nat \<Rightarrow> bool \<Rightarrow> string \<Rightarrow> (error_code \<times> string) list \<Rightarrow> operation list" where
  "echo_ops n True d [] = [Read_Some n]"
| "echo_ops n False d [] = [Write d]"
| "echo_ops n True d ((ec, x) # cs) = Read_Some n # (if is_error ec then [] else echo_ops n False x cs)"
| "echo_ops n False d ((ec, x) # cs) = Write d # (if is_error ec then [] else echo_ops n True [] cs)"

fun writes_of :: "operation list \<Rightarrow> string list" where
  "writes_of [] = []"
| "writes_of (Write d # ops) = d # writes_of ops"
| "writes_of (op # ops) = writes_of ops"

lemma written_started: "written as = writes_of (started as)"
  by (induction as rule: written.induct) auto

lemma writes_of_echo_ops:
  "writes_of (echo_ops n reading d cs) = (if reading then [] else [d]) @ echoed reading cs"
  by (induction n reading d cs rule: echo_ops.induct) auto

lemma echo_ops_snoc:
  "length (echo_ops n reading d cs) = Suc (length cs) \<Longrightarrow>
     last (echo_ops n reading d cs) = Read_Some n \<and>
       echoed reading (cs @ [c]) = echoed reading cs @ (if is_error (fst c) then [] else [snd c]) \<or>
     (\<exists>w. last (echo_ops n reading d cs) = Write w) \<and> echoed reading (cs @ [c]) = echoed reading cs"
  by (induction n reading d cs rule: echo_ops.induct) (cases c; auto split: if_splits)+

lemma echo_ops_full: "no_failures cs \<Longrightarrow> length (echo_ops n reading d cs) = Suc (length cs)"
  by (induction n reading d cs rule: echo_ops.induct) (auto simp: no_failures_def)

lemma echo_ops_no_failures: "length (echo_ops n reading d cs) = Suc (length cs) \<Longrightarrow> no_failures cs"
  by (induction n reading d cs rule: echo_ops.induct) (auto simp: no_failures_def split: if_splits)

lemma echoed_snoc_grows: "\<exists>ds. echoed reading (cs @ [c]) = echoed reading cs @ ds"
  by (induction reading cs rule: echoed.induct) (cases c; cases reading; auto)+

text \<open>An end that makes the calls of an echo session, and what it promises to the other end.\<close>

definition echo_peer :: "nat \<Rightarrow> peer \<Rightarrow> bool" where
  "echo_peer n Q \<longleftrightarrow> 0 < n \<and> (\<forall>cs. started (Q cs) = echo_ops n True [] cs)"

lemma echo_peer_sent: "echo_peer n Q \<Longrightarrow> bytes_sent_by Q cs = concat (echoed True cs)"
  by (simp add: echo_peer_def bytes_sent_by_def written_started writes_of_echo_ops)

lemma echo_peer_grows: "echo_peer n Q \<Longrightarrow> grows Q"
  unfolding grows_def using echoed_snoc_grows [of True] by (metis echo_peer_sent concat_append prefixI)

lemma echo_peer_in_flight:
  assumes "echo_peer n Q" and "in_flight_op Q b = Some op"
  shows "no_failures b"
    and "op = Read_Some n \<and> bytes_sent_by Q (b @ [c]) = bytes_sent_by Q b @ (if is_error (fst c) then [] else snd c) \<or>
     (\<exists>w. op = Write w) \<and> bytes_sent_by Q (b @ [c]) = bytes_sent_by Q b"
proof -
  have "started (Q b) = echo_ops n True [] b" using assms(1) by (simp add: echo_peer_def)
  with assms(2) have "length (echo_ops n True [] b) = Suc (length b)" "op = last (echo_ops n True [] b)"
    by (auto simp: in_flight_op_def Let_def split: if_splits)
  with echo_ops_snoc [of n True "[]" b c] echo_ops_no_failures [of n True "[]" b]
  show "no_failures b" "op = Read_Some n \<and> bytes_sent_by Q (b @ [c]) = bytes_sent_by Q b @ (if is_error (fst c) then [] else snd c) \<or>
     (\<exists>w. op = Write w) \<and> bytes_sent_by Q (b @ [c]) = bytes_sent_by Q b"
    by (auto simp: echo_peer_sent [OF assms(1)])
qed

lemma echo_peer_sends:
  assumes "connected P Q a b" and "echo_peer n Q"
  shows "prefix (bytes_sent_by Q b) (bytes_received b) \<and> (no_failures b \<longrightarrow> bytes_sent_by Q b = bytes_received b)"
  using assms(1)
proof (induction rule: connected.induct)
  case Opened
  show ?case by (simp add: echo_peer_sent [OF assms(2)] bytes_received_def)
next
  case (Second a b op c)
  obtain ec d where c: "c = (ec, d)" by (cases c)
  from echo_peer_in_flight(1) [OF assms(2) Second.hyps(2)] echo_peer_in_flight(2) [OF assms(2) Second.hyps(2), of c]
    Second.hyps(3) Second.IH show ?case
    by (auto simp: c no_failures_def split: if_splits)
qed

text \<open>What a client gets back is always a prefix of what it has sent.\<close>

lemma echo_reply:
  assumes "connected P Q a b" and "grows P" and "echo_peer n Q"
  shows "prefix (bytes_received a) (bytes_sent_by P a)"
  using received_prefix [OF assms(1,2) echo_peer_grows [OF assms(3)]] echo_peer_sends [OF assms(1,3)]
  by (meson prefix_order.trans)

text \<open>When nothing has failed and nothing can happen, the server has written back everything.\<close>

lemma echo_at_rest:
  assumes "connected P Q a b" and "grows P" and "echo_peer n Q" and "at_rest P Q a b" and "no_failures b"
  shows "bytes_sent_by Q b = bytes_sent_by P a"
proof -
  let ?unread = "drop (length (bytes_received b)) (bytes_sent_by P a)"
  have s: "started (Q b) = echo_ops n True [] b" and n: "0 < n" using assms(3) by (simp_all add: echo_peer_def)
  then obtain op where op: "in_flight_op Q b = Some op"
    using echo_ops_full [OF assms(5), of n True "[]"] by (simp add: in_flight_op_def)
  have no: "\<not> completes op ?unread (Success, d)" for d using assms(4) op by (simp add: at_rest_def)
  from echo_peer_in_flight(2) [OF assms(3) op, of "(Success, [])"] no [of "[]"] have "op = Read_Some n" by auto
  with no [of "take 1 ?unread"] n have "?unread = []" by (cases ?unread) (auto simp: take_is_prefix)
  moreover have "prefix (bytes_received b) (bytes_sent_by P a)"
    using received_prefix [OF assms(1,2) echo_peer_grows [OF assms(3)]] by blast
  ultimately have "bytes_received b = bytes_sent_by P a" by (auto simp: prefix_def)
  with echo_peer_sends [OF assms(1,3)] assms(5) show ?thesis by simp
qed

text \<open>Each round trip of an echo session delivers at least one byte, so an exchange of finitely many bytes is finite.\<close>

lemma echo_ops_parity:
  "length (echo_ops n reading d cs) = Suc (length cs) \<Longrightarrow>
     last (echo_ops n reading d cs) = Read_Some n \<longleftrightarrow> even (length cs) = reading"
  by (induction n reading d cs rule: echo_ops.induct) (auto split: if_splits)

lemma echo_peer_rounds:
  assumes "connected P Q a b" and "echo_peer n Q"
  shows "length b \<le> 2 * length (bytes_received b) + 1 \<and>
    (no_failures b \<longrightarrow> length b \<le> 2 * length (bytes_received b))"
  using assms(1)
proof (induction rule: connected.induct)
  case (Second a b op c)
  obtain ec d where c: "c = (ec, d)" by (cases c)
  have s: "started (Q b) = echo_ops n True [] b" using assms(2) by (simp add: echo_peer_def)
  with Second.hyps(2) have l: "length (echo_ops n True [] b) = Suc (length b)" "op = last (echo_ops n True [] b)"
    by (auto simp: in_flight_op_def Let_def split: if_splits)
  from echo_peer_in_flight(1) [OF assms(2) Second.hyps(2)] Second.IH have ih: "length b \<le> 2 * length (bytes_received b)" by simp
  show ?case
  proof (cases "op = Read_Some n")
    case True
    with ih Second.hyps(3) c show ?thesis by (cases d) (auto simp: no_failures_def split: if_splits)
  next
    case False
    with echo_ops_parity [OF l(1)] l(2) have "odd (length b)" by simp
    with ih have "length b < 2 * length (bytes_received b)" by (metis dvd_triv_left le_neq_implies_less)
    then show ?thesis using c by simp
  qed
qed simp

text \<open>Every completion of the first end belongs to an operation that was in flight.\<close>

lemma completions_belong:
  assumes "connected P Q a b" and "i < length a"
  shows "\<exists>op u. in_flight_op P (take i a) = Some op \<and> completes op u (a ! i)"
  using assms
proof (induction rule: connected.induct)
  case (First a b op c)
  then show ?case by (cases "i < length a") (auto simp: nth_append less_Suc_eq)
qed auto


section \<open>The echo servers of the program\<close>

definition tcp_session :: "(string \<Rightarrow> string) \<Rightarrow> peer" where
  "tcp_session at cs = (let (s, as) = echo_start at echo_make_session in as @ snd (deliver (echo_step at) s cs))"

lemma echo_step_simps:
  "echo_waiting s = Some Echo_Read \<Longrightarrow> \<not> is_error ec \<Longrightarrow>
     started (snd (echo_step at s (ec, d))) = [Write d] \<and> echo_waiting (fst (echo_step at s (ec, d))) = Some Echo_Written"
  "echo_waiting s = Some Echo_Written \<Longrightarrow> \<not> is_error ec \<Longrightarrow>
     started (snd (echo_step at s (ec, d))) = [Read_Some maxLength] \<and> echo_waiting (fst (echo_step at s (ec, d))) = Some Echo_Read"
  "echo_waiting s = Some h \<Longrightarrow> is_error ec \<Longrightarrow>
     started (snd (echo_step at s (ec, d))) = [] \<and> echo_waiting (fst (echo_step at s (ec, d))) = None"
  by (auto simp: echo_defs split: echo_handler.splits)

lemma tcp_session_ops_from:
  "echo_waiting s = Some (if reading then Echo_Read else Echo_Written) \<Longrightarrow>
     (if reading then Read_Some maxLength else Write x) # started (snd (deliver (echo_step at) s cs)) =
     echo_ops maxLength reading x cs"
proof (induction maxLength reading x cs arbitrary: s rule: echo_ops.induct)
  case (3 d ec x cs)
  then show ?case
    by (cases "is_error ec")
      (simp_all add: deliver_Cons echo_step_simps tcp_echo.deliver_idle del: deliver.simps(2))
next
  case (4 d ec x cs)
  then show ?case
    by (cases "is_error ec")
      (simp_all add: deliver_Cons echo_step_simps tcp_echo.deliver_idle del: deliver.simps(2))
qed simp_all

lemma tcp_session_peer: "echo_peer 1024 (tcp_session at)"
proof -
  have "started (tcp_session at cs) = echo_ops maxLength True [] cs" for cs
    using tcp_session_ops_from [of "fst (echo_start at echo_make_session)" True "[]" at cs]
    by (simp add: tcp_session_def echo_start_def echo_do_read_def log_at_def split: prod.split)
  then show ?thesis by (simp add: echo_peer_def maxLength_def)
qed

lemma echo_loop_ops:
  assumes "\<And>d. started (prints d) = []"
  shows "started (fst (io_loop (echo_round n prints) () cs)) = echo_ops n True [] cs"
proof (induction "length cs" arbitrary: cs rule: less_induct)
  case less
  have unfold: "io_loop (echo_round n prints) () cs = io_bind (echo_round n prints ())
      (\<lambda>r. case r of Inl v' \<Rightarrow> io_loop (echo_round n prints) v' | Inr a \<Rightarrow> io_return a) cs"
    by (rule io_loop_unfold [OF echo_round_calls])
  consider "cs = []" | c where "cs = [c]" | c c' cs' where "cs = c # c' # cs'"
    by (metis list.exhaust)
  then show ?case
  proof cases
    case 3
    with less [of cs'] show ?thesis unfolding unfold using assms
      by (cases c; cases c') (auto simp: io_bind.simps echo_round_simps split: prod.split)
  next
    case 1
    then show ?thesis unfolding unfold by (simp add: io_bind.simps echo_round_simps)
  next
    case 2
    then show ?thesis unfolding unfold using assms
      by (cases c) (auto simp: io_bind.simps echo_round_simps split: prod.split)
  qed
qed

lemma coroutine_peers:
  "echo_peer 1024 (\<lambda>cs. fst (accept_server_echo cs))" "echo_peer 1024 (\<lambda>cs. fst (echo_one_session cs))"
  "echo_peer 128 (\<lambda>cs. fst (refactor_echo cs))"
proof -
  show "echo_peer 1024 (\<lambda>cs. fst (accept_server_echo cs))"
    using echo_loop_ops [of "\<lambda>_. []" 1024]
    by (auto simp: echo_peer_def accept_server_echo_def io_seq_emit io_catch_parts io_emit_def split: outcome.split)
  show "echo_peer 1024 (\<lambda>cs. fst (echo_one_session cs))"
    using echo_loop_ops [of "\<lambda>bytes. [print_line (''session: '' @ to_string (length bytes) @ '' bytes read'')]" 1024]
    by (auto simp: echo_peer_def echo_one_session_def catch_system_error_def io_catch_parts io_emit_def io_throw_def
        report_error_def split: outcome.split exn.split)
  show "echo_peer 128 (\<lambda>cs. fst (refactor_echo cs))"
    using echo_loop_ops [of "\<lambda>bytes. [print_line (to_string (length bytes) @ '' bytes received'')]" 128]
    by (auto simp: echo_peer_def refactor_echo_def echo_once_is_echo_round io_catch_parts io_emit_def split: outcome.split)
qed

text \<open>The servers of the two files, with the text that \<open>log\<close> prints.\<close>

definition echo_server_peers :: "(string \<Rightarrow> string) \<Rightarrow> peer list" where
  "echo_server_peers at = [tcp_session at, \<lambda>cs. fst (accept_server_echo cs), \<lambda>cs. fst (echo_one_session cs),
     \<lambda>cs. fst (refactor_echo cs)]"

lemma echo_server_peers: "Q \<in> set (echo_server_peers at) \<Longrightarrow> \<exists>n. echo_peer n Q"
  using tcp_session_peer coroutine_peers by (auto simp: echo_server_peers_def)


section \<open>The client\<close>

abbreviation client_trace :: peer where
  "client_trace cs \<equiv> fst (tcp_client cs)"

fun client_ops :: "(error_code \<times> string) list \<Rightarrow> operation list" where
  "client_ops [] = [Resolve ''0.0.0.0'' (to_string 52525)]"
| "client_ops [(ec, d)] = Resolve ''0.0.0.0'' (to_string 52525) # (if is_error ec then [] else [Connect d])"
| "client_ops [(ec, d), (ec', d')] = Resolve ''0.0.0.0'' (to_string 52525) # (if is_error ec then [] else
     Connect d # (if is_error ec' then [] else [Write ''TEST_DATA'']))"
| "client_ops ((ec, d) # (ec', d') # (ec'', d'') # cs) = Resolve ''0.0.0.0'' (to_string 52525) # (if is_error ec then [] else
     Connect d # (if is_error ec' then [] else Write ''TEST_DATA'' # (if is_error ec'' then [] else [Read_Exactly 9])))"

lemma client_shapes:
  obtains "cs = []" | c where "cs = [c]" | c d where "cs = [c, d]" | c d e where "cs = [c, d, e]"
    | c d e f gs where "cs = c # d # e # f # gs"
  by (metis list.exhaust)

lemma numeral_4_eq_4: "(4::nat) = Suc (Suc (Suc (Suc 0)))"
  by simp

lemmas small_numerals = numeral_2_eq_2 numeral_3_eq_3 numeral_4_eq_4

lemma client_started: "started (client_trace cs) = client_ops cs"
proof (cases rule: client_shapes [of cs])
  case (4 c d e)
  then show ?thesis
    by (cases c; cases d; cases e) (simp add: tcp_client_def io_catch_parts io_simps)
next
  case (5 c d e f gs)
  then show ?thesis
    by (cases c; cases d; cases e; cases f) (simp add: tcp_client_def io_catch_parts io_simps)
next
  case (3 c d)
  then show ?thesis by (cases c; cases d) (simp add: tcp_client_def io_catch_parts io_simps)
next
  case (2 c)
  then show ?thesis by (cases c) (simp add: tcp_client_def io_catch_parts io_simps)
qed (simp add: tcp_client_def io_catch_parts io_simps)

lemma client_printed: "printed (client_trace cs) =
    (if 4 \<le> length cs \<and> no_failures (take 4 cs) then ''Reply is: '' @ snd (cs ! 3) @ [CHR 0x0A] else [])"
proof (cases rule: client_shapes [of cs])
  case (4 c d e)
  then show ?thesis
    by (cases c; cases d; cases e) (simp add: tcp_client_def io_catch_parts io_simps)
next
  case (5 c d e f gs)
  then show ?thesis
    by (cases c; cases d; cases e; cases f)
      (simp add: tcp_client_def io_catch_parts io_simps no_failures_def small_numerals)
next
  case (3 c d)
  then show ?thesis by (cases c; cases d) (simp add: tcp_client_def io_catch_parts io_simps)
next
  case (2 c)
  then show ?thesis by (cases c) (simp add: tcp_client_def io_catch_parts io_simps)
qed (simp add: tcp_client_def io_catch_parts io_simps)

lemma client_in_flight:
  "in_flight_op client_trace cs = Some op \<Longrightarrow> no_failures cs \<and>
     op = [Resolve ''0.0.0.0'' (to_string 52525), Connect (snd (hd cs)), Write ''TEST_DATA'', Read_Exactly 9] ! length cs \<and> length cs < 4"
  by (cases rule: client_shapes [of cs])
    (auto simp: in_flight_op_def client_started no_failures_def small_numerals split: if_splits)

lemma client_sent: "bytes_sent_by client_trace cs = (if 2 \<le> length cs \<and> no_failures (take 2 cs) then ''TEST_DATA'' else [])"
  by (cases rule: client_shapes [of cs])
    (auto simp: bytes_sent_by_def written_started client_started no_failures_def small_numerals split: if_splits)

lemma client_grows: "grows client_trace"
  by (auto simp: grows_def client_sent)

lemma client_finishes:
  assumes "no_failures cs" and "length cs < 4"
  shows "\<exists>op. in_flight_op client_trace cs = Some op"
  using assms by (cases rule: client_shapes [of cs]) (auto simp: in_flight_op_def client_started no_failures_def)

text \<open>Only the read delivers bytes.\<close>

lemma client_received:
  assumes "connected client_trace Q a b"
  shows "length a \<le> 4 \<and> bytes_received a = (if length a = 4 then snd (a ! 3) else []) \<and>
    (length a = 4 \<and> no_failures a \<longrightarrow> length (snd (a ! 3)) = 9)"
  using assms
proof (induction rule: connected.induct)
  case Opened
  then show ?case by (simp add: bytes_received_def)
next
  case (First a b op c)
  obtain ec d where c: "c = (ec, d)" by (cases c)
  from client_in_flight [OF First.hyps(2)] have l: "length a < 4"
    and op: "op = [Resolve ''0.0.0.0'' (to_string 52525), Connect (snd (hd a)), Write ''TEST_DATA'', Read_Exactly 9] ! length a"
    by auto
  show ?case
  proof (cases "length a = 3")
    case True
    then show ?thesis using First.IH First.hyps(3) op c
      by (auto simp: nth_append no_failures_def split: if_splits)
  next
    case False
    with l have "length a = 0 \<or> length a = 1 \<or> length a = 2" by linarith
    then have "d = []" using First.hyps(3) op c by auto
    with False l First.IH c show ?thesis by auto
  qed
qed simp

lemma reply_is_request:
  assumes "connected client_trace Q a b" and "Q \<in> set (echo_server_peers at)"
  shows "printed (client_trace a) \<in> {[], ''Reply is: TEST_DATA'' @ [CHR 0x0A]}"
proof (cases "4 \<le> length a \<and> no_failures (take 4 a)")
  case True
  with client_received [OF assms(1)] have l: "length a = 4" "no_failures a" "bytes_received a = snd (a ! 3)"
    "length (snd (a ! 3)) = 9" by auto
  obtain n where "echo_peer n Q" using echo_server_peers [OF assms(2)] by blast
  from echo_reply [OF assms(1) client_grows this] l True have "prefix (snd (a ! 3)) ''TEST_DATA''"
    by (auto simp: client_sent split: if_splits)
  then have "snd (a ! 3) = take 9 ''TEST_DATA''" using l(4) by (metis append_eq_conv_conj prefix_def)
  then have "snd (a ! 3) = ''TEST_DATA''" by simp
  with True show ?thesis by (simp add: client_printed)
qed (simp only: client_printed, simp)

text \<open>
  C7: the client and each of the echo servers of the program work together: however the network cuts the bytes into
  pieces, whatever the order of the completions at the two ends and whatever fails at any time, the client never
  prints anything but \<open>Reply is: TEST_DATA\<close>, and prints it at most once.
\<close>

theorem client_prints_its_request:
  assumes "connected client_trace Q a b" and "Q \<in> set (echo_server_peers at)"
  shows "printed (client_trace a) \<in> {[], ''Reply is: TEST_DATA'' @ [CHR 0x0A]}"
  by (rule reply_is_request [OF assms])

text \<open>The message cut into two pieces, and sent back in one.\<close>

abbreviation client_example :: "string script" where
  "client_example \<equiv> [(Success, []), (Success, []), (Success, []), (Success, ''TEST_DATA'')]"

abbreviation server_example :: "string script" where
  "server_example \<equiv> [(Success, ''TEST''), (Success, []), (Success, ''_DATA''), (Success, [])]"

lemma example_run: "connected client_trace (\<lambda>cs. fst (refactor_echo cs)) client_example server_example"
proof -
  let ?Q = "\<lambda>cs. fst (refactor_echo cs)"
  have q: "started (?Q cs) = echo_ops 128 True [] cs" for cs using coroutine_peers(3) by (simp add: echo_peer_def)
  note run = in_flight_op_def client_started q bytes_sent_by_def written_started bytes_received_def
  have "connected client_trace ?Q [(Success, [])] []"
    using First [OF Opened, of client_trace _ ?Q "(Success, [])"] by (simp add: run)
  from First [OF this, of _ "(Success, [])"] have "connected client_trace ?Q [(Success, []), (Success, [])] []"
    by (simp add: run)
  from First [OF this, of _ "(Success, [])"] have c3: "connected client_trace ?Q [(Success, []), (Success, []), (Success, [])] []"
    by (simp add: run)
  from Second [OF this, of _ "(Success, ''TEST'')"]
  have "connected client_trace ?Q [(Success, []), (Success, []), (Success, [])] [(Success, ''TEST'')]" by (simp add: run)
  from Second [OF this, of _ "(Success, [])"]
  have "connected client_trace ?Q [(Success, []), (Success, []), (Success, [])] [(Success, ''TEST''), (Success, [])]"
    by (simp add: run)
  from Second [OF this, of _ "(Success, ''_DATA'')"]
  have "connected client_trace ?Q [(Success, []), (Success, []), (Success, [])] [(Success, ''TEST''), (Success, []), (Success, ''_DATA'')]"
    by (simp add: run)
  from Second [OF this, of _ "(Success, [])"]
  have "connected client_trace ?Q [(Success, []), (Success, []), (Success, [])] server_example" by (simp add: run)
  from First [OF this, of _ "(Success, ''TEST_DATA'')"] show ?thesis by (simp add: run)
qed

theorem client_prints_its_request_witness:
  "connected client_trace (\<lambda>cs. fst (refactor_echo cs)) client_example server_example \<and>
   printed (client_trace client_example) \<in> {[], ''Reply is: TEST_DATA'' @ [CHR 0x0A]}"
  using client_prints_its_request [OF example_run, of id] example_run by (simp add: echo_server_peers_def)

text \<open>
  \<open>AcceptServer::Test\<close> is the exception among the servers: it never runs its \<open>io_context\<close>, so the coroutine it starts
  for a connection stays queued. The others serve their connections.
\<close>

definition served_echo_peers :: "(string \<Rightarrow> string) \<Rightarrow> peer list" where
  "served_echo_peers at = [tcp_session at, \<lambda>cs. fst (echo_one_session cs), \<lambda>cs. fst (refactor_echo cs)]"

lemma served_echo_peers: "Q \<in> set (served_echo_peers at) \<Longrightarrow> Q \<in> set (echo_server_peers at)"
  by (auto simp: served_echo_peers_def echo_server_peers_def)

text \<open>
  C8: with a server that runs its sessions, which are \<open>Server\<close>, \<open>EchoServer_One\<close> and \<open>EchoServer_Refactor\<close>, client and
  server do not get stuck: when nothing has failed and no operation of either end can complete any more, the client has
  ended with its reply on the screen.
\<close>

theorem client_gets_its_reply:
  assumes "connected client_trace Q a b" and "Q \<in> set (served_echo_peers at)"
    and "no_failures a" and "no_failures b" and "at_rest client_trace Q a b"
  shows "printed (client_trace a) = ''Reply is: TEST_DATA'' @ [CHR 0x0A] \<and> in_flight_op client_trace a = None"
proof -
  note Q = served_echo_peers [OF assms(2)]
  obtain n where n: "echo_peer n Q" using echo_server_peers [OF Q] by blast
  note r = client_received [OF assms(1)]
  have "\<not> length a < 4"
  proof
    assume l: "length a < 4"
    from client_finishes [OF assms(3) this] obtain op where op: "in_flight_op client_trace a = Some op" by blast
    have no: "\<not> completes op (drop (length (bytes_received a)) (bytes_sent_by Q b)) (Success, d)" for d
      using assms(5) op by (simp add: at_rest_def)
    have "op \<noteq> Read_Exactly 9"
    proof
      assume e: "op = Read_Exactly 9"
      with client_in_flight [OF op] l have "length a = 3" by (auto simp: less_Suc_eq small_numerals)
      with echo_at_rest [OF assms(1) client_grows n assms(5,4)] assms(3) r
      have "bytes_sent_by Q b = ''TEST_DATA''" "bytes_received a = []"
        by (auto simp: client_sent no_failures_def dest: in_set_takeD)
      with no [of "''TEST_DATA''"] e show False by simp
    qed
    with client_in_flight [OF op] no [of "[]"] show False by (auto simp: less_Suc_eq small_numerals)
  qed
  with r have l: "length a = 4" by simp
  with assms(3) have "printed (client_trace a) \<noteq> []" by (simp add: client_printed)
  moreover have "in_flight_op client_trace a = None"
    using client_in_flight [of a] l by (cases "in_flight_op client_trace a") auto
  ultimately show ?thesis using reply_is_request [OF assms(1) Q] by auto
qed

text \<open>Every exchange is finite: four operations of the client and at most 19 of the server.\<close>

theorem exchange_bounded:
  assumes "connected client_trace Q a b" and "Q \<in> set (echo_server_peers at)"
  shows "length a \<le> 4 \<and> length b \<le> 19"
proof -
  obtain n where n: "echo_peer n Q" using echo_server_peers [OF assms(2)] by blast
  have "prefix (bytes_received b) (bytes_sent_by client_trace a)"
    using received_prefix [OF assms(1) client_grows echo_peer_grows [OF n]] by blast
  then have "length (bytes_received b) \<le> length (bytes_sent_by client_trace a)" by (rule prefix_length_le)
  also have "\<dots> \<le> 9" by (simp add: client_sent)
  finally show ?thesis using echo_peer_rounds [OF assms(1) n] client_received [OF assms(1)] by simp
qed

theorem client_gets_its_reply_witness:
  "at_rest client_trace (\<lambda>cs. fst (refactor_echo cs)) client_example server_example \<and>
   printed (client_trace client_example) = ''Reply is: TEST_DATA'' @ [CHR 0x0A]"
proof -
  have q: "started (fst (refactor_echo cs)) = echo_ops 128 True [] cs" for cs
    using coroutine_peers(3) by (simp add: echo_peer_def)
  have r: "at_rest client_trace (\<lambda>cs. fst (refactor_echo cs)) client_example server_example"
    by (simp add: at_rest_def in_flight_op_def client_started q bytes_sent_by_def written_started bytes_received_def)
  with client_gets_its_reply [OF example_run, of id] show ?thesis
    by (simp add: served_echo_peers_def no_failures_def)
qed

text \<open>
  A client that \<open>AcceptServer::Test\<close> has accepted: nothing happens at the other end, whose coroutine is never resumed. The
  client prints nothing, whatever happens, and when nothing fails it waits for its reply for ever.
\<close>

theorem accept_server_client_waits:
  assumes "connected client_trace (\<lambda>_. []) a b"
  shows "printed (client_trace a) = []"
    and "no_failures a \<Longrightarrow> at_rest client_trace (\<lambda>_. []) a b \<Longrightarrow> in_flight_op client_trace a = Some (Read_Exactly 9)"
proof -
  have "grows (\<lambda>_. [])" by (simp add: grows_def bytes_sent_by_def)
  then have "prefix (bytes_received a) (bytes_sent_by (\<lambda>_. []) b)"
    using received_prefix [OF assms client_grows] by blast
  then have r: "bytes_received a = []" by (simp add: bytes_sent_by_def)
  note c = client_received [OF assms]
  have l: "length a < 4" if "no_failures (take 4 a)"
    using c r that by (cases "length a = 4") auto
  show "printed (client_trace a) = []" using l by (auto simp: client_printed)
  assume "no_failures a" and rest: "at_rest client_trace (\<lambda>_. []) a b"
  moreover from this have "length a < 4" using l by (auto simp: no_failures_def dest: in_set_takeD)
  ultimately obtain op where op: "in_flight_op client_trace a = Some op" using client_finishes by blast
  with rest have "\<not> completes op (drop (length (bytes_received a)) (bytes_sent_by (\<lambda>_. []) b)) (Success, [])"
    by (simp add: at_rest_def)
  with client_in_flight [OF op] op show "in_flight_op client_trace a = Some (Read_Exactly 9)"
    by (auto simp: less_Suc_eq small_numerals)
qed

end
