(* ===== verification/Threaded_Servers.thy ===== *)
theory Threaded_Servers
  imports Https_Server Web_Socket_Servers Ssl_Servers
begin

text \<open>
  The servers that use threads around blocking sessions: a detached thread for each connection
  (\<open>HTTPS_Server_Sync::runServer\<close> of \<open>Beast/http/HTTPS_Server.cpp\<close> and the two blocking servers of
  \<open>Beast/web_sockets/WebSocketServers.cpp\<close>), and one thread for the whole server
  (\<open>SSL2::Server\<close> and \<open>SSL2::runServer\<close> of \<open>Networking/SSL_TCPServer.cpp\<close>).
\<close>

section \<open>\<open>HTTPS_Server_Sync::runServer\<close>\<close>

text \<open>The thread of a connection runs \<open>https_do_session\<close> on completions of its own.\<close>

definition https_accept_round :: "unit \<Rightarrow> (request, unit + int) io" where
  "https_accept_round v = io_bind (io_check Accept) (\<lambda>_. io_seq (io_emit [Spawn_Session]) (io_return (Inl ())))"

definition exit_failure :: int where
  "exit_failure = 1"

definition https_sync_runServer :: "(request, int) io" where
  "https_sync_runServer =
     io_catch
       (io_bind (io_check (Acceptor_Construct ''0.0.0.0'' 8443)) (\<lambda>_. io_loop https_accept_round ()))
       (\<lambda>e. io_seq (io_emit [Report_What ''Error'' e]) (io_return exit_failure))"


section \<open>\<open>SSL2::Server\<close>\<close>

text \<open>
  \<open>start\<close> runs \<open>run\<close> in a thread. Nothing catches what it throws, and an exception that leaves the function
  of a thread ends the program.
\<close>

definition ssl2_start :: "(nat \<Rightarrow> bool) \<Rightarrow> nat \<Rightarrow> (string, unit) io" where
  "ssl2_start m_stop port_num s = (case server_run m_stop port_num s of
     (as, s', Thrown e) \<Rightarrow> (as @ [Terminated], s', Blocked)
   | r \<Rightarrow> r)"

text \<open>
  \<open>stop\<close> sets the flag and joins the thread. The flag is set once, when the thread has loaded it \<open>loads\<close> times,
  so the next load sees it.
\<close>

definition flag_set_after :: "nat \<Rightarrow> nat \<Rightarrow> bool" where
  "flag_set_after loads k \<longleftrightarrow> loads \<le> k"

text \<open>
  \<open>runServer\<close>: the thread is started, a minute later the server is stopped; the function returns when the thread
  has ended. The catch clause is for exceptions of the main thread, which makes no call that can fail.
\<close>

definition ssl2_runServer :: "nat \<Rightarrow> (string, unit) io" where
  "ssl2_runServer loads = io_bind (ssl2_start (flag_set_after loads) 8443) (\<lambda>_. io_return ())"


section \<open>The accept loop\<close>

text \<open>What a loop of accepts shows for each result, up to the first error.\<close>

definition accepted_clients :: "(error_code \<times> 'p) list \<Rightarrow> nat" where
  "accepted_clients cs = length (takeWhile (\<lambda>c. \<not> is_error (fst c)) cs)"

definition accept_trace :: "nat \<Rightarrow> action list" where
  "accept_trace n = concat (replicate n [Start Accept, Spawn_Session]) @ [Start Accept]"

definition accept_outcome :: "(error_code \<times> 'p) list \<Rightarrow> 'a outcome" where
  "accept_outcome cs = (if accepted_clients cs = length cs then Blocked
     else Thrown (System_Error [] (fst (cs ! accepted_clients cs))))"

definition accepting_round :: "unit \<Rightarrow> ('p, unit + 'a) io" where
  "accepting_round v = io_bind (io_check Accept) (\<lambda>_. io_seq (io_emit [Spawn_Session]) (io_return (Inl ())))"

lemma accepting_round_simps:
  "accepting_round v [] = ([Start Accept], [], Blocked)"
  "accepting_round v ((ec, p) # cs) = (if is_error ec then ([Start Accept], cs, Thrown (System_Error [] ec))
     else ([Start Accept, Spawn_Session], cs, Returned (Inl ())))"
  by (simp_all add: accepting_round_def io_simps)

lemma accepting_round_calls: "calls_each_round accepting_round"
  unfolding accepting_round_def by (intro calls_eachI consumes_intros causal_intros)

lemma accepting_loop:
  "io_loop accepting_round () cs =
     (accept_trace (accepted_clients cs), drop (Suc (accepted_clients cs)) cs, accept_outcome cs)"
proof (induction cs)
  case Nil
  show ?case
    by (subst io_loop_unfold [OF accepting_round_calls])
      (simp add: io_bind.simps accepting_round_simps accepted_clients_def accept_trace_def accept_outcome_def)
next
  case (Cons c cs)
  obtain ec p where c: "c = (ec, p)" by (cases c)
  then show ?case using Cons
    by (subst io_loop_unfold [OF accepting_round_calls])
      (simp add: io_bind.simps accepting_round_simps accepted_clients_def accept_trace_def accept_outcome_def)
qed

lemma accept_rounds_agree:
  "https_accept_round = accepting_round" "ws_accept_round = accepting_round"
  by (simp_all add: fun_eq_iff https_accept_round_def ws_accept_round_def accepting_round_def)

text \<open>
  a server with a thread per connection starts exactly one session for each connection it accepts, and
  whatever the sessions do it goes on accepting until an accept fails; then the error is printed and the
  server function returns, the HTTPS server with \<open>EXIT_FAILURE\<close>. It never returns in another way, so its sessions
  are still running when it does.
\<close>

theorem thread_per_connection:
  "https_sync_runServer ((ec, q) # cs) =
     (if is_error ec then ([Start (Acceptor_Construct ''0.0.0.0'' 8443), Report_What ''Error'' (System_Error [] ec)], cs, Returned exit_failure)
      else let n = accepted_clients cs in
        (Start (Acceptor_Construct ''0.0.0.0'' 8443) # accept_trace n @
           (if n = length cs then [] else [Report_What ''Error'' (System_Error [] (fst (cs ! n)))]),
         drop (Suc n) cs, if n = length cs then Blocked else Returned exit_failure))"
  "simple_runServer ((ec, r) # ds) =
     (if is_error ec then ([Start (Acceptor_Construct ''0.0.0.0'' 6789), Report_What ''Error'' (System_Error [] ec)], ds, Returned ())
      else let n = accepted_clients ds in
        (Start (Acceptor_Construct ''0.0.0.0'' 6789) # accept_trace n @
           (if n = length ds then [] else [Report_What ''Error'' (System_Error [] (fst (ds ! n)))]),
         drop (Suc n) ds, if n = length ds then Blocked else Returned ()))"
  "ssl_runServer = simple_runServer"
  unfolding https_sync_runServer_def simple_runServer_def ssl_runServer_def accept_rounds_agree
  by (simp_all add: io_catch_def io_simps accepting_loop accept_outcome_def Let_def split: prod.split)

lemma https_listener_on:
  "https_listener_step (l\<lparr>accept_waiting := Some ()\<rparr>) ec =
     (if is_error ec then (l\<lparr>accept_waiting := None\<rparr>, https_fail ec ''accept'')
      else (l\<lparr>accept_waiting := Some ()\<rparr>, [Spawn_Session, Start Accept]))"
  by (simp add: handler_defs)

text \<open>
  the blocking and the asynchronous HTTPS server accept alike: for the same results of their accepts they
  start the same accepts and the same sessions, in the same order, and both stop at the first error.
\<close>

theorem https_servers_accept_alike:
  "(let (l, as) = https_listener_run l0 in without_reports (as @ snd (deliver https_listener_step l cs))) =
     without_reports (fst (io_loop https_accept_round () (map (\<lambda>ec. (ec, q)) cs)))"
proof -
  have "without_reports (Start Accept # snd (deliver https_listener_step (l0\<lparr>accept_waiting := Some ()\<rparr>) cs)) =
      accept_trace (accepted_clients (map (\<lambda>ec. (ec, q)) cs))"
  proof (induction cs)
    case Nil
    show ?case by (simp add: accepted_clients_def accept_trace_def)
  next
    case (Cons ec cs)
    then show ?case
      by (auto simp: deliver_Cons accepted_clients_def accept_trace_def https_listener_on https_fail_def
          https_acceptor.deliver_idle simp del: deliver.simps(2))
  qed
  moreover have "without_reports (accept_trace n) = accept_trace n" for n
    by (induction n) (simp_all add: accept_trace_def)
  ultimately show ?thesis
    by (simp add: https_listener_run_def https_do_accept_def accept_rounds_agree accepting_loop split: prod.split)
qed


section \<open>Stopping \<open>SSL2\<close>\<close>

lemma server_loop_returned:
  assumes "k \<le> n" and "snd (snd (io_loop (server_round (flag_set_after n)) k cs)) = Returned u"
  shows "accepts (fst (io_loop (server_round (flag_set_after n)) k cs)) = n - k"
  using assms
proof (induction "length cs" arbitrary: cs k rule: less_induct)
  case less
  note unfold = io_loop_unfold [OF server_round_calls]
  show ?case
  proof (cases "k = n")
    case True
    then show ?thesis
      by (subst unfold) (simp add: io_bind.simps server_round_simps flag_set_after_def io_return_def)
  next
    case False
    with less.prems have k: "\<not> flag_set_after n k" "Suc k \<le> n" by (simp_all add: flag_set_after_def)
    show ?thesis
    proof (cases cs)
      case Nil
      with k less.prems(2) show ?thesis
        by (subst (asm) unfold) (simp add: io_bind.simps server_round_simps)
    next
      case (Cons c cs')
      then obtain ec p where c: "cs = (ec, p) # cs'" by (cases c) simp
      let ?r = "fst (snd (handle_client cs'))"
      have "length ?r < length cs" using handle_client_trace [of cs'] c by simp
      from less.hyps [OF this k(2)] less.prems(2) handle_client_trace [of cs'] k c
      show ?thesis
        by (subst unfold, subst (asm) (2) unfold)
          (auto simp: io_bind.simps server_round_simps split: prod.splits outcome.splits if_splits)
    qed
  qed
qed

lemma ssl2_runServer_Cons:
  "ssl2_runServer loads ((ec, p) # cs) =
     (if is_error ec then ([Start (Acceptor_Construct ''0.0.0.0'' 8443), Terminated], cs, Blocked)
      else case io_loop (server_round (flag_set_after loads)) 0 cs of
        (as, s, Returned u) \<Rightarrow> (Start (Acceptor_Construct ''0.0.0.0'' 8443) # as, s, Returned ())
      | (as, s, Thrown e) \<Rightarrow> (Start (Acceptor_Construct ''0.0.0.0'' 8443) # as @ [Terminated], s, Blocked)
      | (as, s, Blocked) \<Rightarrow> (Start (Acceptor_Construct ''0.0.0.0'' 8443) # as, s, Blocked))"
  by (auto simp: ssl2_runServer_def ssl2_start_def server_run_def io_bind.simps io_check_Cons io_return_def
      split: prod.split outcome.split)

text \<open>
  stopping the server waits for a client: when the flag is set while the thread waits in its
  accept number \<open>loads\<close>, \<open>runServer\<close> returns only after that many clients have been accepted, the last one after the
  flag was set; if nobody connects the join never returns.
\<close>

theorem stop_waits_for_client:
  assumes "snd (snd (ssl2_runServer loads cs)) = Returned u"
  shows "accepts (fst (ssl2_runServer loads cs)) = loads"
proof (cases cs)
  case Nil
  with assms show ?thesis by (simp add: ssl2_runServer_def ssl2_start_def server_run_def io_simps io_bind.simps)
next
  case (Cons c ds)
  with assms server_loop_returned [of 0 loads ds] show ?thesis
    by (cases c) (auto simp: ssl2_runServer_Cons split: if_splits prod.splits outcome.splits)
qed

theorem stop_waits_for_client_witness:
  "snd (snd (ssl2_runServer 1 [(Success, []), (Success, []), (Error_Value 1, [])])) = Returned () \<and>
   accepts (fst (ssl2_runServer 1 [(Success, []), (Success, []), (Error_Value 1, [])])) = 1 \<and>
   snd (snd (ssl2_runServer 1 [(Success, [])])) = Blocked"
proof -
  note run = ssl2_runServer_Cons io_loop_def server_round_simps flag_set_after_def handle_client_def io_catch_def io_simps
    io_bind.simps
  have "snd (snd (ssl2_runServer 1 [(Success, []), (Success, []), (Error_Value 1, [])])) = Returned ()"
    by (simp add: run)
  moreover have "snd (snd (ssl2_runServer 1 [(Success, [])])) = Blocked" by (simp add: run)
  ultimately show ?thesis using stop_waits_for_client by blast
qed

text \<open>
  No error of the server is reported by its \<open>runServer\<close>: a port that cannot be opened or an accept that fails is
  thrown in the thread of the server and ends the whole program.
\<close>

theorem server_error_terminates:
  "snd (snd (ssl2_runServer loads cs)) \<noteq> Thrown e"
  "is_error ec \<Longrightarrow> ssl2_runServer loads ((ec, p) # cs) = ([Start (Acceptor_Construct ''0.0.0.0'' 8443), Terminated], cs, Blocked)"
proof -
  show "snd (snd (ssl2_runServer loads cs)) \<noteq> Thrown e"
    by (auto simp: ssl2_runServer_def ssl2_start_def io_bind.simps io_return_def split: prod.splits outcome.splits)
qed (simp add: ssl2_runServer_Cons)

end
