(* ===== verification/Single_Thread.thy ===== *)
theory Single_Thread
  imports Background_Tasks
begin

text \<open>
  The programs that run their \<open>io_context\<close> on the main thread and nothing else: the timers of
  \<open>Asio/Threading/Threading.cpp\<close>, \<open>Asio/Timeouts/Timeouts.cpp\<close>, \<open>Asio/IO_Context/IoContext.cpp\<close> and
  \<open>Asio/Experiments/Experiments.cpp\<close>, and the two coroutine servers of \<open>Asio/Coroutines/CoroutineApps.cpp\<close> that a
  signal stops. One argument serves all of them: such a program cannot deadlock, and when a handler has stopped the
  context nothing from outside is needed to end it.
\<close>

section \<open>More programs\<close>

text \<open>
  \<open>Timer\<close> and \<open>Timer_Async\<close> of \<open>Asio/Experiments\<close>; \<open>print\<close> does not look at its error code. A text is without the
  time in front and the newline.
\<close>

definition experiments_Timer :: "stmt list" where
  "experiments_Timer = [Say '': Starting....'', Sleep_For, Say '': Hello, world!'']"

definition experiments_print :: "stmt list" where
  "experiments_print = [Say '': Hello world!'']"

definition experiments_Timer_Async :: "stmt list" where
  "experiments_Timer_Async = [Say '': Starting....'', Wait_Async 0 experiments_print experiments_print, Sleep_For, Run_Ctx 0]"

text \<open>
  The two servers with a \<open>signal_set\<close>; \<open>listener\<close> is what the listener coroutine does when it is resumed, with all that
  follows from it: it is started by \<open>co_spawn\<close>, which posts it.
\<close>

definition signal_handler :: "stmt list" where
  "signal_handler = [Stop_Ctx 0]"

definition echo_one_runServer :: "stmt list \<Rightarrow> stmt list" where
  "echo_one_runServer listener =
     [Wait_Async 0 signal_handler signal_handler, Post_To 0 listener, Run_Ctx 0, Say ''Server done '']"

definition refactor_runServer :: "stmt list \<Rightarrow> stmt list" where
  "refactor_runServer listener = [Wait_Async 0 signal_handler signal_handler, Post_To 0 listener, Run_Ctx 0]"


section \<open>Programs with one thread and one context\<close>

fun handler_stmt :: "stmt \<Rightarrow> bool" where
  "handler_stmt (Say x) \<longleftrightarrow> True"
| "handler_stmt Sleep_For \<longleftrightarrow> True"
| "handler_stmt (Post_To c h) \<longleftrightarrow> c = 0"
| "handler_stmt (Dispatch_To c h) \<longleftrightarrow> c = 0"
| "handler_stmt (Wait_Async c ok err) \<longleftrightarrow> c = 0"
| "handler_stmt (Stop_Ctx c) \<longleftrightarrow> c = 0"
| "handler_stmt _ \<longleftrightarrow> False"

definition single_thread_program :: "stmt list \<Rightarrow> bool" where
  "single_thread_program p \<longleftrightarrow> (\<exists>a b. p = a @ Run_Ctx 0 # b \<and> all_every handler_stmt a \<and> all_every handler_stmt b)"

text \<open>Where the only thread can be: before \<open>run()\<close>, in it, in a handler, or behind it.\<close>

definition single_place :: "stmt list \<Rightarrow> nat \<Rightarrow> bool" where
  "single_place k r \<longleftrightarrow>
     (\<exists>a b. k = a @ Run_Ctx 0 # b \<and> all_every handler_stmt a \<and> all_every handler_stmt b \<and> r = 0) \<or>
     (\<exists>a b. k = a @ End_Task 0 # Run_Ctx 0 # b \<and> all_every handler_stmt a \<and> all_every handler_stmt b \<and> r = 1) \<or>
     all_every handler_stmt k \<and> r = 0"

definition single_inv :: "world \<Rightarrow> bool" where
  "single_inv w \<longleftrightarrow> (\<exists>k. codes w = [k] \<and> single_place k (running w 0)) \<and> \<not> crashed w \<and> guards w 0 = 0 \<and>
     (\<forall>q \<in> set (queue w). fst q = 0) \<and> (\<forall>p \<in> set (pending w). fst p = 0) \<and> stored_every handler_stmt w"

lemma single_start: "single_thread_program p \<Longrightarrow> single_inv (start_world 0 p)"
  by (auto simp: single_inv_def single_place_def single_thread_program_def start_world_def stored_every_def)

lemma single_place_cases:
  assumes "single_place (x # k) r"
  obtains "x = Run_Ctx 0" "r = 0" "single_place k 0" "\<And>h. all_every handler_stmt h \<Longrightarrow> single_place (h @ End_Task 0 # x # k) 1"
  | "x = End_Task 0" "r = 1" "single_place k 0"
  | "handler_stmt x" "every handler_stmt x" "single_place k r" "\<And>h. all_every handler_stmt h \<Longrightarrow> single_place (h @ k) r"
proof -
  consider (run) a b where "x # k = a @ Run_Ctx 0 # b" "all_every handler_stmt a" "all_every handler_stmt b" "r = 0"
    | (task) a b where "x # k = a @ End_Task 0 # Run_Ctx 0 # b" "all_every handler_stmt a" "all_every handler_stmt b" "r = 1"
    | (tail) "all_every handler_stmt (x # k)" "r = 0"
    using assms unfolding single_place_def by blast
  then show thesis
  proof cases
    case run
    show thesis
    proof (cases a)
      case Nil
      with run show thesis by (intro that(1)) (auto simp: single_place_def)
    next
      case (Cons y a')
      with run have x: "handler_stmt x" by (auto intro: every_head)
      have h: "single_place (h @ k) r" if "all_every handler_stmt h" for h
        unfolding single_place_def using run Cons that by (intro disjI1 exI [of _ "h @ a'"] exI [of _ b]) simp
      show thesis by (rule that(3)) (use run Cons x h h [of "[]"] in auto)
    qed
  next
    case task
    show thesis
    proof (cases a)
      case Nil
      with task show thesis by (intro that(2)) (auto simp: single_place_def intro: exI [of _ "[]"])
    next
      case (Cons y a')
      with task have x: "handler_stmt x" by (auto intro: every_head)
      have h: "single_place (h @ k) r" if "all_every handler_stmt h" for h
        unfolding single_place_def using task Cons that
        by (intro disjI2 disjI1 exI [of _ "h @ a'"] exI [of _ b]) simp
      show thesis by (rule that(3)) (use task Cons x h h [of "[]"] in auto)
    qed
  next
    case tail
    then show thesis by (intro that(3)) (auto simp: single_place_def intro: every_head)
  qed
qed

lemma single_exec:
  assumes "single_inv w" and "codes w = [x # k]" and "exec 0 x k w = Some v"
  shows "single_inv v"
proof -
  have p: "single_place (x # k) (running w 0)" using assms(1,2) by (auto simp: single_inv_def)
  from p show ?thesis
  proof (cases rule: single_place_cases)
    case 3
    then show ?thesis using assms
      by (cases x) (auto simp: single_inv_def stored_every_def goto_def split: if_splits)
  qed (use assms in \<open>auto simp: single_inv_def stored_every_def goto_def split: if_splits\<close>)
qed

lemma single_perform:
  assumes "single_inv w" and "perform d w = Some v"
  shows "single_inv v"
proof (cases d)
  case (Go t)
  with assms obtain x k where "t = 0" "codes w = [x # k]" "exec 0 x k w = Some v"
    by (auto simp: single_inv_def next_code_def split: list.splits if_splits)
  with single_exec [OF assms(1)] show ?thesis by blast
next
  case (Take t i)
  with assms obtain k where k: "t = 0" "codes w = [Run_Ctx 0 # k]" "i < length (queue w)"
    and v: "v = goto 0 (snd (queue w ! i) @ End_Task 0 # Run_Ctx 0 # k)
      (w\<lparr>queue := remove_nth i (queue w), running := (running w)(0 := running w 0 + 1)\<rparr>)"
    by (auto simp: single_inv_def next_code_def split: list.splits if_splits stmt.splits)
  have "all_every handler_stmt (snd (queue w ! i))" using assms(1) k(3) by (auto simp: single_inv_def stored_every_def)
  moreover have "single_place (Run_Ctx 0 # k) (running w 0)" using assms(1) k(2) by (simp add: single_inv_def)
  ultimately show ?thesis using assms(1) k(2) unfolding v
    by (elim single_place_cases) (auto simp: single_inv_def stored_every_def goto_def dest!: in_set_remove_nth)
next
  case (Complete i b)
  with assms(2) obtain c ok err where p: "i < length (pending w)" "pending w ! i = (c, ok, err)"
    and v: "v = w\<lparr>pending := remove_nth i (pending w), queue := queue w @ [(c, if b then ok else err)]\<rparr>"
    by (auto split: prod.splits if_splits)
  from p have "(c, ok, err) \<in> set (pending w)" by (metis nth_mem)
  with assms(1) show ?thesis unfolding v by (auto simp: single_inv_def stored_every_def dest!: in_set_remove_nth)
qed

lemma single_execute:
  assumes "single_thread_program p" and "execute (start_world 0 p) ds = Some w"
  shows "single_inv w"
  using execute_invariant [OF assms(2), of single_inv] single_start [OF assms(1)] single_perform by blast

text \<open>The thread has to wait only in \<open>run()\<close>, and only for a pending wait.\<close>

lemma single_waits:
  assumes "single_inv w" and "codes w = [x # k]" and "exec 0 x k w = None"
  shows "x = Run_Ctx 0 \<and> \<not> stopped w 0 \<and> (queue w \<noteq> [] \<or> pending w \<noteq> [])"
proof -
  have "single_place (x # k) (running w 0)" using assms(1,2) by (auto simp: single_inv_def)
  then show ?thesis
  proof (cases rule: single_place_cases)
    case 1
    with assms show ?thesis by (auto simp: single_inv_def work_def split: if_splits)
  next
    case 3
    with assms(3) show ?thesis by (cases x) (auto split: if_splits)
  qed (use assms(3) in simp)
qed

lemma single_blocked:
  assumes "single_inv w" and "blocked w"
  shows "finished w \<and> pending w = []"
proof -
  obtain k where k: "codes w = [k]" using assms(1) by (auto simp: single_inv_def)
  have n: "perform d w = None" for d using assms(2) by (simp add: blocked_def)
  have c: "\<not> crashed w" and q: "\<And>q. q \<in> set (queue w) \<Longrightarrow> fst q = 0" using assms(1) by (auto simp: single_inv_def)
  have p: "pending w = []" using n [of "Complete 0 True"] c by (auto split: prod.splits if_splits)
  show ?thesis
  proof (cases k)
    case Nil
    with k p show ?thesis by (simp add: finished_def)
  next
    case (Cons x k')
    with n [of "Go 0"] c k have e: "exec 0 x k' w = None" by (simp add: next_code_def)
    with single_waits [OF assms(1)] k Cons p have "x = Run_Ctx 0" "\<not> stopped w 0" "queue w \<noteq> []" by auto
    with n [of "Take 0 0"] c k Cons q [of "queue w ! 0"] show ?thesis by (simp add: next_code_def)
  qed
qed

text \<open>
  C20: a program that runs its context on the main thread alone cannot deadlock: whatever order the handlers and
  the completions come in, when nothing can happen any more the program has ended and no wait is pending. The
  timer demonstrations and the coroutine servers, for any behaviour of their listener, are such programs.
\<close>

theorem single_thread_programs_end:
  assumes "p \<in> {run_single_thread message, timeouts_SimpleTest message, getExecutor, experiments_Timer_Async,
      echo_one_runServer listener, refactor_runServer listener, io_example_1}"
    and "all_every handler_stmt listener" and "execute (start_world 0 p) ds = Some w" and "blocked w"
  shows "finished w \<and> pending w = []"
proof -
  have "single_thread_program p"
    using assms(1,2) unfolding single_thread_program_def
    by (elim insertE emptyE) (auto simp: run_single_thread_def timeouts_SimpleTest_def getExecutor_def
        experiments_Timer_Async_def experiments_print_def echo_one_runServer_def refactor_runServer_def signal_handler_def
        io_example_1_def Cons_eq_append_conv)
  with single_execute assms(3) single_blocked assms(4) show ?thesis by blast
qed

theorem single_thread_programs_end_witness:
  "\<exists>ds w. execute (start_world 0 getExecutor) ds = Some w \<and> blocked w \<and> finished w \<and> pending w = []"
proof -
  obtain ds w where w: "execute (start_world 0 getExecutor) ds = Some w" "blocked w"
    using execution_completes by blast
  with single_thread_programs_end [of getExecutor _ "[]" ds w] show ?thesis by fastforce
qed


section \<open>Stopping\<close>

text \<open>
  The signal has come and the context has stopped, or will as soon as the main thread goes on: the handler of the
  signal is queued, or its call of \<open>stop()\<close> is among the statements before the thread is in \<open>run()\<close> again.
\<close>

definition stop_ahead :: "world \<Rightarrow> bool" where
  "stop_ahead w \<longleftrightarrow> (0, signal_handler) \<in> set (queue w) \<or> stopped w 0 \<or>
     (\<exists>k. codes w = [k] \<and> Stop_Ctx 0 \<in> set (takeWhile (\<lambda>x. x \<noteq> Run_Ctx 0) k))"

definition signal_waits :: "world \<Rightarrow> bool" where
  "signal_waits w \<longleftrightarrow> (0, signal_handler, signal_handler) \<in> set (pending w)"

text \<open>The choices that are the main thread's own; every other choice is the completion of a wait.\<close>

fun own_choice :: "choice \<Rightarrow> bool" where
  "own_choice (Complete i b) \<longleftrightarrow> False"
| "own_choice d \<longleftrightarrow> True"

lemma kept_by_remove_nth: "x \<in> set xs \<Longrightarrow> i < length xs \<Longrightarrow> x \<noteq> xs ! i \<Longrightarrow> x \<in> set (remove_nth i xs)"
  by (subst (asm) id_take_nth_drop [of i xs]) (auto simp: remove_nth_def)

lemma handler_stmts_before_run: "all_every handler_stmt h \<Longrightarrow> takeWhile (\<lambda>x. x \<noteq> Run_Ctx 0) (h @ k) = h @ takeWhile (\<lambda>x. x \<noteq> Run_Ctx 0) k"
  by (induction h) auto

lemma stop_ahead_exec:
  assumes "single_inv w" and "codes w = [x # k]" and "exec 0 x k w = Some v" and "stop_ahead w"
  shows "stop_ahead v"
proof -
  have p: "single_place (x # k) (running w 0)" using assms(1,2) by (auto simp: single_inv_def)
  from p show ?thesis
  proof (cases rule: single_place_cases)
    case 3
    then show ?thesis using assms
      by (cases x) (auto simp: stop_ahead_def goto_def handler_stmts_before_run split: if_splits)
  qed (use assms in \<open>auto simp: stop_ahead_def goto_def split: if_splits\<close>)
qed

lemma stop_ahead_perform:
  assumes "single_inv w" and "perform d w = Some v" and "stop_ahead w"
  shows "stop_ahead v"
proof (cases d)
  case (Go t)
  with assms obtain x k where "codes w = [x # k]" "exec 0 x k w = Some v"
    by (auto simp: single_inv_def next_code_def split: list.splits if_splits)
  with stop_ahead_exec [OF assms(1)] assms(3) show ?thesis by blast
next
  case (Take t i)
  with assms obtain k where k: "codes w = [Run_Ctx 0 # k]" "i < length (queue w)" "fst (queue w ! i) = 0" "\<not> stopped w 0"
    and v: "v = goto 0 (snd (queue w ! i) @ End_Task 0 # Run_Ctx 0 # k)
      (w\<lparr>queue := remove_nth i (queue w), running := (running w)(0 := running w 0 + 1)\<rparr>)"
    by (auto simp: single_inv_def next_code_def split: list.splits if_splits stmt.splits)
  from assms(3) k have q: "(0, signal_handler) \<in> set (queue w)" by (simp add: stop_ahead_def)
  show ?thesis
  proof (cases "queue w ! i = (0, signal_handler)")
    case True
    then show ?thesis by (simp add: v k stop_ahead_def goto_def signal_handler_def)
  next
    case False
    with kept_by_remove_nth [OF q k(2)] show ?thesis by (simp add: v stop_ahead_def)
  qed
next
  case (Complete i b)
  with assms(2,3) show ?thesis by (auto simp: stop_ahead_def split: prod.splits if_splits)
qed

lemma signal_comes:
  assumes "perform d w = Some v" and "signal_waits w"
  shows "signal_waits v \<or> stop_ahead v"
proof (cases d)
  case (Go t)
  with assms obtain x k where "exec t x k w = Some v"
    by (auto split: list.splits if_splits)
  with assms(2) show ?thesis by (cases x) (auto simp: signal_waits_def split: if_splits option.splits)
next
  case (Take t i)
  with assms show ?thesis by (auto simp: signal_waits_def split: list.splits if_splits stmt.splits)
next
  case (Complete i b)
  with assms(1) obtain c ok err where p: "i < length (pending w)" "pending w ! i = (c, ok, err)"
    and v: "v = w\<lparr>pending := remove_nth i (pending w), queue := queue w @ [(c, if b then ok else err)]\<rparr>"
    by (auto split: prod.splits if_splits)
  show ?thesis
  proof (cases "pending w ! i = (0, signal_handler, signal_handler)")
    case True
    with p v show ?thesis by (simp add: stop_ahead_def)
  next
    case False
    with assms(2) p show ?thesis by (auto simp: v signal_waits_def intro: kept_by_remove_nth)
  qed
qed

lemma stop_ahead_not_stuck:
  assumes "single_inv w" and "stop_ahead w" and "\<And>d. own_choice d \<Longrightarrow> perform d w = None"
  shows "finished w"
proof -
  obtain k where k: "codes w = [k]" and c: "\<not> crashed w" using assms(1) by (auto simp: single_inv_def)
  show ?thesis
  proof (cases k)
    case Nil
    with k show ?thesis by (simp add: finished_def)
  next
    case (Cons x k')
    with assms(3) [of "Go 0"] c k have "exec 0 x k' w = None" by (simp add: next_code_def)
    with single_waits [OF assms(1)] k Cons have x: "x = Run_Ctx 0" "\<not> stopped w 0" by auto
    with assms(2) k Cons obtain i where "i < length (queue w)" "queue w ! i = (0, signal_handler)"
      by (auto simp: stop_ahead_def in_set_conv_nth)
    with assms(3) [of "Take 0 i"] c k Cons x show ?thesis by (simp add: next_code_def)
  qed
qed

text \<open>
  C21: a signal ends the coroutine servers. The first thing they do is to wait for the signal; once that wait is no
  longer pending, whatever connections are open and whatever they wait for, the main thread needs nobody: however it
  goes on by its own steps and the handlers it takes, in any order, when it has no step left it has come to the end of
  \<open>runServer\<close>, and it can have taken only finitely many.
\<close>

theorem signal_stops_server:
  assumes "p \<in> {echo_one_runServer listener, refactor_runServer listener}" and "all_every handler_stmt listener"
    and "execute (start_world 0 p) (d # ds) = Some w" and "(0, signal_handler, signal_handler) \<notin> set (pending w)"
    and "execute w es = Some v" and "\<And>e. e \<in> set es \<Longrightarrow> own_choice e"
  shows "length es \<le> steps_left w \<and> ((\<forall>e. own_choice e \<longrightarrow> perform e v = None) \<longrightarrow> finished v)"
proof -
  let ?P = "\<lambda>w. single_inv w \<and> (stop_ahead w \<or> signal_waits w)"
  have p: "single_thread_program p"
    using assms(1,2) unfolding single_thread_program_def
    by (elim insertE emptyE) (auto simp: echo_one_runServer_def refactor_runServer_def signal_handler_def Cons_eq_append_conv)
  from assms(3) obtain u where u: "perform d (start_world 0 p) = Some u" "execute u ds = Some w"
    by (auto split: option.splits)
  have "signal_waits u" using u(1) assms(1)
    by (cases d) (auto simp: echo_one_runServer_def refactor_runServer_def signal_waits_def start_world_def next_code_def
        goto_def split: if_splits list.splits)
  then have "?P u" using single_perform [OF single_start [OF p] u(1)] by blast
  then have "?P w"
    by (rule execute_invariant [OF u(2)]) (blast dest: single_perform stop_ahead_perform signal_comes)
  with assms(4) have w: "single_inv w \<and> stop_ahead w" by (simp add: signal_waits_def)
  have "single_inv v \<and> stop_ahead v" using assms(5,6) w
  proof (induction es arbitrary: w)
    case (Cons e es)
    then show ?case
      by (auto split: option.splits intro: single_perform stop_ahead_perform)
  qed simp
  with stop_ahead_not_stuck execution_bounded [OF assms(5)] show ?thesis by fastforce
qed

text \<open>A client is waited for when the signal arrives, and is still waited for when the program has ended.\<close>

theorem signal_stops_server_witness:
  "\<exists>w v. execute (start_world 0 (refactor_runServer [Wait_Async 0 [Say ''session''] []]))
       [Go 0, Go 0, Take 0 0, Go 0, Go 0, Complete 0 True] = Some w \<and>
     execute w [Take 0 0, Go 0, Go 0, Go 0] = Some v \<and> pending v = [(0, [Say ''session''], [])] \<and> finished v"
proof -
  let ?l = "[Wait_Async 0 [Say ''session''] []]"
  let ?w = "execute (start_world 0 (refactor_runServer ?l)) [Go 0, Go 0, Take 0 0, Go 0, Go 0, Complete 0 True]"
  have "map_option pending ?w = Some [(0, [Say ''session''], [])]" by code_simp
  moreover have "map_option (\<lambda>v. (pending v, codes v, stopped v 0)) (Option.bind ?w (\<lambda>w. execute w [Take 0 0, Go 0, Go 0, Go 0])) =
      Some ([(0, [Say ''session''], [])], [[]], True)"
    by code_simp
  ultimately obtain w v where w: "?w = Some w" "pending w = [(0, [Say ''session''], [])]"
    and v: "execute w [Take 0 0, Go 0, Go 0, Go 0] = Some v" "pending v = [(0, [Say ''session''], [])]" "codes v = [[]]"
    by (auto simp: bind_eq_Some_conv)
  have n: "perform e v = None" if "own_choice e" for e
    using that v(3) by (cases e) (auto simp: next_code_def)
  have o: "own_choice e" if "e \<in> set [Take 0 0, Go 0, Go 0, Go 0]" for e
    using that by auto
  from signal_stops_server [OF _ _ w(1) _ v(1) o, of ?l] w(2) n v(2) have "finished v"
    by (auto simp: signal_handler_def)
  with w v show ?thesis by blast
qed


section \<open>What the timers print\<close>

definition one_of :: "string list \<Rightarrow> string list \<Rightarrow> world \<Rightarrow> bool" where
  "one_of a b w \<longleftrightarrow> ended w \<and> queue w = [] \<and> pending w = [] \<and>
     (mset (map snd (shown w)) = mset a \<or> mset (map snd (shown w)) = mset b)"

lemma one_of_similar: "similar w v \<Longrightarrow> one_of a b w \<Longrightarrow> one_of a b v"
  by (auto simp: one_of_def ended_similar similar_fields mset_map)

lemmas explore_defs = successors_def outcomes_def choices_def next_code_def start_world_def goto_def work_def
  remove_nth_def one_of_def ended_def numeral_eq_Suc

lemma explore_single_thread:
  "explore 12 (one_of [''run_single_thread() entered'', ''Timer expired!'', ''run_single_thread() exited'']
      [''run_single_thread() entered'', ''Error in timer: '' @ message, ''run_single_thread() exited''])
    (start_world 0 (run_single_thread message))"
  by (simp add: run_single_thread_def explore_defs)

lemma explore_SimpleTest:
  "explore 12 (one_of [''SimpleTest() started'', ''Timer expired.''] [''SimpleTest() started'', ''Error: '' @ message])
    (start_world 0 (timeouts_SimpleTest message))"
  by (simp add: timeouts_SimpleTest_def explore_defs)

lemma explore_getExecutor:
  "explore 12 (one_of [''Timer fired!''] []) (start_world 0 getExecutor)"
  by (simp add: getExecutor_def explore_defs)

lemma explore_Timer_Async:
  "explore 12 (one_of ['': Starting....'', '': Hello world!''] ['': Starting....'', '': Hello world!''])
    (start_world 0 experiments_Timer_Async)"
  by (simp add: experiments_Timer_Async_def experiments_print_def explore_defs)

lemma timer_program_lines:
  assumes "explore 12 (one_of a b) (start_world 0 p)" and "all_every no_destructor p"
    and "execute (start_world 0 p) ds = Some w" and "blocked w"
  shows "mset (map snd (shown w)) \<in> {mset a, mset b}"
  using explore_program [OF assms(1,2) one_of_similar assms(3,4)] by (auto simp: one_of_def)

text \<open>
  each timer demonstration prints the line of its timer exactly once, as expired or with the error, and never
  both; \<open>Timer_Async\<close> prints its line also when the wait has failed, because \<open>print\<close> ignores the error.
\<close>

theorem timers_print_once:
  assumes "execute (start_world 0 p) ds = Some w" and "blocked w"
  shows "p = run_single_thread message \<Longrightarrow> mset (map snd (shown w)) \<in>
      {{#''run_single_thread() entered'', ''Timer expired!'', ''run_single_thread() exited''#},
       {#''run_single_thread() entered'', ''Error in timer: '' @ message, ''run_single_thread() exited''#}}"
    and "p = timeouts_SimpleTest message \<Longrightarrow> mset (map snd (shown w)) \<in>
      {{#''SimpleTest() started'', ''Timer expired.''#}, {#''SimpleTest() started'', ''Error: '' @ message#}}"
    and "p = getExecutor \<Longrightarrow> mset (map snd (shown w)) \<in> {{#''Timer fired!''#}, {#}}"
    and "p = experiments_Timer_Async \<Longrightarrow> mset (map snd (shown w)) = {#'': Starting....'', '': Hello world!''#}"
  using timer_program_lines [OF explore_single_thread _ _ assms(2)] timer_program_lines [OF explore_SimpleTest _ _ assms(2)]
    timer_program_lines [OF explore_getExecutor _ _ assms(2)] timer_program_lines [OF explore_Timer_Async _ _ assms(2)] assms(1)
  by (simp_all add: run_single_thread_def timeouts_SimpleTest_def getExecutor_def experiments_Timer_Async_def
      experiments_print_def no_destructor_def)

end
