(* ===== verification/Strand_Handlers.thy ===== *)
theory Strand_Handlers
  imports Thread_Contexts
begin

text \<open>
  \<open>IoContext::Strand_Example\<close> of \<open>Asio/IO_Context/IoContext.cpp\<close>: five handlers are posted to a strand and three
  threads run the context. Which handler a thread in \<open>run()\<close> begins, and when \<open>run()\<close> returns, is Boost's: it is the
  parameter \<open>A\<close>, and what the documentation promises of it is the hypothesis \<open>documented_asio A\<close>. A handler carries
  the executor it was posted to; for a handler of the context itself nothing is promised.
\<close>

section \<open>The program\<close>

datatype executor = Strand | Io_Context

type_synonym posted = "executor \<times> nat"

text \<open>
  \<open>begun\<close> holds the handlers being executed with their threads; \<open>handler_lines\<close> what \<open>handler\<close> has written, its
  number and its thread.
\<close>

record strand_state =
  waiting_handlers :: "posted list"
  begun :: "(nat \<times> posted) list"
  in_run :: "nat set"                   \<comment> \<open>the threads whose \<open>io.run()\<close> has not returned\<close>
  handler_lines :: "(nat \<times> nat) list"

definition strand_handler :: "nat \<Rightarrow> nat \<Rightarrow> strand_state \<Rightarrow> strand_state" where
  "strand_handler t i s = s\<lparr>handler_lines := handler_lines s @ [(i, t)]\<rparr>"

definition Strand_Example :: strand_state where
  "Strand_Example = \<lparr>waiting_handlers = map (\<lambda>i. (Strand, i)) [0..<5], begun = [], in_run = {0..<3}, handler_lines = []\<rparr>"


section \<open>Boost\<close>

text \<open>
  With the handlers that wait, oldest first, and those being executed: whether the handler at this place may be begun,
  and whether a call of \<open>run()\<close> may return.
\<close>

record asio =
  may_begin :: "posted list \<Rightarrow> posted list \<Rightarrow> nat \<Rightarrow> bool"
  may_return :: "posted list \<Rightarrow> posted list \<Rightarrow> bool"

text \<open>
  Documented: the handlers of a strand are begun in the order in which they were posted to it and not while another of
  them is executed; \<open>run()\<close> returns only when no work is left. And a context that has only waiting handlers, or no
  work at all, lets its threads go on.
\<close>

definition documented_asio :: "asio \<Rightarrow> bool" where
  "documented_asio A \<longleftrightarrow>
     (\<forall>hs es n. may_begin A hs es n \<longrightarrow> n < length hs \<and>
        (fst (hs ! n) = Strand \<longrightarrow> Strand \<notin> fst ` set es \<and> Strand \<notin> fst ` set (take n hs))) \<and>
     (\<forall>hs es. may_return A hs es \<longrightarrow> hs = [] \<and> es = []) \<and>
     (\<forall>hs. hs \<noteq> [] \<longrightarrow> (\<exists>n. may_begin A hs [] n)) \<and> may_return A [] []"

definition strand_finish :: "nat \<Rightarrow> strand_state \<Rightarrow> strand_state" where
  "strand_finish m s = strand_handler (fst (begun s ! m)) (snd (snd (begun s ! m))) (s\<lparr>begun := remove_nth m (begun s)\<rparr>)"

inductive strand_step :: "asio \<Rightarrow> strand_state \<Rightarrow> strand_state \<Rightarrow> bool" for A where
  Begin: "t \<in> in_run s \<Longrightarrow> t \<notin> fst ` set (begun s) \<Longrightarrow> may_begin A (waiting_handlers s) (map snd (begun s)) n \<Longrightarrow>
    strand_step A s (s\<lparr>begun := begun s @ [(t, waiting_handlers s ! n)], waiting_handlers := remove_nth n (waiting_handlers s)\<rparr>)"
| Finish: "m < length (begun s) \<Longrightarrow> strand_step A s (strand_finish m s)"
| Leave: "t \<in> in_run s \<Longrightarrow> t \<notin> fst ` set (begun s) \<Longrightarrow> may_return A (waiting_handlers s) (map snd (begun s)) \<Longrightarrow>
    strand_step A s (s\<lparr>in_run := in_run s - {t}\<rparr>)"

inductive_cases strand_stepE: "strand_step A s s'"

abbreviation strand_runs :: "asio \<Rightarrow> strand_state \<Rightarrow> bool" where
  "strand_runs A s \<equiv> (strand_step A)\<^sup>*\<^sup>* Strand_Example s"


section \<open>Order and progress\<close>

text \<open>
  Every handler has printed, is being executed or waits, in the order of the posts; all belong to the strand, so at
  most one is being executed. A thread has left only when nothing was left to do.
\<close>

definition strand_inv :: "strand_state \<Rightarrow> bool" where
  "strand_inv s \<longleftrightarrow>
     map fst (handler_lines s) @ map (snd \<circ> snd) (begun s) @ map snd (waiting_handlers s) = [0..<5] \<and>
     length (begun s) \<le> 1 \<and> fst ` snd ` set (begun s) \<subseteq> {Strand} \<and> fst ` set (waiting_handlers s) \<subseteq> {Strand} \<and>
     in_run s \<subseteq> {0..<3} \<and> (in_run s \<noteq> {0..<3} \<longrightarrow> waiting_handlers s = [] \<and> begun s = [])"

lemma strand_begins_first:
  assumes "documented_asio A" and "may_begin A hs es n" and "fst ` set hs \<subseteq> {Strand}" and "fst ` set es \<subseteq> {Strand}"
  shows "n = 0 \<and> es = [] \<and> hs \<noteq> []"
proof -
  from assms(1,2) have n: "n < length hs"
    and s: "fst (hs ! n) = Strand \<Longrightarrow> Strand \<notin> fst ` set es \<and> Strand \<notin> fst ` set (take n hs)"
    unfolding documented_asio_def by blast+
  from n have "hs ! n \<in> set hs" by simp
  with assms(3) have "fst (hs ! n) = Strand" by blast
  with s have e: "Strand \<notin> fst ` set es" and t: "Strand \<notin> fst ` set (take n hs)" by blast+
  from e assms(4) have "es = []" by (cases es) auto
  moreover have "n = 0"
  proof (rule ccontr)
    assume "n \<noteq> 0"
    with n obtain h hs' where "hs = h # hs'" "h \<in> set (take n hs)" by (cases hs; cases n) auto
    with t assms(3) show False by force
  qed
  ultimately show ?thesis using n by auto
qed

lemma strand_inv_step:
  assumes "documented_asio A" and "strand_step A s s'" and "strand_inv s"
  shows "strand_inv s'"
  using assms(2)
proof cases
  case (Begin t n)
  from assms(3) have "fst ` set (waiting_handlers s) \<subseteq> {Strand}" "fst ` set (map snd (begun s)) \<subseteq> {Strand}"
    by (auto simp: strand_inv_def)
  with strand_begins_first [OF assms(1) Begin(4)] have n: "n = 0" "begun s = []" "waiting_handlers s \<noteq> []" by auto
  then obtain h hs where h: "waiting_handlers s = h # hs" by (cases "waiting_handlers s") auto
  show ?thesis using assms(3) unfolding Begin(1) by (auto simp: strand_inv_def n h remove_nth_def)
next
  case (Finish m)
  with assms(3) have "length (begun s) = 1" "m = 0" by (auto simp: strand_inv_def)
  then obtain b where "begun s = [b]" "m = 0" by (auto simp: length_Suc_conv)
  with assms(3) Finish(1) show ?thesis by (auto simp: strand_inv_def strand_finish_def strand_handler_def remove_nth_def)
next
  case (Leave t)
  with assms(1) have "waiting_handlers s = [] \<and> map snd (begun s) = []" unfolding documented_asio_def by blast
  with assms(3) Leave(1) show ?thesis by (auto simp: strand_inv_def)
qed

lemma strand_inv_runs:
  assumes "documented_asio A" and "strand_runs A s"
  shows "strand_inv s"
  using assms(2)
proof (induction rule: rtranclp_induct)
  case base
  show ?case by (auto simp: strand_inv_def Strand_Example_def comp_def)
next
  case (step s s')
  then show ?case by (blast intro: strand_inv_step [OF assms(1)])
qed

lemma strand_progress:
  assumes "documented_asio A" and "strand_inv s" and "\<And>s'. \<not> strand_step A s s'"
  shows "begun s = [] \<and> waiting_handlers s = [] \<and> in_run s = {}"
proof -
  have b: "begun s = []" using Finish [of 0 s A] assms(3) by auto
  have q: "waiting_handlers s = []"
  proof (rule ccontr)
    assume q: "waiting_handlers s \<noteq> []"
    then obtain n where "may_begin A (waiting_handlers s) [] n" using assms(1) unfolding documented_asio_def by blast
    moreover have "0 \<in> in_run s" using assms(2) q by (auto simp: strand_inv_def)
    ultimately show False using Begin [of 0 s A n] b assms(3) by auto
  qed
  have "may_return A [] []" using assms(1) by (simp add: documented_asio_def)
  then have "t \<notin> in_run s" for t using Leave [of t s A] b q assms(3) by auto
  with b q show ?thesis by blast
qed

text \<open>
  C30: the strand example prints its five handlers in the order in which they were posted, each once, although three
  threads run the context: at every moment of every schedule the lines are those of the first handlers, at most one
  handler is being executed, and no thread leaves \<open>run()\<close> before the last handler has printed. It cannot get stuck:
  when nothing can happen any more all five have printed and all three threads have left. Boost is arbitrary within
  its documentation.
\<close>

theorem strand_in_order:
  assumes "documented_asio A" and "strand_runs A s"
  shows "map fst (handler_lines s) = [0..<length (handler_lines s)] \<and> length (handler_lines s) \<le> 5 \<and>
    length (begun s) \<le> 1 \<and> (in_run s \<noteq> {0..<3} \<longrightarrow> length (handler_lines s) = 5) \<and>
    ((\<forall>s'. \<not> strand_step A s s') \<longrightarrow> map fst (handler_lines s) = [0, 1, 2, 3, 4] \<and> in_run s = {})"
proof -
  let ?n = "length (handler_lines s)"
  have i: "strand_inv s" by (rule strand_inv_runs [OF assms])
  then have e: "map fst (handler_lines s) @ map (snd \<circ> snd) (begun s) @ map snd (waiting_handlers s) = [0..<5]"
    and l: "in_run s \<noteq> {0..<3} \<Longrightarrow> waiting_handlers s = [] \<and> begun s = []" and b: "length (begun s) \<le> 1"
    by (simp_all add: strand_inv_def)
  from arg_cong [OF e, of length] have n: "?n \<le> 5" by simp
  from arg_cong [OF e, of "take ?n"] n have "map fst (handler_lines s) = [0..<?n]"
    by simp
  moreover have "?n = 5" if "in_run s \<noteq> {0..<3}" using arg_cong [OF e, of length] l [OF that] by simp
  moreover have "map fst (handler_lines s) = [0, 1, 2, 3, 4] \<and> in_run s = {}" if "\<forall>s'. \<not> strand_step A s s'"
    using strand_progress [OF assms(1) i] that e by (simp add: upt_rec)
  ultimately show ?thesis using n b by blast
qed

text \<open>The most liberal Boost within the documentation: a strand's handler is begun only as promised, any other at any time.\<close>

definition liberal_asio :: asio where
  "liberal_asio = \<lparr>may_begin = (\<lambda>hs es n. n < length hs \<and>
      (fst (hs ! n) = Strand \<longrightarrow> Strand \<notin> fst ` set es \<and> Strand \<notin> fst ` set (take n hs))),
     may_return = (\<lambda>hs es. hs = [] \<and> es = [])\<rparr>"

lemma documented_liberal_asio: "documented_asio liberal_asio"
proof -
  have "\<exists>n. n < length hs \<and> (fst (hs ! n) = Strand \<longrightarrow> Strand \<notin> fst ` set (take n hs))" if "hs \<noteq> []" for hs :: "posted list"
    using that by (intro exI [of _ 0]) simp
  then show ?thesis by (simp add: documented_asio_def liberal_asio_def)
qed

theorem strand_in_order_witness:
  "\<exists>s. strand_runs liberal_asio s \<and> handler_lines s = [(0, 2)] \<and> map fst (handler_lines s) = [0..<1] \<and> length (begun s) \<le> 1"
proof -
  let ?s = "Strand_Example\<lparr>begun := [(2, Strand, 0)], waiting_handlers := map (\<lambda>i. (Strand, i)) [1..<5]\<rparr>"
  have "strand_step liberal_asio Strand_Example ?s"
    using Begin [of 2 Strand_Example liberal_asio 0]
    by (simp add: Strand_Example_def liberal_asio_def remove_nth_def upt_rec)
  moreover have "strand_step liberal_asio ?s (strand_finish 0 ?s)" by (rule Finish) simp
  ultimately have r: "strand_runs liberal_asio (strand_finish 0 ?s)"
    by (rule converse_rtranclp_into_rtranclp [OF _ r_into_rtranclp])
  have "handler_lines (strand_finish 0 ?s) = [(0, 2)]"
    by (simp add: strand_finish_def strand_handler_def Strand_Example_def)
  with strand_in_order [OF documented_liberal_asio r] r show ?thesis by force
qed

text \<open>
  It is the strand that gives the order: were the same handlers posted to the context, the second could print before
  the first, and both could be in progress at once.
\<close>

lemma three_steps: "R a b \<Longrightarrow> R b c \<Longrightarrow> R c d \<Longrightarrow> R\<^sup>*\<^sup>* a d"
  by (meson converse_rtranclp_into_rtranclp r_into_rtranclp)

theorem context_has_no_order:
  "\<exists>s. (strand_step liberal_asio)\<^sup>*\<^sup>* (Strand_Example\<lparr>waiting_handlers := map (\<lambda>i. (Io_Context, i)) [0..<5]\<rparr>) s \<and>
     map fst (handler_lines s) = [1] \<and> length (begun s) = 1"
proof -
  define a where "a = Strand_Example\<lparr>waiting_handlers := map (\<lambda>i. (Io_Context, i)) [0..<5]\<rparr>"
  define b where "b = a\<lparr>begun := [(0, Io_Context, 0)], waiting_handlers := map (\<lambda>i. (Io_Context, i)) [Suc 0..<5]\<rparr>"
  define c where "c = b\<lparr>begun := [(0, Io_Context, 0), (1, Io_Context, 1)], waiting_handlers := map (\<lambda>i. (Io_Context, i)) [Suc (Suc 0)..<5]\<rparr>"
  note d = a_def b_def c_def Strand_Example_def
  have "strand_step liberal_asio a b"
    using Begin [of 0 a liberal_asio 0] by (simp add: d liberal_asio_def remove_nth_def drop_map)
  moreover have "strand_step liberal_asio b c"
    using Begin [of 1 b liberal_asio 0] by (simp add: d liberal_asio_def remove_nth_def drop_map)
  moreover have "strand_step liberal_asio c (strand_finish 1 c)"
    using Finish [of 1 c liberal_asio] by (simp add: c_def)
  ultimately have r: "(strand_step liberal_asio)\<^sup>*\<^sup>* a (strand_finish 1 c)" by (rule three_steps)
  have "map fst (handler_lines (strand_finish 1 c)) = [1]" "length (begun (strand_finish 1 c)) = 1"
    by (simp_all add: strand_finish_def strand_handler_def d remove_nth_def)
  with r show ?thesis unfolding a_def by (intro exI conjI)
qed

text \<open>Every execution ends, after at most 13 steps.\<close>

definition strand_measure :: "strand_state \<Rightarrow> nat" where
  "strand_measure s = 2 * length (waiting_handlers s) + length (begun s) + card (in_run s)"

lemma remove_nth_length [simp]: "i < length xs \<Longrightarrow> length (remove_nth i xs) = length xs - 1"
  by (simp add: remove_nth_def)

lemma strand_step_decreases:
  assumes "documented_asio A" and "strand_step A s s'" and "finite (in_run s)"
  shows "strand_measure s' < strand_measure s"
  using assms(2)
proof cases
  case (Begin t n)
  with assms(1) have "n < length (waiting_handlers s)" unfolding documented_asio_def by blast
  with Begin(1) show ?thesis by (simp add: strand_measure_def)
next
  case (Finish m)
  then show ?thesis by (auto simp: strand_measure_def strand_finish_def strand_handler_def)
next
  case (Leave t)
  with assms(3) have "card (in_run s - {t}) < card (in_run s)" by (intro card_Diff1_less)
  with Leave(1) show ?thesis by (simp add: strand_measure_def)
qed

theorem strand_example_ends:
  assumes "documented_asio A" and "((strand_step A) ^^ n) Strand_Example s"
  shows "n + strand_measure s \<le> 13"
  using assms(2)
proof (induction n arbitrary: s)
  case 0
  then have "s = Strand_Example" by simp
  then show ?case by (simp add: strand_measure_def Strand_Example_def)
next
  case (Suc n)
  then obtain u where u: "((strand_step A) ^^ n) Strand_Example u" "strand_step A u s" by auto
  then have "finite (in_run u)"
    using strand_inv_runs [OF assms(1) relpowp_imp_rtranclp] by (auto simp: strand_inv_def intro: finite_subset)
  from strand_step_decreases [OF assms(1) u(2) this] Suc.IH [OF u(1)] show ?case by simp
qed

end
