(* ===== verification/Clock_Text.thy ===== *)
theory Clock_Text
  imports Base "HOL-Library.List_Lexorder" "HOL-Library.Char_ord"
begin

text \<open>
  The time stamps in front of the lines the programs print: \<open>getCurrentTime\<close> of
  \<open>Asio/Utils/Utilities.cpp\<close>, of \<open>Beast/utilities/Utilities.cpp\<close> and of
  \<open>Asio/Experiments/Experiments.cpp\<close>. The clock is an argument, a number of nanoseconds since the epoch,
  and \<open>localtime\<close> is a parameter, because the time zone of the machine decides what it gives.
\<close>

section \<open>The standard library\<close>

text \<open>The fields of \<open>std::tm\<close> that the formats use.\<close>

record tm =
  tm_sec :: int
  tm_min :: int
  tm_hour :: int
  tm_mday :: int
  tm_mon :: int
  tm_year :: int
  tm_wday :: int

text \<open>The ranges that the C standard gives for the fields (60 is a leap second).\<close>

definition tm_in_range :: "tm \<Rightarrow> bool" where
  "tm_in_range tm \<longleftrightarrow> 0 \<le> tm_sec tm \<and> tm_sec tm \<le> 60 \<and> 0 \<le> tm_min tm \<and> tm_min tm \<le> 59 \<and>
     0 \<le> tm_hour tm \<and> tm_hour tm \<le> 23 \<and> 1 \<le> tm_mday tm \<and> tm_mday tm \<le> 31 \<and>
     0 \<le> tm_mon tm \<and> tm_mon tm \<le> 11 \<and> 0 \<le> tm_wday tm \<and> tm_wday tm \<le> 6"

definition four_digit_year :: "tm \<Rightarrow> bool" where
  "four_digit_year tm \<longleftrightarrow> 1000 \<le> tm_year tm + 1900 \<and> tm_year tm + 1900 \<le> 9999"

text \<open>\<open>duration_cast\<close> to a coarser unit and \<open>%\<close> on durations round toward zero.\<close>

definition quot :: "int \<Rightarrow> int \<Rightarrow> int" where
  "quot a b = sgn a * (\<bar>a\<bar> div b)"

definition zeros_before :: "nat \<Rightarrow> string \<Rightarrow> string" where
  "zeros_before w ds = replicate (w - length ds) (CHR ''0'') @ ds"

text \<open>\<open>%02d\<close> and \<open>%06ld\<close>: the zeros stand between the sign and the digits, and the sign counts.\<close>

definition printf_zeros :: "nat \<Rightarrow> int \<Rightarrow> string" where
  "printf_zeros w v =
     (if v < 0 then CHR ''-'' # zeros_before (w - 1) (to_string (nat (- v))) else zeros_before w (to_string (nat v)))"

text \<open>\<open>std::setfill('0') << std::setw(w)\<close>: the zeros stand before the sign.\<close>

definition setw_zeros :: "nat \<Rightarrow> int \<Rightarrow> string" where
  "setw_zeros w v = zeros_before w (show_int v)"

text \<open>\<open>std::put_time(tm, "%a %b %d %Y %T")\<close> in the classic locale.\<close>

definition day_names :: "string list" where
  "day_names = [''Sun'', ''Mon'', ''Tue'', ''Wed'', ''Thu'', ''Fri'', ''Sat'']"

definition month_names :: "string list" where
  "month_names = [''Jan'', ''Feb'', ''Mar'', ''Apr'', ''May'', ''Jun'', ''Jul'', ''Aug'', ''Sep'', ''Oct'', ''Nov'', ''Dec'']"

definition put_time :: "tm \<Rightarrow> string" where
  "put_time tm = day_names ! nat (tm_wday tm) @ '' '' @ month_names ! nat (tm_mon tm) @ '' '' @
     printf_zeros 2 (tm_mday tm) @ '' '' @ show_int (tm_year tm + 1900) @ '' '' @
     printf_zeros 2 (tm_hour tm) @ '':'' @ printf_zeros 2 (tm_min tm) @ '':'' @ printf_zeros 2 (tm_sec tm)"


section \<open>The three functions\<close>

text \<open>\<open>sprintf\<close> with \<open>FORMAT\<close>.\<close>

definition time_format :: "tm \<Rightarrow> int \<Rightarrow> string" where
  "time_format tm micros =
     show_int (tm_year tm + 1900) @ ''-'' @ printf_zeros 2 (tm_mon tm + 1) @ ''-'' @ printf_zeros 2 (tm_mday tm) @ '' '' @
     printf_zeros 2 (tm_hour tm) @ '':'' @ printf_zeros 2 (tm_min tm) @ '':'' @ printf_zeros 2 (tm_sec tm) @ ''.'' @
     printf_zeros 6 micros"

definition time_buffer_size :: nat where
  "time_buffer_size = 64"

text \<open>
  \<open>sprintf\<close> stores the text and a terminating zero into the 64 characters of the string and the zero behind
  them; more than that is undefined behaviour, \<open>None\<close>.
\<close>

definition getCurrentTime :: "(int \<Rightarrow> tm) \<Rightarrow> int \<Rightarrow> string option" where
  "getCurrentTime localtime timestamp = (let
       time = quot timestamp 1000000000;
       tm = localtime time;
       buffer = replicate (Suc time_buffer_size) (CHR 0x00);
       written = time_format tm (quot (timestamp - time * 1000000000) 1000)
     in if Suc (length written) \<le> length buffer
        then Some (take (length written) (store_at_start (written @ [CHR 0x00]) buffer)) else None)"

text \<open>\<open>Beast/utilities\<close>: one reading of the clock for both parts.\<close>

definition beast_getCurrentTime :: "(int \<Rightarrow> tm) \<Rightarrow> int \<Rightarrow> string" where
  "beast_getCurrentTime localtime now = (let
       in_time_t = quot now 1000000000;
       nowMs = quot now 1000 - quot (quot now 1000) 1000000 * 1000000
     in put_time (localtime in_time_t) @ ''.'' @ setw_zeros 6 nowMs)"

text \<open>\<open>Asio/Experiments\<close>: the seconds come from a second reading of the clock, \<open>later\<close>.\<close>

definition experiments_getCurrentTime :: "(int \<Rightarrow> tm) \<Rightarrow> int \<Rightarrow> int \<Rightarrow> string" where
  "experiments_getCurrentTime localtime now later = (let
       in_time_t = quot later 1000000000;
       nowMs = quot now 1000 - quot (quot now 1000) 1000000 * 1000000
     in put_time (localtime in_time_t) @ ''.'' @ setw_zeros 6 nowMs)"


section \<open>Lengths\<close>

lemma length_to_string_le: "n < 10 ^ Suc w \<Longrightarrow> length (to_string n) \<le> Suc w"
proof (induction w arbitrary: n)
  case 0
  then show ?case by (simp add: to_string.simps)
next
  case (Suc w)
  then have "n div 10 < 10 ^ Suc w" by (simp add: less_mult_imp_div_less)
  from Suc.IH [OF this] show ?case by (subst to_string.simps) simp
qed

lemma length_to_string_ge: "10 ^ w \<le> n \<Longrightarrow> Suc w \<le> length (to_string n)"
proof (induction w arbitrary: n)
  case 0
  then show ?case by (simp add: Suc_le_eq)
next
  case (Suc w)
  then have "10 ^ w \<le> n div 10" by (simp add: less_eq_div_iff_mult_less_eq mult.commute)
  from Suc.IH [OF this] Suc.prems show ?case
    by (subst to_string.simps) (auto simp: not_less intro: order.trans [of _ "10 * 10 ^ w"])
qed

lemma length_zeros_before: "length ds \<le> w \<Longrightarrow> length (zeros_before w ds) = w"
  by (simp add: zeros_before_def)

lemma length_printf_zeros:
  "0 \<le> v \<Longrightarrow> v < 10 ^ Suc w \<Longrightarrow> length (printf_zeros (Suc w) v) = Suc w"
proof -
  assume "0 \<le> v" "v < 10 ^ Suc w"
  then have "nat v < 10 ^ Suc w" by (simp add: nat_less_iff)
  from length_to_string_le [OF this] \<open>0 \<le> v\<close> show ?thesis
    by (simp add: printf_zeros_def length_zeros_before)
qed

lemma two_digits: "0 \<le> v \<Longrightarrow> v < 100 \<Longrightarrow> length (printf_zeros 2 v) = 2"
  using length_printf_zeros [of v 1] by (simp add: numeral_eq_Suc)

lemma six_digits: "0 \<le> v \<Longrightarrow> v < 1000000 \<Longrightarrow> length (printf_zeros 6 v) = 6"
  using length_printf_zeros [of v 5] by (simp add: numeral_eq_Suc)

lemma six_signed: "\<bar>v\<bar> < 1000000 \<Longrightarrow> length (printf_zeros 6 v) \<le> 7"
proof (cases "v < 0")
  case True
  assume "\<bar>v\<bar> < 1000000"
  with True have "nat (- v) < 10 ^ Suc 5" by simp
  from length_to_string_le [OF this] True show ?thesis by (simp add: printf_zeros_def zeros_before_def)
qed (simp add: six_digits)

lemma year_length:
  assumes "- (2 ^ 31) \<le> y" and "y < 2 ^ 31"
  shows "length (show_int y) \<le> 11"
proof -
  have "nat \<bar>y\<bar> < 10 ^ Suc 9" using assms by auto
  from length_to_string_le [OF this] show ?thesis by (auto simp: show_int_def)
qed

lemma four_digits: "1000 \<le> y \<Longrightarrow> y \<le> 9999 \<Longrightarrow> length (show_int y) = 4"
  using length_to_string_le [of "nat y" 3] length_to_string_ge [of 3 "nat y"] by (simp add: show_int_def nat_less_iff)

lemma quot_rest: "0 < b \<Longrightarrow> \<bar>a - quot a b * b\<bar> < b"
proof -
  assume b: "0 < b"
  have "a - quot a b * b = sgn a * (\<bar>a\<bar> mod b)"
    by (cases a "0::int" rule: linorder_cases) (auto simp: quot_def minus_div_mult_eq_mod [symmetric] algebra_simps)
  then show ?thesis using b by (cases a "0::int" rule: linorder_cases) simp_all
qed

lemma quot_less: "\<bar>a\<bar> < 1000 * b \<Longrightarrow> \<bar>quot a 1000\<bar> < b"
  by (cases a "0::int" rule: linorder_cases) (auto simp: quot_def)

lemma micros_bound: "\<bar>quot (t - quot t 1000000000 * 1000000000) 1000\<bar> < 1000000"
  using quot_rest [of 1000000000 t] by (intro quot_less) simp

lemma quot_pos: "0 \<le> a \<Longrightarrow> 0 < b \<Longrightarrow> quot a b = a div b"
  by (cases "a = 0") (simp_all add: quot_def)

lemma micros_pos: "0 \<le> t \<Longrightarrow> quot (t - quot t 1000000000 * 1000000000) 1000 = t mod 1000000000 div 1000"
  by (simp add: quot_pos minus_div_mult_eq_mod)

lemma getCurrentTime_fits:
  assumes "length (time_format (localtime (quot t 1000000000))
      (quot (t - quot t 1000000000 * 1000000000) 1000)) \<le> time_buffer_size"
  shows "getCurrentTime localtime t = Some (time_format (localtime (quot t 1000000000))
      (quot (t - quot t 1000000000 * 1000000000) 1000))"
  using assms by (simp add: getCurrentTime_def Let_def store_at_start_def)

text \<open>
  C15: the time stamp always fits its buffer: for every clock reading, before the epoch too, and every year that
  an \<open>int\<close> holds, \<open>sprintf\<close> writes at most 34 of the 64 characters, and exactly 26 for a year of four digits
  and a time after the epoch.
\<close>

theorem time_stamp_fits:
  assumes "tm_in_range (localtime (quot t 1000000000))"
    and "- (2 ^ 31) \<le> tm_year (localtime (quot t 1000000000)) + 1900"
    and "tm_year (localtime (quot t 1000000000)) + 1900 < 2 ^ 31"
  shows "\<exists>text. getCurrentTime localtime t = Some text \<and> length text \<le> 34 \<and>
     (four_digit_year (localtime (quot t 1000000000)) \<and> 0 \<le> t \<longrightarrow> length text = 26)"
proof -
  let ?tm = "localtime (quot t 1000000000)" and ?us = "quot (t - quot t 1000000000 * 1000000000) 1000"
  have f: "length (time_format ?tm ?us) = length (show_int (tm_year ?tm + 1900)) + 16 + length (printf_zeros 6 ?us)"
    using assms(1) by (simp add: time_format_def two_digits tm_in_range_def)
  have le: "length (time_format ?tm ?us) \<le> 34"
    using f year_length [OF assms(2,3)] six_signed [OF micros_bound [of t]] by simp
  then have g: "getCurrentTime localtime t = Some (time_format ?tm ?us)"
    by (intro getCurrentTime_fits) (simp add: time_buffer_size_def)
  have "length (time_format ?tm ?us) = 26" if "four_digit_year ?tm" "0 \<le> t"
  proof -
    have "0 \<le> ?us" "?us < 1000000" using that(2) micros_bound [of t] by (auto simp: micros_pos)
    from six_digits [OF this] show ?thesis using f that(1) by (simp add: four_digit_year_def four_digits)
  qed
  with g le show ?thesis by blast
qed

definition epoch_tm :: tm where
  "epoch_tm = \<lparr>tm_sec = 0, tm_min = 0, tm_hour = 0, tm_mday = 1, tm_mon = 0, tm_year = 70, tm_wday = 4\<rparr>"

theorem time_stamp_fits_witness:
  "\<exists>text. getCurrentTime (\<lambda>s. epoch_tm\<lparr>tm_sec := s mod 60\<rparr>) (-5000) = Some text \<and> length text \<le> 34"
  using time_stamp_fits [of "\<lambda>s. epoch_tm\<lparr>tm_sec := s mod 60\<rparr>" "-5000"]
  by (auto simp: epoch_tm_def tm_in_range_def quot_def)


section \<open>Order\<close>

text \<open>Strings of the same length are compared character by character from the left.\<close>

lemma append_less_iff:
  fixes xs ys :: "'a::linorder list"
  assumes "length xs = length ys"
  shows "xs @ us < ys @ vs \<longleftrightarrow> xs < ys \<or> xs = ys \<and> us < vs"
  using assms by (induction rule: list_induct2) auto

text \<open>The \<open>w\<close> last digits of a number.\<close>

fun last_digits :: "nat \<Rightarrow> nat \<Rightarrow> string" where
  "last_digits 0 n = []"
| "last_digits (Suc w) n = last_digits w (n div 10) @ [digit_char (n mod 10)]"

lemma length_last_digits [simp]: "length (last_digits w n) = w"
  by (induction w arbitrary: n) simp_all

lemma last_digits_zero: "last_digits w 0 = replicate w (CHR ''0'')"
  by (induction w) (simp_all add: digit_char_def replicate_append_same char_of_def bit_nat_def flip: replicate_append_same)

lemma zeros_before_last_digits: "n < 10 ^ Suc w \<Longrightarrow> zeros_before (Suc w) (to_string n) = last_digits (Suc w) n"
proof (induction w arbitrary: n)
  case 0
  then show ?case by (simp add: to_string.simps zeros_before_def)
next
  case (Suc w)
  then have d: "n div 10 < 10 ^ Suc w" by (simp add: less_mult_imp_div_less)
  show ?case
  proof (cases "n < 10")
    case True
    have "last_digits (Suc w) (n div 10) = replicate (Suc w) (CHR ''0'')"
      using True by (simp only: div_less last_digits_zero)
    then show ?thesis using True
      by (subst last_digits.simps(2)) (simp add: zeros_before_def to_string.simps del: last_digits.simps)
  next
    case False
    have "zeros_before (Suc (Suc w)) (to_string n) = zeros_before (Suc w) (to_string (n div 10)) @ [digit_char (n mod 10)]"
      using False by (subst to_string.simps) (simp add: zeros_before_def)
    then show ?thesis using Suc.IH [OF d] by (simp del: last_digits.simps(2) add: last_digits.simps(2) [of "Suc w"])
  qed
qed

lemma digit_char_less: "a < 10 \<Longrightarrow> b < 10 \<Longrightarrow> digit_char a < digit_char b \<longleftrightarrow> a < b"
  by (simp add: less_char_def of_char_digit_char)

lemma less_div_mod: "(n::nat) < m \<longleftrightarrow> n div 10 < m div 10 \<or> n div 10 = m div 10 \<and> n mod 10 < m mod 10"
  using div_mult_mod_eq [of n 10] div_mult_mod_eq [of m 10] mod_less_divisor [of 10 n] mod_less_divisor [of 10 m]
  by linarith

lemma eq_div_mod: "(n::nat) = m \<longleftrightarrow> n div 10 = m div 10 \<and> n mod 10 = m mod 10"
  by (metis div_mult_mod_eq)

lemma last_digits_eq: "n < 10 ^ w \<Longrightarrow> m < 10 ^ w \<Longrightarrow> last_digits w n = last_digits w m \<longleftrightarrow> n = m"
proof (induction w arbitrary: n m)
  case (Suc w)
  then have "n div 10 < 10 ^ w" "m div 10 < 10 ^ w" by (simp_all add: less_mult_imp_div_less)
  from Suc.IH [OF this] show ?case
    by (subst eq_div_mod [of n m]) (auto dest: arg_cong [of _ _ digit_value])
qed simp

lemma last_digits_less: "n < 10 ^ w \<Longrightarrow> m < 10 ^ w \<Longrightarrow> last_digits w n < last_digits w m \<longleftrightarrow> n < m"
proof (induction w arbitrary: n m)
  case (Suc w)
  then have "n div 10 < 10 ^ w" "m div 10 < 10 ^ w" by (simp_all add: less_mult_imp_div_less)
  from Suc.IH [OF this] last_digits_eq [OF this] show ?case
    by (subst less_div_mod [of n m]) (simp add: append_less_iff digit_char_less)
qed simp

lemma printf_last_digits:
  "0 \<le> v \<Longrightarrow> v < 10 ^ Suc w \<Longrightarrow> printf_zeros (Suc w) v = last_digits (Suc w) (nat v)"
  by (simp add: printf_zeros_def zeros_before_last_digits nat_less_iff del: last_digits.simps)

lemma printf_2: "0 \<le> v \<Longrightarrow> v < 100 \<Longrightarrow> printf_zeros 2 v = last_digits 2 (nat v)"
  using printf_last_digits [of v 1] by (simp add: numeral_eq_Suc del: last_digits.simps)

lemma printf_6: "0 \<le> v \<Longrightarrow> v < 1000000 \<Longrightarrow> printf_zeros 6 v = last_digits 6 (nat v)"
  using printf_last_digits [of v 5] by (simp add: numeral_eq_Suc del: last_digits.simps)

lemma show_year: "1000 \<le> y \<Longrightarrow> y \<le> 9999 \<Longrightarrow> show_int y = last_digits 4 (nat y)"
proof -
  assume y: "1000 \<le> y" "y \<le> 9999"
  then have "nat y < 10 ^ Suc 3" by simp
  from zeros_before_last_digits [OF this] four_digits [OF y] y show ?thesis
    by (simp add: zeros_before_def show_int_def numeral_eq_Suc del: last_digits.simps)
qed

text \<open>What a time stamp says, the most significant field first.\<close>

definition stamp_key :: "(int \<Rightarrow> tm) \<Rightarrow> int \<Rightarrow> int list" where
  "stamp_key localtime t = (let tm = localtime (t div 1000000000) in
     [tm_year tm + 1900, tm_mon tm + 1, tm_mday tm, tm_hour tm, tm_min tm, tm_sec tm, t mod 1000000000 div 1000])"

definition has_width :: "nat \<Rightarrow> int \<Rightarrow> bool" where
  "has_width w v \<longleftrightarrow> 0 \<le> v \<and> v < 10 ^ w"

lemma last_field_less:
  assumes "has_width w v" "has_width w v'"
  shows "last_digits w (nat v) < last_digits w (nat v') \<longleftrightarrow> v < v'"
  using assms by (subst last_digits_less) (auto simp: has_width_def nat_less_iff)

lemma field_less:
  assumes "has_width w v" "has_width w v'"
  shows "last_digits w (nat v) @ c # us < last_digits w (nat v') @ c # vs \<longleftrightarrow> v < v' \<or> v = v' \<and> us < vs"
  using last_field_less [OF assms] assms
  by (auto simp: append_less_iff last_digits_eq has_width_def nat_less_iff)

lemma seven_fields_less:
  assumes "has_width 4 y" "has_width 4 y'" "has_width 2 m" "has_width 2 m'" "has_width 2 d" "has_width 2 d'"
    and "has_width 2 h" "has_width 2 h'" "has_width 2 i" "has_width 2 i'" "has_width 2 s" "has_width 2 s'"
    and "has_width 6 u" "has_width 6 u'"
  shows "last_digits 4 (nat y) @ a # last_digits 2 (nat m) @ a # last_digits 2 (nat d) @ b # last_digits 2 (nat h) @ c #
      last_digits 2 (nat i) @ c # last_digits 2 (nat s) @ e # last_digits 6 (nat u) <
    last_digits 4 (nat y') @ a # last_digits 2 (nat m') @ a # last_digits 2 (nat d') @ b # last_digits 2 (nat h') @ c #
      last_digits 2 (nat i') @ c # last_digits 2 (nat s') @ e # last_digits 6 (nat u') \<longleftrightarrow>
    [y, m, d, h, i, s, u] < [y', m', d', h', i', s', u']"
  unfolding field_less [OF assms(1,2)] field_less [OF assms(3,4)] field_less [OF assms(5,6)] field_less [OF assms(7,8)]
    field_less [OF assms(9,10)] field_less [OF assms(11,12)] last_field_less [OF assms(13,14)]
    Cons_less_Cons
  by (simp only: not_less_Nil simp_thms)

lemma stamp_fields:
  assumes "tm_in_range tm" and "four_digit_year tm"
  shows "has_width 4 (tm_year tm + 1900)" "has_width 2 (tm_mon tm + 1)" "has_width 2 (tm_mday tm)"
    "has_width 2 (tm_hour tm)" "has_width 2 (tm_min tm)" "has_width 2 (tm_sec tm)"
  using assms by (simp_all add: tm_in_range_def four_digit_year_def has_width_def)

lemma micros_range: "0 \<le> s \<Longrightarrow> 0 \<le> s mod 1000000000 div 1000 \<and> s mod 1000000000 div (1000::int) < 1000000"
  using micros_bound [of s] by (simp add: micros_pos)

lemma stamp_text:
  assumes "0 \<le> t" and "tm_in_range (localtime (t div 1000000000))" and "four_digit_year (localtime (t div 1000000000))"
  shows "getCurrentTime localtime t = Some (let tm = localtime (t div 1000000000) in
     last_digits 4 (nat (tm_year tm + 1900)) @ CHR ''-'' # last_digits 2 (nat (tm_mon tm + 1)) @ CHR ''-'' #
     last_digits 2 (nat (tm_mday tm)) @ CHR '' '' # last_digits 2 (nat (tm_hour tm)) @ CHR '':'' #
     last_digits 2 (nat (tm_min tm)) @ CHR '':'' # last_digits 2 (nat (tm_sec tm)) @ CHR ''.'' #
     last_digits 6 (nat (t mod 1000000000 div 1000)))" (is "_ = Some ?text")
proof -
  have q: "quot t 1000000000 = t div 1000000000" using assms(1) by (simp add: quot_pos)
  have f: "time_format (localtime (t div 1000000000)) (t mod 1000000000 div 1000) = ?text"
    using assms micros_range [OF assms(1)]
    by (simp add: time_format_def show_year printf_2 printf_6 tm_in_range_def four_digit_year_def Let_def
        del: last_digits.simps)
  have "length ?text \<le> time_buffer_size" by (simp add: time_buffer_size_def Let_def del: last_digits.simps)
  with getCurrentTime_fits [of localtime t, unfolded micros_pos [OF assms(1)], unfolded q f] show ?thesis by (simp only:)
qed

text \<open>
  C14: lines that start with these time stamps can be sorted as text, from 1970 on and as long as the years have four
  digits: one time stamp is before another in the order of strings exactly when its year, month, day, hour, minute,
  second and microsecond are, compared in this order; so two stamps are equal only when all of these are. Before the
  epoch it is not so, because the fraction has a sign there (\<open>stamp_before_epoch\<close>).
\<close>

theorem time_stamps_sort_as_text:
  assumes "0 \<le> t" and "0 \<le> t'"
    and "tm_in_range (localtime (t div 1000000000))" and "tm_in_range (localtime (t' div 1000000000))"
    and "four_digit_year (localtime (t div 1000000000))" and "four_digit_year (localtime (t' div 1000000000))"
  shows "the (getCurrentTime localtime t) < the (getCurrentTime localtime t') \<longleftrightarrow>
     stamp_key localtime t < stamp_key localtime t'"
proof -
  note r = stamp_fields [OF assms(3,5)] stamp_fields [OF assms(4,6)]
  have m: "has_width 6 (t mod 1000000000 div 1000)" "has_width 6 (t' mod 1000000000 div 1000)"
    using micros_range [OF assms(1)] micros_range [OF assms(2)] by (simp_all add: has_width_def)
  show ?thesis
    unfolding stamp_text [of t localtime, OF assms(1,3,5)] stamp_text [of t' localtime, OF assms(2,4,6)] stamp_key_def Let_def
      option.sel
    by (rule seven_fields_less) (fact r m)+
qed

theorem time_stamps_sort_as_text_witness:
  "the (getCurrentTime (\<lambda>s. epoch_tm\<lparr>tm_sec := s mod 60\<rparr>) 9000000000) <
   the (getCurrentTime (\<lambda>s. epoch_tm\<lparr>tm_sec := s mod 60\<rparr>) 10000001000)"
  using time_stamps_sort_as_text [of 9000000000 10000001000 "\<lambda>s. epoch_tm\<lparr>tm_sec := s mod 60\<rparr>"]
  by (simp add: epoch_tm_def tm_in_range_def four_digit_year_def stamp_key_def)


section \<open>What the functions print, before the epoch and across a second\<close>

lemma to_string_numerals: "to_string 999999 = ''999999''" "to_string (Suc 0) = ''1''"
proof -
  have "digit_char 9 = CHR ''9''" "digit_char 1 = CHR ''1''" by code_simp+
  then show "to_string 999999 = ''999999''" "to_string (Suc 0) = ''1''"
    by (simp_all add: to_string.simps [of 999999] to_string.simps [of 99999] to_string.simps [of 9999]
      to_string.simps [of 999] to_string.simps [of 99] to_string.simps [of 9] to_string.simps [of "Suc 0"])
qed

lemma epoch_texts: "show_int 1970 = ''1970''" "printf_zeros 2 0 = ''00''" "printf_zeros 2 1 = ''01''"
  by code_simp+

text \<open>
  Before the epoch the rounding toward zero gives a negative number of microseconds, and its sign ends up in the
  fraction.
\<close>

theorem stamp_before_epoch:
  assumes "- 100000000 < t" and "t \<le> - 1000" and "localtime 0 = epoch_tm"
  shows "getCurrentTime localtime t = Some (''1970-01-01 00:00:00.-'' @ last_digits 5 (nat (- t div 1000)))"
proof -
  have q: "quot t 1000000000 = 0" using assms by (simp add: quot_def div_pos_pos_trivial)
  have v: "quot t 1000 = - (- t div 1000)" "0 < - t div 1000" "- t div 1000 < 100000"
    using assms by (simp_all add: quot_def pos_imp_zdiv_pos_iff)
  have "nat (- t div 1000) < 10 ^ Suc 4" using v by simp
  from zeros_before_last_digits [OF this] have p: "printf_zeros 6 (quot t 1000) = CHR ''-'' # last_digits 5 (nat (- t div 1000))"
    using v by (simp add: printf_zeros_def numeral_eq_Suc del: last_digits.simps)
  have f: "time_format epoch_tm (quot t 1000) = ''1970-01-01 00:00:00.-'' @ last_digits 5 (nat (- t div 1000))"
    by (simp add: time_format_def p epoch_tm_def epoch_texts del: last_digits.simps)
  then have "length (time_format epoch_tm (quot t 1000)) \<le> time_buffer_size"
    by (simp add: time_buffer_size_def del: last_digits.simps)
  with f getCurrentTime_fits [of localtime t] show ?thesis by (simp add: q assms(3) del: last_digits.simps)
qed

text \<open>
  The function of \<open>Asio/Experiments\<close> reads the clock twice. When a second ends between the two readings it
  prints the new second with the old fraction, a time that is almost a second late: the stamps go backward.
\<close>

theorem second_reading_tears_stamp:
  "experiments_getCurrentTime (\<lambda>s. epoch_tm\<lparr>tm_sec := s\<rparr>) 999999000 1000000000 = ''Thu Jan 01 1970 00:00:01.999999'' \<and>
   experiments_getCurrentTime (\<lambda>s. epoch_tm\<lparr>tm_sec := s\<rparr>) 1000001000 1000002000 = ''Thu Jan 01 1970 00:00:01.000001''"
proof -
  have p: "put_time (epoch_tm\<lparr>tm_sec := 1\<rparr>) = ''Thu Jan 01 1970 00:00:01''"
    by (simp add: put_time_def epoch_tm_def day_names_def month_names_def epoch_texts)
  have five: "replicate 5 (CHR ''0'') = ''00000''" by code_simp
  have z: "setw_zeros 6 999999 = ''999999''" "setw_zeros 6 1 = ''000001''"
    using five by (simp_all add: setw_zeros_def show_int_def to_string_numerals zeros_before_def)
  show ?thesis by (simp add: experiments_getCurrentTime_def quot_def p z)
qed

text \<open>With one reading both formats agree.\<close>

theorem one_reading_consistent:
  "beast_getCurrentTime localtime now = experiments_getCurrentTime localtime now now"
  by (simp add: beast_getCurrentTime_def experiments_getCurrentTime_def)

end
