(* ===== verification/Daytime_Service.thy ===== *)
theory Daytime_Service
  imports Clock_Text Tcp_Basics
begin

text \<open>
  The daytime protocol of \<open>Networking/Networking.cpp\<close> and \<open>Asio/Experiments/Experiments.cpp\<close> from end to end: the text
  that the servers make of their clock, what they write to each connection, and what the clients print of it.
\<close>

section \<open>The text\<close>

text \<open>\<open>%3d\<close> of a number that is not negative.\<close>

definition blanks_before :: "nat \<Rightarrow> string \<Rightarrow> string" where
  "blanks_before w ds = replicate (w - length ds) (CHR '' '') @ ds"

text \<open>\<open>ctime\<close> of the C standard: \<open>%.3s %.3s%3d %.2d:%.2d:%.2d %d\n\<close>, for the local time.\<close>

definition asctime :: "tm \<Rightarrow> string" where
  "asctime tm = day_names ! nat (tm_wday tm) @ '' '' @ month_names ! nat (tm_mon tm) @
     blanks_before 3 (show_int (tm_mday tm)) @ '' '' @ printf_zeros 2 (tm_hour tm) @ '':'' @ printf_zeros 2 (tm_min tm) @ '':'' @
     printf_zeros 2 (tm_sec tm) @ '' '' @ show_int (tm_year tm + 1900) @ [CHR 0x0A]"

definition ctime :: "(int \<Rightarrow> tm) \<Rightarrow> int \<Rightarrow> string" where
  "ctime localtime t = asctime (localtime t)"

text \<open>\<open>now\<close> is what \<open>time(0)\<close> gives, a number of seconds.\<close>

definition make_daytime_string :: "(int \<Rightarrow> tm) \<Rightarrow> int \<Rightarrow> string" where
  "make_daytime_string localtime now = ctime localtime now"

definition experiments_make_daytime_string :: "(int \<Rightarrow> tm) \<Rightarrow> int \<Rightarrow> string" where
  "experiments_make_daytime_string localtime now = ctime localtime now"


section \<open>One line\<close>

definition a_line :: "string \<Rightarrow> bool" where
  "a_line t \<longleftrightarrow> (\<exists>u. t = u @ [CHR 0x0A] \<and> CHR 0x0A \<notin> set u)"

lemma names_of_three:
  "\<forall>x \<in> set day_names. length x = 3 \<and> CHR 0x0A \<notin> set x" "\<forall>x \<in> set month_names. length x = 3 \<and> CHR 0x0A \<notin> set x"
  "length day_names = 7" "length month_names = 12"
  by (simp_all add: day_names_def month_names_def)

lemma day_name:
  assumes "0 \<le> w" and "w \<le> 6"
  shows "length (day_names ! nat w) = 3" and "CHR 0x0A \<notin> set (day_names ! nat w)"
  using assms names_of_three(1) nth_mem [of "nat w" day_names] by (simp_all add: names_of_three nat_less_iff)

lemma month_name:
  assumes "0 \<le> m" and "m \<le> 11"
  shows "length (month_names ! nat m) = 3" and "CHR 0x0A \<notin> set (month_names ! nat m)"
  using assms names_of_three(2) nth_mem [of "nat m" month_names] by (simp_all add: names_of_three nat_less_iff)

lemma no_newline_to_string: "CHR 0x0A \<notin> set (to_string n)"
  using to_string_digits [of n] by (auto simp: is_digit_def)

lemma no_newline_show_int: "CHR 0x0A \<notin> set (show_int v)"
  by (simp add: show_int_def no_newline_to_string)

lemma no_newline_printf: "CHR 0x0A \<notin> set (printf_zeros w v)"
  by (simp add: printf_zeros_def zeros_before_def no_newline_to_string)

lemma no_newline_blanks: "CHR 0x0A \<notin> set ds \<Longrightarrow> CHR 0x0A \<notin> set (blanks_before w ds)"
  by (simp add: blanks_before_def)

lemma day_of_month_length: "1 \<le> d \<Longrightarrow> d \<le> 31 \<Longrightarrow> length (blanks_before 3 (show_int d)) = 3"
  using length_to_string_le [of "nat d" 1] by (simp add: blanks_before_def show_int_def nat_less_iff)

lemma asctime_line:
  assumes "tm_in_range tm"
  shows "a_line (asctime tm)"
proof -
  let ?u = "day_names ! nat (tm_wday tm) @ '' '' @ month_names ! nat (tm_mon tm) @
     blanks_before 3 (show_int (tm_mday tm)) @ '' '' @ printf_zeros 2 (tm_hour tm) @ '':'' @ printf_zeros 2 (tm_min tm) @ '':'' @
     printf_zeros 2 (tm_sec tm) @ '' '' @ show_int (tm_year tm + 1900)"
  have "asctime tm = ?u @ [CHR 0x0A]" by (simp add: asctime_def)
  moreover have "CHR 0x0A \<notin> set ?u"
    using assms by (simp add: tm_in_range_def day_name month_name no_newline_blanks no_newline_show_int no_newline_printf)
  ultimately show ?thesis unfolding a_line_def by blast
qed

lemma asctime_length:
  assumes "tm_in_range tm" and "four_digit_year tm"
  shows "length (asctime tm) = 25"
  using assms
  by (simp add: tm_in_range_def four_digit_year_def asctime_def day_name month_name day_of_month_length two_digits four_digits)


section \<open>What the servers write\<close>

text \<open>The results of a server's calls: each connection is accepted, and its write succeeds or fails.\<close>

definition daytime_script :: "(error_code \<times> net_result) list \<Rightarrow> net_result \<Rightarrow> (error_code \<times> net_result) list" where
  "daytime_script writes r = concat (map (\<lambda>w. [(Success, r), w]) writes)"

lemma daytime_script_simps:
  "daytime_script [] r = []"
  "daytime_script (w # writes) r = (Success, r) # w # daytime_script writes r"
  by (simp_all add: daytime_script_def)

lemma daytime_round_calls: "calls_each_round (daytime_round daytime)"
  unfolding daytime_round_def by (intro calls_eachI consumes_intros causal_intros)

lemma tcp_daytime_round_calls: "calls_each_round (tcp_daytime_round daytime peer)"
  unfolding tcp_daytime_round_def by (intro calls_eachI consumes_intros causal_intros)

lemma daytime_server_round:
  "daytime_round daytime n ((Success, r) # w # cs) =
     ([Start Accept, Start (Write (daytime n))], cs, Returned (Inl (Suc n)))"
  "is_error ec \<Longrightarrow> daytime_round daytime n ((ec, r) # cs) = ([Start Accept], cs, Thrown (System_Error [] ec))"
  by (simp_all add: daytime_round_def io_simps)

lemma tcp_daytime_server_round:
  "tcp_daytime_round daytime peer n ((Success, r) # w # cs) =
     ([Start Accept, print_line (''Connection from '' @ fst (peer n) @ '' tot '' @ snd (peer n) @ '' established.''),
       Start (Write (daytime n))], cs, Returned (Inl (Suc n)))"
  "is_error ec \<Longrightarrow> tcp_daytime_round daytime peer n ((ec, r) # cs) = ([Start Accept], cs, Thrown (System_Error [] ec))"
  by (simp_all add: tcp_daytime_round_def io_simps)


text \<open>The texts written, one for each connection.\<close>

definition texts_written :: "action list \<Rightarrow> string list" where
  "texts_written as = concat (map (\<lambda>op. case op of Write t \<Rightarrow> [t] | _ \<Rightarrow> []) (started as))"

lemma texts_written_simps [simp]:
  "texts_written [] = []" "texts_written (as @ bs) = texts_written as @ texts_written bs"
  "texts_written (Start (Write t) # as) = t # texts_written as" "texts_written (Start Accept # as) = texts_written as"
  "texts_written (Start (Acceptor_Construct a p) # as) = texts_written as"
  "texts_written (Out t # as) = texts_written as" "texts_written (print_line t # as) = texts_written as"
  "texts_written (Report_What what e # as) = texts_written as"
  by (simp_all add: texts_written_def print_line_def)

lemma daytime_server_loop:
  assumes "is_error ec"
  shows "\<exists>as. io_loop (daytime_round daytime) n (daytime_script writes r @ [(ec, r)]) = (as, [], Thrown (System_Error [] ec)) \<and>
    texts_written as = map daytime [n..<n + length writes]"
proof (induction writes arbitrary: n)
  case Nil
  show ?case using assms
    by (subst io_loop_unfold [OF daytime_round_calls])
       (simp add: io_bind.simps daytime_script_simps daytime_server_round)
next
  case (Cons w writes)
  from Cons [of "Suc n"] obtain as where
    "io_loop (daytime_round daytime) (Suc n) (daytime_script writes r @ [(ec, r)]) = (as, [], Thrown (System_Error [] ec))"
    "texts_written as = map daytime [Suc n..<Suc n + length writes]" by blast
  then show ?case
    by (subst io_loop_unfold [OF daytime_round_calls])
       (simp add: io_bind.simps daytime_script_simps daytime_server_round upt_conv_Cons del: upt_Suc)
qed

lemma tcp_daytime_server_loop:
  assumes "is_error ec"
  shows "\<exists>as. io_loop (tcp_daytime_round daytime peer) n (daytime_script writes r @ [(ec, r)]) =
      (as, [], Thrown (System_Error [] ec)) \<and> texts_written as = map daytime [n..<n + length writes]"
proof (induction writes arbitrary: n)
  case Nil
  show ?case using assms
    by (subst io_loop_unfold [OF tcp_daytime_round_calls])
       (simp add: io_bind.simps daytime_script_simps tcp_daytime_server_round)
next
  case (Cons w writes)
  from Cons [of "Suc n"] obtain as where
    "io_loop (tcp_daytime_round daytime peer) (Suc n) (daytime_script writes r @ [(ec, r)]) = (as, [], Thrown (System_Error [] ec))"
    "texts_written as = map daytime [Suc n..<Suc n + length writes]" by blast
  then show ?case
    by (subst io_loop_unfold [OF tcp_daytime_round_calls])
       (simp add: io_bind.simps daytime_script_simps tcp_daytime_server_round upt_conv_Cons del: upt_Suc)
qed

text \<open>A failing accept ends the server; until then every connection is written the time of its moment.\<close>

lemma daytime_servers_write:
  assumes "is_error ec"
  shows "(let (as, left, res) = daytime_server daytime ((Success, r) # daytime_script writes r @ [(ec, r)])
      in texts_written as = map daytime [0..<length writes] \<and> res = Returned ())"
    and "(let (as, left, res) = tcp_daytime_server daytime peer ((Success, r) # daytime_script writes r @ [(ec, r)])
      in texts_written as = map daytime [0..<length writes] \<and> res = Returned ())"
  using daytime_server_loop [OF assms, of daytime 0 writes r] tcp_daytime_server_loop [OF assms, of daytime peer 0 writes r]
  by (auto simp: daytime_server_def tcp_daytime_server_def io_catch_def io_simps)


section \<open>From the clock to the screen\<close>

text \<open>
  the daytime service works from end to end: whatever the writes to other connections result in, the client
  of connection \<open>k\<close> prints the local time of the moment the server had accepted it, as one line of 25 characters,
  in whatever pieces the line arrives, and returns. The line fits into the 128 bytes of one read.
\<close>

theorem daytime_is_delivered:
  assumes "\<And>k. tm_in_range (localtime (clock k))" and "\<And>k. four_digit_year (localtime (clock k))"
    and "is_error ec" and "k < length writes"
    and "concat (map bytes rs) = texts_written (fst (daytime_server (\<lambda>k. make_daytime_string localtime (clock k))
      ((Success, r) # daytime_script writes r @ [(ec, r)]))) ! k"
  shows "(let (as, left, res) = daytime_client ((Success, a) # (Success, b) # map (Pair Success) rs @ [(Eof, r)])
     in printed as = ctime localtime (clock k) \<and> a_line (printed as) \<and> length (printed as) = 25 \<and> res = Returned ())"
proof -
  from daytime_servers_write(1) [OF assms(3), of "\<lambda>k. make_daytime_string localtime (clock k)" r writes] assms(4,5)
  have "concat (map bytes rs) = asctime (localtime (clock k))"
    by (auto simp: make_daytime_string_def ctime_def split: prod.splits)
  with daytime_clients_print_all [of a b rs r] show ?thesis
    by (auto simp: ctime_def asctime_line [OF assms(1)] asctime_length [OF assms(1,2)] split: prod.splits)
qed

text \<open>Two connections at different moments; the second line arrives in two pieces, after the first write failed.\<close>

theorem daytime_is_delivered_witness:
  "let text = make_daytime_string (\<lambda>s. epoch_tm\<lparr>tm_sec := s mod 60\<rparr>) 71;
       rs = map (\<lambda>t. \<lparr>bytes = t, transferred = length t, endpoints = []\<rparr>) [take 7 text, drop 7 text];
       r = \<lparr>bytes = [], transferred = 0, endpoints = []\<rparr>;
       (as, left, res) = daytime_client ((Success, r) # (Success, r) # map (Pair Success) rs @ [(Eof, r)])
   in length (printed as) = 25"
proof -
  let ?lt = "\<lambda>s. epoch_tm\<lparr>tm_sec := s mod 60\<rparr>" and ?clock = "\<lambda>k. if k = 0 then 60 else 71 :: int"
  let ?text = "make_daytime_string ?lt 71"
  let ?rs = "map (\<lambda>t. \<lparr>bytes = t, transferred = length t, endpoints = []\<rparr> :: net_result) [take 7 ?text, drop 7 ?text]"
  let ?r = "\<lparr>bytes = [], transferred = 0, endpoints = []\<rparr> :: net_result"
  let ?writes = "[(Eof, ?r), (Success, ?r)]"
  have range: "tm_in_range (?lt s)" "four_digit_year (?lt s)" for s
    by (simp_all add: tm_in_range_def four_digit_year_def epoch_tm_def)
  have written: "texts_written (fst (daytime_server (\<lambda>k. make_daytime_string ?lt (?clock k))
      ((Success, ?r) # daytime_script ?writes ?r @ [(Eof, ?r)]))) ! 1 = ?text"
    using daytime_servers_write(1) [of Eof "\<lambda>k. make_daytime_string ?lt (?clock k)" ?r ?writes]
    by (auto split: prod.splits)
  have "concat (map bytes ?rs) = ?text" by simp
  then show ?thesis
    using daytime_is_delivered [of ?lt ?clock Eof 1 ?writes ?rs ?r ?r ?r] range written
    by (auto simp: Let_def split: prod.splits)
qed

end
