(* ===== verification/Library_Demos.thy ===== *)
theory Library_Demos
  imports Base
begin

text \<open>
  Small programs around one library: the MD5 hashes of \<open>Experiments/main.cpp\<close>, the containers of \<open>Collections\<close>, the
  command line of \<open>ProgramOptions/ProgramOptions.cpp\<close>, the enumeration of \<open>Describe/main.cpp\<close> and the records of
  \<open>Logging/Logging.cpp\<close>. The library is a
  parameter; what a theorem needs of it is a hypothesis that its documentation states.
\<close>

abbreviation newline :: string where
  "newline \<equiv> [CHR 0x0A]"


section \<open>MD5\<close>

text \<open>
  \<open>md5\<close> is the digest of \<open>process_bytes\<close> and \<open>get_digest\<close> as its bytes, \<open>hex\<close> is \<open>boost::algorithm::hex\<close>.
\<close>

definition calculateHash :: "(string \<Rightarrow> string) \<Rightarrow> (string \<Rightarrow> string) \<Rightarrow> string \<Rightarrow> string" where
  "calculateHash md5 hex input = (if input = [] then [] else let digest = md5 input in hex digest)"

definition GetMd5 :: "(string \<Rightarrow> string) \<Rightarrow> (string \<Rightarrow> string) \<Rightarrow> string \<Rightarrow> string" where
  "GetMd5 md5 hex input = (if input = [] then [] else let digest = md5 input in hex digest)"

definition md5_toString :: "(string \<Rightarrow> string) \<Rightarrow> string \<Rightarrow> string" where
  "md5_toString hex digest = hex digest"

definition md5_Test1 :: "(string \<Rightarrow> string) \<Rightarrow> (string \<Rightarrow> string) \<Rightarrow> string" where
  "md5_Test1 md5 hex = (let text = ''123456789qwerty''; digest = md5 text
     in ''md5('' @ text @ '') = '' @ md5_toString hex digest @ newline)"

definition md5_Test2 :: "(string \<Rightarrow> string) \<Rightarrow> (string \<Rightarrow> string) \<Rightarrow> string" where
  "md5_Test2 md5 hex = (let text = ''123456789qwerty''; hash = GetMd5 md5 hex text
     in ''md5('' @ text @ '') = '' @ hash @ newline)"

definition md5_Test3 :: "(string \<Rightarrow> string) \<Rightarrow> (string \<Rightarrow> string) \<Rightarrow> string" where
  "md5_Test3 md5 hex = (let text = ''123456789qwerty''; hash = calculateHash md5 hex text
     in ''md5('' @ text @ '') = '' @ hash @ newline)"

text \<open>
  The two hash functions agree on every input, and the three tests print the same line; only for the empty input
  is the result not the digest.
\<close>

theorem md5_functions_agree:
  "calculateHash md5 hex = GetMd5 md5 hex" "md5_Test1 md5 hex = md5_Test2 md5 hex" "md5_Test3 md5 hex = md5_Test2 md5 hex"
  "GetMd5 md5 hex input = (if input = [] then [] else md5_toString hex (md5 input))"
  by (simp_all add: fun_eq_iff calculateHash_def GetMd5_def md5_toString_def md5_Test1_def md5_Test2_def md5_Test3_def)


section \<open>\<open>flat_map\<close> and \<open>circular_buffer\<close>\<close>

text \<open>\<open>assign m k v\<close> is \<open>m[k] = v\<close>; \<open>entries\<close> is what the range-based loop visits.\<close>

definition flat_map_lines :: "('m \<Rightarrow> (int \<times> int) list) \<Rightarrow> 'm \<Rightarrow> string" where
  "flat_map_lines entries m = concat (map (\<lambda>(k, v). show_int k @ '' = '' @ show_int v @ newline) (entries m))"

definition Sorted_Less :: "('m \<Rightarrow> int \<Rightarrow> int \<Rightarrow> 'm) \<Rightarrow> ('m \<Rightarrow> (int \<times> int) list) \<Rightarrow> 'm \<Rightarrow> string" where
  "Sorted_Less assign entries my_map =
     flat_map_lines entries (assign (assign (assign my_map 1 1) 3 3) 2 2)"

definition Sorted_Greater :: "('m \<Rightarrow> int \<Rightarrow> int \<Rightarrow> 'm) \<Rightarrow> ('m \<Rightarrow> (int \<times> int) list) \<Rightarrow> 'm \<Rightarrow> string" where
  "Sorted_Greater assign entries my_map =
     flat_map_lines entries (assign (assign (assign my_map 1 1) 3 3) 2 2)"

text \<open>The documentation of an ordered associative container with unique keys and the comparison \<open>lt\<close>.\<close>

definition ordered_container ::
  "(int \<Rightarrow> int \<Rightarrow> bool) \<Rightarrow> ('m \<Rightarrow> int \<Rightarrow> int \<Rightarrow> 'm) \<Rightarrow> ('m \<Rightarrow> (int \<times> int) list) \<Rightarrow> 'm \<Rightarrow> bool" where
  "ordered_container lt assign entries none \<longleftrightarrow> entries none = [] \<and>
     (\<forall>m. sorted_wrt lt (map fst (entries m))) \<and>
     (\<forall>m k v. map_of (entries (assign m k v)) = (map_of (entries m))(k \<mapsto> v))"

lemma sorted_wrt_unique:
  assumes "sorted_wrt lt xs" and "sorted_wrt lt ys" and "set xs = set ys" and "transp lt" and "irreflp lt"
  shows "xs = ys"
  using assms(1-3)
proof (induction xs arbitrary: ys)
  case (Cons x xs)
  then obtain y ys' where y: "ys = y # ys'" by (cases ys) auto
  have e: "x = y"
  proof (rule ccontr)
    assume "x \<noteq> y"
    with Cons.prems y have "lt y x" "lt x y" by auto
    with assms(4,5) show False by (meson irreflpD transpD)
  qed
  have "x \<notin> set xs" "y \<notin> set ys'" using Cons.prems y assms(5) by (auto dest: irreflpD)
  with e Cons.prems y have "set xs = set ys'" by (simp add: insert_ident)
  with e Cons y show ?case by auto
qed simp

lemma map_of_keys: "distinct (map fst zs) \<Longrightarrow> zs = map (\<lambda>k. (k, the (map_of zs k))) (map fst zs)"
proof (rule nth_equalityI)
  fix i
  assume d: "distinct (map fst zs)" and i: "i < length zs"
  obtain k v where z: "zs ! i = (k, v)" by (cases "zs ! i")
  with i d have "map_of zs k = Some v" by (metis map_of_is_SomeI nth_mem)
  with i z show "zs ! i = map (\<lambda>k. (k, the (map_of zs k))) (map fst zs) ! i" by simp
qed simp

lemma ordered_entries:
  assumes "ordered_container lt assign entries none" and "transp lt" and "irreflp lt"
    and "sorted_wrt lt (map fst es)" and "map_of es = [1 \<mapsto> 1, 3 \<mapsto> 3, 2 \<mapsto> 2]"
  shows "entries (assign (assign (assign none 1 1) 3 3) 2 2) = es" (is "entries ?m = es")
proof -
  have m: "map_of (entries ?m) = map_of es" and s: "sorted_wrt lt (map fst (entries ?m))"
    using assms(1,5) by (simp_all add: ordered_container_def)
  have d: "distinct (map fst zs)" if "sorted_wrt lt (map fst zs)" for zs :: "(int \<times> int) list"
    using that assms(3) by (induction zs) (force dest: irreflpD)+
  have "set (map fst (entries ?m)) = set (map fst es)"
    using arg_cong [OF m, of dom] by (simp add: dom_map_of_conv_image_fst)
  from sorted_wrt_unique [OF s assms(4) this assms(2,3)] have k: "map fst (entries ?m) = map fst es" .
  show ?thesis
    using map_of_keys [OF d [OF s]] map_of_keys [OF d [OF assms(4)]] unfolding k m by simp
qed

text \<open>
  the two maps are filled in the same way and print the same entries, each once, the one with \<open>std::less\<close> in
  ascending order of the keys and the one with \<open>std::greater\<close> in descending order.
\<close>

theorem flat_maps_print_in_order:
  assumes "ordered_container (<) assign entries none" and "ordered_container (>) assign' entries' none'"
  shows "Sorted_Less assign entries none = concat (map (\<lambda>k. k @ '' = '' @ k @ newline) [''1'', ''2'', ''3''])"
    and "Sorted_Greater assign' entries' none' = concat (map (\<lambda>k. k @ '' = '' @ k @ newline) [''3'', ''2'', ''1''])"
proof -
  have n: "show_int 1 = ''1''" "show_int 2 = ''2''" "show_int 3 = ''3''" by code_simp+
  have "entries (assign (assign (assign none 1 1) 3 3) 2 2) = [(1, 1), (2, 2), (3, 3)]"
    by (rule ordered_entries [OF assms(1)]) auto
  then show "Sorted_Less assign entries none = concat (map (\<lambda>k. k @ '' = '' @ k @ newline) [''1'', ''2'', ''3''])"
    by (simp add: Sorted_Less_def flat_map_lines_def n)
  have "entries' (assign' (assign' (assign' none' 1 1) 3 3) 2 2) = [(3, 3), (2, 2), (1, 1)]"
    by (rule ordered_entries [OF assms(2)]) auto
  then show "Sorted_Greater assign' entries' none' = concat (map (\<lambda>k. k @ '' = '' @ k @ newline) [''3'', ''2'', ''1''])"
    by (simp add: Sorted_Greater_def flat_map_lines_def n)
qed

text \<open>A map as the list of its insertions, read in the order of the keys.\<close>

definition listed_entries :: "(int \<times> int) list \<Rightarrow> (int \<times> int) list" where
  "listed_entries m = map (\<lambda>k. (k, the (map_of m k))) (sorted_list_of_set (fst ` set m))"

lemma map_of_listed:
  assumes "set ks = fst ` set m"
  shows "map_of (map (\<lambda>k. (k, the (map_of m k))) ks) = map_of m"
proof
  fix k
  show "map_of (map (\<lambda>k. (k, the (map_of m k))) ks) k = map_of m k"
    using assms map_of_eq_None_iff [of m k] by (cases "map_of m k") (auto simp: map_of_map_restrict restrict_map_def)
qed

lemma listed_containers:
  "ordered_container (<) (\<lambda>m k v. (k, v) # m) listed_entries []"
  "ordered_container (>) (\<lambda>m k v. (k, v) # m) (\<lambda>m. rev (listed_entries m)) []"
proof -
  have d: "distinct (map fst (listed_entries m))" for m
    by (simp add: listed_entries_def o_def)
  have m: "map_of (listed_entries m) = map_of m" for m
    unfolding listed_entries_def by (rule map_of_listed) simp
  have s: "sorted_wrt (<) (map fst (listed_entries m))" for m
    by (simp add: listed_entries_def o_def strict_sorted_iff)
  show "ordered_container (<) (\<lambda>m k v. (k, v) # m) listed_entries []"
    by (simp add: ordered_container_def m s) (simp add: listed_entries_def)
  have "map_of (rev (listed_entries m)) = map_of m" for m
    using d [of m] m [of m] map_of_inject_set [of "rev (listed_entries m)" "listed_entries m"]
    by (simp add: rev_map [symmetric])
  with s show "ordered_container (>) (\<lambda>m k v. (k, v) # m) (\<lambda>m. rev (listed_entries m)) []"
    by (simp add: ordered_container_def rev_map [symmetric] sorted_wrt_rev) (simp add: listed_entries_def)
qed

theorem flat_maps_print_in_order_witness:
  "Sorted_Less (\<lambda>m k v. (k, v) # m) listed_entries [] =
     concat (map (\<lambda>k. k @ '' = '' @ k @ newline) [''1'', ''2'', ''3''])"
  using flat_maps_print_in_order(1) [OF listed_containers] .


text \<open>
  \<open>pushBack_CapacityTest\<close>: \<open>circular_buffer[i]\<close> is the parameter \<open>at\<close>, \<open>contents\<close> what is in the buffer, from the
  oldest element on.
\<close>

definition circular_line :: "('b \<Rightarrow> nat \<Rightarrow> int) \<Rightarrow> 'b \<Rightarrow> string" where
  "circular_line at b = show_int (at b 0) @ '' '' @ show_int (at b 1) @ '' '' @ show_int (at b 2) @ newline"

definition pushBack_CapacityTest :: "(nat \<Rightarrow> 'b) \<Rightarrow> ('b \<Rightarrow> int \<Rightarrow> 'b) \<Rightarrow> ('b \<Rightarrow> nat \<Rightarrow> int) \<Rightarrow> string" where
  "pushBack_CapacityTest make push_back at =
     (let b = push_back (push_back (push_back (make 3) 1) 2) 3; b' = push_back b 4
      in circular_line at b @ circular_line at b')"

definition circular_container ::
  "nat \<Rightarrow> (nat \<Rightarrow> 'b) \<Rightarrow> ('b \<Rightarrow> int \<Rightarrow> 'b) \<Rightarrow> ('b \<Rightarrow> nat \<Rightarrow> int) \<Rightarrow> ('b \<Rightarrow> int list) \<Rightarrow> bool" where
  "circular_container capacity make push_back at contents \<longleftrightarrow> contents (make capacity) = [] \<and>
     (\<forall>b x. length (contents b) < capacity \<longrightarrow> contents (push_back b x) = contents b @ [x]) \<and>
     (\<forall>b x. length (contents b) = capacity \<longrightarrow> contents (push_back b x) = tl (contents b) @ [x]) \<and>
     (\<forall>b i. i < length (contents b) \<longrightarrow> at b i = contents b ! i)"

theorem circular_buffer_drops_oldest:
  assumes "circular_container 3 make push_back at contents"
  shows "pushBack_CapacityTest make push_back at = ''1 2 3'' @ newline @ ''2 3 4'' @ newline"
proof -
  have n: "show_int 1 = ''1''" "show_int 2 = ''2''" "show_int 3 = ''3''" "show_int 4 = ''4''" by code_simp+
  let ?b = "push_back (push_back (push_back (make 3) 1) 2) 3"
  have "contents ?b = [1, 2, 3]" "contents (push_back ?b 4) = [2, 3, 4]"
    using assms by (simp_all add: circular_container_def)
  then have "at ?b i = [1, 2, 3] ! i" "at (push_back ?b 4) i = [2, 3, 4] ! i" if "i < 3" for i
    using assms that by (simp_all add: circular_container_def)
  then show ?thesis by (simp add: pushBack_CapacityTest_def circular_line_def n)
qed


section \<open>The command line\<close>

text \<open>
  What \<open>store(parse_command_line(...))\<close> and \<open>notify\<close> give: the options found, the value of \<open>compression\<close> as it is
  printed, or the exception, with its message when it is a \<open>std::exception\<close>.
\<close>

datatype parsed_options = Parsed_Options bool "string option" | Parse_Exception string | Unknown_Exception

definition ProgramOptions_Test :: "(string list \<Rightarrow> parsed_options) \<Rightarrow> string \<Rightarrow> string list \<Rightarrow> string" where
  "ProgramOptions_Test parse desc argv = (case parse argv of
     Parsed_Options help compression \<Rightarrow>
       (if help then desc @ newline
        else case compression of
          Some level \<Rightarrow> ''Compression level was set to '' @ level @ ''.'' @ newline
        | None \<Rightarrow> ''Compression level was not set.'' @ newline)
   | Parse_Exception what \<Rightarrow> ''error: '' @ what @ newline
   | Unknown_Exception \<Rightarrow> ''Exception of unknown type!'' @ newline)"


section \<open>The described enumeration\<close>

datatype E = v1 | v2 | v3

text \<open>\<open>v2\<close> has no initializer: its value is that of \<open>v1\<close> plus one.\<close>

fun E_value :: "E \<Rightarrow> int" where
  "E_value v1 = 11"
| "E_value v2 = 11 + 1"
| "E_value v3 = 5"

fun E_name :: "E \<Rightarrow> string" where
  "E_name v1 = ''v1''"
| "E_name v2 = ''v2''"
| "E_name v3 = ''v3''"

text \<open>The enumerators in the order in which \<open>BOOST_DESCRIBE_ENUM\<close> lists them.\<close>

definition described_enumerators :: "E list" where
  "described_enumerators = [v1, v2, v3]"

definition PrintEnum :: string where
  "PrintEnum = concat (map (\<lambda>D. E_name D @ '': '' @ show_int (E_value D) @ newline) described_enumerators)"

theorem enum_printed:
  "PrintEnum = ''v1: 11'' @ newline @ ''v2: 12'' @ newline @ ''v3: 5'' @ newline"
  by code_simp

text \<open>All enumerators are described, and no two have the same value.\<close>

theorem enumerators_described:
  "e \<in> set described_enumerators" "inj E_value"
proof -
  show "e \<in> set described_enumerators" by (cases e) (simp_all add: described_enumerators_def)
  show "inj E_value"
  proof (rule injI)
    fix d e
    show "E_value d = E_value e \<Longrightarrow> d = e" by (cases d; cases e) simp_all
  qed
qed


section \<open>Log records\<close>

text \<open>
  The logging core keeps a filter on the severity of records, at first none; what passes is written. A function gives
  the records it makes that pass, and the filter it leaves.
\<close>

datatype severity = Trace | Debug | Info | Warning | Error | Fatal

primrec severity_rank :: "severity \<Rightarrow> nat" where
  "severity_rank Trace = 0"
| "severity_rank Debug = 1"
| "severity_rank Info = 2"
| "severity_rank Warning = 3"
| "severity_rank Error = 4"
| "severity_rank Fatal = 5"

type_synonym log_core = "severity \<Rightarrow> bool"

definition log_trivial :: "severity \<Rightarrow> string \<Rightarrow> log_core \<Rightarrow> (severity \<times> string) list" where
  "log_trivial sev message core = (if core sev then [(sev, message)] else [])"

definition SimpleTests :: "log_core \<Rightarrow> (severity \<times> string) list \<times> log_core" where
  "SimpleTests core =
     (log_trivial Trace ''A trace severity message'' core @
      log_trivial Debug ''A debug severity message'' core @
      log_trivial Info ''An informational severity message'' core @
      log_trivial Warning ''A warning severity message'' core @
      log_trivial Error ''An error severity message'' core @
      log_trivial Fatal ''A fatal severity message'' core, core)"

text \<open>The body of \<open>init_logging\<close>, which would set a filter, is in a comment.\<close>

definition init_logging :: "log_core \<Rightarrow> log_core" where
  "init_logging core = core"

definition Filering :: "log_core \<Rightarrow> (severity \<times> string) list \<times> log_core" where
  "Filering core = (let core = init_logging core in
     (log_trivial Trace ''A trace severity message'' core @
      log_trivial Debug ''A debug severity message'' core @
      log_trivial Info ''An informational severity message'' core @
      log_trivial Warning ''A warning severity message'' core @
      log_trivial Error ''An error severity message'' core @
      log_trivial Fatal ''A fatal severity message'' core, core))"

text \<open>
  So \<open>Filering\<close> filters nothing: with the core as the program finds it all six records are written, the first two
  too. With the filter in the comment it would have been the last four.
\<close>

theorem filering_filters_nothing:
  "Filering core = SimpleTests core"
  "map fst (fst (Filering (\<lambda>_. True))) = [Trace, Debug, Info, Warning, Error, Fatal]"
  "map fst (fst (SimpleTests (\<lambda>s. severity_rank Info \<le> severity_rank s))) = [Info, Warning, Error, Fatal]"
  by (simp_all add: Filering_def SimpleTests_def init_logging_def log_trivial_def)

end
