(* ===== verification/Metered_IO.thy ===== *)
theory Metered_IO
  imports Causal_IO
begin

text \<open>
  Calls and completions: each call of a program uses one completion, and a program that waits in a call has used them
  all. So the number of operations that a trace starts tells whether the program waits.
\<close>

section \<open>Metered programs\<close>

definition metered :: "('p, 'a) io \<Rightarrow> bool" where
  "metered m \<longleftrightarrow> (\<forall>s as s' r. m s = (as, s', r) \<longrightarrow>
     length s' + length (started as) = length s + (if r = Blocked then 1 else 0) \<and> (r = Blocked \<longrightarrow> s' = []))"

named_theorems metered_intros \<open>programs made of metered parts are metered\<close>

lemma meteredD:
  assumes "metered m" and "m s = (as, s', r)"
  shows "r \<noteq> Blocked \<Longrightarrow> length s' + length (started as) = length s"
    and "r = Blocked \<Longrightarrow> length (started as) = Suc (length s)"
    and "r = Blocked \<Longrightarrow> s' = []"
  using assms unfolding metered_def by fastforce+

lemma meteredI:
  assumes "\<And>s as s' r. m s = (as, s', r) \<Longrightarrow> r \<noteq> Blocked \<Longrightarrow> length s' + length (started as) = length s"
    and "\<And>s as s'. m s = (as, s', Blocked) \<Longrightarrow> s' = [] \<and> length (started as) = Suc (length s)"
  shows "metered m"
  using assms unfolding metered_def by fastforce

lemma metered_basic [metered_intros]: "metered (io_return a)" "metered (io_throw e)"
  by (rule meteredI; simp add: io_return_def io_throw_def)+

lemma metered_emit [metered_intros]: "started as = [] \<Longrightarrow> metered (io_emit as)"
  by (rule meteredI) (auto simp: io_emit_def)

lemma metered_call [metered_intros]: "metered (io_call op)"
  by (rule meteredI) (auto simp: io_call_def split: list.splits)

lemma metered_bind [metered_intros]:
  assumes m: "metered m" and k: "\<And>a. metered (k a)"
  shows "metered (io_bind m k)"
proof (rule meteredI)
  fix s as s' r
  assume b: "io_bind m k s = (as, s', r)" "r \<noteq> Blocked"
  obtain bs u q where e: "m s = (bs, u, q)" by (cases "m s")
  note mD = meteredD [OF m e]
  show "length s' + length (started as) = length s"
  proof (cases q)
    case (Returned a)
    obtain cs v p where f: "k a u = (cs, v, p)" by (cases "k a u")
    from b e f Returned mD(1) meteredD(1) [OF k f] show ?thesis by (auto simp: io_bind.simps)
  qed (use b e mD in \<open>auto simp: io_bind.simps\<close>)
next
  fix s as s'
  assume b: "io_bind m k s = (as, s', Blocked)"
  obtain bs u q where e: "m s = (bs, u, q)" by (cases "m s")
  note mD = meteredD [OF m e]
  show "s' = [] \<and> length (started as) = Suc (length s)"
  proof (cases q)
    case (Returned a)
    obtain cs v p where f: "k a u = (cs, v, p)" by (cases "k a u")
    from b e f Returned mD(1) meteredD(2,3) [OF k f] show ?thesis by (auto simp: io_bind.simps)
  qed (use b e mD in \<open>auto simp: io_bind.simps\<close>)
qed

lemma metered_seq [metered_intros]: "metered m \<Longrightarrow> metered n \<Longrightarrow> metered (io_seq m n)"
  unfolding io_seq_def by (rule metered_bind)

lemma metered_cases [metered_intros]:
  "metered m \<Longrightarrow> metered n \<Longrightarrow> metered (if b then m else n)"
  "(\<And>a b. metered (f a b)) \<Longrightarrow> metered (case p of (a, b) \<Rightarrow> f a b)"
  "(\<And>x. metered (l x)) \<Longrightarrow> (\<And>y. metered (l' y)) \<Longrightarrow> metered (case s of Inl x \<Rightarrow> l x | Inr y \<Rightarrow> l' y)"
  "(\<And>x. metered (g x)) \<Longrightarrow> metered (let x = e in g x)"
  by (simp_all split: prod.split sum.split)

lemma metered_check [metered_intros]: "metered (io_check op)"
  unfolding io_check_def by (intro metered_intros)

lemma metered_loop [metered_intros]:
  assumes f: "\<And>v. metered (f v)" and "calls_each_round f"
  shows "metered (io_loop f v)"
proof -
  define k where "k r = (case r of Inl v' \<Rightarrow> io_loop f v' | Inr a \<Rightarrow> io_return a)" for r
  have unfold: "io_loop f v s = io_bind (f v) k s" for v s
    unfolding k_def by (rule io_loop_unfold [OF assms(2)])
  have "case io_loop f v s of (as, s', r) \<Rightarrow>
    length s' + length (started as) = length s + (if r = Blocked then 1 else 0) \<and> (r = Blocked \<longrightarrow> s' = [])" for v s
  proof (induction "length s" arbitrary: s v rule: less_induct)
    case less
    obtain bs u q where e: "f v s = (bs, u, q)" by (cases "f v s")
    note fD = meteredD [OF f e]
    show ?case
    proof (cases q)
      case (Returned r)
      show ?thesis
      proof (cases r)
        case (Inl v')
        with e Returned assms(2) have "length u < length s" unfolding calls_each_round_def by blast
        from less [OF this, of v'] Returned Inl e fD(1) show ?thesis
          by (auto simp: unfold [of v s] io_bind.simps k_def split: prod.splits)
      next
        case (Inr a)
        with Returned e fD(1) show ?thesis by (simp add: unfold [of v s] io_bind.simps k_def io_return_def)
      qed
    qed (use e fD in \<open>auto simp: unfold [of v s] io_bind.simps\<close>)
  qed
  note all = this
  show ?thesis unfolding metered_def
  proof (intro allI impI)
    fix s as s' r
    assume "io_loop f v s = (as, s', r)"
    with all [where v = v and s = s] show "length s' + length (started as) = length s + (if r = Blocked then 1 else 0) \<and>
      (r = Blocked \<longrightarrow> s' = [])" by simp
  qed
qed

end
