(* ===== verification/Message_Exchange.thy ===== *)
theory Message_Exchange
  imports Metered_IO Async_Objects
begin

text \<open>
  Two programs that exchange whole messages over one connection: HTTP messages and WebSocket frames. Each end is the
  function from the completions it has received to the operations it has started; a read of a message delivers the first
  message that the other end has written and that has not been read yet, in the form that Boost's parser gives it. Every
  operation can also fail, at any time. The theory holds the contracts of the two ends, a client that asks once and a
  server that answers what it reads, as locales, how a program meets them, and what follows when the two ends meet.
\<close>

section \<open>Messages\<close>

datatype message = Request_Message http_request | Response_Message response | Frame bool string

fun message_of :: "operation \<Rightarrow> message option" where
  "message_of (Write_Request q) = Some (Request_Message q)"
| "message_of (Write_Response r) = Some (Response_Message r)"
| "message_of (Ws_Write is_text d) = Some (Frame is_text d)"
| "message_of op = None"

definition quiet :: "operation \<Rightarrow> bool" where
  "quiet op \<longleftrightarrow> message_of op = None \<and> op \<noteq> Read_Message"

type_synonym 'p end_point = "'p script \<Rightarrow> operation list"

fun sends_of :: "operation list \<Rightarrow> message list" where
  "sends_of [] = []"
| "sends_of (op # ops) = (case message_of op of None \<Rightarrow> [] | Some m \<Rightarrow> [m]) @ sends_of ops"

fun reads_of :: "operation list \<Rightarrow> 'p script \<Rightarrow> 'p list" where
  "reads_of (op # ops) (c # cs) = (if op = Read_Message \<and> \<not> is_error (fst c) then [snd c] else []) @ reads_of ops cs"
| "reads_of [] cs = []"
| "reads_of ops [] = []"

lemma sends_of_append [simp]: "sends_of (xs @ ys) = sends_of xs @ sends_of ys"
  by (induction xs) simp_all

lemma reads_of_Nil [simp]: "reads_of ops [] = []"
  by (cases ops) simp_all

lemma reads_of_append: "length ops = length cs \<Longrightarrow> reads_of (ops @ rest) (cs @ ds) = reads_of ops cs @ reads_of rest ds"
  by (induction ops cs rule: list_induct2) simp_all

abbreviation sent :: "'p end_point \<Rightarrow> 'p script \<Rightarrow> message list" where
  "sent P cs \<equiv> sends_of (P cs)"

abbreviation received :: "'p end_point \<Rightarrow> 'p script \<Rightarrow> 'p list" where
  "received P cs \<equiv> reads_of (P cs) cs"

text \<open>The last operation started is in flight if no completion belongs to it.\<close>

definition pending :: "'p end_point \<Rightarrow> 'p script \<Rightarrow> operation option" where
  "pending P cs = (if length (P cs) = Suc (length cs) then Some (last (P cs)) else None)"

definition all_succeed :: "'p script \<Rightarrow> bool" where
  "all_succeed cs \<longleftrightarrow> (\<forall>c \<in> set cs. \<not> is_error (fst c))"

lemma all_succeed_simps [simp]:
  "all_succeed []" "all_succeed (c # cs) \<longleftrightarrow> \<not> is_error (fst c) \<and> all_succeed cs"
  by (simp_all add: all_succeed_def)


section \<open>The connection\<close>

text \<open>\<open>d m p\<close>: the message \<open>m\<close>, sent by the other end, is read as \<open>p\<close>.\<close>

fun can_complete :: "(message \<Rightarrow> 'p \<Rightarrow> bool) \<Rightarrow> message list \<Rightarrow> operation \<Rightarrow> error_code \<times> 'p \<Rightarrow> bool" where
  "can_complete d unread op (ec, p) \<longleftrightarrow> (op = Read_Message \<and> \<not> is_error ec \<longrightarrow> unread \<noteq> [] \<and> d (hd unread) p)"

inductive exchange :: "'p end_point \<Rightarrow> (message \<Rightarrow> 'p \<Rightarrow> bool) \<Rightarrow> 'q end_point \<Rightarrow> (message \<Rightarrow> 'q \<Rightarrow> bool) \<Rightarrow>
    'p script \<Rightarrow> 'q script \<Rightarrow> bool" for P dP Q dQ where
  Opened: "exchange P dP Q dQ [] []"
| First: "exchange P dP Q dQ a b \<Longrightarrow> pending P a = Some op \<Longrightarrow>
    can_complete dP (drop (length (received P a)) (sent Q b)) op c \<Longrightarrow> exchange P dP Q dQ (a @ [c]) b"
| Second: "exchange P dP Q dQ a b \<Longrightarrow> pending Q b = Some op \<Longrightarrow>
    can_complete dQ (drop (length (received Q b)) (sent P a)) op c \<Longrightarrow> exchange P dP Q dQ a (b @ [c])"

text \<open>Nothing can happen any more without a failure.\<close>

definition at_rest :: "'p end_point \<Rightarrow> (message \<Rightarrow> 'p \<Rightarrow> bool) \<Rightarrow> 'q end_point \<Rightarrow> (message \<Rightarrow> 'q \<Rightarrow> bool) \<Rightarrow>
    'p script \<Rightarrow> 'q script \<Rightarrow> bool" where
  "at_rest P dP Q dQ a b \<longleftrightarrow>
     (\<forall>op p. pending P a = Some op \<longrightarrow> \<not> can_complete dP (drop (length (received P a)) (sent Q b)) op (Success, p)) \<and>
     (\<forall>op q. pending Q b = Some op \<longrightarrow> \<not> can_complete dQ (drop (length (received Q b)) (sent P a)) op (Success, q))"

text \<open>One conversation, the completions of the two ends in their order; whether it is possible can be computed.\<close>

fun plays :: "'p end_point \<Rightarrow> (message \<Rightarrow> 'p \<Rightarrow> bool) \<Rightarrow> 'q end_point \<Rightarrow> (message \<Rightarrow> 'q \<Rightarrow> bool) \<Rightarrow>
    ((error_code \<times> 'p) + (error_code \<times> 'q)) list \<Rightarrow> 'p script \<Rightarrow> 'q script \<Rightarrow> bool" where
  "plays P dP Q dQ [] a b \<longleftrightarrow> True"
| "plays P dP Q dQ (Inl c # ms) a b \<longleftrightarrow> (case pending P a of None \<Rightarrow> False
     | Some op \<Rightarrow> can_complete dP (drop (length (received P a)) (sent Q b)) op c \<and> plays P dP Q dQ ms (a @ [c]) b)"
| "plays P dP Q dQ (Inr c # ms) a b \<longleftrightarrow> (case pending Q b of None \<Rightarrow> False
     | Some op \<Rightarrow> can_complete dQ (drop (length (received Q b)) (sent P a)) op c \<and> plays P dP Q dQ ms a (b @ [c]))"

fun at_first :: "(('c + 'd) list) \<Rightarrow> 'c list" where
  "at_first [] = []" | "at_first (Inl c # ms) = c # at_first ms" | "at_first (Inr d # ms) = at_first ms"

fun at_second :: "(('c + 'd) list) \<Rightarrow> 'd list" where
  "at_second [] = []" | "at_second (Inl c # ms) = at_second ms" | "at_second (Inr d # ms) = d # at_second ms"

lemma plays_on: "exchange P dP Q dQ a b \<Longrightarrow> plays P dP Q dQ ms a b \<Longrightarrow>
    exchange P dP Q dQ (a @ at_first ms) (b @ at_second ms)"
proof (induction P dP Q dQ ms a b rule: plays.induct)
  case (2 P dP Q dQ c ms a b)
  then show ?case using First [OF 2(2)] by (auto split: option.splits)
next
  case (3 P dP Q dQ c ms a b)
  then show ?case using Second [OF 3(2)] by (auto split: option.splits)
qed simp

lemma plays_exchange: "plays P dP Q dQ ms [] [] \<Longrightarrow> exchange P dP Q dQ (at_first ms) (at_second ms)"
  using plays_on [OF Opened] by fastforce


section \<open>The two ends\<close>

text \<open>An end waits for each operation before it starts the next, and never takes an operation back.\<close>

locale message_end =
  fixes P :: "'p end_point"
  assumes one_pending: "length (P cs) \<le> Suc (length cs)"
    and goes_on: "prefix (P cs) (P (cs @ [c]))"
begin

lemma pending_snoc:
  assumes "pending P cs = Some op"
  obtains as where "P (cs @ [c]) = P cs @ as" "length as \<le> 1" "butlast (P cs) @ [op] = P cs"
proof -
  from goes_on [of cs c] obtain as where as: "P (cs @ [c]) = P cs @ as" by (auto simp: prefix_def)
  from assms have l: "length (P cs) = Suc (length cs)" "last (P cs) = op"
    by (auto simp: pending_def split: if_splits)
  then have "P cs \<noteq> []" by auto
  with l have "butlast (P cs) @ [op] = P cs" using append_butlast_last_id by blast
  moreover have "length as \<le> 1" using as l one_pending [of "cs @ [c]"] by simp
  ultimately show thesis using as that by blast
qed

lemma received_snoc:
  assumes "pending P cs = Some op"
  shows "received P (cs @ [c]) = received P cs @ (if op = Read_Message \<and> \<not> is_error (fst c) then [snd c] else [])"
proof -
  from pending_snoc [OF assms] obtain as where as: "P (cs @ [c]) = P cs @ as" "butlast (P cs) @ [op] = P cs" by metis
  have l: "length (butlast (P cs)) = length cs"
    using assms by (auto simp: pending_def split: if_splits)
  have "received P (cs @ [c]) = reads_of (butlast (P cs) @ op # as) (cs @ [c])"
    using as by (metis append_Cons append_Nil append_assoc)
  moreover have "received P cs = reads_of (butlast (P cs)) cs"
    using as(2) reads_of_append [OF l, of "[op]" "[]"] by simp
  ultimately show ?thesis by (simp only: reads_of_append [OF l] reads_of.simps reads_of_Nil append_Nil2)
qed

lemma sent_snoc: "prefix (sent P cs) (sent P (cs @ [c]))"
  using goes_on [of cs c] by (auto simp: prefix_def)

end

text \<open>What has been read at an end are the first messages that the other end has sent, each as it is delivered.\<close>

definition delivered :: "(message \<Rightarrow> 'p \<Rightarrow> bool) \<Rightarrow> message list \<Rightarrow> 'p list \<Rightarrow> bool" where
  "delivered d ms ps \<longleftrightarrow> (\<exists>ms'. prefix ms' ms \<and> list_all2 d ms' ps)"

lemma delivered_more: "delivered d ms ps \<Longrightarrow> prefix ms ns \<Longrightarrow> delivered d ns ps"
  unfolding delivered_def by (meson prefix_order.trans)

lemma delivered_next:
  assumes "delivered d ms ps" and "drop (length ps) ms \<noteq> []" and "d (hd (drop (length ps) ms)) p"
  shows "delivered d ms (ps @ [p])"
proof -
  from assms(1) obtain ms' ns where ms: "ms = ms' @ ns" "list_all2 d ms' ps"
    by (auto simp: delivered_def prefix_def)
  then have "drop (length ps) ms = ns" by (simp add: list_all2_lengthD)
  with assms(2,3) obtain n ns' where n: "ns = n # ns'" "d n p" by (cases ns) auto
  with ms have "prefix (ms' @ [n]) ms" "list_all2 d (ms' @ [n]) (ps @ [p])"
    by (auto simp: prefix_def intro: list_all2_appendI)
  then show ?thesis unfolding delivered_def by blast
qed

lemma exchange_delivers:
  assumes "exchange P dP Q dQ a b" and "message_end P" and "message_end Q"
  shows "delivered dP (sent Q b) (received P a) \<and> delivered dQ (sent P a) (received Q b)"
  using assms(1)
proof (induction rule: exchange.induct)
  case Opened
  then show ?case by (simp add: delivered_def)
next
  case (First a b op c)
  obtain ec p where c: "c = (ec, p)" by (cases c)
  have "delivered dP (sent Q b) (received P (a @ [c]))"
    using First.IH First.hyps(3) c
    by (auto simp: message_end.received_snoc [OF assms(2) First.hyps(2)] intro: delivered_next)
  then show ?case using First.IH message_end.sent_snoc [OF assms(2)] delivered_more by blast
next
  case (Second a b op c)
  obtain ec p where c: "c = (ec, p)" by (cases c)
  have "delivered dQ (sent P a) (received Q (b @ [c]))"
    using Second.IH Second.hyps(3) c
    by (auto simp: message_end.received_snoc [OF assms(3) Second.hyps(2)] intro: delivered_next)
  then show ?case using Second.IH message_end.sent_snoc [OF assms(3)] delivered_more by blast
qed

text \<open>A client: it sends one message and reads one.\<close>

locale asking_end = message_end P for P :: "'p end_point" +
  fixes m :: message
  assumes asks_once: "prefix (sent P cs) [m]"
    and reads_once: "length (received P cs) \<le> 1"
    and ends_with_answer: "all_succeed cs \<Longrightarrow> pending P cs = None \<Longrightarrow> received P cs \<noteq> []"
    and reads_after_asking: "all_succeed cs \<Longrightarrow> pending P cs = Some Read_Message \<Longrightarrow> sent P cs = [m] \<and> received P cs = []"

text \<open>
  A server: as long as the completions are \<open>ok\<close>, it sends the answers to the messages it has read, in order; it owes
  none when it waits for the next one, and does not end without having read any.
\<close>

locale answering_end = message_end Q for Q :: "'q end_point" +
  fixes f :: "'q \<Rightarrow> message" and ok :: "'q script \<Rightarrow> bool"
  assumes success_ok: "all_succeed cs \<Longrightarrow> ok cs"
    and answers: "ok cs \<Longrightarrow> prefix (sent Q cs) (map f (received Q cs))"
    and owes_nothing: "all_succeed cs \<Longrightarrow> pending Q cs \<in> {None, Some Read_Message} \<Longrightarrow> sent Q cs = map f (received Q cs)"
    and answers_before_end: "all_succeed cs \<Longrightarrow> pending Q cs = None \<Longrightarrow> received Q cs \<noteq> []"

locale message_exchange = client: asking_end P m + server: answering_end Q f ok
  for P :: "'p end_point" and m and Q :: "'q end_point" and f and ok
begin

lemma gets_its_answer:
  assumes "exchange P dP Q dQ a b" and "ok b"
  shows "received P a = [] \<or> (\<exists>q p. received P a = [p] \<and> dQ m q \<and> dP (f q) p)"
proof (cases "received P a")
  case (Cons p ps)
  with client.reads_once [of a] have r: "received P a = [p]" by simp
  from exchange_delivers [OF assms(1) asking_end.axioms(1) answering_end.axioms(1)]
  have d: "delivered dP (sent Q b) [p]" "delivered dQ (sent P a) (received Q b)"
    using client.asking_end_axioms server.answering_end_axioms r by auto
  from d(1) obtain s where s: "prefix [s] (sent Q b)" "dP s p"
    by (auto simp: delivered_def list_all2_Cons2)
  with server.answers [OF assms(2)] obtain q qs where q: "received Q b = q # qs" "s = f q"
    by (cases "received Q b") (auto simp: prefix_def Cons_eq_append_conv)
  from d(2) q(1) have "dQ m q"
    using client.asks_once [of a] by (auto simp: delivered_def list_all2_Cons2 prefix_def Cons_eq_append_conv)
  with r s(2) q(2) show ?thesis by blast
qed simp

lemma is_answered:
  assumes "exchange P dP Q dQ a b" and "all_succeed a" and "all_succeed b" and "at_rest P dP Q dQ a b"
    and reads: "\<And>q. \<exists>p. dP (f q) p" "\<exists>q. dQ m q"
  shows "pending P a = None \<and> (\<exists>q p. received P a = [p] \<and> dQ m q \<and> dP (f q) p)"
proof -
  have p: "pending P a \<in> {None, Some Read_Message}"
  proof (cases "pending P a")
    case (Some op)
    with assms(4) have "\<not> can_complete dP (drop (length (received P a)) (sent Q b)) op (Success, undefined)"
      unfolding at_rest_def by blast
    with Some show ?thesis by auto
  qed simp
  have q: "pending Q b \<in> {None, Some Read_Message}"
  proof (cases "pending Q b")
    case (Some op)
    with assms(4) have "\<not> can_complete dQ (drop (length (received Q b)) (sent P a)) op (Success, undefined)"
      unfolding at_rest_def by blast
    with Some show ?thesis by auto
  qed simp
  have "pending P a = None"
  proof (rule ccontr)
    assume "pending P a \<noteq> None"
    with p have pr: "pending P a = Some Read_Message" by simp
    with client.reads_after_asking [OF assms(2)] have s: "sent P a = [m]" "received P a = []" by auto
    have "received Q b \<noteq> []"
    proof
      assume e: "received Q b = []"
      with server.answers_before_end [OF assms(3)] q have "pending Q b = Some Read_Message" by auto
      with assms(4) e s reads(2) show False unfolding at_rest_def by auto
    qed
    then obtain x xs where "received Q b = x # xs" by (cases "received Q b") auto
    with server.owes_nothing [OF assms(3) q] have "sent Q b = f x # map f xs" by simp
    with assms(4) pr s(2) reads(1) [of x] show False unfolding at_rest_def by auto
  qed
  with client.ends_with_answer [OF assms(2)] gets_its_answer [OF assms(1) server.success_ok [OF assms(3)]] show ?thesis by auto
qed

end


section \<open>How an end is put together\<close>

text \<open>An operation, and what follows for each of its completions.\<close>

definition then_ops :: "operation \<Rightarrow> (error_code \<times> 'p \<Rightarrow> 'p end_point) \<Rightarrow> 'p end_point" where
  "then_ops op K cs = op # (case cs of [] \<Rightarrow> [] | c # cs' \<Rightarrow> K c cs')"

lemma then_ops_simps [simp]:
  "then_ops op K [] = [op]" "then_ops op K (c # cs) = op # K c cs"
  by (simp_all add: then_ops_def)

lemma then_ops_cong: "(\<And>ec p. K (ec, p) = K' (ec, p)) \<Longrightarrow> then_ops op K = then_ops op K'"
  by (auto simp: fun_eq_iff then_ops_def split: list.split)

text \<open>An end that takes no more part in the exchange.\<close>

definition silent :: "'p end_point \<Rightarrow> bool" where
  "silent P \<longleftrightarrow> message_end P \<and> (\<forall>cs. \<forall>op \<in> set (P cs). quiet op)"

named_theorems end_intros \<open>the contracts of an end from those of its parts\<close>

lemma message_end_none [end_intros]: "message_end (\<lambda>_. [])"
  by unfold_locales simp_all

lemma message_end_then [end_intros]:
  assumes "\<And>c. message_end (K c)"
  shows "message_end (then_ops op K)"
proof
  fix cs :: "'a script" and c
  show "length (then_ops op K cs) \<le> Suc (length cs)"
    using message_end.one_pending [OF assms] by (cases cs) simp_all
  show "prefix (then_ops op K cs) (then_ops op K (cs @ [c]))"
    using message_end.goes_on [OF assms] by (cases cs) simp_all
qed

lemma silent_none [end_intros]: "silent (\<lambda>_. [])"
  by (simp add: silent_def message_end_none)

lemma message_end_tail: "message_end (then_ops op K) \<Longrightarrow> message_end (K c)"
proof
  fix cs d assume m: "message_end (then_ops op K)"
  show "length (K c cs) \<le> Suc (length cs)" using message_end.one_pending [OF m, of "c # cs"] by simp
  show "prefix (K c cs) (K c (cs @ [d]))" using message_end.goes_on [OF m, of "c # cs" d] by simp
qed

lemma silent_then: "quiet op \<Longrightarrow> (\<And>c. silent (K c)) \<Longrightarrow> silent (then_ops op K)"
  by (auto simp: silent_def then_ops_def intro: message_end_then split: list.splits)

lemma quiet_sends: "\<forall>op \<in> set ops. quiet op \<Longrightarrow> sends_of ops = []"
  by (induction ops) (auto simp: quiet_def)

lemma quiet_reads: "\<forall>op \<in> set ops. quiet op \<Longrightarrow> reads_of ops cs = []"
  by (induction ops cs rule: reads_of.induct) (auto simp: quiet_def)

lemma silentD:
  assumes "silent P"
  shows "message_end P" "sent P cs = []" "received P cs = []" "pending P cs \<noteq> Some Read_Message"
proof -
  show "message_end P" "sent P cs = []" "received P cs = []"
    using assms quiet_sends [of "P cs"] quiet_reads [of "P cs" cs] by (simp_all add: silent_def)
  show "pending P cs \<noteq> Some Read_Message"
  proof
    assume p: "pending P cs = Some Read_Message"
    then have "P cs \<noteq> []" by (auto simp: pending_def split: if_splits)
    then have "last (P cs) \<in> set (P cs)" by simp
    with p assms show False by (auto simp: pending_def silent_def quiet_def split: if_splits)
  qed
qed

lemma silent_message_end [end_intros]: "silent P \<Longrightarrow> message_end P"
  by (simp add: silent_def)

lemma pending_then: "pending (then_ops op K) [] = Some op"
    "pending (then_ops op K) (c # cs) = pending (K c) cs"
  by (simp_all add: pending_def)

lemma pending_none [simp]: "pending (\<lambda>_. []) cs = None"
  by (simp add: pending_def)

lemma received_then: "received (then_ops op K) [] = []"
    "received (then_ops op K) (c # cs) = (if op = Read_Message \<and> \<not> is_error (fst c) then [snd c] else []) @ received (K c) cs"
  by simp_all

text \<open>A read that nothing follows but quiet operations.\<close>

definition reads_last :: "'p end_point \<Rightarrow> bool" where
  "reads_last P \<longleftrightarrow> (\<exists>K. P = then_ops Read_Message K \<and> (\<forall>c. silent (K c)))"

lemma reads_last_then [end_intros]: "(\<And>c. silent (K c)) \<Longrightarrow> reads_last (then_ops Read_Message K)"
  unfolding reads_last_def by blast

lemma reads_last_message_end: "reads_last P \<Longrightarrow> message_end P"
  unfolding reads_last_def by (blast intro: message_end_then silent_message_end)

lemma asking_asks:
  assumes "message_of op = Some m" and "\<And>ec p. is_error ec \<Longrightarrow> silent (K (ec, p))" and "\<And>p. reads_last (K (Success, p))"
  shows "asking_end (then_ops op K) m"
proof -
  have op: "op \<noteq> Read_Message" using assms(1) by auto
  have "message_end (K c)" for c
  proof (cases c)
    case (Pair ec p)
    then show ?thesis
      using assms(2) [of ec p] assms(3) [of p] by (cases "is_error ec") (auto simp: not_is_error intro: silent_message_end reads_last_message_end)
  qed
  then have me: "message_end (then_ops op K)" by (rule message_end_then)
  show ?thesis
  proof (intro asking_end.intro asking_end_axioms.intro me)
    fix cs :: "'a script"
    have laws: "prefix (sent (then_ops op K) cs) [m] \<and> length (received (then_ops op K) cs) \<le> 1 \<and>
      (all_succeed cs \<and> pending (then_ops op K) cs = None \<longrightarrow> received (then_ops op K) cs \<noteq> []) \<and>
      (all_succeed cs \<and> pending (then_ops op K) cs = Some Read_Message \<longrightarrow>
        sent (then_ops op K) cs = [m] \<and> received (then_ops op K) cs = [])"
    proof (cases cs)
      case Nil
      with assms(1) op show ?thesis by (simp add: pending_then)
    next
      case (Cons c ds)
      obtain ec p where c: "c = (ec, p)" by (cases c)
      show ?thesis
      proof (cases "is_error ec")
        case True
        from silentD(2-4) [OF assms(2) [OF this, of p], of ds] Cons c True assms(1) op show ?thesis
          by (simp add: pending_then)
      next
        case False
        then have ec: "ec = Success" by (simp add: not_is_error)
        from assms(3) [of p] obtain L where L: "K (Success, p) = then_ops Read_Message L" "\<And>c. silent (L c)"
          by (auto simp: reads_last_def)
        show ?thesis
          using Cons c ec L(1) assms(1) op silentD(2-4) [OF L(2)]
          by (cases ds) (simp_all add: pending_then)
      qed
    qed
    then show "prefix (sent (then_ops op K) cs) [m]" "length (received (then_ops op K) cs) \<le> 1"
      "all_succeed cs \<Longrightarrow> pending (then_ops op K) cs = None \<Longrightarrow> received (then_ops op K) cs \<noteq> []"
      "all_succeed cs \<Longrightarrow> pending (then_ops op K) cs = Some Read_Message \<Longrightarrow>
         sent (then_ops op K) cs = [m] \<and> received (then_ops op K) cs = []"
      by blast+
  qed
qed


lemma asking_then:
  assumes "quiet op" and "\<And>ec p. is_error ec \<Longrightarrow> silent (K (ec, p))" and "\<And>p. asking_end (K (Success, p)) m"
  shows "asking_end (then_ops op K) m"
proof -
  have op: "op \<noteq> Read_Message" "message_of op = None" using assms(1) by (auto simp: quiet_def)
  have "message_end (K c)" for c
  proof (cases c)
    case (Pair ec p)
    then show ?thesis
      using assms(2) [of ec p] asking_end.axioms(1) [OF assms(3), of p]
      by (cases "is_error ec") (auto simp: not_is_error intro: silent_message_end)
  qed
  then have me: "message_end (then_ops op K)" by (rule message_end_then)
  show ?thesis
  proof (intro asking_end.intro asking_end_axioms.intro me)
    fix cs :: "'a script"
    have laws: "prefix (sent (then_ops op K) cs) [m] \<and> length (received (then_ops op K) cs) \<le> 1 \<and>
      (all_succeed cs \<and> pending (then_ops op K) cs = None \<longrightarrow> received (then_ops op K) cs \<noteq> []) \<and>
      (all_succeed cs \<and> pending (then_ops op K) cs = Some Read_Message \<longrightarrow>
        sent (then_ops op K) cs = [m] \<and> received (then_ops op K) cs = [])"
    proof (cases cs)
      case Nil
      with op show ?thesis by (simp add: pending_then)
    next
      case (Cons c ds)
      obtain ec p where c: "c = (ec, p)" by (cases c)
      show ?thesis
      proof (cases "is_error ec")
        case True
        from silentD(2-4) [OF assms(2) [OF this, of p], of ds] Cons c True op show ?thesis
          by (simp add: pending_then)
      next
        case False
        then have "ec = Success" by (simp add: not_is_error)
        with Cons c op asking_end.asks_once [OF assms(3)] asking_end.reads_once [OF assms(3)]
          asking_end.ends_with_answer [OF assms(3)] asking_end.reads_after_asking [OF assms(3)]
        show ?thesis by (simp add: pending_then)
      qed
    qed
    then show "prefix (sent (then_ops op K) cs) [m]" "length (received (then_ops op K) cs) \<le> 1"
      "all_succeed cs \<Longrightarrow> pending (then_ops op K) cs = None \<Longrightarrow> received (then_ops op K) cs \<noteq> []"
      "all_succeed cs \<Longrightarrow> pending (then_ops op K) cs = Some Read_Message \<Longrightarrow>
         sent (then_ops op K) cs = [m] \<and> received (then_ops op K) cs = []"
      by blast+
  qed
qed

text \<open>The two conditions under which a server is trusted to answer: always, or while nothing has failed.\<close>

definition trusts :: "('q script \<Rightarrow> bool) \<Rightarrow> bool" where
  "trusts ok \<longleftrightarrow> (\<forall>cs. all_succeed cs \<longrightarrow> ok cs) \<and> (\<forall>c cs. ok (c # cs) \<longrightarrow> ok cs)"

lemma trustsD: "trusts ok \<Longrightarrow> all_succeed cs \<Longrightarrow> ok cs" "trusts ok \<Longrightarrow> ok (c # cs) \<Longrightarrow> ok cs"
  unfolding trusts_def by blast+

lemma trusts_intros: "trusts (\<lambda>_. True)" "trusts all_succeed"
  by (auto simp: trusts_def)

lemma answering_then:
  assumes "quiet op" and "trusts ok" and "\<And>ec p. is_error ec \<Longrightarrow> silent (K (ec, p))"
    and "\<And>p. answering_end (K (Success, p)) f ok"
  shows "answering_end (then_ops op K) f ok"
proof -
  have op: "op \<noteq> Read_Message" "message_of op = None" using assms(1) by (auto simp: quiet_def)
  have "message_end (K c)" for c
  proof (cases c)
    case (Pair ec p)
    then show ?thesis
      using assms(3) [of ec p] answering_end.axioms(1) [OF assms(4), of p]
      by (cases "is_error ec") (auto simp: not_is_error intro: silent_message_end)
  qed
  then have me: "message_end (then_ops op K)" by (rule message_end_then)
  show ?thesis
  proof (intro answering_end.intro answering_end_axioms.intro me)
    fix cs :: "'a script"
    show "all_succeed cs \<Longrightarrow> ok cs" by (rule trustsD(1) [OF assms(2)])
    have laws: "(ok cs \<longrightarrow> prefix (sent (then_ops op K) cs) (map f (received (then_ops op K) cs))) \<and>
      (all_succeed cs \<and> pending (then_ops op K) cs \<in> {None, Some Read_Message} \<longrightarrow>
        sent (then_ops op K) cs = map f (received (then_ops op K) cs)) \<and>
      (all_succeed cs \<and> pending (then_ops op K) cs = None \<longrightarrow> received (then_ops op K) cs \<noteq> [])"
    proof (cases cs)
      case Nil
      with op show ?thesis by (simp add: pending_then)
    next
      case (Cons c ds)
      obtain ec p where c: "c = (ec, p)" by (cases c)
      have okd: "ok cs \<Longrightarrow> ok ds" using trustsD(2) [OF assms(2)] Cons by blast
      show ?thesis
      proof (cases "is_error ec")
        case True
        from silentD(2,3) [OF assms(3) [OF this, of p], of ds] Cons c True op show ?thesis
          by (simp add: pending_then)
      next
        case False
        then have "ec = Success" by (simp add: not_is_error)
        with Cons c op okd answering_end.answers [OF assms(4)] answering_end.owes_nothing [OF assms(4)]
          answering_end.answers_before_end [OF assms(4)]
        show ?thesis by (simp add: pending_then)
      qed
    qed
    then show "ok cs \<Longrightarrow> prefix (sent (then_ops op K) cs) (map f (received (then_ops op K) cs))"
      "all_succeed cs \<Longrightarrow> pending (then_ops op K) cs \<in> {None, Some Read_Message} \<Longrightarrow>
         sent (then_ops op K) cs = map f (received (then_ops op K) cs)"
      "all_succeed cs \<Longrightarrow> pending (then_ops op K) cs = None \<Longrightarrow> received (then_ops op K) cs \<noteq> []"
      by blast+
  qed
qed

text \<open>
  The loop of a server: read, answer, and go round again if the connection is kept; \<open>E\<close> is what follows a failed
  read and \<open>E'\<close> what follows a failed write, \<open>F\<close> what follows the last answer.
\<close>

lemma answering_loop:
  assumes L: "L = then_ops Read_Message (\<lambda>(ec, q). if is_error ec then E ec q
      else then_ops (w q) (\<lambda>(ec', x). if is_error ec' then E' ec' else if keep q then L else F))"
    and me: "message_end L" and w: "\<And>q. message_of (w q) = Some (f q)"
    and ok: "trusts ok" "\<And>ec q cs. is_error ec \<Longrightarrow> ok ((ec, q) # cs) \<Longrightarrow> silent (E ec q)"
    and rest: "\<And>ec. silent (E' ec)" "silent F"
  shows "answering_end L f ok"
proof (intro answering_end.intro answering_end_axioms.intro me)
  have w': "w q \<noteq> Read_Message" for q using w [of q] by auto
  have L0: "L [] = [Read_Message]" "pending L [] = Some Read_Message"
    by (subst L, simp add: pending_then)+
  have L1: "L [(ec, q)] = Read_Message # (if is_error ec then E ec q [] else [w q])"
      "pending L [(ec, q)] = (if is_error ec then pending (E ec q) [] else Some (w q))" for ec q
    by (subst L, simp add: pending_then)+
  have L2: "L ((ec, q) # (ec', x) # ds) = Read_Message # (if is_error ec then E ec q ((ec', x) # ds)
        else w q # (if is_error ec' then E' ec' ds else if keep q then L ds else F ds))"
      "pending L ((ec, q) # (ec', x) # ds) = (if is_error ec then pending (E ec q) ((ec', x) # ds)
        else if is_error ec' then pending (E' ec') ds else if keep q then pending L ds else pending F ds)" for ec q ec' x ds
    by (subst L, simp add: pending_then)+
  fix cs :: "'a script"
  show "all_succeed cs \<Longrightarrow> ok cs" by (rule trustsD(1) [OF ok(1)])
  have "(ok cs \<longrightarrow> prefix (sent L cs) (map f (received L cs))) \<and>
      (all_succeed cs \<and> pending L cs \<in> {None, Some Read_Message} \<longrightarrow> sent L cs = map f (received L cs)) \<and>
      (all_succeed cs \<and> pending L cs = None \<longrightarrow> received L cs \<noteq> [])"
  proof (induction "length cs" arbitrary: cs rule: less_induct)
    case less
    have tail: "ok (c # ds) \<Longrightarrow> ok ds" for c ds by (rule trustsD(2) [OF ok(1)])
    consider "cs = []" | ec q where "cs = [(ec, q)]" | ec q ec' x ds where "cs = (ec, q) # (ec', x) # ds"
      by (metis list.exhaust prod.exhaust)
    then show ?case
    proof cases
      case 1
      then show ?thesis by (simp add: L0)
    next
      case 2
      then show ?thesis
        using silentD(2,3) [OF ok(2), of ec q "[]"] w w'
        by (auto simp: L1)
    next
      case 3
      have ds: "length ds < length cs" using 3 by simp
      from 3 show ?thesis
        using silentD(2,3) [OF ok(2), of ec q "(ec', x) # ds"] silentD(2-4) [OF rest(1), of ec' ds] silentD(2-4) [OF rest(2), of ds]
          w w' less [OF ds] tail [of "(ec', x)" ds] tail [of "(ec, q)" "(ec', x) # ds"]
        by (auto simp: L2)
    qed
  qed
  then show "ok cs \<Longrightarrow> prefix (sent L cs) (map f (received L cs))"
    "all_succeed cs \<Longrightarrow> pending L cs \<in> {None, Some Read_Message} \<Longrightarrow> sent L cs = map f (received L cs)"
    "all_succeed cs \<Longrightarrow> pending L cs = None \<Longrightarrow> received L cs \<noteq> []"
    by blast+
qed


text \<open>The rules for the operations of the clients and servers.\<close>

lemma quiet_operations [simp]:
  "quiet (Resolve host port)" "quiet (Connect address)" "quiet Accept" "quiet Tls_Handshake" "quiet Tls_Shutdown"
  "quiet Socket_Shutdown" "quiet Socket_Shutdown_Send" "quiet Socket_Close" "quiet (Ws_Accept agent)"
  "quiet (Ws_Handshake host target agent)" "quiet Ws_Close" "quiet (Set_Sni host)"
  by (simp_all add: quiet_def)

lemmas [end_intros] = quiet_operations [THEN silent_then] quiet_operations [THEN asking_then]
  quiet_operations [THEN answering_then]

lemmas [end_intros] = asking_asks [of "Write_Request q" "Request_Message q" for q, OF message_of.simps(1)]
  asking_asks [of "Ws_Write t d" "Frame t d" for t d, OF message_of.simps(3)]


section \<open>The ends of the programs\<close>

text \<open>The operations of blocking code, and of an object with completion handlers.\<close>

definition ops_of :: "('p, 'a) io \<Rightarrow> 'p end_point" where
  "ops_of m cs = started (fst (m cs))"

definition trace_after :: "('s \<Rightarrow> error_code \<times> 'p \<Rightarrow> 's \<times> action list) \<Rightarrow> 's \<times> action list \<Rightarrow> 'p script \<Rightarrow> action list" where
  "trace_after step x cs = snd x @ snd (deliver step (fst x) cs)"

definition ops_after :: "('s \<Rightarrow> error_code \<times> 'p \<Rightarrow> 's \<times> action list) \<Rightarrow> 's \<times> action list \<Rightarrow> 'p end_point" where
  "ops_after step x cs = started (trace_after step x cs)"

lemma trace_after_simps:
  "trace_after step x [] = snd x" "trace_after step x (c # cs) = snd x @ trace_after step (step (fst x) c) cs"
  by (simp_all add: trace_after_def deliver_Cons del: deliver.simps(2))

lemma trace_after_idle:
  "async_session step waiting \<Longrightarrow> waiting s = None \<Longrightarrow> trace_after step (s, as) cs = as"
  by (simp add: trace_after_def async_session.deliver_idle)

named_theorems ops_simps \<open>the operations of a program from those of its parts\<close>

lemma ops_of_bind_check [ops_simps]:
  "ops_of (io_bind (io_check op) k) = then_ops op (\<lambda>(ec, p). if is_error ec then (\<lambda>_. []) else ops_of (k p))"
proof (rule ext)
  fix cs show "ops_of (io_bind (io_check op) k) cs =
      then_ops op (\<lambda>(ec, p). if is_error ec then (\<lambda>_. []) else ops_of (k p)) cs"
    by (cases cs) (auto simp: ops_of_def io_simps)
qed

lemma ops_of_bind_call [ops_simps]: "ops_of (io_bind (io_call op) k) = then_ops op (\<lambda>c. ops_of (k c))"
proof (rule ext)
  fix cs show "ops_of (io_bind (io_call op) k) cs = then_ops op (\<lambda>c. ops_of (k c)) cs"
    by (cases cs) (auto simp: ops_of_def io_simps)
qed

lemma ops_of_or_fail [ops_simps]:
  "ops_of (io_or_fail op on_error k) =
     then_ops op (\<lambda>(ec, p). if is_error ec then (\<lambda>_. started (on_error ec)) else ops_of (k p))"
proof (rule ext)
  fix cs show "ops_of (io_or_fail op on_error k) cs =
      then_ops op (\<lambda>(ec, p). if is_error ec then (\<lambda>_. started (on_error ec)) else ops_of (k p)) cs"
    by (cases cs) (auto simp: ops_of_def io_simps)
qed

lemma ops_of_simps [ops_simps]:
  "ops_of (io_return a) = (\<lambda>_. [])" "ops_of (io_throw e) = (\<lambda>_. [])" "ops_of (io_emit as) = (\<lambda>_. started as)"
  "ops_of (if b then m else n) = (if b then ops_of m else ops_of n)"
  by (auto simp: ops_of_def io_simps fun_eq_iff)

lemma ops_of_assoc [ops_simps]:
  "ops_of (io_bind (io_bind m f) g) = ops_of (io_bind m (\<lambda>a. io_bind (f a) g))"
  "ops_of (io_bind (io_return a) k) = ops_of (k a)" "ops_of (io_bind (io_throw e) k) = (\<lambda>_. [])"
  by (auto simp: ops_of_def io_simps fun_eq_iff)

lemma ops_of_seq_emit [ops_simps]: "started as = [] \<Longrightarrow> ops_of (io_seq (io_emit as) m) = ops_of m"
  by (auto simp: ops_of_def io_simps fun_eq_iff)

lemma ops_of_catch [ops_simps]:
  assumes "\<And>e. ops_of (h e) = (\<lambda>_. [])"
  shows "ops_of (io_catch m h) = ops_of m"
proof (rule ext)
  fix cs
  have h: "started (fst (h e s)) = []" for e s using fun_cong [OF assms [of e]] by (simp add: ops_of_def)
  obtain as s r where e: "m cs = (as, s, r)" by (cases "m cs")
  show "ops_of (io_catch m h) cs = ops_of m cs"
    using h by (cases r) (simp_all add: ops_of_def e io_catch_Returned io_catch_Thrown io_catch_Blocked)
qed

lemma started_fail [ops_simps]: "started (fail what ec) = []"
  by (simp add: fail_def)

text \<open>A causal program that uses one completion for each call is an end, and so is an object with one operation in flight.\<close>

lemma program_end:
  assumes "causal m" and "metered m"
  shows "message_end (ops_of m)"
proof
  fix cs :: "'a script" and c
  obtain as s r where e: "m cs = (as, s, r)" by (cases "m cs")
  show "length (ops_of m cs) \<le> Suc (length cs)"
    using meteredD [OF assms(2) e] by (cases "r = Blocked") (simp_all add: ops_of_def e)
  show "prefix (ops_of m cs) (ops_of m (cs @ [c]))"
    using causalD(2,3) [OF assms(1) e, of "[c]"] by (cases "r = Blocked") (auto simp: ops_of_def e prefix_def)
qed

lemma ops_after_Start [ops_simps]:
  "started as = [] \<Longrightarrow> ops_after step (s, Start op # as) = then_ops op (\<lambda>c. ops_after step (step s c))"
proof (rule ext)
  fix cs assume "started as = []"
  then show "ops_after step (s, Start op # as) cs = then_ops op (\<lambda>c. ops_after step (step s c)) cs"
    by (cases cs) (simp_all add: ops_after_def trace_after_simps)
qed

lemma ops_after_simps [ops_simps]:
  "ops_after step (s, print_line t # as) = ops_after step (s, as)"
  "ops_after step (s, Expires_After n # as) = ops_after step (s, as)"
  "ops_after step (s, Expires_Never # as) = ops_after step (s, as)"
  by (simp_all add: ops_after_def trace_after_def fun_eq_iff)

lemma ops_after_if [ops_simps]: "ops_after step (if b then x else y) = (if b then ops_after step x else ops_after step y)"
  by simp

lemma ops_after_idle:
  "async_session step waiting \<Longrightarrow> waiting s = None \<Longrightarrow> ops_after step (s, as) = (\<lambda>_. started as)"
  by (simp add: ops_after_def trace_after_def async_session.deliver_idle fun_eq_iff)

lemma object_end:
  assumes "async_session step waiting" and "waiting (fst x) = Some h" and "length (started (snd x)) = 1"
  shows "message_end (ops_after step x)"
proof
  fix cs c
  show "length (ops_after step x cs) \<le> Suc (length cs)"
    using async_session.one_in_flight [OF assms, of cs] by (simp add: ops_after_def trace_after_def)
  show "prefix (ops_after step x cs) (ops_after step x (cs @ [c]))"
    by (simp add: ops_after_def trace_after_def deliver_append)
qed


section \<open>What is printed\<close>

definition lines_of :: "string list \<Rightarrow> string" where
  "lines_of ls = concat (map (\<lambda>l. l @ [CHR 0x0A]) ls)"

lemma lines_of_simps [simp]:
  "lines_of [] = []" "lines_of (l # ls) = l @ CHR 0x0A # lines_of ls"
  by (simp_all add: lines_of_def)

text \<open>A trace that prints the lines \<open>ls\<close> and then, as a line, the text of each message it reads.\<close>

definition shows_reads :: "('p \<Rightarrow> string) \<Rightarrow> string list \<Rightarrow> ('p script \<Rightarrow> action list) \<Rightarrow> bool" where
  "shows_reads text ls T \<longleftrightarrow> (\<forall>cs. printed (T cs) = lines_of (ls @ map text (reads_of (started (T cs)) cs)))"

named_theorems shows_intros \<open>what a program prints, from its parts\<close>

lemma shows_check [shows_intros]:
  assumes "\<And>p. shows_reads text (if op = Read_Message then [text p] else []) (\<lambda>cs. fst (k p cs))"
  shows "shows_reads text [] (\<lambda>cs. fst (io_bind (io_check op) k cs))"
  unfolding shows_reads_def
proof
  fix cs
  show "printed (fst (io_bind (io_check op) k cs)) =
      lines_of ([] @ map text (reads_of (started (fst (io_bind (io_check op) k cs))) cs))"
    using assms by (cases cs) (auto simp: shows_reads_def io_simps split: if_splits)
qed

lemma shows_call [shows_intros]:
  assumes "\<And>ec p. shows_reads text (if op = Read_Message \<and> \<not> is_error ec then [text p] else []) (\<lambda>cs. fst (k (ec, p) cs))"
  shows "shows_reads text [] (\<lambda>cs. fst (io_bind (io_call op) k cs))"
  unfolding shows_reads_def
proof
  fix cs
  show "printed (fst (io_bind (io_call op) k cs)) =
      lines_of ([] @ map text (reads_of (started (fst (io_bind (io_call op) k cs))) cs))"
    using assms by (cases cs) (auto simp: shows_reads_def io_simps split: if_splits)
qed

lemma shows_or_fail [shows_intros]:
  assumes "\<And>ec. printed (on_error ec) = [] \<and> started (on_error ec) = []"
    and "\<And>p. shows_reads text (if op = Read_Message then [text p] else []) (\<lambda>cs. fst (k p cs))"
  shows "shows_reads text [] (\<lambda>cs. fst (io_or_fail op on_error k cs))"
  unfolding shows_reads_def
proof
  fix cs
  show "printed (fst (io_or_fail op on_error k cs)) =
      lines_of ([] @ map text (reads_of (started (fst (io_or_fail op on_error k cs))) cs))"
    using assms by (cases cs) (auto simp: shows_reads_def io_simps split: if_splits)
qed

lemma shows_emit [shows_intros]:
  "printed as = lines_of ls \<Longrightarrow> started as = [] \<Longrightarrow> shows_reads text [] (\<lambda>cs. fst (m cs)) \<Longrightarrow>
     shows_reads text ls (\<lambda>cs. fst (io_seq (io_emit as) m cs))"
  "printed as = lines_of ls \<Longrightarrow> started as = [] \<Longrightarrow> shows_reads text ls (\<lambda>cs. fst (io_emit as cs))"
  "shows_reads text [] (\<lambda>cs. fst (io_return a cs))" "shows_reads text [] (\<lambda>cs. fst (io_throw e cs))"
  by (auto simp: shows_reads_def io_simps lines_of_def)

lemma shows_catch [shows_intros]:
  assumes "shows_reads text ls (\<lambda>cs. fst (m cs))" and "\<And>e cs. printed (fst (h e cs)) = [] \<and> started (fst (h e cs)) = []"
  shows "shows_reads text ls (\<lambda>cs. fst (io_catch m h cs))"
  unfolding shows_reads_def
proof
  fix cs
  obtain as s r where e: "m cs = (as, s, r)" by (cases "m cs")
  show "printed (fst (io_catch m h cs)) = lines_of (ls @ map text (reads_of (started (fst (io_catch m h cs))) cs))"
    using assms by (cases r) (auto simp: shows_reads_def e io_catch_Returned io_catch_Thrown io_catch_Blocked dest: spec [of _ cs])
qed

lemma shows_start [shows_intros]:
  assumes "\<And>ec p. shows_reads text (if op = Read_Message \<and> \<not> is_error ec then [text p] else []) (trace_after step (step s (ec, p)))"
  shows "shows_reads text [] (trace_after step (s, [Start op]))"
  unfolding shows_reads_def
proof
  fix cs
  show "printed (trace_after step (s, [Start op]) cs) =
      lines_of ([] @ map text (reads_of (started (trace_after step (s, [Start op]) cs)) cs))"
    using assms by (cases cs) (auto simp: shows_reads_def trace_after_simps split: if_splits)
qed

lemma shows_before [shows_intros]:
  "shows_reads text [] (trace_after step (s, as)) \<Longrightarrow> shows_reads text [l] (trace_after step (s, print_line l # as))"
  "shows_reads text [] (trace_after step (s, as)) \<Longrightarrow> shows_reads text [] (trace_after step (s, Expires_After n # as))"
  by (auto simp: shows_reads_def trace_after_def)

lemma shows_idle:
  "async_session step waiting \<Longrightarrow> waiting s = None \<Longrightarrow> printed as = [] \<Longrightarrow> started as = [] \<Longrightarrow>
     shows_reads text [] (trace_after step (s, as))"
  by (simp add: shows_reads_def trace_after_idle)

end
