(* ===== verification/Causal_Programs.thy ===== *)
theory Causal_Programs
  imports Https_Server Beast_Clients Http_Clients Tcp_Basics Echo_Servers Ssl_Servers Hello_Servers Web_Socket_Servers
    Web_Socket_Clients Threaded_Servers Serial_Console
begin

text \<open>
  The blocking programs of the repository are causal: a theorem about all scripts is one about every prefix of every
  execution, and what a program has shown when it waits is the start of what it will have shown in the end.
\<close>

section \<open>The clients\<close>

lemma causal_http_clients:
  "causal (SimpleHttpGetRequest agent)" "causal (SSL_Request_Test agent parse_json)" "causal (HTTP_Methods_Test agent)"
  "causal (runClient agent)" "causal (sendRequest agent)" "causal (httpGetRequest agent)"
  "causal (https_awaitable_Send_Request agent)"
  unfolding SimpleHttpGetRequest_def SSL_Request_Test_def HTTP_Methods_Test_def do_delete_def send_body_def runClient_def
    coroutine_do_session_def sendRequest_def awaitable_do_session_def httpGetRequest_def
    https_awaitable_Send_Request_def https_awaitable_do_session_def
  by (intro causal_intros)+

lemma causal_raw_get: "causal (raw_get host port path)"
  unfolding raw_get_def print_content_def by (intro causal_intros copy_round_calls) (simp add: copy_round_def causal_intros)

lemma causal_raw_clients: "causal httpGetRequest_TcpSocket" "causal sendRequestGET"
  unfolding httpGetRequest_TcpSocket_def sendRequestGET_def by (rule causal_raw_get)+

lemma causal_socket_clients:
  "causal tcp_client" "causal udp_client" "causal (simple_Client agent)" "causal (ssl_Client agent)"
  unfolding tcp_client_def udp_client_def simple_Client_def ssl_Client_def by (intro causal_intros)+

lemma causal_write_round [causal_intros]: "causal (write_round msg n)"
  unfolding write_round_def by (intro causal_intros)

lemma causal_write_to_socket [causal_intros]: "causal write_to_socket"
  unfolding write_to_socket_def by (intro causal_intros write_round_calls)

lemma causal_socket_basics:
  "causal connectToServer" "causal getExecutor_AsynchSocket" "causal createAcceptorSocket" "causal acceptConnections"
  "causal resolveDNS" "causal connectToSocket" "causal writeToSocket" "causal writeToSocketAndRead"
  "causal writeToSocketAndReadUntil" "causal (openSerialPort device)"
  unfolding connectToServer_def getExecutor_AsynchSocket_def createAcceptorSocket_def acceptConnections_def resolveDNS_def
    connectToSocket_def writeToSocket_def writeToSocketAndRead_def writeToSocketAndReadUntil_def report_system_error_def
    open_and_connect_def read_from_socket_all_def read_from_socket_until_delim_def openSerialPort_def
  by (intro causal_intros)+


section \<open>The sessions\<close>

lemma causal_https_do_session: "causal (https_do_session env doc_root)"
  unfolding https_do_session_def https_tls_shutdown_def
  by (intro causal_intros https_session_round_calls) (simp add: https_session_round_def causal_intros)

lemma causal_echo_round [causal_intros]: "causal (echo_round n prints v)"
  unfolding echo_round_def by (intro causal_intros)

lemma causal_echo_once [causal_intros]: "causal echo_once"
  unfolding echo_once_def by (intro causal_intros)

lemma consumes_echo_once [consumes_intros]: "consumes echo_once"
  unfolding echo_once_def by (intro consumes_intros causal_intros)

lemma causal_echo_sessions: "causal accept_server_echo" "causal echo_one_session" "causal refactor_echo"
  unfolding accept_server_echo_def echo_one_session_def catch_system_error_def refactor_echo_def
  by (intro causal_intros echo_round_calls calls_eachI consumes_bind [OF consumes_echo_once])+

lemma causal_ws_sessions: "causal (simple_handleSession agent)" "causal (ssl_handleSession agent)"
  unfolding simple_handleSession_def ssl_handleSession_def ws_catch_def ws_round_def ssl_ws_round_def
  by (intro causal_intros calls_eachI consumes_intros)+

lemma causal_handle_client [causal_intros]: "causal handle_client"
  unfolding handle_client_def by (intro causal_intros)


section \<open>The accept loops\<close>

lemma causal_daytime:
  "causal (daytime_server daytime)" "causal (tcp_daytime_server daytime peer)" "causal daytime_client"
  "causal tcp_daytime_client"
  unfolding daytime_server_def tcp_daytime_server_def daytime_client_def tcp_daytime_client_def connect_to_def
    daytime_round_def tcp_daytime_round_def daytime_client_round_def tcp_daytime_client_round_def
  by (intro causal_intros calls_eachI consumes_intros)+

lemma causal_echo_servers: "causal accept_server_Test" "causal (echo_one_listener port)" "causal refactor_listener"
  unfolding accept_server_Test_def echo_one_listener_def refactor_listener_def accept_server_round_def accept_round_def
    catch_system_error_def
  by (intro causal_intros calls_eachI consumes_intros)+

lemma causal_hello_servers: "causal start_server" "causal net_start_server"
  unfolding start_server_def net_start_server_def runServer_def net_runServer_def serve_round_def
  by (intro causal_intros calls_eachI consumes_intros)+

lemma causal_threaded_servers: "causal https_sync_runServer" "causal simple_runServer" "causal ssl_runServer"
  unfolding https_sync_runServer_def simple_runServer_def ssl_runServer_def https_accept_round_def ws_accept_round_def
  by (intro causal_intros calls_eachI consumes_intros)+

lemma causal_server_run: "causal (server_run stop port)"
  unfolding server_run_def make_acceptor_def
  by (intro causal_intros server_round_calls) (simp add: server_round_def acceptor_accept_def causal_intros)

end
