(* ===== verification/Server_Programs.thy ===== *)
theory Server_Programs
  imports Async_Objects
begin

text \<open>
  A whole asynchronous server: the object that accepts and one session for each connection it has accepted, all
  with their handlers in one \<open>io_context\<close>. Boost completes one operation at a time, of any of the objects; the
  objects do not share data members. So what a session does is what it would do alone, with the completions that are
  its own, and what the accepting object does is what it would do without its sessions.
\<close>

section \<open>The code of a server and its runs\<close>

text \<open>
  The handlers of the accepting object and of its sessions; whether they wait for an operation, and whether that is
  a call that blocks the thread inside a handler; a session as its constructor and its start leave it.
\<close>

record ('v, 'o, 'd) server_code =
  on_accepted :: "'v \<Rightarrow> error_code \<Rightarrow> 'v \<times> action list"
  accept_pending :: "'v \<Rightarrow> bool"
  accept_blocks :: "'v \<Rightarrow> bool"
  opened :: "'o \<times> action list"
  on_completed :: "'o \<Rightarrow> 'd \<Rightarrow> 'o \<times> action list"
  client_pending :: "'o \<Rightarrow> bool"
  client_blocks :: "'o \<Rightarrow> bool"

text \<open>The objects of a running server; \<open>gone\<close> when the program has been terminated.\<close>

record ('v, 'o) running =
  listening :: 'v
  clients :: "'o list"
  gone :: bool

datatype 'd completion = Accepted error_code | Completed nat 'd

text \<open>An operation is completed that is in flight; while a handler is blocked in a call, only that call can return.\<close>

fun admissible :: "('v, 'o, 'd) server_code \<Rightarrow> ('v, 'o) running \<Rightarrow> 'd completion \<Rightarrow> bool" where
  "admissible C p (Accepted ec) \<longleftrightarrow> \<not> gone p \<and> accept_pending C (listening p) \<and>
     list_all (\<lambda>x. \<not> client_blocks C x) (clients p)"
| "admissible C p (Completed i d) \<longleftrightarrow> \<not> gone p \<and> i < length (clients p) \<and> client_pending C (clients p ! i) \<and>
     \<not> accept_blocks C (listening p) \<and> list_all (\<lambda>j. j = i \<or> \<not> client_blocks C (clients p ! j)) [0..<length (clients p)]"

text \<open>What the accepting object does, with the start of session \<open>n\<close>, \<open>n + 1\<close>, \<open>\<dots>\<close> where it creates them.\<close>

fun open_clients :: "'o \<times> action list \<Rightarrow> nat \<Rightarrow> action list \<Rightarrow> 'o list \<times> (nat option \<times> action) list" where
  "open_clients new n [] = ([], [])"
| "open_clients new n (a # as) = (if a = Spawn_Session
     then let (xs, tr) = open_clients new (Suc n) as in (fst new # xs, map (Pair (Some n)) (snd new) @ tr)
     else let (xs, tr) = open_clients new n as in (xs, (None, a) # tr))"

text \<open>The trace names the object that acts: \<open>None\<close> the accepting one, \<open>Some i\<close> the session of the \<open>i\<close>th connection.\<close>

definition program_step ::
    "('v, 'o, 'd) server_code \<Rightarrow> ('v, 'o) running \<Rightarrow> 'd completion \<Rightarrow> (('v, 'o) running \<times> (nat option \<times> action) list) option" where
  "program_step C p c = (if \<not> admissible C p c then None else case c of
     Accepted ec \<Rightarrow>
       let (v, as) = on_accepted C (listening p) ec; (xs, tr) = open_clients (opened C) (length (clients p)) as
       in Some (\<lparr>listening = v, clients = clients p @ xs, gone = (Terminated \<in> set as)\<rparr>, tr)
   | Completed i d \<Rightarrow>
       let (x, as) = on_completed C (clients p ! i) d
       in Some (p\<lparr>clients := (clients p)[i := x], gone := (Terminated \<in> set as)\<rparr>, map (Pair (Some i)) as))"

fun run_program ::
    "('v, 'o, 'd) server_code \<Rightarrow> ('v, 'o) running \<Rightarrow> 'd completion list \<Rightarrow>
     (('v, 'o) running \<times> (nat option \<times> action) list) option" where
  "run_program C p [] = Some (p, [])"
| "run_program C p (c # cs) = (case program_step C p c of
     None \<Rightarrow> None
   | Some (q, tr) \<Rightarrow> map_option (\<lambda>(r, tr'). (r, tr @ tr')) (run_program C q cs))"

text \<open>\<open>io_context::run()\<close> returns when no object waits for anything.\<close>

definition run_returns :: "('v, 'o, 'd) server_code \<Rightarrow> ('v, 'o) running \<Rightarrow> bool" where
  "run_returns C p \<longleftrightarrow> \<not> gone p \<and> \<not> accept_pending C (listening p) \<and> list_all (\<lambda>x. \<not> client_pending C x) (clients p)"

definition fresh_server :: "'v \<Rightarrow> ('v, 'o) running" where
  "fresh_server v = \<lparr>listening = v, clients = [], gone = False\<rparr>"


section \<open>Each object by itself\<close>

definition actions_of :: "nat option \<Rightarrow> (nat option \<times> action) list \<Rightarrow> action list" where
  "actions_of x tr = map snd (filter (\<lambda>a. fst a = x) tr)"

fun inputs :: "nat \<Rightarrow> 'd completion list \<Rightarrow> 'd list" where
  "inputs i [] = []"
| "inputs i (Accepted ec # cs) = inputs i cs"
| "inputs i (Completed j d # cs) = (if j = i then d # inputs i cs else inputs i cs)"

fun accept_results :: "'d completion list \<Rightarrow> error_code list" where
  "accept_results [] = []"
| "accept_results (Accepted ec # cs) = ec # accept_results cs"
| "accept_results (Completed j d # cs) = accept_results cs"

lemma actions_of_simps [simp]:
  "actions_of x [] = []" "actions_of x (tr @ tr') = actions_of x tr @ actions_of x tr'"
  "actions_of x ((y, a) # tr) = (if y = x then a # actions_of x tr else actions_of x tr)"
  "actions_of x (map (Pair y) as) = (if y = x then as else [])"
  by (auto simp: actions_of_def filter_map comp_def)

lemma spawned_Cons: "spawned (a # as) = (if a = Spawn_Session then Suc (spawned as) else spawned as)"
  by (cases a) auto

lemma open_clients_trace:
  "fst (open_clients new n as) = replicate (spawned as) (fst new)"
  "actions_of None (snd (open_clients new n as)) = filter (\<lambda>a. a \<noteq> Spawn_Session) as"
  "actions_of (Some i) (snd (open_clients new n as)) = (if n \<le> i \<and> i < n + spawned as then snd new else [])"
  by (induction new n as rule: open_clients.induct) (auto simp: spawned_Cons split: prod.splits)

text \<open>One step: the object that acts is given its completion, the others are left alone.\<close>

lemma program_step_accepted:
  assumes "program_step C p (Accepted ec) = Some (q, tr)"
  defines "r \<equiv> on_accepted C (listening p) ec"
  shows "admissible C p (Accepted ec)" and "listening q = fst r"
    and "clients q = clients p @ replicate (spawned (snd r)) (fst (opened C))"
    and "gone q \<longleftrightarrow> Terminated \<in> set (snd r)"
    and "actions_of None tr = filter (\<lambda>a. a \<noteq> Spawn_Session) (snd r)"
    and "actions_of (Some i) tr =
      (if length (clients p) \<le> i \<and> i < length (clients q) then snd (opened C) else [])"
  using assms open_clients_trace [where new = "opened C" and n = "length (clients p)" and as = "snd r"]
  by (auto simp: program_step_def split: prod.splits if_splits)

lemma program_step_completed:
  assumes "program_step C p (Completed i d) = Some (q, tr)"
  defines "r \<equiv> on_completed C (clients p ! i) d"
  shows "admissible C p (Completed i d)" and "listening q = listening p"
    and "clients q = (clients p)[i := fst r]" and "gone q \<longleftrightarrow> Terminated \<in> set (snd r)"
    and "actions_of None tr = []" and "actions_of (Some j) tr = (if j = i then snd r else [])"
  using assms by (auto simp: program_step_def split: prod.splits if_splits)

lemma run_program_Cons:
  assumes "run_program C p (c # cs) = Some (r, tr)"
  obtains q tr1 tr2 where "program_step C p c = Some (q, tr1)" "run_program C q cs = Some (r, tr2)" "tr = tr1 @ tr2"
  using assms by (auto split: option.splits)

text \<open>The sessions: those that are there, those that are opened, and those that are not.\<close>

theorem client_alone:
  assumes "run_program C p cs = Some (q, tr)"
  shows "i < length (clients p) \<Longrightarrow> i < length (clients q) \<and>
      clients q ! i = fst (deliver (on_completed C) (clients p ! i) (inputs i cs)) \<and>
      actions_of (Some i) tr = snd (deliver (on_completed C) (clients p ! i) (inputs i cs))"
    and "length (clients p) \<le> i \<Longrightarrow> i < length (clients q) \<Longrightarrow>
      clients q ! i = fst (deliver (on_completed C) (fst (opened C)) (inputs i cs)) \<and>
      actions_of (Some i) tr = snd (opened C) @ snd (deliver (on_completed C) (fst (opened C)) (inputs i cs))"
    and "length (clients q) \<le> i \<Longrightarrow> length (clients p) \<le> i \<and> inputs i cs = [] \<and> actions_of (Some i) tr = []"
proof -
  have "(i < length (clients p) \<longrightarrow> i < length (clients q) \<and>
      clients q ! i = fst (deliver (on_completed C) (clients p ! i) (inputs i cs)) \<and>
      actions_of (Some i) tr = snd (deliver (on_completed C) (clients p ! i) (inputs i cs))) \<and>
    (length (clients p) \<le> i \<and> i < length (clients q) \<longrightarrow>
      clients q ! i = fst (deliver (on_completed C) (fst (opened C)) (inputs i cs)) \<and>
      actions_of (Some i) tr = snd (opened C) @ snd (deliver (on_completed C) (fst (opened C)) (inputs i cs))) \<and>
    (length (clients q) \<le> i \<longrightarrow> length (clients p) \<le> i \<and> inputs i cs = [] \<and> actions_of (Some i) tr = [])"
    using assms
  proof (induction cs arbitrary: p tr)
    case Nil
    then show ?case by auto
  next
    case (Cons c cs)
    from Cons.prems obtain p' tr1 tr2 where s: "program_step C p c = Some (p', tr1)"
      and t: "run_program C p' cs = Some (q, tr2)" "tr = tr1 @ tr2" by (rule run_program_Cons)
    note IH = Cons.IH [OF t(1)]
    show ?case
    proof (cases c)
      case (Accepted ec)
      note a = program_step_accepted [OF s [unfolded Accepted]]
      from IH a(3) a(6) [of i] t(2) show ?thesis
        by (auto simp: Accepted nth_append not_less)
    next
      case (Completed j d)
      note b = program_step_completed [OF s [unfolded Completed]]
      from b(1) have "j < length (clients p)" by simp
      with IH b(3) b(6) [of i] t(2) show ?thesis
        by (cases "j = i") (auto simp: Completed deliver_Cons simp del: deliver.simps(2))
    qed
  qed
  then show "i < length (clients p) \<Longrightarrow> i < length (clients q) \<and>
      clients q ! i = fst (deliver (on_completed C) (clients p ! i) (inputs i cs)) \<and>
      actions_of (Some i) tr = snd (deliver (on_completed C) (clients p ! i) (inputs i cs))"
    and "length (clients p) \<le> i \<Longrightarrow> i < length (clients q) \<Longrightarrow>
      clients q ! i = fst (deliver (on_completed C) (fst (opened C)) (inputs i cs)) \<and>
      actions_of (Some i) tr = snd (opened C) @ snd (deliver (on_completed C) (fst (opened C)) (inputs i cs))"
    and "length (clients q) \<le> i \<Longrightarrow> length (clients p) \<le> i \<and> inputs i cs = [] \<and> actions_of (Some i) tr = []"
    by blast+
qed

text \<open>The accepting object: it does what it does alone, and has opened a session whenever it says so.\<close>

theorem acceptor_alone:
  assumes "run_program C p cs = Some (q, tr)"
  defines "r \<equiv> deliver (on_accepted C) (listening p) (accept_results cs)"
  shows "listening q = fst r" and "actions_of None tr = filter (\<lambda>a. a \<noteq> Spawn_Session) (snd r)"
    and "length (clients q) = length (clients p) + spawned (snd r)"
proof -
  have "listening q = fst (deliver (on_accepted C) (listening p) (accept_results cs)) \<and>
    actions_of None tr = filter (\<lambda>a. a \<noteq> Spawn_Session) (snd (deliver (on_accepted C) (listening p) (accept_results cs))) \<and>
    length (clients q) = length (clients p) + spawned (snd (deliver (on_accepted C) (listening p) (accept_results cs)))"
    using assms(1)
  proof (induction cs arbitrary: p tr)
    case Nil
    then show ?case by auto
  next
    case (Cons c cs)
    from Cons.prems obtain p' tr1 tr2 where s: "program_step C p c = Some (p', tr1)"
      and t: "run_program C p' cs = Some (q, tr2)" "tr = tr1 @ tr2" by (rule run_program_Cons)
    note IH = Cons.IH [OF t(1)]
    show ?case
    proof (cases c)
      case (Accepted ec)
      from IH program_step_accepted [OF s [unfolded Accepted]] t(2) show ?thesis
        by (simp add: Accepted deliver_Cons del: deliver.simps(2))
    next
      case (Completed j d)
      from IH program_step_completed [OF s [unfolded Completed]] t(2) show ?thesis by (simp add: Completed)
    qed
  qed
  then show "listening q = fst r" and "actions_of None tr = filter (\<lambda>a. a \<noteq> Spawn_Session) (snd r)"
    and "length (clients q) = length (clients p) + spawned (snd r)" by (simp_all add: r_def)
qed

text \<open>Nothing happens after the program has been terminated.\<close>

lemma gone_is_last: "run_program C p cs = Some (q, tr) \<Longrightarrow> gone p \<Longrightarrow> cs = []"
proof (cases cs)
  case (Cons c cs')
  assume "run_program C p cs = Some (q, tr)" "gone p"
  with Cons show ?thesis by (cases c) (simp_all add: program_step_def)
qed simp

end
