(* ===== verification/Whole_Servers.thy ===== *)
theory Whole_Servers
  imports Server_Programs Metered_IO Echo_Servers Ssl_Servers Https_Server Web_Socket_Servers
begin

text \<open>
  The asynchronous servers as whole programs: \<open>TCPEchoServerClient::startServer\<close>, \<open>UDPEchoServerClient::startServer\<close>,
  \<open>SSL1::runServer\<close>, and the \<open>runServer\<close> of the HTTPS and the WebSocket server, each with all its sessions. Every
  interleaving of their handlers is covered.
\<close>

section \<open>The programs\<close>

text \<open>
  The functions with a \<open>try\<close> block: \<open>thrown\<close> is what the construction of the server throws, if anything. The result
  says whether the function has returned, and what was shown.
\<close>

definition start_and_run ::
    "('v, 'o, 'd) server_code \<Rightarrow> 'v \<times> action list \<Rightarrow> operation \<Rightarrow> exn option \<Rightarrow> 'd completion list \<Rightarrow>
     (bool \<times> (nat option \<times> action) list) option" where
  "start_and_run C made op thrown cs = (case thrown of
     Some e \<Rightarrow> Some (True, [(None, Start op), (None, Report_What ''Exception'' e)])
   | None \<Rightarrow> map_option (\<lambda>(q, tr). (run_returns C q, (None, Start op) # map (Pair None) (snd made) @ tr))
       (run_program C (fresh_server (fst made)) cs))"

definition tcp_echo_code :: "(string \<Rightarrow> string) \<Rightarrow> (echo_server, echo_connection, error_code \<times> string) server_code" where
  "tcp_echo_code at = \<lparr>on_accepted = echo_server_step at, accept_pending = (\<lambda>v. server_waiting v \<noteq> None),
     accept_blocks = (\<lambda>_. False), opened = echo_start at echo_make_session, on_completed = echo_step at,
     client_pending = (\<lambda>x. echo_waiting x \<noteq> None), client_blocks = (\<lambda>_. False)\<rparr>"

definition tcp_startServer ::
    "(string \<Rightarrow> string) \<Rightarrow> exn option \<Rightarrow> (error_code \<times> string) completion list \<Rightarrow>
     (bool \<times> (nat option \<times> action) list) option" where
  "tcp_startServer at = start_and_run (tcp_echo_code at) (echo_make_server at) (Acceptor_Construct ''0.0.0.0'' 52525)"

text \<open>\<open>delete\<close> runs the destructor of the session, which blocks in \<open>shutdown()\<close>.\<close>

definition ssl1_code :: "(ssl_server, ssl_session, error_code \<times> string) server_code" where
  "ssl1_code = \<lparr>on_accepted = ssl_server_step, accept_pending = (\<lambda>v. sv_waiting v \<noteq> None),
     accept_blocks = (\<lambda>v. sv_waiting v = Some Deleting_Session), opened = ssl_start ssl_new_session,
     on_completed = ssl_step, client_pending = (\<lambda>x. ssl_waiting x \<noteq> None),
     client_blocks = (\<lambda>x. ssl_waiting x = Some In_Destructor)\<rparr>"

definition ssl1_runServer ::
    "exn option \<Rightarrow> (error_code \<times> string) completion list \<Rightarrow> (bool \<times> (nat option \<times> action) list) option" where
  "ssl1_runServer = start_and_run ssl1_code make_ssl_server (Acceptor_Construct ''0.0.0.0'' 8443)"

text \<open>There is one socket, and no session.\<close>

definition udp_startServer ::
    "(string \<Rightarrow> string) \<Rightarrow> exn option \<Rightarrow> (error_code \<times> string \<times> string) list \<Rightarrow> bool \<times> action list" where
  "udp_startServer at thrown cs = (case thrown of
     Some e \<Rightarrow> (True, [Report_What ''Exception'' e])
   | None \<Rightarrow> let (s, as) = udp_make_server at; (s', bs) = deliver (udp_step at) s cs in (udp_waiting s' = None, as @ bs))"

text \<open>
  The servers with a listener. Its constructor reports the first of its four calls that fails, and \<open>run\<close> is called in
  any case. The threads of the context are the subject of \<open>Background_Tasks\<close>.
\<close>

definition https_code :: "environment \<Rightarrow> string \<Rightarrow> (https_listener, https_session, error_code \<times> request) server_code" where
  "https_code env doc_root = \<lparr>on_accepted = https_listener_step, accept_pending = (\<lambda>v. accept_waiting v \<noteq> None),
     accept_blocks = (\<lambda>_. False), opened = https_session_run (https_make_session doc_root),
     on_completed = https_session_step env, client_pending = (\<lambda>x. waiting x \<noteq> None), client_blocks = (\<lambda>_. False)\<rparr>"

definition https_listener_made :: https_listener where
  "https_listener_made = \<lparr>accept_waiting = None\<rparr>"

definition https_program ::
    "environment \<Rightarrow> unit script \<Rightarrow> (error_code \<times> request) completion list \<Rightarrow> (bool \<times> (nat option \<times> action) list) option" where
  "https_program env construction cs =
     (let (l, as) = https_listener_run https_listener_made
      in map_option (\<lambda>(q, tr). (run_returns (https_code env ''/'') q,
             map (Pair None) (fst (https_listener_construct construction) @ as) @ tr))
           (run_program (https_code env ''/'') (fresh_server l) cs))"

definition ws_code :: "(string \<Rightarrow> string) \<Rightarrow> string \<Rightarrow> (ws_listener, ws_session, error_code \<times> ws_result) server_code" where
  "ws_code lingers agent = \<lparr>on_accepted = ws_listener_step, accept_pending = (\<lambda>v. ws_accepting v \<noteq> None),
     accept_blocks = (\<lambda>_. False), opened = ws_run ws_make_session, on_completed = ws_step lingers agent,
     client_pending = (\<lambda>x. ws_waiting x \<noteq> None), client_blocks = (\<lambda>_. False)\<rparr>"

definition ws_listener_made :: ws_listener where
  "ws_listener_made = \<lparr>ws_accepting = None\<rparr>"

definition ws_program ::
    "(string \<Rightarrow> string) \<Rightarrow> string \<Rightarrow> ws_result script \<Rightarrow> (error_code \<times> ws_result) completion list \<Rightarrow> (bool \<times> (nat option \<times> action) list) option" where
  "ws_program lingers agent construction cs =
     (let (l, as) = ws_listener_run ws_listener_made
      in map_option (\<lambda>(q, tr). (run_returns (ws_code lingers agent) q,
             map (Pair None) (fst (ws_listener_construct construction) @ as) @ tr))
           (run_program (ws_code lingers agent) (fresh_server l) cs))"


section \<open>The sessions of a program\<close>

lemma fresh_server_simps [simp]:
  "listening (fresh_server v) = v" "clients (fresh_server v) = []" "\<not> gone (fresh_server v)"
  by (simp_all add: fresh_server_def)

text \<open>From the start: client \<open>i\<close> is the \<open>i\<close>th connection that was accepted.\<close>

lemma client_from_start:
  assumes "run_program C (fresh_server v) cs = Some (q, tr)"
  shows "length (clients q) = spawned (snd (deliver (on_accepted C) v (accept_results cs)))"
    and "i < length (clients q) \<Longrightarrow>
      actions_of (Some i) tr = snd (opened C) @ snd (deliver (on_completed C) (fst (opened C)) (inputs i cs))"
    and "i < length (clients q) \<Longrightarrow> clients q ! i = fst (deliver (on_completed C) (fst (opened C)) (inputs i cs))"
    and "\<not> i < length (clients q) \<Longrightarrow> actions_of (Some i) tr = []"
  using client_alone(2,3) [OF assms, of i] acceptor_alone(3) [OF assms] by simp_all

lemma actions_of_prefix [simp]: "actions_of (Some i) (map (Pair None) as @ tr) = actions_of (Some i) tr"
  by simp


section \<open>The TCP echo server\<close>

definition successes :: "error_code list \<Rightarrow> nat" where
  "successes ecs = length (filter (\<lambda>ec. \<not> is_error ec) ecs)"

lemma successes_Cons [simp]: "successes [] = 0" "successes (ec # ecs) = (if is_error ec then 0 else 1) + successes ecs"
  by (simp_all add: successes_def)

lemma tcp_server_accepts:
  "server_waiting v = Some () \<Longrightarrow>
   spawned (snd (deliver (echo_server_step at) v ecs)) = successes ecs \<and>
   server_waiting (fst (deliver (echo_server_step at) v ecs)) = Some ()"
  by (induction ecs arbitrary: v)
    (auto simp: deliver_Cons echo_server_step_def echo_accept_handler_def echo_do_accept_def log_at_def Let_def
      simp del: deliver.simps(2))

text \<open>
  C5: the TCP echo server as a whole. If its construction throws, \<open>startServer\<close> reports that and returns. Otherwise
  it never returns; it has one session for each accepted connection, a failed accept stops nothing, and whatever the
  order in which the handlers of all sessions run, each client is sent exactly the bytes that it sent itself, up to
  the first error on its own connection: no byte of one client reaches another.
\<close>

theorem tcp_clients_are_isolated:
  assumes "tcp_startServer at thrown cs = Some (returned, tr)"
  shows "(returned \<longleftrightarrow> thrown \<noteq> None) \<and>
    (thrown = None \<longrightarrow> (\<forall>i. written (actions_of (Some i) tr) =
       (if i < successes (accept_results cs) then echoed True (inputs i cs) else [])))"
proof (cases thrown)
  case (Some e)
  with assms show ?thesis by (auto simp: tcp_startServer_def start_and_run_def)
next
  case None
  let ?v = "fst (echo_make_server at)"
  from None assms obtain q tr' where r: "run_program (tcp_echo_code at) (fresh_server ?v) cs = Some (q, tr')"
    and ret: "returned = run_returns (tcp_echo_code at) q"
    and tr: "tr = (None, Start (Acceptor_Construct ''0.0.0.0'' 52525)) # map (Pair None) (snd (echo_make_server at)) @ tr'"
    by (auto simp: tcp_startServer_def start_and_run_def)
  have v: "server_waiting ?v = Some ()" by (simp add: echo_make_server_def echo_do_accept_def)
  note a = tcp_server_accepts [OF v, of at "accept_results cs"]
  have code: "on_accepted (tcp_echo_code at) = echo_server_step at" "on_completed (tcp_echo_code at) = echo_step at"
    "opened (tcp_echo_code at) = echo_start at echo_make_session"
    by (simp_all add: tcp_echo_code_def)
  from acceptor_alone(1) [OF r] a have "\<not> returned"
    by (simp add: ret run_returns_def code) (simp add: tcp_echo_code_def)
  moreover have "written (actions_of (Some i) tr) =
      (if i < successes (accept_results cs) then echoed True (inputs i cs) else [])" for i
    using client_from_start(1) [OF r] client_from_start(2,4) [OF r, of i] a tcp_session_echoes [of at "inputs i cs"]
    by (simp add: tr code split: prod.splits)
  ultimately show ?thesis using None by simp
qed

theorem tcp_clients_are_isolated_witness:
  "\<exists>tr. tcp_startServer id None [Accepted Success, Accepted Eof, Accepted Success, Completed 1 (Success, ''b''),
       Completed 0 (Success, ''a''), Completed 0 (Success, []), Completed 1 (Eof, []), Completed 0 (Success, ''c'')] =
     Some (False, tr) \<and> written (actions_of (Some 0) tr) = [''a'', ''c''] \<and> written (actions_of (Some 1) tr) = [''b''] \<and>
     written (actions_of (Some 2) tr) = []"
proof -
  let ?cs = "[Accepted Success, Accepted Eof, Accepted Success, Completed 1 (Success, ''b''),
    Completed 0 (Success, ''a''), Completed 0 (Success, []), Completed 1 (Eof, []), Completed 0 (Success, ''c'')]"
  have "tcp_startServer id None ?cs \<noteq> None"
    by (simp add: tcp_startServer_def start_and_run_def tcp_echo_code_def program_step_def echo_make_server_def
        echo_server_step_def echo_accept_handler_def echo_make_session_def echo_defs echo_do_accept_def print_line_def
        fresh_server_def)
  then obtain r tr where run: "tcp_startServer id None ?cs = Some (r, tr)" by auto
  from tcp_clients_are_isolated [OF run] run show ?thesis by (auto simp: numeral_eq_Suc)
qed

text \<open>The UDP server, which has no sessions, is stopped by nothing either.\<close>

theorem udp_startServer_serves:
  "(fst (udp_startServer at thrown cs) \<longleftrightarrow> thrown \<noteq> None) \<and>
   (thrown = None \<longrightarrow> sent_to (snd (udp_startServer at thrown cs)) = udp_replies True cs)"
proof (cases thrown)
  case (Some e)
  then show ?thesis by (simp add: udp_startServer_def)
next
  case None
  let ?s = "fst (udp_make_server at)"
  have w: "udp_waiting ?s = Some Udp_Received" by (simp add: udp_make_server_def do_receive_def)
  have one: "started (snd (udp_make_server at)) = [Receive_From maxLength]"
    "sent_to (snd (udp_make_server at)) = []"
    by (simp_all add: udp_make_server_def do_receive_def log_at_def Let_def)
  from udp_echo.one_in_flight [OF w, of "snd (udp_make_server at)" at cs] udp_deliver [OF w, of at cs] None one
  show ?thesis by (auto simp: udp_startServer_def split: prod.splits)
qed


section \<open>The TLS echo server\<close>

text \<open>The connections that are accepted: a failed accept is followed by the \<open>shutdown\<close> of the session made for it.\<close>

fun tls_accepted :: "error_code list \<Rightarrow> nat" where
  "tls_accepted [] = 0"
| "tls_accepted [ec] = (if is_error ec then 0 else 1)"
| "tls_accepted (ec # ec' # ecs) =
     (if \<not> is_error ec then Suc (tls_accepted (ec' # ecs)) else if is_error ec' then 0 else tls_accepted ecs)"

lemma ssl_server_accepts:
  "sv_waiting v = Some Handle_Accept \<Longrightarrow> spawned (snd (deliver ssl_server_step v ecs)) = tls_accepted ecs"
  by (induction ecs arbitrary: v rule: tls_accepted.induct)
    (auto simp: deliver_Cons ssl_server_defs ssl_acceptor.deliver_idle simp del: deliver.simps(2))

lemma run_program_invariant:
  assumes "run_program C p cs = Some (q, tr)" and "I p"
    and "\<And>p c q tr. I p \<Longrightarrow> program_step C p c = Some (q, tr) \<Longrightarrow> I q"
  shows "I q"
  using assms(1,2) by (induction cs arbitrary: p tr) (auto elim!: run_program_Cons dest: assms(3) simp del: run_program.simps(2))

lemma ssl1_code_simps [simp]:
  "on_accepted ssl1_code = ssl_server_step" "on_completed ssl1_code = ssl_step"
  "opened ssl1_code = ssl_start ssl_new_session"
  "accept_pending ssl1_code v \<longleftrightarrow> sv_waiting v \<noteq> None" "client_pending ssl1_code x \<longleftrightarrow> ssl_waiting x \<noteq> None"
  "accept_blocks ssl1_code v \<longleftrightarrow> sv_waiting v = Some Deleting_Session"
  "client_blocks ssl1_code x \<longleftrightarrow> ssl_waiting x = Some In_Destructor"
  by (simp_all add: ssl1_code_def)

text \<open>The server waits as long as the program lives.\<close>

lemma ssl1_alive_step:
  assumes "gone p \<or> sv_waiting (listening p) \<noteq> None" and "program_step ssl1_code p c = Some (q, tr)"
  shows "gone q \<or> sv_waiting (listening q) \<noteq> None"
proof (cases c)
  case (Accepted ec)
  note a = program_step_accepted [OF assms(2) [unfolded Accepted]]
  then obtain h where "sv_waiting (listening p) = Some h" by auto
  with a show ?thesis by (cases h) (auto simp: ssl_server_defs)
next
  case (Completed i d)
  note b = program_step_completed [OF assms(2) [unfolded Completed]]
  with assms(1) show ?thesis by auto
qed

text \<open>
  the TLS echo server as a whole: \<open>runServer\<close> returns only when the construction of the server has thrown. For
  every interleaving of the handlers, each client that has finished its handshake is sent exactly what it has sent
  itself, up to the first error on its own connection; a client without a handshake is sent nothing.
\<close>

theorem tls_clients_are_isolated:
  assumes "ssl1_runServer thrown cs = Some (returned, tr)"
  shows "(returned \<longleftrightarrow> thrown \<noteq> None) \<and>
    (thrown = None \<longrightarrow> (\<forall>i. written (actions_of (Some i) tr) =
       (if i < tls_accepted (accept_results cs)
        then (case inputs i cs of [] \<Rightarrow> [] | c # ds \<Rightarrow> if is_error (fst c) then [] else echoed True ds) else [])))"
proof (cases thrown)
  case (Some e)
  with assms show ?thesis by (auto simp: ssl1_runServer_def start_and_run_def)
next
  case None
  let ?v = "fst make_ssl_server"
  from None assms obtain q tr' where r: "run_program ssl1_code (fresh_server ?v) cs = Some (q, tr')"
    and ret: "returned = run_returns ssl1_code q"
    and tr: "tr = (None, Start (Acceptor_Construct ''0.0.0.0'' 8443)) # map (Pair None) (snd make_ssl_server) @ tr'"
    by (auto simp: ssl1_runServer_def start_and_run_def)
  have v: "sv_waiting ?v = Some Handle_Accept" by (simp add: ssl_server_defs)
  have "gone q \<or> sv_waiting (listening q) \<noteq> None"
    by (rule run_program_invariant [OF r, where I = "\<lambda>p. gone p \<or> sv_waiting (listening p) \<noteq> None"])
      (use v ssl1_alive_step in auto)
  then have "\<not> returned" by (auto simp: ret run_returns_def)
  moreover have "written (actions_of (Some i) tr) =
      (if i < tls_accepted (accept_results cs)
       then (case inputs i cs of [] \<Rightarrow> [] | c # ds \<Rightarrow> if is_error (fst c) then [] else echoed True ds) else [])" for i
    using client_from_start(1) [OF r] client_from_start(2,4) [OF r, of i] ssl_server_accepts [OF v, of "accept_results cs"]
      ssl_session_echoes [of "hd (inputs i cs)" "tl (inputs i cs)"]
    by (cases "inputs i cs") (auto simp: tr ssl_start_def split: prod.splits simp del: deliver.simps(2))
  ultimately show ?thesis using None by simp
qed

theorem tls_clients_are_isolated_witness:
  "\<exists>tr. ssl1_runServer None [Accepted Success, Accepted Success, Completed 1 (Success, []), Completed 1 (Success, ''b''),
       Completed 0 (Eof, []), Completed 0 (Success, []), Completed 1 (Success, []), Completed 1 (Success, ''c'')] =
     Some (False, tr) \<and> written (actions_of (Some 0) tr) = [] \<and> written (actions_of (Some 1) tr) = [''b'', ''c'']"
proof -
  let ?cs = "[Accepted Success, Accepted Success, Completed 1 (Success, []), Completed 1 (Success, ''b''),
    Completed 0 (Eof, []), Completed 0 (Success, []), Completed 1 (Success, []), Completed 1 (Success, ''c'')]"
  have "ssl1_runServer None ?cs \<noteq> None"
    by (simp add: ssl1_runServer_def start_and_run_def program_step_def ssl_server_defs ssl_defs ssl_start_def
        ssl_new_session_def fresh_server_def print_line_def upt_rec)
  then obtain r tr where run: "ssl1_runServer None ?cs = Some (r, tr)" by auto
  from tls_clients_are_isolated [OF run] run show ?thesis by (auto simp: numeral_eq_Suc)
qed

text \<open>
  But any client can end the program for all: when an operation on its connection has failed and \<open>shutdown\<close> fails
  too, the program is gone, and no handler of another client runs any more.
\<close>

theorem one_client_ends_all:
  assumes "program_step ssl1_code p (Completed i (ec, d)) = Some (q, tr)"
    and "ssl_waiting (clients p ! i) = Some In_Destructor" and "is_error ec"
  shows "gone q" and "run_program ssl1_code q (c # cs) = None"
proof -
  show g: "gone q"
    using program_step_completed(4) [OF assms(1)] assms(2,3) by (simp add: ssl_step_destructor destructor_returns_def)
  then show "run_program ssl1_code q (c # cs) = None" by (cases c) (simp_all add: program_step_def)
qed


section \<open>The HTTPS server\<close>

lemma https_code_simps [simp]:
  "on_accepted (https_code env d) = https_listener_step" "on_completed (https_code env d) = https_session_step env"
  "opened (https_code env d) = https_session_run (https_make_session d)"
  "accept_pending (https_code env d) v \<longleftrightarrow> accept_waiting v \<noteq> None"
  "client_pending (https_code env d) x \<longleftrightarrow> waiting x \<noteq> None"
  by (simp_all add: https_code_def)

lemma https_never_terminates:
  "Terminated \<notin> set (snd (https_listener_step l ec))" "Terminated \<notin> set (snd (https_session_step env s c))"
  by (auto simp: handler_defs split: option.split https_session_handler.split)

lemma https_alive: "run_program (https_code env d) (fresh_server l) cs = Some (q, tr) \<Longrightarrow> \<not> gone q"
proof (erule run_program_invariant)
  fix p c q tr
  assume "program_step (https_code env d) p c = Some (q, tr)"
  then show "\<not> gone q"
    by (cases c) (auto dest: program_step_accepted(4) program_step_completed(4) simp: https_never_terminates)
qed simp

lemma https_listener_waits:
  "accept_waiting l = Some () \<Longrightarrow>
   accept_waiting (fst (deliver https_listener_step l ecs)) = None \<longleftrightarrow> (\<exists>ec \<in> set ecs. is_error ec)"
  by (induction ecs arbitrary: l)
    (auto simp: deliver_Cons handler_defs https_acceptor.deliver_idle simp del: deliver.simps(2))

text \<open>A session waits exactly when the blocking session is blocked in a call.\<close>

lemma metered_https_do_session: "metered (https_do_session env d)"
proof -
  have "metered (https_session_round env d v)" for v
    unfolding https_session_round_def by (intro metered_intros) (simp_all add: https_fail_def)
  then show ?thesis
    unfolding https_do_session_def https_tls_shutdown_def
    by (intro metered_intros https_session_round_calls) (simp_all add: https_fail_def)
qed

lemma https_waits_as_blocking:
  "waiting (fst (deliver (https_session_step env) (fst (https_session_run (https_make_session d))) cs)) = None \<longleftrightarrow>
   snd (snd (https_do_session env d cs)) \<noteq> Blocked"
proof -
  obtain as s' r where b: "https_do_session env d cs = (as, s', r)" by (cases "https_do_session env d cs")
  from https_async_sync_trace [of env d cs] have "started (https_async_trace env d cs) = started as"
    using b started_without_timeouts [of "https_async_trace env d cs"] by simp
  with https_one_operation_in_flight [of env d cs] meteredD(1,2) [OF metered_https_do_session b] b
  show ?thesis by (cases "r = Blocked") auto
qed

text \<open>
  C6: the asynchronous HTTPS server as a whole does for its connections what the server with a thread for each
  connection does. It opens one session for each connection accepted before the first failed accept; whatever the
  interleaving of the handlers, what a session shows (timeouts aside) is what \<open>do_session\<close> of the synchronous server
  shows on the completions of that connection; and \<open>ioContext.run()\<close> returns exactly when an accept has failed and
  every one of these \<open>do_session\<close> would have ended.
\<close>

theorem https_program_serves_as_threads:
  assumes "https_program env construction cs = Some (returned, tr)"
  defines "n \<equiv> length (takeWhile (\<lambda>ec. \<not> is_error ec) (accept_results cs))"
  shows "without_timeouts (actions_of (Some i) tr) =
      (if i < n then fst (https_do_session env ''/'' (inputs i cs)) else []) \<and>
    (returned \<longleftrightarrow> (\<exists>ec \<in> set (accept_results cs). is_error ec) \<and>
      list_all (\<lambda>j. snd (snd (https_do_session env ''/'' (inputs j cs))) \<noteq> Blocked) [0..<n])"
proof -
  let ?C = "https_code env ''/''" and ?l = "\<lparr>accept_waiting = Some ()\<rparr>"
  have l: "https_listener_run https_listener_made = (?l, [Start Accept])"
    by (simp add: https_listener_run_def https_do_accept_def https_listener_made_def)
  from assms(1) obtain q tr' where r: "run_program ?C (fresh_server ?l) cs = Some (q, tr')"
    and ret: "returned = run_returns ?C q"
    and tr: "tr = map (Pair None) (fst (https_listener_construct construction) @ [Start Accept]) @ tr'"
    by (auto simp: https_program_def l)
  have n: "length (clients q) = n"
    using client_from_start(1) [OF r] by (simp add: n_def https_listener_spawned)
  have "without_timeouts (actions_of (Some i) tr) =
      (if i < n then fst (https_do_session env ''/'' (inputs i cs)) else [])"
    using client_from_start(2,4) [OF r, of i] https_async_sync_trace [of env "''/''" "inputs i cs"]
    by (auto simp: tr n https_async_trace_def split: prod.splits)
  moreover have "client_pending ?C (clients q ! j) \<longleftrightarrow>
      snd (snd (https_do_session env ''/'' (inputs j cs))) = Blocked" if "j < n" for j
    using client_from_start(3) [OF r, of j] https_waits_as_blocking [of env "''/''" "inputs j cs"] that n by auto
  then have "returned \<longleftrightarrow> (\<exists>ec \<in> set (accept_results cs). is_error ec) \<and>
      list_all (\<lambda>j. snd (snd (https_do_session env ''/'' (inputs j cs))) \<noteq> Blocked) [0..<n]"
    using https_alive [OF r] acceptor_alone(1) [OF r] https_listener_waits [of ?l "accept_results cs"] n
    by (auto simp: ret run_returns_def list_all_length list_all_iff)
  ultimately show ?thesis by blast
qed

theorem https_program_serves_as_threads_witness:
  "\<forall>env. \<exists>tr. https_program env [(Success, ()), (Success, ()), (Success, ()), (Success, ())]
      [Accepted Success, Accepted Success, Completed 1 (Eof, empty_request), Completed 0 (Success, empty_request),
       Accepted Eof, Completed 0 (End_Of_Stream, empty_request), Completed 0 (Success, empty_request)] = Some (True, tr) \<and>
    without_timeouts (actions_of (Some 0) tr) = [Start Tls_Handshake, Start Read_Message, Start Tls_Shutdown]"
proof
  fix env
  let ?cs = "[Accepted Success, Accepted Success, Completed 1 (Eof, empty_request), Completed 0 (Success, empty_request),
    Accepted Eof, Completed 0 (End_Of_Stream, empty_request), Completed 0 (Success, empty_request)]"
  let ?k = "[(Success, ()), (Success, ()), (Success, ()), (Success, ())]"
  have "https_program env ?k ?cs \<noteq> None"
    by (simp add: https_program_def program_step_def https_listener_made_def https_code_def https_listener_run_def
        handler_defs start_defs fresh_server_def)
  then obtain r tr where run: "https_program env ?k ?cs = Some (r, tr)" by auto
  from https_program_serves_as_threads [OF run, of 0] run
  show "\<exists>tr. https_program env ?k ?cs = Some (True, tr) \<and>
    without_timeouts (actions_of (Some 0) tr) = [Start Tls_Handshake, Start Read_Message, Start Tls_Shutdown]"
    by (simp add: https_do_session_eq https_tls_shutdown_def io_simps https_serve_loop_unfold io_bind.simps
        https_session_round_simps upt_rec)
qed


section \<open>The WebSocket server\<close>

lemma ws_code_simps [simp]:
  "on_accepted (ws_code lingers agent) = ws_listener_step" "on_completed (ws_code lingers agent) = ws_step lingers agent"
  "opened (ws_code lingers agent) = ws_run ws_make_session"
  "accept_pending (ws_code lingers agent) v \<longleftrightarrow> ws_accepting v \<noteq> None"
  by (simp_all add: ws_code_def)

text \<open>What a session writes, after the TLS and the WebSocket handshake.\<close>

fun ws_answers :: "(string \<Rightarrow> string) \<Rightarrow> (error_code \<times> ws_result) list \<Rightarrow> (bool \<times> string) list" where
  "ws_answers lingers ((ec, a) # (ec', b) # cs) = (if is_error ec \<or> is_error ec' then [] else ws_replies lingers True cs)"
| "ws_answers lingers cs = []"

lemma ws_session_answers:
  "ws_written (snd (ws_run ws_make_session) @ snd (deliver (ws_step lingers agent) (fst (ws_run ws_make_session)) cs)) = ws_answers lingers cs"
proof (cases "(lingers, cs)" rule: ws_answers.cases)
  case (1 l ec a ec' b ds)
  then show ?thesis
    using ws_session_replies [of lingers agent a b ds] not_is_error [of ec] not_is_error [of ec']
    by (cases "is_error ec"; cases "is_error ec'")
      (auto simp: deliver_Cons ws_run_def ws_on_run_def ws_make_session_def ws_defs ws.deliver_idle split: prod.splits
        simp del: deliver.simps(2))
qed (auto simp: ws_run_def ws_on_run_def ws_make_session_def ws_defs split: prod.splits)

lemma ws_listener_waits:
  "ws_accepting l = Some () \<Longrightarrow> ws_accepting (fst (deliver ws_listener_step l ecs)) = Some ()"
  by (induction ecs arbitrary: l)
    (auto simp: deliver_Cons ws_listener_step_def ws_listener_on_accept_def ws_do_accept_def simp del: deliver.simps(2))

text \<open>
  The WebSocket server as a whole: it never stops, opens one session for each accept that succeeds, and each client
  gets what lingers of its own messages in brackets, whatever the interleaving of the handlers.
\<close>

theorem ws_clients_are_isolated:
  assumes "ws_program lingers agent construction cs = Some (returned, tr)"
  shows "\<not> returned" and "ws_written (actions_of (Some i) tr) =
    (if i < successes (accept_results cs) then ws_answers lingers (inputs i cs) else [])"
proof -
  let ?l = "\<lparr>ws_accepting = Some ()\<rparr>"
  have l: "ws_listener_run ws_listener_made = (?l, [Start Accept])"
    by (simp add: ws_listener_run_def ws_do_accept_def ws_listener_made_def)
  from assms obtain q tr' where r: "run_program (ws_code lingers agent) (fresh_server ?l) cs = Some (q, tr')"
    and ret: "returned = run_returns (ws_code lingers agent) q"
    and tr: "tr = map (Pair None) (fst (ws_listener_construct construction) @ [Start Accept]) @ tr'"
    by (auto simp: ws_program_def l)
  from acceptor_alone(1) [OF r] ws_listener_waits [of ?l "accept_results cs"] show "\<not> returned"
    by (simp add: ret run_returns_def)
  show "ws_written (actions_of (Some i) tr) =
    (if i < successes (accept_results cs) then ws_answers lingers (inputs i cs) else [])"
    using client_from_start(1) [OF r] client_from_start(2,4) [OF r, of i] ws_session_answers [of lingers agent "inputs i cs"]
      ws_listener_deliver [of ?l "accept_results cs"]
    by (simp add: tr successes_def)
qed

end
