(* ===== verification/Http_Exchange.thy ===== *)
theory Http_Exchange
  imports Message_Exchange Causal_Programs Whole_Servers
begin

text \<open>
  The HTTP clients and servers of the program that meet on a port, on the two ends of one connection: five
  clients of \<open>Networking/Beast.cpp\<close> and \<open>Beast/http/Client.cpp\<close> that connect to port 52525 with the server of
  \<open>Beast/http/HTTPServer.cpp\<close> (not among them \<open>HTTP_Methods::Test\<close>, which sends several requests and prints nothing,
  \<open>httpGetRequest\<close>, which prints parts of the response, and \<open>httpGetRequest_TcpSocket\<close>, which parses the bytes itself), and the HTTPS clients of \<open>Beast/http/Client.cpp\<close> with the sessions of
  \<open>Beast/http/HTTPS_Server.cpp\<close> on port 8443.
\<close>

section \<open>How messages are read\<close>

text \<open>
  Boost writes a message so that the parser on the other end gives it back. The server sees the request with the value of
  \<open>keep_alive()\<close> that Boost works out from it, \<open>keep\<close>; the client sees the response as the stream operator prints it, \<open>text\<close>.
\<close>

definition parsed_request :: "(http_request \<Rightarrow> bool) \<Rightarrow> http_request \<Rightarrow> request" where
  "parsed_request keep q = \<lparr>q_version = q_version q, q_method = q_method q, q_target = q_target q, q_fields = q_fields q,
     q_body = q_body q, q_content_length = q_content_length q, q_keep_alive = keep q\<rparr>"

fun reads_request :: "(http_request \<Rightarrow> bool) \<Rightarrow> message \<Rightarrow> request \<Rightarrow> bool" where
  "reads_request keep (Request_Message q) r \<longleftrightarrow> r = parsed_request keep q"
| "reads_request keep m r \<longleftrightarrow> False"

fun reads_response :: "(response \<Rightarrow> string) \<Rightarrow> message \<Rightarrow> string \<Rightarrow> bool" where
  "reads_response text (Response_Message r) s \<longleftrightarrow> s = text r"
| "reads_response text m s \<longleftrightarrow> False"


section \<open>The clients\<close>

lemma printed_fail [simp]: "printed (fail what ec) = []" "started (fail what ec) = []"
  by (simp_all add: fail_def)

definition simple_request :: "string \<Rightarrow> http_request" where
  "simple_request agent = with_field User_Agent agent (with_field Content_Type ''application/json''
     (with_field Connection ''close'' (with_field Host ''0.0.0.0'' (make_request Get ''/index'' 11))))"

lemma blocking_clients_ask:
  "asking_end (ops_of (SimpleHttpGetRequest agent)) (Request_Message (simple_request agent))"
  "asking_end (ops_of (coroutine_do_session agent host port target version))
     (Request_Message (get_request agent host target version))"
  "asking_end (ops_of (awaitable_do_session agent host port target version))
     (Request_Message (get_request agent host target version))"
  "asking_end (ops_of (https_awaitable_do_session agent host portno target version))
     (Request_Message (get_request agent host target version))"
  unfolding SimpleHttpGetRequest_def coroutine_do_session_def awaitable_do_session_def https_awaitable_do_session_def
    simple_request_def Let_def
  by (auto simp: ops_simps intro!: end_intros split: prod.splits)

lemma blocking_clients_show:
  "shows_reads id [] (\<lambda>cs. fst (SimpleHttpGetRequest agent cs))"
  "shows_reads id [] (\<lambda>cs. fst (coroutine_do_session agent host port target version cs))"
  "shows_reads id [] (\<lambda>cs. fst (awaitable_do_session agent host port target version cs))"
  "shows_reads id [] (\<lambda>cs. fst (https_awaitable_do_session agent host portno target version cs))"
  unfolding SimpleHttpGetRequest_def coroutine_do_session_def awaitable_do_session_def https_awaitable_do_session_def Let_def
  by (auto intro!: shows_intros split: prod.splits)

lemma session_request: "with_field User_Agent agent (with_field Host host
    ((make_request Get [] 11)\<lparr>q_version := version, q_method := Get, q_target := target\<rparr>)) = get_request agent host target version"
  by (simp add: get_request_def make_request_def)

lemmas beast_handlers = beast_run_def beast_make_session_def beast_step_def beast_on_resolve_def beast_on_connect_def
  beast_on_write_def beast_on_read_def beast_after_shutdown_def

lemmas hc_handlers = hc_run_def hc_make_session_def hc_step_def hc_on_resolve_def hc_on_connect_def
  hc_on_write_def hc_on_read_def hc_after_shutdown_def

lemmas sc_handlers = sc_run_def sc_make_session_def sc_step_def sc_in_run_def sc_on_resolve_def sc_on_connect_def
  sc_on_handshake_def sc_on_write_def sc_on_read_def sc_on_shutdown_def

lemmas idle_clients = ops_after_idle [OF beast.async_session_axioms] ops_after_idle [OF http_client.async_session_axioms]
  ops_after_idle [OF https_client.async_session_axioms]

lemma object_clients_ask:
  "asking_end (ops_after beast_step (beast_run agent host port target version beast_make_session))
     (Request_Message (get_request agent host target version))"
  "asking_end (ops_after hc_step (hc_run agent host port target version hc_make_session))
     (Request_Message (get_request agent host target version))"
  "asking_end (ops_after (sc_step agent) (sc_run host portno target version sc_make_session))
     (Request_Message (get_request agent host target version))"
  unfolding session_request [symmetric]
  by (auto simp: ops_simps Let_def beast_handlers hc_handlers sc_handlers idle_clients intro!: end_intros)

lemma object_clients_show:
  "shows_reads id [] (trace_after beast_step (beast_run agent host port target version beast_make_session))"
  "shows_reads id [] (trace_after hc_step (hc_run agent host port target version hc_make_session))"
  "shows_reads id [] (trace_after (sc_step agent) (sc_run host portno target version sc_make_session))"
  by (auto simp: Let_def beast_handlers hc_handlers sc_handlers intro!: shows_intros
      shows_idle [OF beast.async_session_axioms] shows_idle [OF http_client.async_session_axioms]
      shows_idle [OF https_client.async_session_axioms])

text \<open>The clients by the port they connect to, each with its request.\<close>

definition http_clients :: "string \<Rightarrow> ((string script \<Rightarrow> action list) \<times> http_request) list" where
  "http_clients agent =
     [(\<lambda>cs. fst (SimpleHttpGetRequest agent cs), simple_request agent),
      (beast_Send_Request agent, get_request agent ''0.0.0.0'' ''/index'' 11),
      (\<lambda>cs. fst (runClient agent cs), get_request agent ''0.0.0.0'' ''/index'' 11),
      (\<lambda>cs. fst (sendRequest agent cs), get_request agent ''0.0.0.0'' ''/index1'' 11),
      (hc_Send_Request agent, get_request agent ''0.0.0.0'' ''/index'' 11)]"

definition https_clients :: "string \<Rightarrow> ((string script \<Rightarrow> action list) \<times> http_request) list" where
  "https_clients agent =
     [(sc_Send_Request agent, get_request agent ''0.0.0.0'' ''/'' 11),
      (\<lambda>cs. fst (https_awaitable_Send_Request agent cs), get_request agent ''0.0.0.0'' ''/'' 11)]"

lemma client_traces:
  "beast_Send_Request agent = trace_after beast_step (beast_run agent ''0.0.0.0'' ''52525'' ''/index'' 11 beast_make_session)"
  "hc_Send_Request agent = trace_after hc_step (hc_run agent ''0.0.0.0'' ''52525'' ''/index'' 11 hc_make_session)"
  "sc_Send_Request agent = trace_after (sc_step agent) (sc_run ''0.0.0.0'' 8443 ''/'' 11 sc_make_session)"
  by (simp_all add: fun_eq_iff beast_Send_Request_def beast_trace_def hc_Send_Request_def sc_Send_Request_def sc_trace_def
      trace_after_def case_prod_beta)

lemma clients_ask:
  assumes "(T, q) \<in> set (http_clients agent @ https_clients agent)"
  shows "asking_end (started \<circ> T) (Request_Message q)" and "shows_reads id [] T"
proof -
  have io: "started \<circ> (\<lambda>cs. fst (m cs)) = ops_of m" for m :: "(string, 'a) io" by (simp add: fun_eq_iff ops_of_def)
  have obj: "started \<circ> trace_after step x = ops_after step x" for step :: "'s \<Rightarrow> error_code \<times> string \<Rightarrow> 's \<times> action list" and x
    by (simp add: fun_eq_iff ops_after_def)
  have send: "ops_of (sendRequest agent) = ops_of (awaitable_do_session agent ''0.0.0.0'' ''52525'' ''/index1'' 11)"
    by (simp add: sendRequest_def ops_simps)
  have "shows_reads id [] (\<lambda>cs. fst (sendRequest agent cs))"
    unfolding sendRequest_def by (rule shows_catch [OF blocking_clients_show(3)]) (simp add: io_simps)
  with assms show "asking_end (started \<circ> T) (Request_Message q)" "shows_reads id [] T"
    by (auto simp: http_clients_def https_clients_def client_traces io obj send runClient_def https_awaitable_Send_Request_def
        blocking_clients_ask blocking_clients_show object_clients_ask object_clients_show)
qed


section \<open>The servers\<close>

text \<open>One round of the greeting server: it accepts the connection, reads one request and answers it.\<close>

definition greeting_connection :: "request end_point" where
  "greeting_connection = ops_of (serve_round handleRequest ())"

lemma greeting_answers: "answering_end greeting_connection (\<lambda>q. Response_Message (hello q)) (\<lambda>_. True)"
proof -
  let ?F = "then_ops Socket_Shutdown_Send (\<lambda>(ec, p). (\<lambda>_. [])) :: request end_point"
  let ?L = "then_ops Read_Message (\<lambda>(ec, q). if is_error ec then (\<lambda>_. [])
      else then_ops (Write_Response (hello q)) (\<lambda>(ec', x). if is_error ec' then (\<lambda>_. []) else ?F))"
  have me: "message_end ?L" by (intro message_end_then) (auto intro!: message_end_then message_end_none)
  have L: "answering_end ?L (\<lambda>q. Response_Message (hello q)) (\<lambda>_. True)"
    by (rule answering_loop [where w = "\<lambda>q. Write_Response (hello q)" and keep = "\<lambda>_. False"
          and E = "\<lambda>_ _ _. []" and E' = "\<lambda>_ _. []" and F = ?F])
      (auto intro!: me trusts_intros end_intros)
  have e: "greeting_connection = then_ops Accept (\<lambda>(ec, p). if is_error ec then (\<lambda>_. []) else ?L)"
    unfolding greeting_connection_def serve_round_def handleRequest_hello by (auto simp: ops_simps intro!: then_ops_cong)
  show ?thesis unfolding e by (auto intro!: end_intros trusts_intros L)
qed

text \<open>The sessions of the file server, and the loop in which both serve.\<close>

definition file_server_sessions :: "environment \<Rightarrow> string \<Rightarrow> request end_point list" where
  "file_server_sessions env doc_root =
     [ops_of (https_do_session env doc_root), \<lambda>cs. started (https_async_trace env doc_root cs)]"

lemma https_loop_ops:
  "ops_of (https_serve_loop env d) = then_ops Read_Message (\<lambda>(ec, q).
     if is_error ec then if ec = End_Of_Stream then ops_of https_tls_shutdown else (\<lambda>_. [])
     else then_ops (Write_Response (respond env d q)) (\<lambda>(ec', x). if is_error ec' then (\<lambda>_. [])
       else if r_keep_alive (respond env d q) then ops_of (https_serve_loop env d) else ops_of https_tls_shutdown))"
  (is "_ = ?R")
proof (rule ext)
  fix cs show "ops_of (https_serve_loop env d) cs = ?R cs"
  proof (cases cs)
    case Nil
    then show ?thesis by (simp add: ops_of_def https_serve_loop_simps)
  next
    case (Cons c ds)
    then show ?thesis
      by (cases c; cases ds) (auto simp: ops_of_def https_serve_loop_simps split: prod.splits)
  qed
qed

lemma https_session_ops: "ops_of (https_do_session env doc_root) =
    then_ops Tls_Handshake (\<lambda>(ec, p). if is_error ec then (\<lambda>_. []) else ops_of (https_serve_loop env doc_root))"
  unfolding https_do_session_eq by (auto simp: ops_simps https_fail_def intro!: then_ops_cong)

lemma https_answers:
  assumes "Q \<in> set (file_server_sessions env doc_root)"
  shows "answering_end Q (\<lambda>q. Response_Message (respond env doc_root q)) (\<lambda>_. True)"
proof -
  let ?L = "ops_of (https_serve_loop env doc_root)"
  note s = https_session_ops [of env doc_root]
  have shut: "silent (ops_of https_tls_shutdown)"
    by (auto simp: https_tls_shutdown_def ops_simps intro!: end_intros)
  have "message_end (ops_of (https_do_session env doc_root))"
    by (intro program_end causal_https_do_session metered_https_do_session)
  from message_end_tail [OF this [unfolded s], of "(Success, undefined)"] have me: "message_end ?L" by simp
  have "answering_end ?L (\<lambda>q. Response_Message (respond env doc_root q)) (\<lambda>_. True)"
    by (rule answering_loop [OF https_loop_ops me]) (auto intro!: trusts_intros end_intros shut)
  then have "answering_end (ops_of (https_do_session env doc_root)) (\<lambda>q. Response_Message (respond env doc_root q)) (\<lambda>_. True)"
    unfolding s by (auto intro!: end_intros trusts_intros)
  moreover have "(\<lambda>cs. started (https_async_trace env doc_root cs)) = ops_of (https_do_session env doc_root)"
    using arg_cong [OF https_async_sync_trace [of env doc_root], of started] by (simp add: fun_eq_iff ops_of_def)
  ultimately show ?thesis using assms by (auto simp: file_server_sessions_def)
qed


section \<open>Client and server\<close>

text \<open>The pairs that the properties are about, as instances of the contract.\<close>

interpretation greeting: message_exchange "ops_of (SimpleHttpGetRequest agent)" "Request_Message (simple_request agent)"
    greeting_connection "\<lambda>q. Response_Message (hello q)" "\<lambda>_. True" for agent
  by (intro message_exchange.intro blocking_clients_ask greeting_answers)

interpretation files: message_exchange "ops_of (https_awaitable_do_session agent host port target version)"
    "Request_Message (get_request agent host target version)" "ops_of (https_do_session env doc_root)"
    "\<lambda>q. Response_Message (respond env doc_root q)" "\<lambda>_. True" for agent host port target version env doc_root
  by (intro message_exchange.intro blocking_clients_ask https_answers) (simp add: file_server_sessions_def)

lemma shown_answer:
  assumes T: "asking_end (started \<circ> T) (Request_Message q)" "shows_reads id [] T"
    and Q: "answering_end Q (\<lambda>r. Response_Message (f r)) (\<lambda>_. True)"
    and run: "exchange (started \<circ> T) (reads_response text) Q (reads_request keep) a b"
  shows "printed (T a) \<in> {[], lines_of [text (f (parsed_request keep q))]}"
    and "all_succeed a \<Longrightarrow> all_succeed b \<Longrightarrow> at_rest (started \<circ> T) (reads_response text) Q (reads_request keep) a b \<Longrightarrow>
      pending (started \<circ> T) a = None \<and> printed (T a) = lines_of [text (f (parsed_request keep q))]"
proof -
  note x = message_exchange.intro [OF T(1) Q]
  have p: "printed (T a) = lines_of (received (started \<circ> T) a)" using T(2) by (simp add: shows_reads_def)
  show "printed (T a) \<in> {[], lines_of [text (f (parsed_request keep q))]}"
    using message_exchange.gets_its_answer [OF x run] by (auto simp: p)
  assume "all_succeed a" "all_succeed b" "at_rest (started \<circ> T) (reads_response text) Q (reads_request keep) a b"
  from message_exchange.is_answered [OF x run this]
  show "pending (started \<circ> T) a = None \<and> printed (T a) = lines_of [text (f (parsed_request keep q))]"
    by (auto simp: p)
qed

text \<open>
  C9: five HTTP clients of port 52525, those that send one request as a Beast message and print the response
  (\<open>SimpleHttpGetRequest\<close>, the two \<open>Send_Request\<close> with completion handlers, \<open>runClient\<close> and \<open>sendRequest\<close>), and the greeting server
  there work together, whatever the order of the completions at the two ends and whatever fails at any time: a client
  prints nothing or, once, the greeting that answers its own request. When nothing fails the two do not get stuck: once
  no operation can complete any more the client has ended and the greeting is on its screen.
\<close>

theorem http_clients_show_greeting:
  assumes "(T, q) \<in> set (http_clients agent)"
    and "exchange (started \<circ> T) (reads_response text) greeting_connection (reads_request keep) a b"
  shows "printed (T a) \<in> {[], lines_of [text (hello (parsed_request keep q))]} \<and>
    (all_succeed a \<and> all_succeed b \<and> at_rest (started \<circ> T) (reads_response text) greeting_connection (reads_request keep) a b \<longrightarrow>
      pending (started \<circ> T) a = None \<and> printed (T a) = lines_of [text (hello (parsed_request keep q))])"
proof -
  have c: "(T, q) \<in> set (http_clients agent @ https_clients agent)" using assms(1) by simp
  show ?thesis using shown_answer [OF clients_ask(1) [OF c] clients_ask(2) [OF c] greeting_answers assms(2)] by blast
qed

text \<open>The whole conversation of the blocking client.\<close>

abbreviation simple_parsed :: request where
  "simple_parsed \<equiv> parsed_request (\<lambda>_. False) (simple_request ''Boost'')"

abbreviation greeting_run :: "(response \<Rightarrow> string) \<Rightarrow> ((error_code \<times> string) + (error_code \<times> request)) list" where
  "greeting_run text \<equiv>
     [Inl (Success, ''0.0.0.0:52525''), Inl (Success, []), Inl (Success, []),
      Inr (Success, simple_parsed), Inr (Success, simple_parsed), Inr (Success, simple_parsed), Inr (Success, simple_parsed),
      Inl (Success, text (hello simple_parsed)), Inl (Success, [])]"

lemma simple_ops: "started \<circ> (\<lambda>cs. fst (SimpleHttpGetRequest agent cs)) =
    then_ops (Resolve ''0.0.0.0'' ''52525'') (\<lambda>(ec, e). if is_error ec then (\<lambda>_. []) else
    then_ops (Connect e) (\<lambda>(ec, p). if is_error ec then (\<lambda>_. []) else
    then_ops (Write_Request (simple_request agent)) (\<lambda>(ec, p). if is_error ec then (\<lambda>_. []) else
    then_ops Read_Message (\<lambda>(ec, p). if is_error ec then (\<lambda>_. []) else then_ops Socket_Shutdown (\<lambda>(ec, p). (\<lambda>_. []))))))"
proof -
  have "started \<circ> (\<lambda>cs. fst (SimpleHttpGetRequest agent cs)) = ops_of (SimpleHttpGetRequest agent)"
    by (simp add: fun_eq_iff ops_of_def)
  then show ?thesis
    unfolding SimpleHttpGetRequest_def simple_request_def Let_def by (auto simp: ops_simps intro!: then_ops_cong)
qed

lemma greeting_ops: "greeting_connection =
    then_ops Accept (\<lambda>(ec, p). if is_error ec then (\<lambda>_. []) else
    then_ops Read_Message (\<lambda>(ec, q). if is_error ec then (\<lambda>_. []) else
    then_ops (Write_Response (hello q)) (\<lambda>(ec', x). if is_error ec' then (\<lambda>_. []) else
    then_ops Socket_Shutdown_Send (\<lambda>(ec, p). (\<lambda>_. [])))))"
  unfolding greeting_connection_def serve_round_def handleRequest_hello by (auto simp: ops_simps intro!: then_ops_cong)

theorem http_clients_show_greeting_witness:
  "let T = \<lambda>cs. fst (SimpleHttpGetRequest ''Boost'' cs); text = \<lambda>r. to_string (r_status r); ms = greeting_run text
   in exchange (started \<circ> T) (reads_response text) greeting_connection (reads_request (\<lambda>_. False)) (at_first ms) (at_second ms) \<and>
      printed (T (at_first ms)) = to_string 200 @ [CHR 0x0A]"
proof -
  let ?T = "\<lambda>cs. fst (SimpleHttpGetRequest ''Boost'' cs)" and ?text = "\<lambda>r. to_string (r_status r)"
  let ?ms = "greeting_run ?text"
  have x: "exchange (started \<circ> ?T) (reads_response ?text) greeting_connection (reads_request (\<lambda>_. False)) (at_first ?ms) (at_second ?ms)"
    by (rule plays_exchange) (simp add: simple_ops greeting_ops pending_then)
  have "at_rest (started \<circ> ?T) (reads_response ?text) greeting_connection (reads_request (\<lambda>_. False)) (at_first ?ms) (at_second ?ms)"
    by (simp add: at_rest_def simple_ops greeting_ops pending_then)
  with x show ?thesis
    using http_clients_show_greeting [OF _ x, of "simple_request ''Boost''" "''Boost''"]
    by (simp add: http_clients_def hello_def)
qed

text \<open>The same for the HTTPS client that awaits and one session of the file server.\<close>

abbreviation index_parsed :: request where
  "index_parsed \<equiv> parsed_request (\<lambda>_. False) (get_request ''Boost'' ''0.0.0.0'' ''/'' 11)"

abbreviation one_file :: environment where
  "one_file \<equiv> \<lparr>beast_version = ''Beast'', ec_message = (\<lambda>_. []),
     open_file = (\<lambda>path. if path = ''/srv/index.html'' then (Success, 5) else (No_Such_File, 0))\<rparr>"

abbreviation index_file_run :: "(response \<Rightarrow> string) \<Rightarrow> ((error_code \<times> string) + (error_code \<times> request)) list" where
  "index_file_run text \<equiv>
     [Inl (Success, []), Inl (Success, ''0.0.0.0:8443''), Inl (Success, []), Inr (Success, index_parsed), Inl (Success, []),
      Inl (Success, []), Inr (Success, index_parsed), Inr (Success, index_parsed),
      Inl (Success, text (respond one_file ''/srv'' index_parsed)), Inr (Success, index_parsed), Inl (Success, [])]"

lemma https_awaitable_ops: "started \<circ> (\<lambda>cs. fst (https_awaitable_Send_Request agent cs)) =
    then_ops (Set_Sni ''0.0.0.0'') (\<lambda>(ec, p). if is_error ec then (\<lambda>_. []) else
    then_ops (Resolve ''0.0.0.0'' (to_string 8443)) (\<lambda>(ec, e). if is_error ec then (\<lambda>_. []) else
    then_ops (Connect e) (\<lambda>(ec, p). if is_error ec then (\<lambda>_. []) else
    then_ops Tls_Handshake (\<lambda>(ec, p). if is_error ec then (\<lambda>_. []) else
    then_ops (Write_Request (get_request agent ''0.0.0.0'' ''/'' 11)) (\<lambda>(ec, p). if is_error ec then (\<lambda>_. []) else
    then_ops Read_Message (\<lambda>(ec, p). if is_error ec then (\<lambda>_. []) else then_ops Tls_Shutdown (\<lambda>_. (\<lambda>_. []))))))))"
proof -
  have "started \<circ> (\<lambda>cs. fst (https_awaitable_Send_Request agent cs)) = ops_of (https_awaitable_Send_Request agent)"
    by (simp add: fun_eq_iff ops_of_def)
  then show ?thesis
    unfolding https_awaitable_Send_Request_def https_awaitable_do_session_def
    by (auto simp: ops_simps intro!: then_ops_cong)
qed

text \<open>
  C10: the HTTPS clients and the file server on port 8443 work together in the same way, with the blocking session of the
  server and with the asynchronous one: a client prints nothing or, once, what \<open>handle_request\<close> answers to its own
  request, and when nothing fails it does.
\<close>

theorem https_clients_show_file:
  assumes "(T, q) \<in> set (https_clients agent)" and "Q \<in> set (file_server_sessions env doc_root)"
    and "exchange (started \<circ> T) (reads_response text) Q (reads_request keep) a b"
  shows "printed (T a) \<in> {[], lines_of [text (respond env doc_root (parsed_request keep q))]} \<and>
    (all_succeed a \<and> all_succeed b \<and> at_rest (started \<circ> T) (reads_response text) Q (reads_request keep) a b \<longrightarrow>
      pending (started \<circ> T) a = None \<and> printed (T a) = lines_of [text (respond env doc_root (parsed_request keep q))])"
proof -
  have c: "(T, q) \<in> set (http_clients agent @ https_clients agent)" using assms(1) by simp
  show ?thesis using shown_answer [OF clients_ask(1) [OF c] clients_ask(2) [OF c] https_answers [OF assms(2)] assms(3)] by blast
qed

lemma index_answer: "respond one_file ''/srv'' index_parsed =
    \<lparr>r_status = 200, r_version = 11, r_fields = set_field Content_Type ''text/html'' (set_field Server ''Beast'' []),
     r_keep_alive = False, r_body = File_Body ''/srv/index.html'', r_content_length = Some 5\<rparr>"
  by code_simp

theorem https_clients_show_file_witness:
  "let T = \<lambda>cs. fst (https_awaitable_Send_Request ''Boost'' cs); Q = ops_of (https_do_session one_file ''/srv'');
     text = \<lambda>r. to_string (r_status r); ms = index_file_run text
   in exchange (started \<circ> T) (reads_response text) Q (reads_request (\<lambda>_. False)) (at_first ms) (at_second ms) \<and>
      printed (T (at_first ms)) = to_string 200 @ [CHR 0x0A]"
proof -
  let ?T = "\<lambda>cs. fst (https_awaitable_Send_Request ''Boost'' cs)" and ?text = "\<lambda>r. to_string (r_status r)"
  let ?Q = "ops_of (https_do_session one_file ''/srv'')" and ?ms = "index_file_run ?text"
  note run = https_awaitable_ops https_session_ops https_loop_ops https_tls_shutdown_def ops_simps pending_then index_answer
  have x: "exchange (started \<circ> ?T) (reads_response ?text) ?Q (reads_request (\<lambda>_. False)) (at_first ?ms) (at_second ?ms)"
    by (rule plays_exchange) (simp add: run)
  have "at_rest (started \<circ> ?T) (reads_response ?text) ?Q (reads_request (\<lambda>_. False)) (at_first ?ms) (at_second ?ms)"
    by (simp add: at_rest_def run)
  with x show ?thesis
    using https_clients_show_file [OF _ _ x, where q = "get_request ''Boost'' ''0.0.0.0'' ''/'' 11" and agent = "''Boost''"
        and env = one_file and doc_root = "''/srv''"]
    by (simp add: https_clients_def file_server_sessions_def index_answer)
qed

end
