(* ===== verification/Web_Socket_Exchange.thy ===== *)
theory Web_Socket_Exchange
  imports Message_Exchange Web_Socket_Clients Web_Socket_Servers
begin

text \<open>
  The clients of \<open>Beast/web_sockets/WebSocketClients.cpp\<close> and the sessions of
  \<open>Beast/web_sockets/WebSocketServers.cpp\<close>, which all use port 6789, on the two ends of one connection: the plain client
  with the plain server, and the two TLS clients with the two TLS servers.
\<close>

section \<open>How frames are read\<close>

text \<open>
  A frame arrives as it was sent. The client sees its data and their number, the server also whether it is text.
\<close>

fun shown_frame :: "message \<Rightarrow> wsc_result \<Rightarrow> bool" where
  "shown_frame (Frame is_text d) r \<longleftrightarrow> r = \<lparr>text_of = d, number_of = length d\<rparr>"
| "shown_frame m r \<longleftrightarrow> False"

fun got_frame :: "message \<Rightarrow> ws_result \<Rightarrow> bool" where
  "got_frame (Frame is_text d) r \<longleftrightarrow> got_text r = is_text \<and> message_data r = d"
| "got_frame m r \<longleftrightarrow> False"


section \<open>The clients\<close>

lemma ws_clients_ask:
  "asking_end (ops_of (simple_Client agent)) (Frame True ''CLIENT HELLO'')"
  "asking_end (ops_of (ssl_Client agent)) (Frame True ''CLIENT HELLO'')"
  unfolding simple_Client_def ssl_Client_def
  by (auto simp: ops_simps intro!: end_intros split: prod.splits)

lemma async_client_asks:
  "asking_end (ops_after (wsc_step pretty agent) (wsc_run pretty host port msg wsc_make_session)) (Frame True msg)"
  by (auto simp: ops_simps Let_def wsc_run_def wsc_make_session_def wsc_step_def wsc_handlers ops_after_idle [OF wsc.async_session_axioms]
      intro!: end_intros)

text \<open>A trace that, when all goes well to the end, prints the messages read last.\<close>

definition shows_last :: "string list \<Rightarrow> (wsc_result script \<Rightarrow> action list) \<Rightarrow> bool" where
  "shows_last ls T \<longleftrightarrow> (\<forall>cs. all_succeed cs \<and> pending (started \<circ> T) cs = None \<longrightarrow>
     suffix (lines_of (ls @ map text_of (reads_of (started (T cs)) cs))) (printed (T cs)))"

named_theorems last_intros \<open>what a client prints last, from its parts\<close>

lemma shows_last_call [last_intros]:
  assumes "\<And>p. shows_last (ls @ (if op = Read_Message then [text_of p] else [])) (\<lambda>cs. fst (k (Success, p) cs))"
  shows "shows_last ls (\<lambda>cs. fst (io_bind (io_call op) k cs))"
  unfolding shows_last_def
proof (intro allI impI)
  fix cs
  assume cs: "all_succeed cs \<and> pending (started \<circ> (\<lambda>cs. fst (io_bind (io_call op) k cs))) cs = None"
  then obtain p ds where c: "cs = (Success, p) # ds"
    by (cases cs) (auto simp: pending_def io_simps not_is_error)
  with cs have "all_succeed ds" "pending (started \<circ> (\<lambda>cs. fst (k (Success, p) cs))) ds = None"
    by (auto simp: pending_def io_simps split: if_splits)
  with assms [of p] have "suffix (lines_of ((ls @ (if op = Read_Message then [text_of p] else [])) @
      map text_of (reads_of (started (fst (k (Success, p) ds))) ds))) (printed (fst (k (Success, p) ds)))"
    unfolding shows_last_def by blast
  with c show "suffix (lines_of (ls @ map text_of (reads_of (started (fst (io_bind (io_call op) k cs))) cs)))
      (printed (fst (io_bind (io_call op) k cs)))"
    by (auto simp: io_simps split: if_splits)
qed

lemma shows_last_check [last_intros]:
  assumes "\<And>p. shows_last (ls @ (if op = Read_Message then [text_of p] else [])) (\<lambda>cs. fst (k p cs))"
  shows "shows_last ls (\<lambda>cs. fst (io_bind (io_check op) k cs))"
proof -
  have e: "io_bind (io_check op) k cs =
      io_bind (io_call op) (\<lambda>(ec, p). if is_error ec then io_throw (System_Error [] ec) else k p) cs" for cs
    by (cases cs) (auto simp: io_simps)
  show ?thesis unfolding e by (rule shows_last_call) (simp add: assms)
qed

lemma shows_last_emit [last_intros]:
  "started as = [] \<Longrightarrow> shows_last ls (\<lambda>cs. fst (m cs)) \<Longrightarrow> shows_last ls (\<lambda>cs. fst (io_seq (io_emit as) m cs))"
  "started as = [] \<Longrightarrow> suffix (lines_of ls) (printed as) \<Longrightarrow> shows_last ls (\<lambda>cs. fst (io_emit as cs))"
  by (auto simp: shows_last_def pending_def io_simps intro: suffix_appendI)

lemma shows_last_start [last_intros]:
  assumes "\<And>p. shows_last (ls @ (if op = Read_Message then [text_of p] else [])) (trace_after step (step s (Success, p)))"
  shows "shows_last ls (trace_after step (s, [Start op]))"
  unfolding shows_last_def
proof (intro allI impI)
  fix cs
  assume cs: "all_succeed cs \<and> pending (started \<circ> trace_after step (s, [Start op])) cs = None"
  then obtain p ds where c: "cs = (Success, p) # ds"
    by (cases cs) (auto simp: pending_def trace_after_simps not_is_error)
  with cs have "all_succeed ds" "pending (started \<circ> trace_after step (step s (Success, p))) ds = None"
    by (auto simp: pending_def trace_after_simps split: if_splits)
  with assms [of p] have "suffix (lines_of ((ls @ (if op = Read_Message then [text_of p] else [])) @
      map text_of (reads_of (started (trace_after step (step s (Success, p)) ds)) ds))) (printed (trace_after step (step s (Success, p)) ds))"
    unfolding shows_last_def by blast
  with c show "suffix (lines_of (ls @ map text_of (reads_of (started (trace_after step (s, [Start op]) cs)) cs)))
      (printed (trace_after step (s, [Start op]) cs))"
    by (auto simp: trace_after_simps split: if_splits)
qed

lemma shows_last_adds:
  assumes "shows_last ls (trace_after step (s, as))" and "started [a] = []"
  shows "shows_last ls (trace_after step (s, a # as))"
proof -
  have e: "started (trace_after step (s, a # as) cs) = started (trace_after step (s, as) cs)"
      "suffix (printed (trace_after step (s, as) cs)) (printed (trace_after step (s, a # as) cs))" for cs
    using assms(2) by (cases a; simp add: trace_after_def suffix_def)+
  then have p: "pending (started \<circ> trace_after step (s, a # as)) = pending (started \<circ> trace_after step (s, as))"
    by (simp add: fun_eq_iff pending_def)
  show ?thesis unfolding shows_last_def p e(1)
  proof (intro allI impI)
    fix cs assume "all_succeed cs \<and> pending (started \<circ> trace_after step (s, as)) cs = None"
    with assms(1) have "suffix (lines_of (ls @ map text_of (reads_of (started (trace_after step (s, as) cs)) cs)))
        (printed (trace_after step (s, as) cs))" unfolding shows_last_def by blast
    from suffix_order.trans [OF this e(2)]
    show "suffix (lines_of (ls @ map text_of (reads_of (started (trace_after step (s, as) cs)) cs)))
        (printed (trace_after step (s, a # as) cs))" .
  qed
qed

lemma shows_last_before [last_intros]:
  "shows_last ls (trace_after step (s, Start op # as)) \<Longrightarrow> shows_last ls (trace_after step (s, print_line l # Start op # as))"
  "shows_last ls (trace_after step (s, Expires_After n # as)) \<Longrightarrow>
     shows_last ls (trace_after step (s, print_line l # Expires_After n # as))"
  "shows_last ls (trace_after step (s, Expires_Never # as)) \<Longrightarrow>
     shows_last ls (trace_after step (s, print_line l # Expires_Never # as))"
  "shows_last ls (trace_after step (s, as)) \<Longrightarrow> shows_last ls (trace_after step (s, Expires_After n # as))"
  "shows_last ls (trace_after step (s, as)) \<Longrightarrow> shows_last ls (trace_after step (s, Expires_Never # as))"
  by (simp_all add: shows_last_adds print_line_def)

lemma shows_last_idle:
  "async_session step waiting \<Longrightarrow> waiting s = None \<Longrightarrow> started as = [] \<Longrightarrow> suffix (lines_of ls) (printed as) \<Longrightarrow>
     shows_last ls (trace_after step (s, as))"
  by (simp add: shows_last_def trace_after_idle)

lemma ws_clients_show_last:
  "shows_last [] (\<lambda>cs. fst (simple_Client agent cs))" "shows_last [] (\<lambda>cs. fst (ssl_Client agent cs))"
  unfolding simple_Client_def ssl_Client_def
  by (auto intro!: last_intros simp: lines_of_def split: prod.splits)

lemma suffix_line: "suffix x (l @ c # x)"
  by (intro suffix_appendI suffix_ConsI) simp

lemma async_client_shows_last:
  "shows_last [] (trace_after (wsc_step pretty agent) (wsc_run pretty host port msg wsc_make_session))"
  by (auto simp: Let_def wsc_run_def wsc_make_session_def wsc_step_def wsc_handlers lines_of_def suffix_line
      intro!: last_intros shows_last_idle [OF wsc.async_session_axioms])

text \<open>The clients without and with TLS, each with the message it sends.\<close>

definition ws_clients :: "bool \<Rightarrow> (string \<Rightarrow> string) \<Rightarrow> string \<Rightarrow> string \<Rightarrow> ((wsc_result script \<Rightarrow> action list) \<times> string) list" where
  "ws_clients tls pretty agent now =
     (if tls then [(\<lambda>cs. fst (ssl_Client agent cs), ''CLIENT HELLO''), (async_Client pretty agent now, ''Some_Message_'' @ now)]
      else [(\<lambda>cs. fst (simple_Client agent cs), ''CLIENT HELLO'')])"

lemma ws_clients_contract:
  assumes "(T, msg) \<in> set (ws_clients tls pretty agent now)"
  shows "asking_end (started \<circ> T) (Frame True msg)" and "shows_last [] T"
proof -
  have io: "started \<circ> (\<lambda>cs. fst (m cs)) = ops_of m" for m :: "(wsc_result, unit) io" by (simp add: fun_eq_iff ops_of_def)
  have T: "async_Client pretty agent now =
      trace_after (wsc_step pretty agent) (wsc_run pretty ''0.0.0.0'' 6789 (''Some_Message_'' @ now) wsc_make_session)"
    by (simp add: fun_eq_iff async_Client_def wsc_trace_def trace_after_def case_prod_beta)
  then have "started \<circ> async_Client pretty agent now =
      ops_after (wsc_step pretty agent) (wsc_run pretty ''0.0.0.0'' 6789 (''Some_Message_'' @ now) wsc_make_session)"
    by (simp add: fun_eq_iff ops_after_def)
  with assms T show "asking_end (started \<circ> T) (Frame True msg)" "shows_last [] T"
    by (auto simp: ws_clients_def io ws_clients_ask async_client_asks ws_clients_show_last async_client_shows_last
        split: if_splits)
qed


section \<open>The servers\<close>

definition plain_frame :: "ws_result \<Rightarrow> message" where
  "plain_frame m = Frame (got_text m) (message_data m)"

definition bracketed_frame :: "(string \<Rightarrow> string) \<Rightarrow> ws_result \<Rightarrow> message" where
  "bracketed_frame lingers m = Frame (got_text m) (lingers (''['' @ message_data m @ '']''))"

lemma ws_loop_ops: "ops_of (io_loop ws_round ()) = then_ops Read_Message (\<lambda>(ec, m). if is_error ec then (\<lambda>_. [])
     else then_ops (Ws_Write (got_text m) (message_data m)) (\<lambda>(ec', x). if is_error ec' then (\<lambda>_. [])
       else if True then ops_of (io_loop ws_round ()) else (\<lambda>_. [])))"
  (is "_ = ?R")
proof (rule ext)
  fix cs show "ops_of (io_loop ws_round ()) cs = ?R cs"
    unfolding ops_of_def [of "io_loop ws_round ()"] io_loop_unfold [OF ws_round_calls, of "()" cs]
    by (cases cs; cases "tl cs") (auto simp: io_bind.simps ws_round_simps Let_def ops_of_def split: prod.split)
qed

lemma ws_loop_answers: "answering_end (ops_of (io_loop ws_round ())) plain_frame (\<lambda>_. True)"
proof -
  have "causal (io_loop ws_round ())" "metered (io_loop ws_round ())"
    by (intro causal_intros metered_intros ws_round_calls; unfold ws_round_def; intro causal_intros metered_intros; simp)+
  then have "message_end (ops_of (io_loop ws_round ()))" by (rule program_end)
  then show ?thesis
    by (rule answering_loop [OF ws_loop_ops]) (auto simp: plain_frame_def intro!: trusts_intros end_intros)
qed

lemma ws_session_ops:
  "ops_of (simple_handleSession agent) = then_ops (Ws_Accept (agent @ '' websocket-server-sync''))
     (\<lambda>(ec, p). if is_error ec then (\<lambda>_. []) else ops_of (io_loop ws_round ()))"
  "ops_of (ssl_handleSession agent) = then_ops Tls_Handshake (\<lambda>(ec, p). if is_error ec then (\<lambda>_. [])
     else then_ops (Ws_Accept (agent @ '' websocket-server-sync-ssl''))
       (\<lambda>(ec, p). if is_error ec then (\<lambda>_. []) else ops_of (io_loop ws_round ())))"
  unfolding simple_handleSession_def ssl_handleSession_def ws_catch_def ws_rounds_agree
  by (subst ops_of_catch; auto simp: ops_simps split: exn.split intro!: then_ops_cong)+

lemma blocking_ws_answers:
  "answering_end (ops_of (simple_handleSession agent)) plain_frame (\<lambda>_. True)"
  "answering_end (ops_of (ssl_handleSession agent)) plain_frame (\<lambda>_. True)"
  unfolding ws_session_ops by (auto intro!: end_intros trusts_intros ws_loop_answers)

text \<open>The asynchronous session between two messages, whatever kind the last one had.\<close>

abbreviation ws_reading :: "bool \<Rightarrow> ws_session" where
  "ws_reading is_text \<equiv> \<lparr>ws_buffer = [], ws_got_text = is_text, ws_waiting = Some Ws_On_Read\<rparr>"

abbreviation ws_after_failure :: "(string \<Rightarrow> string) \<Rightarrow> string \<Rightarrow> error_code \<Rightarrow> ws_result \<Rightarrow> ws_result end_point" where
  "ws_after_failure lingers agent ec m \<equiv> ops_after (ws_step lingers agent) (ws_step lingers agent (ws_reading True) (ec, m))"

definition ws_async_loop :: "(string \<Rightarrow> string) \<Rightarrow> string \<Rightarrow> ws_result end_point" where
  "ws_async_loop lingers agent = ops_after (ws_step lingers agent) (ws_reading True, [Start Read_Message])"

lemma ws_reading_any: "ops_after (ws_step lingers agent) (ws_reading is_text, [Start Read_Message]) = ws_async_loop lingers agent"
proof -
  have "ws_step lingers agent (ws_reading is_text) c = ws_step lingers agent (ws_reading True) c" for c
    by (simp add: ws_step_def Let_def)
  then show ?thesis unfolding ws_async_loop_def by (simp add: ops_after_Start)
qed

lemma ws_answer_ops:
  assumes "\<not> is_error ec"
  shows "ops_after (ws_step lingers agent) (ws_step lingers agent (ws_reading True) (ec, m)) =
      then_ops (Ws_Write (got_text m) (lingers (''['' @ message_data m @ '']'')))
        (\<lambda>(ec', x). if is_error ec' then (\<lambda>_. []) else ws_async_loop lingers agent)"
proof -
  let ?s = "\<lparr>ws_buffer = message_data m, ws_got_text = got_text m, ws_waiting = Some Ws_On_Write\<rparr>"
  have "ws_step lingers agent (ws_reading True) (ec, m) = (?s, [Start (Ws_Write (got_text m) (lingers (''['' @ message_data m @ '']'')))])"
    using assms by (auto simp: ws_defs not_is_error)
  moreover have "ops_after (ws_step lingers agent) (ws_step lingers agent ?s (ec', x)) = (if is_error ec' then (\<lambda>_. []) else ws_async_loop lingers agent)"
    for ec' x
    by (auto simp: ws_defs ws_reading_any ops_after_idle [OF ws.async_session_axioms])
  ultimately show ?thesis by (auto simp: ops_after_Start intro!: then_ops_cong)
qed

lemma ws_async_loop_ops: "ws_async_loop lingers agent = then_ops Read_Message (\<lambda>(ec, m). if is_error ec then ws_after_failure lingers agent ec m
     else then_ops (Ws_Write (got_text m) (lingers (''['' @ message_data m @ '']''))) (\<lambda>(ec', x). if is_error ec' then (\<lambda>_. [])
       else if True then ws_async_loop lingers agent else (\<lambda>_. [])))"
proof -
  have "ws_async_loop lingers agent = then_ops Read_Message (\<lambda>c. ops_after (ws_step lingers agent) (ws_step lingers agent (ws_reading True) c))"
    unfolding ws_async_loop_def by (simp add: ops_after_Start)
  then show ?thesis by (auto simp: ws_answer_ops intro!: then_ops_cong)
qed

lemma ws_async_loop_answers: "answering_end (ws_async_loop lingers agent) (bracketed_frame lingers) all_succeed"
proof -
  have "message_end (ws_async_loop lingers agent)" unfolding ws_async_loop_def by (rule object_end [OF ws.async_session_axioms]) simp_all
  then show ?thesis
    by (rule answering_loop [OF ws_async_loop_ops]) (auto simp: bracketed_frame_def intro!: trusts_intros end_intros)
qed

lemma async_ws_answers: "answering_end (ops_after (ws_step lingers agent) (ws_run ws_make_session)) (bracketed_frame lingers) all_succeed"
proof -
  let ?s = "\<lparr>ws_buffer = [], ws_got_text = False, ws_waiting = Some Ws_On_Handshake\<rparr>"
  let ?t = "?s\<lparr>ws_waiting := Some Ws_On_Accept\<rparr>"
  let ?accept = "Ws_Accept (agent @ '' websocket-server-async-ssl'')"
  have t: "ops_after (ws_step lingers agent) (ws_step lingers agent ?t (ec, p)) = (if is_error ec then (\<lambda>_. []) else ws_async_loop lingers agent)" for ec p
    by (auto simp: ws_defs ws_reading_any ops_after_idle [OF ws.async_session_axioms])
  have "ops_after (ws_step lingers agent) (ws_step lingers agent ?s (ec, p)) = (if is_error ec then (\<lambda>_. [])
      else then_ops ?accept (\<lambda>(ec, p). if is_error ec then (\<lambda>_. []) else ws_async_loop lingers agent))" for ec p
  proof (cases "is_error ec")
    case False
    then have "ws_step lingers agent ?s (ec, p) = (?t, [Expires_Never, Start ?accept])" by (simp add: ws_step_def ws_on_handshake_def)
    with False t show ?thesis by (auto simp: ops_after_simps ops_after_Start intro!: then_ops_cong)
  qed (simp add: ws_step_def ws_on_handshake_def ops_after_idle [OF ws.async_session_axioms] fail_def)
  then have "ops_after (ws_step lingers agent) (ws_run ws_make_session) = then_ops Tls_Handshake (\<lambda>(ec, p). if is_error ec then (\<lambda>_. [])
     else then_ops ?accept (\<lambda>(ec, p). if is_error ec then (\<lambda>_. []) else ws_async_loop lingers agent))"
    by (auto simp: ws_run_def ws_on_run_def ws_make_session_def ops_after_simps ops_after_Start intro!: then_ops_cong)
  then show ?thesis by (auto intro!: end_intros trusts_intros ws_async_loop_answers)
qed

text \<open>
  The sessions without and with TLS, each with what it makes of a message. The blocking ones answer nothing but what
  they have read; the asynchronous one also answers after a failed read, so only without failures.
\<close>

definition ws_servers :: "bool \<Rightarrow> (string \<Rightarrow> string) \<Rightarrow> string \<Rightarrow> (ws_result end_point \<times> (string \<Rightarrow> string) \<times> (ws_result script \<Rightarrow> bool)) list" where
  "ws_servers tls lingers agent =
     (if tls then [(ops_of (ssl_handleSession agent), \<lambda>d. d, \<lambda>_. True),
        (ops_after (ws_step lingers agent) (ws_run ws_make_session), \<lambda>d. lingers (''['' @ d @ '']''), all_succeed)]
      else [(ops_of (simple_handleSession agent), \<lambda>d. d, \<lambda>_. True)])"

lemma ws_servers_contract:
  "(Q, answer, ok) \<in> set (ws_servers tls lingers agent) \<Longrightarrow> answering_end Q (\<lambda>m. Frame (got_text m) (answer (message_data m))) ok"
  using blocking_ws_answers async_ws_answers
  by (auto simp: ws_servers_def plain_frame_def [abs_def] bracketed_frame_def [abs_def] split: if_splits)


section \<open>Client and server\<close>

interpretation plain_ws: message_exchange "ops_of (simple_Client agent)" "Frame True ''CLIENT HELLO''"
    "ops_of (simple_handleSession agent')" plain_frame "\<lambda>_. True" for agent agent'
  by (intro message_exchange.intro ws_clients_ask blocking_ws_answers)

interpretation tls_ws: message_exchange "ops_of (ssl_Client agent)" "Frame True ''CLIENT HELLO''"
    "ops_after (ws_step lingers agent') (ws_run ws_make_session)" "bracketed_frame lingers" all_succeed for agent lingers agent'
  by (intro message_exchange.intro ws_clients_ask async_ws_answers)

text \<open>
  C11: the WebSocket clients and servers on port 6789, without TLS and with it, work together whatever the order of the
  completions at the two ends. From a blocking server a client receives nothing or, once, its own message, whatever fails.
  From the asynchronous server, as long as no operation of the server fails, it receives nothing or, once, what lingers of
  its message in brackets; after a failed read that server also answers with part of a message
  (\<open>half_message_answered\<close>). When nothing fails at either end the two do not get stuck: once no operation can complete any
  more the client has ended, and this answer is the last line on its screen.
\<close>

theorem ws_clients_get_their_message:
  assumes "(T, msg) \<in> set (ws_clients tls pretty agent now)" and "(Q, answer, ok) \<in> set (ws_servers tls lingers agent')"
    and "exchange (started \<circ> T) shown_frame Q got_frame a b"
  shows "(ok b \<longrightarrow> received (started \<circ> T) a \<in> {[], [\<lparr>text_of = answer msg, number_of = length (answer msg)\<rparr>]}) \<and>
    (all_succeed a \<and> all_succeed b \<and> at_rest (started \<circ> T) shown_frame Q got_frame a b \<longrightarrow>
      pending (started \<circ> T) a = None \<and> suffix (answer msg @ [CHR 0x0A]) (printed (T a)))"
proof -
  note T = ws_clients_contract [OF assms(1)]
  note x = message_exchange.intro [OF T(1) ws_servers_contract [OF assms(2)]]
  have "pending (started \<circ> T) a = None \<and> received (started \<circ> T) a = [\<lparr>text_of = answer msg, number_of = length (answer msg)\<rparr>]"
    if "all_succeed a" "all_succeed b" "at_rest (started \<circ> T) shown_frame Q got_frame a b"
  proof -
    have "\<exists>q. got_frame (Frame True msg) q" by (rule exI [of _ "\<lparr>got_text = True, message_data = msg, bytes_sent = 0\<rparr>"]) simp
    from message_exchange.is_answered [OF x assms(3) that _ this] show ?thesis by auto
  qed
  moreover have "suffix (lines_of (map text_of (received (started \<circ> T) a))) (printed (T a))"
    if "all_succeed a" "pending (started \<circ> T) a = None"
    using T(2) that unfolding shows_last_def by auto
  ultimately show ?thesis using message_exchange.gets_its_answer [OF x assms(3)] by fastforce
qed

abbreviation hello_got :: ws_result where
  "hello_got \<equiv> \<lparr>got_text = True, message_data = ''CLIENT HELLO'', bytes_sent = 12\<rparr>"

abbreviation hello_shown :: wsc_result where
  "hello_shown \<equiv> \<lparr>text_of = ''CLIENT HELLO'', number_of = length ''CLIENT HELLO''\<rparr>"

abbreviation hello_run :: "((error_code \<times> wsc_result) + (error_code \<times> ws_result)) list" where
  "hello_run \<equiv> [Inl (Success, hello_shown), Inl (Success, hello_shown), Inr (Success, hello_got), Inl (Success, hello_shown),
     Inl (Success, hello_shown), Inr (Success, hello_got), Inr (Success, hello_got), Inl (Success, hello_shown), Inl (Success, hello_shown)]"

lemma simple_client_ops: "started \<circ> (\<lambda>cs. fst (simple_Client agent cs)) =
    then_ops (Resolve ''0.0.0.0'' (to_string 6789)) (\<lambda>(ec, r). if is_error ec then (\<lambda>_. []) else
    then_ops (Connect (text_of r)) (\<lambda>(ec, p). if is_error ec then (\<lambda>_. []) else
    then_ops (Ws_Handshake (''0.0.0.0'' @ '':'' @ to_string 6789) ''/chargeStationState'' (agent @ '' websocket-client-coro''))
      (\<lambda>(ec, p). if is_error ec then (\<lambda>_. []) else
    then_ops (Ws_Write True ''CLIENT HELLO'') (\<lambda>(ec, p). if is_error ec then (\<lambda>_. []) else
    then_ops Read_Message (\<lambda>(ec, p). if is_error ec then (\<lambda>_. []) else then_ops Ws_Close (\<lambda>_. (\<lambda>_. [])))))))"
proof -
  have "started \<circ> (\<lambda>cs. fst (simple_Client agent cs)) = ops_of (simple_Client agent)"
    by (simp add: fun_eq_iff ops_of_def)
  then show ?thesis unfolding simple_Client_def by (auto simp: ops_simps intro!: then_ops_cong)
qed

theorem ws_clients_get_their_message_witness:
  "let T = \<lambda>cs. fst (simple_Client ''Beast'' cs); Q = ops_of (simple_handleSession ''Beast'')
   in exchange (started \<circ> T) shown_frame Q got_frame (at_first hello_run) (at_second hello_run) \<and>
      received (started \<circ> T) (at_first hello_run) \<in> {[], [hello_shown]} \<and>
      suffix (''CLIENT HELLO'' @ [CHR 0x0A]) (printed (T (at_first hello_run)))"
proof -
  let ?T = "\<lambda>cs. fst (simple_Client ''Beast'' cs)" and ?Q = "ops_of (simple_handleSession ''Beast'')"
  let ?a = "at_first hello_run" and ?b = "at_second hello_run"
  have x: "exchange (started \<circ> ?T) shown_frame ?Q got_frame ?a ?b"
    by (rule plays_exchange) (simp add: simple_client_ops ws_session_ops ws_loop_ops pending_then)
  have rest: "at_rest (started \<circ> ?T) shown_frame ?Q got_frame ?a ?b"
    by (simp add: at_rest_def simple_client_ops ws_session_ops ws_loop_ops pending_then)
  have "(?T, ''CLIENT HELLO'') \<in> set (ws_clients False (\<lambda>f. f) ''Beast'' ''12:00'')"
    "(?Q, \<lambda>d. d, \<lambda>_. True) \<in> set (ws_servers False (\<lambda>t. t) ''Beast'')" by (simp_all add: ws_clients_def ws_servers_def)
  from ws_clients_get_their_message [OF this x] rest
  have "received (started \<circ> ?T) ?a \<in> {[], [\<lparr>text_of = ''CLIENT HELLO'', number_of = length ''CLIENT HELLO''\<rparr>]}"
    "suffix (''CLIENT HELLO'' @ [CHR 0x0A]) (printed (?T ?a))" by simp_all
  with x show ?thesis unfolding Let_def by simp
qed

text \<open>
  Without the condition the theorem is false: when a read of the asynchronous session fails half way, the client gets half
  of its message back as the answer.
\<close>

abbreviation half_run :: "((error_code \<times> wsc_result) + (error_code \<times> ws_result)) list" where
  "half_run \<equiv> [Inl (Success, hello_shown), Inl (Success, hello_shown), Inl (Success, hello_shown), Inr (Success, hello_got),
     Inl (Success, hello_shown), Inr (Success, hello_got), Inl (Success, hello_shown), Inl (Success, hello_shown),
     Inr (Error_Value 125, \<lparr>got_text = True, message_data = ''CLIENT'', bytes_sent = 0\<rparr>),
     Inl (Success, \<lparr>text_of = ''[CLIENT]'', number_of = 8\<rparr>)]"

lemma ssl_client_ops: "started \<circ> (\<lambda>cs. fst (ssl_Client agent cs)) =
    then_ops (Resolve ''0.0.0.0'' (to_string 6789)) (\<lambda>(ec, r). if is_error ec then (\<lambda>_. []) else
    then_ops (Connect (text_of r)) (\<lambda>(ec, p). if is_error ec then (\<lambda>_. []) else
    then_ops (Set_Sni ''0.0.0.0'') (\<lambda>(ec, p). if is_error ec then (\<lambda>_. []) else
    then_ops Tls_Handshake (\<lambda>(ec, p). if is_error ec then (\<lambda>_. []) else
    then_ops (Ws_Handshake (''0.0.0.0'' @ '':'' @ to_string 6789) ''/chargeStatissonState'' (agent @ '' websocket-client-coro''))
      (\<lambda>(ec, p). if is_error ec then (\<lambda>_. []) else
    then_ops (Ws_Write True ''CLIENT HELLO'') (\<lambda>(ec, p). if is_error ec then (\<lambda>_. []) else
    then_ops Read_Message (\<lambda>(ec, p). if is_error ec then (\<lambda>_. []) else then_ops Ws_Close (\<lambda>_. (\<lambda>_. [])))))))))"
proof -
  have "started \<circ> (\<lambda>cs. fst (ssl_Client agent cs)) = ops_of (ssl_Client agent)"
    by (simp add: fun_eq_iff ops_of_def)
  then show ?thesis unfolding ssl_Client_def by (auto simp: ops_simps intro!: then_ops_cong)
qed

lemma half_message_answered:
  "let T = \<lambda>cs. fst (ssl_Client ''Beast'' cs); Q = ops_after (ws_step (\<lambda>t. t) ''Beast'') (ws_run ws_make_session)
   in exchange (started \<circ> T) shown_frame Q got_frame (at_first half_run) (at_second half_run) \<and>
      received (started \<circ> T) (at_first half_run) = [\<lparr>text_of = ''[CLIENT]'', number_of = 8\<rparr>]"
proof -
  let ?T = "\<lambda>cs. fst (ssl_Client ''Beast'' cs)" and ?Q = "ops_after (ws_step (\<lambda>t. t) ''Beast'') (ws_run ws_make_session)"
  have x: "exchange (started \<circ> ?T) shown_frame ?Q got_frame (at_first half_run) (at_second half_run)"
    by (rule plays_exchange) (simp add: ssl_client_ops pending_def ops_after_def trace_after_def ws_run_def ws_on_run_def ws_make_session_def ws_defs)
  moreover have "received (started \<circ> ?T) (at_first half_run) = [\<lparr>text_of = ''[CLIENT]'', number_of = 8\<rparr>]"
    by (simp add: ssl_client_ops)
  ultimately show ?thesis by simp
qed

end
