(* ===== verification/Own_Contexts.thy ===== *)
theory Own_Contexts
  imports Background_Tasks
begin

text \<open>
  \<open>BackgroundTasks::Separate_Threads\<close> and \<open>Threading::run_async_task_own_thread\<close>: every thread makes an \<open>io_context\<close> of
  its own, holds it with a work guard, waits on a timer whose handler gives the guard up, and runs the context. What a
  thread does depends on its own context only, so its phases are an invariant of every schedule, for any number of
  threads.
\<close>

section \<open>The shape of the programs\<close>

text \<open>The texts of one thread: before and after the guard, behind the wait, in the handler, and behind \<open>run()\<close>.\<close>

record thread_texts =
  before_guard :: "string list"
  before_wait :: "string list"
  before_run :: "string list"
  on_expiry :: "string list"
  on_error :: "string list"
  after_run :: "string list"

abbreviation says :: "string list \<Rightarrow> stmt list" where
  "says ts \<equiv> map Say ts"

definition timer_handlers :: "nat \<Rightarrow> thread_texts \<Rightarrow> stmt list \<times> stmt list" where
  "timer_handlers c x = (says (on_expiry x) @ [Release_Work c], says (on_error x) @ [Release_Work c])"

definition own_thread :: "nat \<Rightarrow> thread_texts \<Rightarrow> stmt list" where
  "own_thread c x = says (before_guard x) @ Hold_Work c # says (before_wait x) @
     Wait_Async c (fst (timer_handlers c x)) (snd (timer_handlers c x)) # says (before_run x) @ Run_Ctx c # says (after_run x)"

definition own_main :: "string list \<Rightarrow> string list \<Rightarrow> nat \<Rightarrow> (nat \<Rightarrow> thread_texts) \<Rightarrow> stmt list" where
  "own_main as bs n x = says as @ map (\<lambda>i. Spawn_Thread (Suc i) (own_thread (Suc i) (x i))) [0..<n] @ says bs @
     map (\<lambda>i. Join_Thread (Suc i)) [0..<n]"

definition separate_texts :: "string \<Rightarrow> nat \<Rightarrow> thread_texts" where
  "separate_texts message i = \<lparr>before_guard = [''Thread '' @ to_string i @ '': Starting...''],
     before_wait = [''Thread '' @ to_string i @ '': Setup timer...''],
     before_run = [''Thread '' @ to_string i @ '': Running io_context...''],
     on_expiry = [''Timer expired successfully!''], on_error = [''Timer error: '' @ message], after_run = []\<rparr>"

definition threading_texts :: "string \<Rightarrow> nat \<Rightarrow> thread_texts" where
  "threading_texts message i = (separate_texts message i)\<lparr>
     before_guard := ''background_task() entered'' # before_guard (separate_texts message i),
     after_run := [''background_task() exited'']\<rparr>"

lemma own_programs:
  "separate_threads_run message = own_main [] [] 4 (separate_texts message)"
  "run_async_task_own_thread message =
     own_main [''run_async_task_own_thread() entered''] [''run_async_task_own_thread() exited''] 4 (threading_texts message)"
  by (simp_all add: separate_threads_run_def run_async_task_own_thread_def own_main_def own_thread_def timer_handlers_def
      own_context_task_def threading_background_task_def separate_texts_def threading_texts_def)


section \<open>The phases of a thread\<close>

text \<open>What concerns thread \<open>t\<close>: its code, its context, and what it has printed.\<close>

record local =
  l_code :: "stmt list"
  l_queue :: "stmt list list"
  l_waits :: "(stmt list \<times> stmt list) list"
  l_guards :: nat
  l_running :: nat
  l_stopped :: bool
  l_shown :: "string list"

definition own_view :: "world \<Rightarrow> nat \<Rightarrow> local" where
  "own_view w t = \<lparr>l_code = codes w ! t, l_queue = map snd (filter (\<lambda>q. fst q = t) (queue w)),
     l_waits = map snd (filter (\<lambda>p. fst p = t) (pending w)), l_guards = guards w t, l_running = running w t,
     l_stopped = stopped w t, l_shown = map snd (filter (\<lambda>x. fst x = t) (shown w))\<rparr>"

abbreviation idle_local :: local where
  "idle_local \<equiv> \<lparr>l_code = [], l_queue = [], l_waits = [], l_guards = 0, l_running = 0, l_stopped = False, l_shown = []\<rparr>"

text \<open>What the thread prints in the end, with the text of the handler.\<close>

abbreviation after_texts :: "thread_texts \<Rightarrow> string list \<Rightarrow> string list" where
  "after_texts x ts \<equiv> before_guard x @ before_wait x @ before_run x @ ts"

definition all_texts :: "thread_texts \<Rightarrow> string list set" where
  "all_texts x = {after_texts x (h @ after_run x) |h. h \<in> {on_expiry x, on_error x}}"

inductive own_phase :: "nat \<Rightarrow> thread_texts \<Rightarrow> local \<Rightarrow> bool" for c x where
  Starting: "before_guard x = ps @ as \<Longrightarrow> own_phase c x
     \<lparr>l_code = says as @ Hold_Work c # says (before_wait x) @
        Wait_Async c (fst (timer_handlers c x)) (snd (timer_handlers c x)) # says (before_run x) @ Run_Ctx c # says (after_run x),
      l_queue = [], l_waits = [], l_guards = 0, l_running = 0, l_stopped = False, l_shown = ps\<rparr>"
| Guarded: "before_wait x = ps @ as \<Longrightarrow> own_phase c x
     \<lparr>l_code = says as @ Wait_Async c (fst (timer_handlers c x)) (snd (timer_handlers c x)) # says (before_run x) @
        Run_Ctx c # says (after_run x),
      l_queue = [], l_waits = [], l_guards = 1, l_running = 0, l_stopped = False, l_shown = before_guard x @ ps\<rparr>"
| Waiting: "before_run x = ps @ as \<Longrightarrow> own_phase c x
     \<lparr>l_code = says as @ Run_Ctx c # says (after_run x),
      l_queue = [], l_waits = [timer_handlers c x], l_guards = 1, l_running = 0, l_stopped = False,
      l_shown = before_guard x @ before_wait x @ ps\<rparr>"
| Expired: "before_run x = ps @ as \<Longrightarrow> h \<in> {on_expiry x, on_error x} \<Longrightarrow> own_phase c x
     \<lparr>l_code = says as @ Run_Ctx c # says (after_run x),
      l_queue = [says h @ [Release_Work c]], l_waits = [], l_guards = 1, l_running = 0, l_stopped = False,
      l_shown = before_guard x @ before_wait x @ ps\<rparr>"
| Handling: "h \<in> {on_expiry x, on_error x} \<Longrightarrow> h = ps @ as \<Longrightarrow> own_phase c x
     \<lparr>l_code = says as @ Release_Work c # End_Task c # Run_Ctx c # says (after_run x),
      l_queue = [], l_waits = [], l_guards = 1, l_running = 1, l_stopped = False, l_shown = after_texts x ps\<rparr>"
| Released: "h \<in> {on_expiry x, on_error x} \<Longrightarrow> own_phase c x
     \<lparr>l_code = End_Task c # Run_Ctx c # says (after_run x),
      l_queue = [], l_waits = [], l_guards = 0, l_running = 1, l_stopped = False, l_shown = after_texts x h\<rparr>"
| Handled: "h \<in> {on_expiry x, on_error x} \<Longrightarrow> own_phase c x
     \<lparr>l_code = Run_Ctx c # says (after_run x),
      l_queue = [], l_waits = [], l_guards = 0, l_running = 0, l_stopped = False, l_shown = after_texts x h\<rparr>"
| Leaving: "h \<in> {on_expiry x, on_error x} \<Longrightarrow> after_run x = ps @ as \<Longrightarrow> own_phase c x
     \<lparr>l_code = says as,
      l_queue = [], l_waits = [], l_guards = 0, l_running = 0, l_stopped = True, l_shown = after_texts x (h @ ps)\<rparr>"


section \<open>One thread alone\<close>

fun own_stmt :: "nat \<Rightarrow> stmt \<Rightarrow> bool" where
  "own_stmt c (Say y) \<longleftrightarrow> True"
| "own_stmt c (Hold_Work d) \<longleftrightarrow> d = c"
| "own_stmt c (Release_Work d) \<longleftrightarrow> d = c"
| "own_stmt c (Wait_Async d ok err) \<longleftrightarrow> d = c"
| "own_stmt c (Run_Ctx d) \<longleftrightarrow> d = c"
| "own_stmt c (End_Task d) \<longleftrightarrow> d = c"
| "own_stmt c y \<longleftrightarrow> False"

definition l_work :: "local \<Rightarrow> nat" where
  "l_work l = l_guards l + l_running l + length (l_queue l) + length (l_waits l)"

fun local_exec :: "stmt \<Rightarrow> stmt list \<Rightarrow> local \<Rightarrow> local option" where
  "local_exec (Say y) k l = Some (l\<lparr>l_code := k, l_shown := l_shown l @ [y]\<rparr>)"
| "local_exec (Hold_Work c) k l = Some (l\<lparr>l_code := k, l_guards := l_guards l + 1\<rparr>)"
| "local_exec (Release_Work c) k l = Some (l\<lparr>l_code := k, l_guards := l_guards l - 1\<rparr>)"
| "local_exec (Wait_Async c ok err) k l = Some (l\<lparr>l_code := k, l_waits := l_waits l @ [(ok, err)]\<rparr>)"
| "local_exec (Run_Ctx c) k l =
     (if l_stopped l then Some (l\<lparr>l_code := k\<rparr>)
      else if l_work l = 0 then Some (l\<lparr>l_code := k, l_stopped := True\<rparr>) else None)"
| "local_exec (End_Task c) k l = Some (l\<lparr>l_code := k, l_running := l_running l - 1\<rparr>)"
| "local_exec y k l = None"

lemma says_head: "says as @ s # r = y # k \<Longrightarrow> own_stmt c s \<Longrightarrow> own_stmt c y" "says as = y # k \<Longrightarrow> own_stmt c y"
  by (cases as; auto)+

lemma phase_own_stmt: "own_phase c x l \<Longrightarrow> l_code l = y # k \<Longrightarrow> own_stmt c y"
  by (erule own_phase.cases; fastforce dest!: says_head [where c = c])

lemma phase_exec:
  assumes "own_phase c x l" and "l_code l = y # k" and "local_exec y k l = Some l'"
  shows "own_phase c x l'"
  using assms(1)
proof cases
  case (Starting ps as)
  then show ?thesis using assms(2,3)
    by (cases as) (auto intro!: own_phase.Starting [of _ "ps @ [_]", simplified] own_phase.Guarded [of _ "[]", simplified])
next
  case (Guarded ps as)
  then show ?thesis using assms(2,3)
    by (cases as) (auto intro!: own_phase.Guarded [of _ "ps @ [_]", simplified] own_phase.Waiting [of _ "[]", simplified])
next
  case (Waiting ps as)
  then show ?thesis using assms(2,3)
    by (cases as) (auto simp: l_work_def intro!: own_phase.Waiting [of _ "ps @ [_]", simplified] split: if_splits)
next
  case (Expired ps as h)
  then show ?thesis using assms(2,3)
    by (cases as) (auto simp: l_work_def intro!: own_phase.Expired [of _ "ps @ [_]", simplified] split: if_splits)
next
  case (Handling h ps as)
  then show ?thesis using assms(2,3)
    by (cases as) (auto simp: l_work_def intro!: own_phase.Handling [of _ _ "ps @ [_]", simplified] own_phase.Released [simplified] split: if_splits)
next
  case (Released h)
  then show ?thesis using assms(2,3) by (auto intro!: own_phase.Handled)
next
  case (Handled h)
  then show ?thesis using assms(2,3) by (auto simp: l_work_def intro!: own_phase.Leaving [of _ _ "[]", simplified])
next
  case (Leaving h ps as)
  then show ?thesis using assms(2,3)
    by (cases as) (auto intro!: own_phase.Leaving [of _ _ "ps @ [_]", simplified])
qed

lemma phase_take:
  assumes "own_phase c x l" and "l_code l = Run_Ctx c # k" and "l_queue l = h # q"
  shows "q = [] \<and> own_phase c x (l\<lparr>l_code := h @ End_Task c # Run_Ctx c # k, l_queue := [], l_running := l_running l + 1\<rparr>)"
  using assms(1)
proof cases
  case (Expired ps as g)
  with assms(2) have "as = []" by (cases as) auto
  with Expired assms(2,3) own_phase.Handling [of g x "[]" g c] show ?thesis by auto
qed (use assms(2,3) in auto)

lemma phase_complete:
  assumes "own_phase c x l" and "l_waits l = (s, e) # p"
  shows "p = [] \<and> own_phase c x (l\<lparr>l_waits := [], l_queue := l_queue l @ [if b then s else e]\<rparr>)"
  using assms(1)
proof cases
  case (Waiting ps as)
  with assms(2) own_phase.Expired [OF Waiting(2), of "if b then on_expiry x else on_error x" c] show ?thesis
    by (auto simp: timer_handlers_def split: if_splits)
qed (use assms(2) in auto)

lemma phase_stuck:
  assumes "own_phase c x l" and "l_waits l = []" and "\<And>y k. l_code l = y # k \<Longrightarrow> local_exec y k l = None"
    and "\<And>h q k. l_code l = Run_Ctx c # k \<Longrightarrow> l_queue l \<noteq> h # q"
  shows "l_code l = [] \<and> l_queue l = [] \<and> l_shown l \<in> all_texts x"
proof -
  have no: "l_code l = [] \<or> (\<exists>k. l_code l = Run_Ctx c # k)"
    using assms(3) phase_own_stmt [OF assms(1)] by (cases "l_code l"; cases "hd (l_code l)") auto
  from assms(1) show ?thesis
  proof cases
    case (Expired ps as h)
    with assms(4) no show ?thesis by (cases as) auto
  next
    case (Handled h)
    with assms(3) show ?thesis by (auto simp: l_work_def)
  next
    case (Leaving h ps as)
    with no show ?thesis by (cases as) (auto simp: all_texts_def)
  next
    case (Handling h ps as)
    with no show ?thesis by (cases as) auto
  next
    case (Guarded ps as)
    with no show ?thesis by (cases as) auto
  next
    case (Starting ps as)
    with no show ?thesis by (cases as) auto
  qed (use assms(2) no in auto)
qed


section \<open>All threads\<close>

lemma own_view_simps [simp]:
  "l_code (own_view w t) = codes w ! t" "l_queue (own_view w t) = map snd (filter (\<lambda>q. fst q = t) (queue w))"
  "l_waits (own_view w t) = map snd (filter (\<lambda>p. fst p = t) (pending w))" "l_guards (own_view w t) = guards w t"
  "l_running (own_view w t) = running w t" "l_stopped (own_view w t) = stopped w t"
  "l_shown (own_view w t) = map snd (filter (\<lambda>x. fst x = t) (shown w))"
  by (simp_all add: own_view_def)

lemma l_work_view: "l_work (own_view w t) = work w t"
  by (simp add: l_work_def work_def)

text \<open>A statement of one thread changes nothing for the others.\<close>

lemma exec_view:
  assumes "t < length (codes w)" and "own_stmt t y" and "exec t y k w = Some v"
  shows "local_exec y k (own_view w t) = Some (own_view v t)" and "u \<noteq> t \<Longrightarrow> own_view v u = own_view w u"
    and "length (codes v) = length (codes w)" and "crashed v = crashed w"
    and "set (queue v) = set (queue w)" and "\<forall>p \<in> set (pending v). fst p = t \<or> p \<in> set (pending w)"
proof -
  have work: "l_work \<lparr>l_code = codes w ! t, l_queue = map snd (filter (\<lambda>q. fst q = t) (queue w)),
      l_waits = map snd (filter (\<lambda>p. fst p = t) (pending w)), l_guards = guards w t, l_running = running w t,
      l_stopped = b, l_shown = map snd (filter (\<lambda>x. fst x = t) (shown w))\<rparr> = work w t" for b
    by (simp add: l_work_def work_def)
  have s: "y \<in> range Say \<union> {Hold_Work t, Release_Work t, Run_Ctx t, End_Task t} \<union> range (case_prod (Wait_Async t))"
    using assms(2) by (cases y) auto
  then show "local_exec y k (own_view w t) = Some (own_view v t)"
    using assms(1,3) by (auto simp: own_view_def work split: if_splits)
  show "u \<noteq> t \<Longrightarrow> own_view v u = own_view w u"
    using s assms(1,3) by (auto simp: own_view_def split: if_splits)
  show "length (codes v) = length (codes w)" "crashed v = crashed w" "set (queue v) = set (queue w)"
    "\<forall>p \<in> set (pending v). fst p = t \<or> p \<in> set (pending w)"
    using s assms(1,3) by (auto split: if_splits intro: rev_image_eqI)
qed

lemma filter_remove_nth:
  assumes "i < length xs"
  shows "\<not> P (xs ! i) \<Longrightarrow> filter P (remove_nth i xs) = filter P xs"
    and "P (xs ! i) \<Longrightarrow> filter P xs = [y] \<Longrightarrow> xs ! i = y \<and> filter P (remove_nth i xs) = []"
    and "set (remove_nth i xs) \<subseteq> set xs"
proof -
  have xs: "xs = take i xs @ xs ! i # drop (Suc i) xs" using assms by (simp add: id_take_nth_drop)
  have f: "filter P xs = filter P (take i xs) @ (if P (xs ! i) then [xs ! i] else []) @ filter P (drop (Suc i) xs)"
    by (subst xs) simp
  show "\<not> P (xs ! i) \<Longrightarrow> filter P (remove_nth i xs) = filter P xs" by (simp add: f remove_nth_def)
  show "P (xs ! i) \<Longrightarrow> filter P xs = [y] \<Longrightarrow> xs ! i = y \<and> filter P (remove_nth i xs) = []"
    by (simp add: f remove_nth_def append_eq_Cons_conv)
  show "set (remove_nth i xs) \<subseteq> set xs" by (auto simp: remove_nth_def dest: in_set_takeD in_set_dropD)
qed

fun said :: "stmt list \<Rightarrow> string list" where
  "said [] = []"
| "said (Say y # k) = y # said k"
| "said (y # k) = said k"

lemma said_append [simp]: "said (k @ k') = said k @ said k'" "said (says ts) = ts"
  by (induction k rule: said.induct; simp) (induction ts; simp)

abbreviation spawn_own :: "(nat \<Rightarrow> thread_texts) \<Rightarrow> nat \<Rightarrow> stmt" where
  "spawn_own x i \<equiv> Spawn_Thread (Suc i) (own_thread (Suc i) (x i))"

definition own_inv :: "string list \<Rightarrow> string list \<Rightarrow> nat \<Rightarrow> (nat \<Rightarrow> thread_texts) \<Rightarrow> world \<Rightarrow> bool" where
  "own_inv as bs n x w \<longleftrightarrow> length (codes w) = Suc n \<and> suffix (codes w ! 0) (own_main as bs n x) \<and> \<not> crashed w \<and>
     (\<forall>q \<in> set (queue w). fst q \<in> {1..n}) \<and> (\<forall>p \<in> set (pending w). fst p \<in> {1..n}) \<and>
     l_shown (own_view w 0) @ said (codes w ! 0) = as @ bs \<and>
     (\<forall>i<n. if spawn_own x i \<in> set (codes w ! 0) then own_view w (Suc i) = idle_local
            else own_phase (Suc i) (x i) (own_view w (Suc i)))"

lemma own_invD:
  assumes "own_inv as bs n x w"
  shows "length (codes w) = Suc n" "suffix (codes w ! 0) (own_main as bs n x)" "\<not> crashed w"
    "\<forall>q \<in> set (queue w). fst q \<in> {1..n}" "\<forall>p \<in> set (pending w). fst p \<in> {1..n}"
    "l_shown (own_view w 0) @ said (codes w ! 0) = as @ bs"
    "i < n \<Longrightarrow> spawn_own x i \<in> set (codes w ! 0) \<Longrightarrow> own_view w (Suc i) = idle_local"
    "i < n \<Longrightarrow> spawn_own x i \<notin> set (codes w ! 0) \<Longrightarrow> own_phase (Suc i) (x i) (own_view w (Suc i))"
  using assms unfolding own_inv_def by auto

lemma said_main: "said (own_main as bs n x) = as @ bs"
proof -
  have "said (map (\<lambda>i. spawn_own x i) is') = []" "said (map (\<lambda>i. Join_Thread (Suc i)) is') = []" for is'
    by (induction is') simp_all
  then show ?thesis by (simp add: own_main_def)
qed

lemma own_start: "own_inv as bs n x (start_world n (own_main as bs n x))"
proof -
  have "own_view (start_world n k) (Suc i) = idle_local" if "i < n" for i k
    using that by (simp add: own_view_def start_world_def)
  moreover have "spawn_own x i \<in> set (own_main as bs n x)" if "i < n" for i using that by (simp add: own_main_def)
  moreover have "codes (start_world n k) ! 0 = k" "length (codes (start_world n k)) = Suc n" "queue (start_world n k) = []"
    "pending (start_world n k) = []" "shown (start_world n k) = []" "\<not> crashed (start_world n k)" for k
    by (simp_all add: start_world_def)
  ultimately show ?thesis by (auto simp: own_inv_def said_main)
qed

text \<open>Each thread is started once.\<close>

lemma spawned_once:
  assumes "suffix (spawn_own x i # k) (own_main as bs n x)"
  shows "spawn_own x i \<notin> set k"
proof -
  let ?s = "filter (\<lambda>y. case y of Spawn_Thread u b \<Rightarrow> True | _ \<Rightarrow> False)"
  have "?s (says ts) = []" "?s (map (\<lambda>i. Join_Thread (Suc i)) js) = []" "?s (map (spawn_own x) js) = map (spawn_own x) js" for ts js
    by (induction ts; simp) (induction js; simp)+
  then have m: "?s (own_main as bs n x) = map (spawn_own x) [0..<n]" by (simp add: own_main_def)
  from assms obtain k' where "own_main as bs n x = k' @ spawn_own x i # k" by (auto simp: suffix_def)
  with m have "map (spawn_own x) [0..<n] = ?s k' @ spawn_own x i # ?s k" by simp
  moreover have "distinct (map (spawn_own x) [0..<n])" by (auto simp: distinct_map intro: inj_onI)
  ultimately show ?thesis by simp
qed

lemma main_stmt:
  assumes "suffix (y # k) (own_main as bs n x)"
  obtains (say) ts where "y = Say ts" | (spawn) i where "i < n" "y = spawn_own x i" | (join) i where "i < n" "y = Join_Thread (Suc i)"
proof -
  from assms have "y \<in> set (own_main as bs n x)" by (auto simp: suffix_def)
  then show thesis using that by (auto simp: own_main_def)
qed

lemma own_main_exec:
  assumes I: "own_inv as bs n x w" and c: "codes w ! 0 = y # k" and e: "exec 0 y k w = Some v"
  shows "own_inv as bs n x v"
proof -
  note D = own_invD [OF I]
  have s: "suffix (y # k) (own_main as bs n x)" using D(2) c by simp
  then have s': "suffix k (own_main as bs n x)" by (rule suffix_ConsD)
  have l: "length (codes w) = Suc n" "0 < length (codes w)" using D(1) by simp_all
  have other: "if spawn_own x i \<in> set k then own_view v (Suc i) = idle_local else own_phase (Suc i) (x i) (own_view v (Suc i))"
    if "i < n" "y \<noteq> spawn_own x i" "own_view v (Suc i) = own_view w (Suc i)" for i
    using D(7,8) [OF that(1)] that(2,3) c by auto
  from s show ?thesis
  proof (cases rule: main_stmt)
    case (say ts)
    then have v: "v = goto 0 k (w\<lparr>shown := shown w @ [(0, ts)]\<rparr>)" using e by simp
    then have "own_view v (Suc i) = own_view w (Suc i)" for i by (simp add: own_view_def)
    with other say have "\<forall>i<n. if spawn_own x i \<in> set k then own_view v (Suc i) = idle_local
        else own_phase (Suc i) (x i) (own_view v (Suc i))" by blast
    then show ?thesis using D(3-6) s' l c say unfolding own_inv_def by (simp add: v)
  next
    case (join i)
    then have v: "v = goto 0 k (w\<lparr>joinable := (joinable w)(Suc i := False)\<rparr>)" using e by (auto split: if_splits)
    then have "own_view v (Suc i) = own_view w (Suc i)" for i by (simp add: own_view_def)
    with other join have "\<forall>i<n. if spawn_own x i \<in> set k then own_view v (Suc i) = idle_local
        else own_phase (Suc i) (x i) (own_view v (Suc i))" by blast
    then show ?thesis using D(3-6) s' l c join unfolding own_inv_def by (simp add: v)
  next
    case (spawn j)
    then have v: "v = goto 0 k (goto (Suc j) (own_thread (Suc j) (x j)) (w\<lparr>joinable := (joinable w)(Suc j := True)\<rparr>))"
      using e by (auto split: if_splits)
    have o: "own_view v (Suc i) = own_view w (Suc i)" if "i \<noteq> j" for i using that by (simp add: v own_view_def)
    have "own_view w (Suc j) = idle_local" using D(7) spawn c by simp
    then have "own_view v (Suc j) = idle_local\<lparr>l_code := own_thread (Suc j) (x j)\<rparr>"
      using spawn(1) l by (simp add: v own_view_def)
    with own_phase.Starting [of "x j" "[]" "before_guard (x j)" "Suc j"]
    have "own_phase (Suc j) (x j) (own_view v (Suc j))" by (simp add: own_thread_def)
    moreover have "spawn_own x j \<notin> set k" using spawned_once s spawn(2) by blast
    moreover have "if spawn_own x i \<in> set k then own_view v (Suc i) = idle_local
        else own_phase (Suc i) (x i) (own_view v (Suc i))" if "i < n" "i \<noteq> j" for i
      using that o spawn(2) by (intro other) auto
    ultimately have "\<forall>i<n. if spawn_own x i \<in> set k then own_view v (Suc i) = idle_local
        else own_phase (Suc i) (x i) (own_view v (Suc i))" by metis
    then show ?thesis using D(3-6) s' l c spawn unfolding own_inv_def by (simp add: v)
  qed
qed

text \<open>A step of thread \<open>Suc j\<close> or of its context.\<close>

lemma own_inv_step:
  assumes I: "own_inv as bs n x w" and j: "j < n"
    and "own_phase (Suc j) (x j) (own_view v (Suc j))" and "\<And>u. u \<noteq> Suc j \<Longrightarrow> own_view v u = own_view w u"
    and "spawn_own x j \<notin> set (codes w ! 0)" and "length (codes v) = length (codes w)" and "crashed v = crashed w"
    and "\<forall>q \<in> set (queue v). fst q = Suc j \<or> q \<in> set (queue w)"
    and "\<forall>p \<in> set (pending v). fst p = Suc j \<or> p \<in> set (pending w)"
  shows "own_inv as bs n x v"
proof -
  note D = own_invD [OF I]
  have v0: "own_view v 0 = own_view w 0" using assms(4) by simp
  then have c0: "codes v ! 0 = codes w ! 0" by (metis own_view_simps(1))
  have "Suc j \<in> {1..n}" using j by simp
  with assms(8,9) D(4,5) have "\<forall>q \<in> set (queue v). fst q \<in> {1..n}" "\<forall>p \<in> set (pending v). fst p \<in> {1..n}" by metis+
  moreover have "if spawn_own x i \<in> set (codes w ! 0) then own_view v (Suc i) = idle_local
      else own_phase (Suc i) (x i) (own_view v (Suc i))" if "i < n" for i
    using D(7,8) [OF that] assms(3-5) that by (cases "i = j") auto
  ultimately show ?thesis
    using D(1-3,6) v0 c0 assms(6,7) unfolding own_inv_def by simp
qed

lemma started_view:
  assumes "own_inv as bs n x w" and "j < n" and "own_view w (Suc j) \<noteq> idle_local"
  shows "spawn_own x j \<notin> set (codes w ! 0) \<and> own_phase (Suc j) (x j) (own_view w (Suc j))"
  using own_invD(7,8) [OF assms(1,2)] assms(3) by blast

lemma own_perform:
  assumes I: "own_inv as bs n x w" and p: "perform d w = Some v"
  shows "own_inv as bs n x v"
proof (cases d)
  case (Go t)
  with p obtain y k where t: "t < length (codes w)" "codes w ! t = y # k" and e: "exec t y k w = Some v"
    by (auto split: if_splits list.splits simp: next_code_Cons)
  show ?thesis
  proof (cases t)
    case 0
    with own_main_exec [OF I] t(2) e show ?thesis by simp
  next
    case (Suc j)
    with t own_invD(1) [OF I] have j: "j < n" by simp
    have "own_view w (Suc j) \<noteq> idle_local" using t(2) Suc by (metis list.distinct(1) local.select_convs(1) own_view_simps(1))
    note S = started_view [OF I j this]
    have o: "own_stmt (Suc j) y" using phase_own_stmt [OF conjunct2 [OF S], of y k] t(2) Suc by simp
    note V = exec_view [OF t(1) o [folded Suc] e]
    have "own_phase (Suc j) (x j) (own_view v (Suc j))"
      using phase_exec [OF conjunct2 [OF S], of y k] V(1) t(2) Suc by simp
    from own_inv_step [OF I j this] V S Suc show ?thesis by auto
  qed
next
  case (Take t i)
  with p obtain c k where k: "t < length (codes w)" "codes w ! t = Run_Ctx c # k" "i < length (queue w)" "fst (queue w ! i) = c"
    and v: "v = goto t (snd (queue w ! i) @ End_Task c # Run_Ctx c # k)
      (w\<lparr>queue := remove_nth i (queue w), running := (running w)(c := running w c + 1)\<rparr>)"
    by (auto split: if_splits list.splits stmt.splits simp: next_code_Cons)
  show ?thesis
  proof (cases t)
    case 0
    with k(2) own_invD(2) [OF I] have "suffix (Run_Ctx c # k) (own_main as bs n x)" by simp
    then show ?thesis by (cases rule: main_stmt) simp_all
  next
    case (Suc j)
    with k(1) own_invD(1) [OF I] have j: "j < n" by simp
    have "own_view w (Suc j) \<noteq> idle_local" using k(2) Suc by (metis list.distinct(1) local.select_convs(1) own_view_simps(1))
    note S = started_view [OF I j this]
    have c: "c = Suc j" using phase_own_stmt [OF conjunct2 [OF S], of "Run_Ctx c" k] k(2) Suc by simp
    let ?P = "\<lambda>q. fst q = c"
    have "queue w ! i \<in> set (filter ?P (queue w))" using k(3,4) by simp
    then obtain h q where q: "filter ?P (queue w) = h # q" by (cases "filter ?P (queue w)") auto
    with phase_take [OF conjunct2 [OF S], of k "snd h" "map snd q"] k(2) Suc c
    have ph: "q = []" "own_phase (Suc j) (x j) ((own_view w (Suc j))\<lparr>l_code := snd h @ End_Task (Suc j) # Run_Ctx (Suc j) # k,
        l_queue := [], l_running := running w (Suc j) + 1\<rparr>)" by auto
    note R = filter_remove_nth [OF k(3)]
    from R(2) [of ?P h] q ph(1) k(4) have h: "queue w ! i = h" "filter ?P (remove_nth i (queue w)) = []" by auto
    have "own_view v (Suc j) = (own_view w (Suc j))\<lparr>l_code := snd h @ End_Task (Suc j) # Run_Ctx (Suc j) # k,
        l_queue := [], l_running := running w (Suc j) + 1\<rparr>"
      using h c k(1) Suc by (simp add: v own_view_def)
    moreover have "own_view v u = own_view w u" if "u \<noteq> Suc j" for u
      using that R(1) [of "\<lambda>q. fst q = u"] k(4) c Suc by (auto simp: v own_view_def)
    moreover have "\<forall>q \<in> set (queue v). fst q = Suc j \<or> q \<in> set (queue w)" using R(3) by (auto simp: v)
    ultimately show ?thesis using own_inv_step [OF I j, of v] ph(2) S by (simp add: v)
  qed
next
  case (Complete i b)
  with p obtain c s e where k: "i < length (pending w)" "pending w ! i = (c, s, e)"
    and v: "v = w\<lparr>pending := remove_nth i (pending w), queue := queue w @ [(c, if b then s else e)]\<rparr>"
    by (auto split: if_splits prod.splits)
  have "(c, s, e) \<in> set (pending w)" using k by (metis nth_mem)
  with own_invD(5) [OF I] have "c \<in> {1..n}" by force
  then obtain j where c: "c = Suc j" and j: "j < n" by (cases c) auto
  let ?P = "\<lambda>q. fst q = Suc j"
  have "(c, s, e) \<in> set (filter ?P (pending w))" using k c by (auto simp: in_set_conv_nth)
  then obtain g q where q: "filter ?P (pending w) = g # q" by (cases "filter ?P (pending w)") auto
  then have "own_view w (Suc j) \<noteq> idle_local"
    by (metis list.distinct(1) list.simps(9) local.select_convs(3) own_view_simps(3))
  note S = started_view [OF I j this]
  obtain c' s' e' where g: "g = (c', s', e')" by (cases g)
  from phase_complete [OF conjunct2 [OF S], of s' e' "map snd q" b] q g
  have ph: "q = []" "own_phase (Suc j) (x j) ((own_view w (Suc j))\<lparr>l_waits := [],
      l_queue := l_queue (own_view w (Suc j)) @ [if b then s' else e']\<rparr>)" by auto
  note R = filter_remove_nth [OF k(1)]
  from R(2) [of ?P g] q ph(1) k(2) c g have h: "s' = s" "e' = e" "filter ?P (remove_nth i (pending w)) = []" by auto
  have "own_view v (Suc j) = (own_view w (Suc j))\<lparr>l_waits := [],
      l_queue := l_queue (own_view w (Suc j)) @ [if b then s' else e']\<rparr>"
    using h c by (simp add: v own_view_def)
  moreover have "own_view v u = own_view w u" if "u \<noteq> Suc j" for u
    using that R(1) [of "\<lambda>q. fst q = u"] k c by (auto simp: v own_view_def)
  moreover have "\<forall>q \<in> set (queue v). fst q = Suc j \<or> q \<in> set (queue w)" by (auto simp: v c)
  moreover have "\<forall>p \<in> set (pending v). fst p = Suc j \<or> p \<in> set (pending w)" using R(3) by (auto simp: v)
  ultimately show ?thesis using own_inv_step [OF I j, of v] ph(2) S by (simp add: v)
qed


section \<open>The end\<close>

lemma exec_None_local: "own_stmt t y \<Longrightarrow> exec t y k w = None \<Longrightarrow> local_exec y k (own_view w t) = None"
  by (cases y) (auto simp: l_work_view split: if_splits)

lemma phase_queue: "own_phase c x l \<Longrightarrow> l_queue l \<noteq> [] \<Longrightarrow> \<not> l_stopped l"
  by (erule own_phase.cases) auto

lemma blockedD:
  assumes "blocked w" and "\<not> crashed w"
  shows "pending w = []" and "t < length (codes w) \<Longrightarrow> codes w ! t = y # k \<Longrightarrow> exec t y k w = None"
    and "t < length (codes w) \<Longrightarrow> codes w ! t = Run_Ctx c # k \<Longrightarrow> \<not> stopped w c \<Longrightarrow> q \<in> set (queue w) \<Longrightarrow> fst q \<noteq> c"
proof -
  have b: "perform d w = None" for d using assms(1) by (simp add: blocked_def)
  show "pending w = []" using b [of "Complete 0 True"] assms(2) by (cases "pending w") (auto split: prod.splits)
  show "t < length (codes w) \<Longrightarrow> codes w ! t = y # k \<Longrightarrow> exec t y k w = None"
    using b [of "Go t"] assms(2) by (simp add: next_code_def)
  assume t: "t < length (codes w)" "codes w ! t = Run_Ctx c # k" "\<not> stopped w c" and "q \<in> set (queue w)"
  then obtain i where "i < length (queue w)" "queue w ! i = q" by (auto simp: in_set_conv_nth)
  then show "fst q \<noteq> c" using b [of "Take t i"] assms(2) t by (auto simp: next_code_def)
qed

lemma thread_blocked:
  assumes "blocked w" and I: "own_inv as bs n x w" and j: "j < n" and "spawn_own x j \<notin> set (codes w ! 0)"
  shows "codes w ! Suc j = [] \<and> l_queue (own_view w (Suc j)) = [] \<and> l_shown (own_view w (Suc j)) \<in> all_texts (x j)"
proof -
  note ph = own_invD(8) [OF I j assms(4)]
  note B = blockedD [OF assms(1) own_invD(3) [OF I]]
  have t: "Suc j < length (codes w)" using own_invD(1) [OF I] j by simp
  have "local_exec y k (own_view w (Suc j)) = None" if "l_code (own_view w (Suc j)) = y # k" for y k
    using exec_None_local [OF phase_own_stmt [OF ph that]] B(2) [OF t] that by simp
  moreover have "l_queue (own_view w (Suc j)) \<noteq> h # q" if "l_code (own_view w (Suc j)) = Run_Ctx (Suc j) # k" for h q k
  proof
    assume hq: "l_queue (own_view w (Suc j)) = h # q"
    then have "filter (\<lambda>z. fst z = Suc j) (queue w) \<noteq> []" by auto
    then obtain z where "z \<in> set (queue w)" "fst z = Suc j" by (auto simp only: filter_empty_conv)
    moreover have "\<not> stopped w (Suc j)" using phase_queue [OF ph] hq by fastforce
    ultimately show False using B(3) [OF t, of "Suc j" k z] that by simp
  qed
  ultimately show ?thesis using phase_stuck [OF ph] B(1) by simp
qed

lemma own_blocked:
  assumes "blocked w" and I: "own_inv as bs n x w"
  shows "finished w \<and> queue w = [] \<and> l_shown (own_view w 0) = as @ bs \<and> (\<forall>i<n. l_shown (own_view w (Suc i)) \<in> all_texts (x i))"
proof -
  note D = own_invD [OF I]
  have t: "codes w ! Suc j = []" if "j < n" for j
    using thread_blocked [OF assms that] D(7) [OF that] by (metis local.select_convs(1) own_view_simps(1))
  have m: "codes w ! 0 = []"
  proof (cases "codes w ! 0")
    case (Cons y k)
    with D(2) have "suffix (y # k) (own_main as bs n x)" by simp
    moreover have "exec 0 y k w = None" using blockedD(2) [OF assms(1) D(3) _ Cons] D(1) by simp
    ultimately show ?thesis using t D(1) by (cases rule: main_stmt) simp_all
  qed
  then have T: "l_queue (own_view w (Suc j)) = [] \<and> l_shown (own_view w (Suc j)) \<in> all_texts (x j)" if "j < n" for j
    using thread_blocked [OF assms that] by simp
  have "queue w = []"
  proof (rule ccontr)
    assume "queue w \<noteq> []"
    then obtain q where q: "q \<in> set (queue w)" by (cases "queue w") auto
    with D(4) obtain j where "fst q = Suc j" "j < n" by (metis Suc_le_lessD atLeastAtMost_iff One_nat_def Suc_le_D)
    with T [of j] q show False by (auto simp: filter_empty_conv)
  qed
  moreover have "finished w"
    unfolding finished_def
  proof
    fix k assume "k \<in> set (codes w)"
    then obtain i where "i < Suc n" "codes w ! i = k" using D(1) by (auto simp: in_set_conv_nth)
    with m t show "k = []" by (cases i) auto
  qed
  moreover have "l_shown (own_view w 0) = as @ bs" using D(6) m by simp
  ultimately show ?thesis using T by blast
qed

definition printed_by :: "world \<Rightarrow> nat \<Rightarrow> string list" where
  "printed_by w t = map snd (filter (\<lambda>x. fst x = t) (shown w))"

lemma own_main_completes:
  assumes "execute (start_world n (own_main as bs n x)) ds = Some w"
  shows "length ds \<le> weights (own_main as bs n x)" and "\<not> crashed w"
    and "blocked w \<Longrightarrow> finished w \<and> queue w = [] \<and> printed_by w 0 = as @ bs \<and>
      (\<forall>i<n. printed_by w (Suc i) \<in> all_texts (x i))"
proof -
  have "steps_left (start_world n (own_main as bs n x)) = weights (own_main as bs n x)"
    by (simp add: steps_left_def start_world_def sum_list_replicate)
  with execution_bounded [OF assms] show "length ds \<le> weights (own_main as bs n x)" by simp
  have I: "own_inv as bs n x w"
    using execute_invariant [of _ ds w "own_inv as bs n x", OF assms own_start] own_perform by blast
  then show "\<not> crashed w" by (rule own_invD)
  assume "blocked w"
  from own_blocked [OF this I] show "finished w \<and> queue w = [] \<and> printed_by w 0 = as @ bs \<and>
      (\<forall>i<n. printed_by w (Suc i) \<in> all_texts (x i))" by (simp add: printed_by_def)
qed

text \<open>The two programs with the texts of the main thread and of the others.\<close>

definition own_context_programs :: "string \<Rightarrow> (stmt list \<times> string list \<times> (nat \<Rightarrow> thread_texts)) list" where
  "own_context_programs message = [(separate_threads_run message, [], separate_texts message),
     (run_async_task_own_thread message,
      [''run_async_task_own_thread() entered'', ''run_async_task_own_thread() exited''], threading_texts message)]"

text \<open>
  C28: the two programs with a context for each of their four threads are free of deadlocks and races under every schedule:
  they end after a bounded number of steps, all threads have ended then and no handler is left, and each thread has printed
  its own lines in their order, whatever the others did, with the line of its timer, expired or failed, between the start
  of \<open>run()\<close> and what follows it.
\<close>

theorem own_context_programs_complete:
  assumes "(p, ts, x) \<in> set (own_context_programs message)" and "execute (start_world 4 p) ds = Some w"
  shows "length ds \<le> weights p \<and> \<not> crashed w \<and> (blocked w \<longrightarrow> finished w \<and> queue w = [] \<and> printed_by w 0 = ts \<and>
    (\<forall>i<4. printed_by w (Suc i) \<in> all_texts (x i)))"
proof -
  from assms(1) obtain as bs where "p = own_main as bs 4 x" "ts = as @ bs"
    by (auto simp: own_context_programs_def own_programs)
  with own_main_completes [of 4 as bs x ds w] assms(2) show ?thesis by simp
qed

theorem own_context_programs_complete_witness:
  "\<exists>w. execute (start_world 4 (separate_threads_run [])) (replicate 4 (Go 0) @ replicate 5 (Go 1) @ [Complete 0 True, Take 1 0]) = Some w \<and>
     \<not> crashed w"
proof -
  let ?ds = "replicate 4 (Go 0) @ replicate 5 (Go 1) @ [Complete 0 True, Take 1 0]"
  have "execute (start_world 4 (separate_threads_run [])) ?ds \<noteq> None" by code_simp
  then obtain w where w: "execute (start_world 4 (separate_threads_run [])) ?ds = Some w" by auto
  have "(separate_threads_run [], [], separate_texts []) \<in> set (own_context_programs [])"
    by (simp add: own_context_programs_def)
  from own_context_programs_complete [OF this w] w show ?thesis by blast
qed

end
