(* ===== verification/Datagram_Exchange.thy ===== *)
theory Datagram_Exchange
  imports Message_Exchange Echo_Servers
begin

text \<open>
  The UDP echo server of \<open>Networking/UDPEchoServerClient.cpp\<close> and any number of its clients on a network that keeps no
  promise but one: a datagram that arrives has been sent, by the sender it names. It may arrive late, in another order,
  more than once or never, and every call may fail.
\<close>

section \<open>The network\<close>

text \<open>
  \<open>addr i\<close> is the endpoint of client \<open>i\<close> and \<open>server\<close> the one the resolver gives. A datagram longer than the buffer is
  cut. A send counts as soon as it has been started, whether it is reported to have failed or not.
\<close>

fun datagrams :: "operation list \<Rightarrow> (string \<times> string) list" where
  "datagrams [] = []"
| "datagrams (Send_To d endpoint # ops) = (d, endpoint) # datagrams ops"
| "datagrams (op # ops) = datagrams ops"

definition udp_server_ops :: "(string \<Rightarrow> string) \<Rightarrow> (string \<times> string) end_point" where
  "udp_server_ops at = ops_after (udp_step at) (udp_make_server at)"

fun client_can :: "(string \<times> string) list \<Rightarrow> string \<Rightarrow> string \<Rightarrow> operation \<Rightarrow> error_code \<times> string \<Rightarrow> bool" where
  "client_can arriving server me (Resolve host port) (ec, p) \<longleftrightarrow> is_error ec \<or> p = server"
| "client_can arriving server me (Receive_From n) (ec, p) \<longleftrightarrow> is_error ec \<or> (\<exists>d. (d, me) \<in> set arriving \<and> p = take n d)"
| "client_can arriving server me op c \<longleftrightarrow> True"

fun server_can :: "(nat \<Rightarrow> (string \<times> string) list) \<Rightarrow> (nat \<Rightarrow> string) \<Rightarrow> nat \<Rightarrow> string \<Rightarrow> operation \<Rightarrow>
    error_code \<times> string \<times> string \<Rightarrow> bool" where
  "server_can arriving addr n server (Receive_From m) (ec, p, sender) \<longleftrightarrow>
     is_error ec \<or> (\<exists>i d. i < n \<and> (d, server) \<in> set (arriving i) \<and> p = take m d \<and> sender = addr i)"
| "server_can arriving addr n server op c \<longleftrightarrow> True"

inductive datagram_exchange :: "(string \<Rightarrow> string) \<Rightarrow> (nat \<Rightarrow> string) \<Rightarrow> nat \<Rightarrow> string \<Rightarrow>
    (nat \<Rightarrow> string script) \<Rightarrow> (string \<times> string) script \<Rightarrow> bool" for at addr n server where
  Silence: "datagram_exchange at addr n server (\<lambda>_. []) []"
| At_Client: "datagram_exchange at addr n server a b \<Longrightarrow> i < n \<Longrightarrow> pending (ops_of udp_client) (a i) = Some op \<Longrightarrow>
    client_can (datagrams (udp_server_ops at b)) server (addr i) op c \<Longrightarrow>
    datagram_exchange at addr n server (a(i := a i @ [c])) b"
| At_Server: "datagram_exchange at addr n server a b \<Longrightarrow> pending (udp_server_ops at) b = Some op \<Longrightarrow>
    server_can (\<lambda>i. datagrams (ops_of udp_client (a i))) addr n server op c \<Longrightarrow>
    datagram_exchange at addr n server a (b @ [c])"


section \<open>The client\<close>

lemma udp_client_ops: "ops_of udp_client =
    then_ops (Resolve ''0.0.0.0'' (to_string 52525)) (\<lambda>(ec, e). if is_error ec then (\<lambda>_. []) else
    then_ops (Send_To ''TEST_DATA'' e) (\<lambda>(ec, p). if is_error ec then (\<lambda>_. []) else
    then_ops (Receive_From maxLength) (\<lambda>_. (\<lambda>_. []))))"
proof -
  have "ops_of (io_emit [Report_What ''Exception'' e]) = (\<lambda>_. [])" for e :: exn
    by (simp add: ops_simps)
  then show ?thesis unfolding udp_client_def
    by (subst ops_of_catch) (auto simp: ops_simps intro!: then_ops_cong)
qed

lemma client_sends: "set (datagrams (ops_of udp_client cs)) \<subseteq> {''TEST_DATA''} \<times> UNIV"
  unfolding udp_client_ops by (cases cs; cases "tl cs"; cases "tl (tl cs)") (auto split: if_splits)

fun reply_of :: "string script \<Rightarrow> string option" where
  "reply_of ((ec, e) # (ec', x) # (ec'', r) # cs) = (if is_error ec \<or> is_error ec' \<or> is_error ec'' then None else Some r)"
| "reply_of cs = None"

lemma client_prints: "printed (fst (udp_client cs)) = (case reply_of cs of None \<Rightarrow> [] | Some r \<Rightarrow> ''Reply is: '' @ r @ [CHR 0x0A])"
  unfolding udp_client_def
  by (cases cs rule: reply_of.cases) (auto simp: io_catch_def io_simps)

lemma client_pending:
  assumes "pending (ops_of udp_client) cs = Some op"
  shows "reply_of cs = None \<and> (reply_of (cs @ [(ec, p)]) = Some r \<longrightarrow> op = Receive_From maxLength \<and> \<not> is_error ec \<and> p = r)"
  using assms unfolding udp_client_ops
  by (cases cs rule: reply_of.cases) (auto simp: pending_then pending_def split: if_splits)

lemma client_ended:
  assumes "pending (ops_of udp_client) cs = None" and "all_succeed cs"
  shows "reply_of cs \<noteq> None"
  using assms unfolding udp_client_ops
  by (cases cs rule: reply_of.cases) (auto simp: pending_then pending_def split: if_splits)


section \<open>The server\<close>

lemma datagrams_sent_to: "datagrams (started as) = sent_to as"
  by (induction as rule: sent_to.induct) (auto split: action.splits)

lemma udp_server_sends: "datagrams (udp_server_ops at b) = udp_replies True b"
  using udp_deliver [of "fst (udp_make_server at)" Udp_Received at b]
  by (simp add: udp_server_ops_def ops_after_def trace_after_def datagrams_sent_to del: started_append)
    (simp add: udp_make_server_def do_receive_def log_at_def Let_def)

lemma udp_replies_snoc:
  assumes "udp_waiting s = Some h" and "h = Udp_Received \<longrightarrow> op = Receive_From maxLength"
    and "h = Udp_Sent \<longrightarrow> (\<exists>d e. op = Send_To d e)"
    and "op' = last (op # started (snd (deliver (udp_step at) s cs)))"
  shows "udp_replies (h = Udp_Received) (cs @ [(ec, d, sender)]) = udp_replies (h = Udp_Received) cs @
     (if op' = Receive_From maxLength \<and> \<not> is_error ec \<and> d \<noteq> [] then [(d, sender)] else [])"
  using assms
proof (induction cs arbitrary: s h op)
  case Nil
  then show ?case by (cases h) auto
next
  case (Cons c cs)
  obtain ec' d' s' where c: "c = (ec', d', s')" by (cases c)
  let ?t = "fst (udp_step at s c)"
  show ?case
  proof (cases "h = Udp_Received \<and> \<not> is_error ec' \<and> d' \<noteq> []")
    case True
    then have "udp_waiting ?t = Some Udp_Sent" "\<exists>x e. started (snd (udp_step at s c)) = [Send_To x e]"
      using Cons.prems c by (auto simp: udp_defs)
    then obtain x e where t: "udp_waiting ?t = Some Udp_Sent" "started (snd (udp_step at s c)) = [Send_To x e]" by blast
    have "op' = last (Send_To x e # started (snd (deliver (udp_step at) ?t cs)))"
      using Cons.prems(4) t(2) by (simp add: deliver_Cons del: deliver.simps(2))
    from Cons.IH [OF t(1) _ _ this] True c show ?thesis by simp
  next
    case False
    then have t: "udp_waiting ?t = Some Udp_Received" "started (snd (udp_step at s c)) = [Receive_From maxLength]"
      using Cons.prems c by (cases h; auto simp: udp_defs)+
    have "op' = last (Receive_From maxLength # started (snd (deliver (udp_step at) ?t cs)))"
      using Cons.prems(4) t(2) by (simp add: deliver_Cons del: deliver.simps(2))
    from Cons.IH [OF t(1) _ _ this] False c show ?thesis by (cases h) auto
  qed
qed

lemma udp_server_next:
  assumes "pending (udp_server_ops at) b = Some op"
  shows "udp_replies True (b @ [(ec, d, sender)]) = udp_replies True b @
     (if op = Receive_From maxLength \<and> \<not> is_error ec \<and> d \<noteq> [] then [(d, sender)] else [])"
proof -
  let ?s = "fst (udp_make_server at)"
  have s: "udp_waiting ?s = Some Udp_Received" "started (snd (udp_make_server at)) = [Receive_From maxLength]"
    by (simp_all add: udp_make_server_def do_receive_def log_at_def Let_def)
  have "op = last (Receive_From maxLength # started (snd (deliver (udp_step at) ?s b)))"
    using assms s(2) by (simp add: pending_def udp_server_ops_def ops_after_def trace_after_def split: if_splits)
  from udp_replies_snoc [OF s(1) _ _ this] show ?thesis by simp
qed


section \<open>Clients and server\<close>

definition echo_datagrams :: "(nat \<Rightarrow> string) \<Rightarrow> nat \<Rightarrow> (string \<times> string) set" where
  "echo_datagrams addr n = {''TEST_DATA''} \<times> addr ` {..<n}"

lemma take_test_data: "take maxLength ''TEST_DATA'' = ''TEST_DATA''"
  by (simp add: maxLength_def)

lemma datagram_exchange_inv:
  assumes "datagram_exchange at addr n server a b"
  shows "set (udp_replies True b) \<subseteq> echo_datagrams addr n \<and> (\<forall>i<n. reply_of (a i) \<in> {None, Some ''TEST_DATA''})"
  using assms
proof (induction rule: datagram_exchange.induct)
  case Silence
  then show ?case by simp
next
  case (At_Client a b i op c)
  obtain ec p where c: "c = (ec, p)" by (cases c)
  have "reply_of (a i @ [c]) \<in> {None, Some ''TEST_DATA''}"
  proof (cases "reply_of (a i @ [c])")
    case (Some r)
    with client_pending [OF At_Client.hyps(3)] c have r: "op = Receive_From maxLength" "\<not> is_error ec" "p = r" by auto
    with At_Client.hyps(4) c obtain d where "(d, addr i) \<in> set (udp_replies True b)" "r = take maxLength d"
      by (auto simp: udp_server_sends)
    with At_Client.IH Some show ?thesis by (auto simp: echo_datagrams_def take_test_data)
  qed simp
  with At_Client.IH show ?case by simp
next
  case (At_Server a b op c)
  obtain ec d sender where c: "c = (ec, d, sender)" by (cases c)
  note replies = udp_server_next [OF At_Server.hyps(2), of ec d sender]
  have "(d, sender) \<in> echo_datagrams addr n" if op: "op = Receive_From maxLength" "\<not> is_error ec"
  proof -
    from At_Server.hyps(3) c op obtain i x where "i < n" "(x, server) \<in> set (datagrams (ops_of udp_client (a i)))"
      "d = take maxLength x" "sender = addr i" by auto
    with client_sends [of "a i"] show ?thesis by (auto simp: echo_datagrams_def take_test_data)
  qed
  with At_Server.IH c replies show ?case by auto
qed

text \<open>
  C35: any number of UDP clients and the echo server, on a network that may lose, repeat, delay and reorder datagrams: every
  datagram the server sends is the text of the clients, to one of them, and a client prints nothing or the reply that is
  its own text, which it has printed when it has ended without an error.
\<close>

theorem udp_clients_print_their_reply:
  assumes "datagram_exchange at addr n server a b"
  shows "set (datagrams (udp_server_ops at b)) \<subseteq> {''TEST_DATA''} \<times> addr ` {..<n} \<and>
    (\<forall>i<n. printed (fst (udp_client (a i))) \<in> {[], ''Reply is: TEST_DATA'' @ [CHR 0x0A]} \<and>
      (all_succeed (a i) \<and> pending (ops_of udp_client) (a i) = None \<longrightarrow>
        printed (fst (udp_client (a i))) = ''Reply is: TEST_DATA'' @ [CHR 0x0A]))"
proof -
  note I = datagram_exchange_inv [OF assms]
  have "printed (fst (udp_client (a i))) \<in> {[], ''Reply is: TEST_DATA'' @ [CHR 0x0A]}" if "i < n" for i
    using I that by (auto simp: client_prints)
  moreover have "printed (fst (udp_client (a i))) = ''Reply is: TEST_DATA'' @ [CHR 0x0A]"
    if "i < n" "all_succeed (a i)" "pending (ops_of udp_client) (a i) = None" for i
    using I that client_ended [OF that(3,2)] by (auto simp: client_prints)
  ultimately show ?thesis using I by (simp add: udp_server_sends echo_datagrams_def)
qed

abbreviation one_client :: "string script" where
  "one_client \<equiv> [(Success, ''0.0.0.0:52525''), (Success, []), (Success, ''TEST_DATA'')]"

lemma one_datagram_exchange:
  "datagram_exchange (\<lambda>f. f) (\<lambda>i. ''127.0.0.1:40000'') 1 ''0.0.0.0:52525'' ((\<lambda>_. [])(0 := one_client))
     [(Success, ''TEST_DATA'', ''127.0.0.1:40000'')]"
proof -
  let ?X = "datagram_exchange (\<lambda>f. f) (\<lambda>i. ''127.0.0.1:40000'') 1 ''0.0.0.0:52525''"
  let ?c = "(Success, ''TEST_DATA'', ''127.0.0.1:40000'')"
  have n: "(0::nat) < 1" by simp
  have q0: "pending (udp_server_ops (\<lambda>f. f)) [] = Some (Receive_From maxLength)"
    and q1: "datagrams (udp_server_ops (\<lambda>f. f) [?c]) = [(''TEST_DATA'', ''127.0.0.1:40000'')]"
    by (simp_all add: pending_def udp_server_ops_def ops_after_def trace_after_def udp_make_server_def udp_defs
        store_at_start_def maxLength_def)
  have "?X (\<lambda>_. []) []" by (rule Silence)
  from At_Client [OF this n, of "Resolve ''0.0.0.0'' (to_string 52525)" "(Success, ''0.0.0.0:52525'')"]
  have "?X ((\<lambda>_. [])(0 := [(Success, ''0.0.0.0:52525'')])) []" by (simp add: udp_client_ops pending_then)
  from At_Client [OF this n, of "Send_To ''TEST_DATA'' ''0.0.0.0:52525''" "(Success, [])"]
  have "?X ((\<lambda>_. [])(0 := [(Success, ''0.0.0.0:52525''), (Success, [])])) []" by (simp add: udp_client_ops pending_then)
  from At_Server [OF this q0, of ?c]
  have "?X ((\<lambda>_. [])(0 := [(Success, ''0.0.0.0:52525''), (Success, [])])) [?c]"
    by (simp add: udp_client_ops maxLength_def)
  from At_Client [OF this n, of "Receive_From maxLength" "(Success, ''TEST_DATA'')"] show ?thesis
    by (simp add: udp_client_ops pending_then q1 maxLength_def)
qed

theorem udp_clients_print_their_reply_witness:
  "printed (fst (udp_client one_client)) = ''Reply is: TEST_DATA'' @ [CHR 0x0A]"
  using udp_clients_print_their_reply [OF one_datagram_exchange, THEN conjunct2, rule_format, of 0]
  by (simp add: udp_client_ops pending_then)

end
