(* ===== verification/Quaternions.thy ===== *)
theory Quaternions
  imports Boost_Calls Complex_Main
begin

text \<open>
  \<open>Math/BoostMathTests.cpp\<close>. Boost.QVM and the printing of floating-point numbers are a parameter: \<open>'f\<close> is the type
  \<open>float\<close>, \<open>rounded\<close> its nearest value to a real number and \<open>float_text\<close> what the stream operator prints.
\<close>

record 'f qvm =
  rounded :: "real \<Rightarrow> 'f"
  float_text :: "'f \<Rightarrow> string"
  rotx_quat :: "'f \<Rightarrow> 'f list"
  translation_mat :: "'f list \<Rightarrow> 'f list list"

text \<open>The stream operator for quaternions prints each of the four numbers and two spaces.\<close>

definition quat_out :: "'f qvm \<Rightarrow> 'f list \<Rightarrow> string" where
  "quat_out L a = concat (map (\<lambda>s. float_text L s @ ''  '') a)"

definition quaternions_Test :: "'f qvm \<Rightarrow> action list" where
  "quaternions_Test L = (let rx = rotx_quat L (rounded L 3.14159) in [print_line (quat_out L rx)])"

text \<open>The matrix is not used.\<close>

definition quaternions_Test2 :: "'f qvm \<Rightarrow> action list" where
  "quaternions_Test2 L = (let v = map (rounded L) [0, 0, 7]; tr = translation_mat L v in [])"

text \<open>
  The documentation: \<open>rotx_quat\<close> is the rotation around the first axis, so only its first two numbers, a cosine and a sine,
  depend on the angle. Zero is printed as 0.
\<close>

definition documented_qvm :: "'f qvm \<Rightarrow> bool" where
  "documented_qvm L \<longleftrightarrow> (\<forall>r. \<exists>c s. rotx_quat L r = [c, s, rounded L 0, rounded L 0]) \<and> float_text L (rounded L 0) = ''0''"

theorem rotation_line:
  assumes "documented_qvm L"
  shows "\<exists>c s. printed (quaternions_Test L) = float_text L c @ ''  '' @ float_text L s @ ''  0  0  '' @ [CHR 0x0A]"
proof -
  from assms obtain c s where "rotx_quat L (rounded L 3.14159) = [c, s, rounded L 0, rounded L 0]" "float_text L (rounded L 0) = ''0''"
    unfolding documented_qvm_def by blast
  then show ?thesis by (simp add: quaternions_Test_def quat_out_def) blast
qed

text \<open>A library with numbers that are either zero or not.\<close>

definition coarse_qvm :: "bool qvm" where
  "coarse_qvm = \<lparr>rounded = (\<lambda>r. r \<noteq> 0), float_text = (\<lambda>b. if b then ''1'' else ''0''),
     rotx_quat = (\<lambda>b. [True, b, False, False]), translation_mat = (\<lambda>v. [v])\<rparr>"

theorem rotation_line_witness: "printed (quaternions_Test coarse_qvm) \<noteq> []"
proof -
  have "documented_qvm coarse_qvm" by (auto simp: documented_qvm_def coarse_qvm_def)
  from rotation_line [OF this] show ?thesis by auto
qed

end
