(* ===== verification/Tokenizers.thy ===== *)
theory Tokenizers
  imports Base
begin

text \<open>
  \<open>Tokenizer/Tokenizer.cpp\<close>. \<open>boost::tokenizer\<close> is a parameter: \<open>tok\<close> gives the tokens that iterating over a tokenizer
  with a token function and a text gives. \<open>documented_tokenizer\<close> is what the documentation of the three token functions
  says, on the ways in which a text can be put together; \<open>plain_tokenizer\<close> is an instance that satisfies it.
\<close>

section \<open>The program\<close>

text \<open>
  The token functions with their arguments; a \<open>char_separator\<close> has the delimiters that are dropped, those that are kept
  as tokens, and whether empty tokens are kept.
\<close>

datatype token_function =
    Char_Separator "char \<Rightarrow> bool" "char \<Rightarrow> bool" bool
  | Escaped_List_Separator
  | Offset_Separator "int list"

type_synonym tokenizer = "token_function \<Rightarrow> string \<Rightarrow> string list"

text \<open>\<open>std::isspace\<close> and \<open>std::ispunct\<close> in the classic locale, which a \<open>char_separator\<close> made without arguments uses.\<close>

definition is_space :: "char \<Rightarrow> bool" where
  "is_space c \<longleftrightarrow> c = CHR '' '' \<or> (9 \<le> (of_char c :: nat) \<and> (of_char c :: nat) \<le> 13)"

definition is_punct :: "char \<Rightarrow> bool" where
  "is_punct c \<longleftrightarrow> (let n = (of_char c :: nat) in (33 \<le> n \<and> n \<le> 47) \<or> (58 \<le> n \<and> n \<le> 64) \<or> (91 \<le> n \<and> n \<le> 96) \<or> (123 \<le> n \<and> n \<le> 126))"

definition token_lines :: "string list \<Rightarrow> string" where
  "token_lines ts = concat (map (\<lambda>t. t @ [CHR 0x0A]) ts)"

definition TokenizerString :: "tokenizer \<Rightarrow> string" where
  "TokenizerString tok = token_lines (tok (Char_Separator is_space is_punct False) ''Boost C++ Libraries'')"

definition TokenizerString_Separator :: "tokenizer \<Rightarrow> string" where
  "TokenizerString_Separator tok =
     token_lines (tok (Char_Separator (\<lambda>c. c = CHR '' '') (\<lambda>_. False) False) ''Boost C++ Libraries'')"

definition TokenizerString_Separator2 :: "tokenizer \<Rightarrow> string" where
  "TokenizerString_Separator2 tok =
     token_lines (tok (Char_Separator (\<lambda>c. c = CHR '' '') (\<lambda>c. c = CHR ''+'') False) ''Boost C++ Libraries'')"

definition TokenizerString_Separator_EmptyTokens :: "tokenizer \<Rightarrow> string" where
  "TokenizerString_Separator_EmptyTokens tok =
     token_lines (tok (Char_Separator (\<lambda>c. c = CHR '' '') (\<lambda>c. c = CHR ''+'') True) ''Boost C++ Libraries'')"

definition TokenizerString_EscapedTokenizer :: "tokenizer \<Rightarrow> string" where
  "TokenizerString_EscapedTokenizer tok =
     token_lines (tok Escaped_List_Separator (''Boost,'' @ [CHR 0x22] @ ''C++ Libraries'' @ [CHR 0x22]))"

definition TokenizerString_OffsetTokenizer :: "tokenizer \<Rightarrow> string" where
  "TokenizerString_OffsetTokenizer tok =
     (let offsets = [5, 5, 9] in token_lines (tok (Offset_Separator offsets) ''Boost_C++_Libraries''))"


section \<open>The documentation of the token functions\<close>

text \<open>A text as the pieces between its delimiters, and the tokens: a piece, and a delimiter that is kept.\<close>

fun weave :: "string list \<Rightarrow> char list \<Rightarrow> string" where
  "weave (p # ps) (d # ds) = p @ d # weave ps ds"
| "weave ps [] = concat ps"
| "weave [] ds = ds"

fun piece_tokens :: "(char \<Rightarrow> bool) \<Rightarrow> bool \<Rightarrow> string list \<Rightarrow> char list \<Rightarrow> string list" where
  "piece_tokens kept keep_empty [] ds = []"
| "piece_tokens kept keep_empty (p # ps) ds =
     (if p = [] \<and> \<not> keep_empty then [] else [p]) @
     (case ds of [] \<Rightarrow> [] | d # ds' \<Rightarrow> (if kept d then [[d]] else []) @ piece_tokens kept keep_empty ps ds')"

definition pieces_of :: "(char \<Rightarrow> bool) \<Rightarrow> (char \<Rightarrow> bool) \<Rightarrow> string list \<Rightarrow> char list \<Rightarrow> bool" where
  "pieces_of dropped kept ps ds \<longleftrightarrow> length ps = Suc (length ds) \<and> weave ps ds \<noteq> [] \<and>
     list_all (list_all (\<lambda>c. \<not> dropped c \<and> \<not> kept c)) ps \<and> list_all (\<lambda>d. dropped d \<noteq> kept d) ds"

text \<open>A field of a list is written as it is or in quotes; a comma in quotes does not separate.\<close>

datatype field = Plain string | Quoted string

primrec field_text :: "field \<Rightarrow> string" where
  "field_text (Plain t) = t"
| "field_text (Quoted t) = CHR 0x22 # t @ [CHR 0x22]"

primrec field_content :: "field \<Rightarrow> string" where
  "field_content (Plain t) = t"
| "field_content (Quoted t) = t"

primrec field_ok :: "field \<Rightarrow> bool" where
  "field_ok (Plain t) \<longleftrightarrow> list_all (\<lambda>c. c \<notin> {CHR 0x22, CHR 0x5C, CHR '',''}) t"
| "field_ok (Quoted t) \<longleftrightarrow> list_all (\<lambda>c. c \<notin> {CHR 0x22, CHR 0x5C}) t"

fun listed :: "field list \<Rightarrow> string" where
  "listed [] = []"
| "listed [f] = field_text f"
| "listed (f # g # fs) = field_text f @ CHR '','' # listed (g # fs)"

definition documented_tokenizer :: "tokenizer \<Rightarrow> bool" where
  "documented_tokenizer tok \<longleftrightarrow>
     (\<forall>dropped kept keep_empty ps ds. pieces_of dropped kept ps ds \<longrightarrow>
        tok (Char_Separator dropped kept keep_empty) (weave ps ds) = piece_tokens kept keep_empty ps ds) \<and>
     (\<forall>fs. fs \<noteq> [] \<and> list_all field_ok fs \<and> listed fs \<noteq> [] \<longrightarrow> tok Escaped_List_Separator (listed fs) = map field_content fs) \<and>
     (\<forall>ps. list_all (\<lambda>p. p \<noteq> []) ps \<longrightarrow> tok (Offset_Separator (map (\<lambda>p. int (length p)) ps)) (concat ps) = ps)"

lemma documentedD:
  assumes "documented_tokenizer tok"
  shows "pieces_of dropped kept ps ds \<Longrightarrow>
      tok (Char_Separator dropped kept keep_empty) (weave ps ds) = piece_tokens kept keep_empty ps ds"
    and "fs \<noteq> [] \<Longrightarrow> list_all field_ok fs \<Longrightarrow> listed fs \<noteq> [] \<Longrightarrow>
      tok Escaped_List_Separator (listed fs) = map field_content fs"
    and "list_all (\<lambda>p. p \<noteq> []) ps \<Longrightarrow> tok (Offset_Separator (map (\<lambda>p. int (length p)) ps)) (concat ps) = ps"
  using assms unfolding documented_tokenizer_def by blast+


section \<open>What the program prints\<close>

text \<open>
  The functions print these lines, for every tokenizer that does what is documented: the default separator and the one
  that keeps \<open>+\<close> give the same tokens, and only the one that keeps empty tokens prints empty lines.
\<close>

theorem tokenizer_functions_print:
  assumes "documented_tokenizer tok"
  shows "TokenizerString tok = token_lines [''Boost'', ''C'', ''+'', ''+'', ''Libraries'']"
    and "TokenizerString_Separator tok = token_lines [''Boost'', ''C++'', ''Libraries'']"
    and "TokenizerString_Separator2 tok = TokenizerString tok"
    and "TokenizerString_Separator_EmptyTokens tok =
      token_lines [''Boost'', ''C'', ''+'', [], ''+'', [], ''Libraries'']"
    and "TokenizerString_EscapedTokenizer tok = token_lines [''Boost'', ''C++ Libraries'']"
    and "TokenizerString_OffsetTokenizer tok = token_lines [''Boost'', ''_C++_'', ''Libraries'']"
proof -
  note char = documentedD(1) [OF assms]
  have p: "pieces_of is_space is_punct [''Boost'', ''C'', [], [], ''Libraries''] '' ++ ''"
    "pieces_of (\<lambda>c. c = CHR '' '') (\<lambda>c. c = CHR ''+'') [''Boost'', ''C'', [], [], ''Libraries''] '' ++ ''"
    "pieces_of (\<lambda>c. c = CHR '' '') (\<lambda>_. False) [''Boost'', ''C++'', ''Libraries''] ''  ''"
    by (simp_all add: pieces_of_def is_space_def is_punct_def)
  show one: "TokenizerString tok = token_lines [''Boost'', ''C'', ''+'', ''+'', ''Libraries'']"
    using char [OF p(1), of False] by (simp add: TokenizerString_def is_punct_def)
  show "TokenizerString_Separator tok = token_lines [''Boost'', ''C++'', ''Libraries'']"
    using char [OF p(3), of False] by (simp add: TokenizerString_Separator_def)
  show "TokenizerString_Separator2 tok = TokenizerString tok"
    using char [OF p(2), of False] one by (simp add: TokenizerString_Separator2_def)
  show "TokenizerString_Separator_EmptyTokens tok =
      token_lines [''Boost'', ''C'', ''+'', [], ''+'', [], ''Libraries'']"
    using char [OF p(2), of True] by (simp add: TokenizerString_Separator_EmptyTokens_def)
  show "TokenizerString_EscapedTokenizer tok = token_lines [''Boost'', ''C++ Libraries'']"
    using documentedD(2) [OF assms, of "[Plain ''Boost'', Quoted ''C++ Libraries'']"]
    by (simp add: TokenizerString_EscapedTokenizer_def)
  show "TokenizerString_OffsetTokenizer tok = token_lines [''Boost'', ''_C++_'', ''Libraries'']"
    using documentedD(3) [OF assms, of "[''Boost'', ''_C++_'', ''Libraries'']"]
    by (simp add: TokenizerString_OffsetTokenizer_def)
qed


section \<open>An instance\<close>

fun split_pieces :: "(char \<Rightarrow> bool) \<Rightarrow> string \<Rightarrow> string list \<times> char list" where
  "split_pieces delim [] = ([[]], [])"
| "split_pieces delim (c # cs) = (case split_pieces delim cs of (ps, ds) \<Rightarrow>
     if delim c then ([] # ps, c # ds) else ((c # hd ps) # tl ps, ds))"

lemma split_pieces_piece:
  "list_all (\<lambda>c. \<not> delim c) p \<Longrightarrow> split_pieces delim (p @ cs) =
     (case split_pieces delim cs of (ps, ds) \<Rightarrow> ((p @ hd ps) # tl ps, ds))"
proof (induction p)
  case Nil
  have "fst (split_pieces delim cs) \<noteq> []" by (induction cs) (auto split: prod.splits)
  then show ?case by (auto split: prod.split)
qed (auto split: prod.splits)

lemma split_pieces_weave:
  "length ps = Suc (length ds) \<Longrightarrow> list_all (list_all (\<lambda>c. \<not> delim c)) ps \<Longrightarrow> list_all delim ds \<Longrightarrow>
   split_pieces delim (weave ps ds) = (ps, ds)"
proof (induction ps ds rule: weave.induct)
  case (2 ps)
  then obtain p where "ps = [p]" by (cases ps) auto
  with 2 split_pieces_piece [of delim p "[]"] show ?case by simp
qed (auto simp: split_pieces_piece split: prod.splits)

fun split_list :: "bool \<Rightarrow> string \<Rightarrow> string list" where
  "split_list quoted [] = [[]]"
| "split_list quoted (c # cs) = (let ts = split_list (if c = CHR 0x22 then \<not> quoted else quoted) cs in
     if c = CHR 0x22 then ts else if c = CHR '','' \<and> \<not> quoted then [] # ts else (c # hd ts) # tl ts)"

lemma split_list_not_Nil: "split_list b cs \<noteq> []"
  by (induction b cs rule: split_list.induct) (auto simp: Let_def)

lemma split_list_plain:
  "list_all (\<lambda>c. c \<notin> {CHR 0x22, CHR 0x5C, CHR '',''}) t \<Longrightarrow>
   split_list False (t @ cs) = (t @ hd (split_list False cs)) # tl (split_list False cs)"
  by (induction t) (auto simp: Let_def split_list_not_Nil)

lemma split_list_quoted:
  "list_all (\<lambda>c. c \<notin> {CHR 0x22, CHR 0x5C}) t \<Longrightarrow>
   split_list True (t @ CHR 0x22 # cs) = (t @ hd (split_list False cs)) # tl (split_list False cs)"
  by (induction t) (auto simp: Let_def split_list_not_Nil)

lemma split_list_field:
  "field_ok f \<Longrightarrow> split_list False (field_text f @ cs) =
     (field_content f @ hd (split_list False cs)) # tl (split_list False cs)"
  using split_list_plain split_list_quoted by (cases f) (simp_all add: Let_def)

lemma split_list_listed: "fs \<noteq> [] \<Longrightarrow> list_all field_ok fs \<Longrightarrow> split_list False (listed fs) = map field_content fs"
proof (induction fs rule: listed.induct)
  case (2 f)
  then show ?case using split_list_field [of f "[]"] by simp
qed (simp_all add: split_list_field)

fun take_offsets :: "int list \<Rightarrow> string \<Rightarrow> string list" where
  "take_offsets [] s = []"
| "take_offsets (n # ns) s = take (nat n) s # take_offsets ns (drop (nat n) s)"

lemma take_offsets_concat: "take_offsets (map (\<lambda>p. int (length p)) ps) (concat ps) = ps"
  by (induction ps) simp_all

fun plain_tokenizer :: tokenizer where
  "plain_tokenizer (Char_Separator dropped kept keep_empty) s =
     (case split_pieces (\<lambda>c. dropped c \<or> kept c) s of (ps, ds) \<Rightarrow> piece_tokens kept keep_empty ps ds)"
| "plain_tokenizer Escaped_List_Separator s = split_list False s"
| "plain_tokenizer (Offset_Separator offsets) s = take_offsets offsets s"

lemma plain_tokenizer_documented: "documented_tokenizer plain_tokenizer"
proof -
  have "split_pieces (\<lambda>c. dropped c \<or> kept c) (weave ps ds) = (ps, ds)" if "pieces_of dropped kept ps ds"
    for dropped kept ps ds
    by (rule split_pieces_weave) (use that in \<open>auto simp: pieces_of_def list_all_iff\<close>)
  then show ?thesis
    by (auto simp: documented_tokenizer_def split_list_listed take_offsets_concat)
qed

text \<open>The hypothesis can hold, and the functions then print what the theorem says.\<close>

theorem tokenizer_functions_print_witness:
  "TokenizerString_Separator_EmptyTokens plain_tokenizer =
     token_lines [''Boost'', ''C'', ''+'', [], ''+'', [], ''Libraries'']"
  using tokenizer_functions_print [OF plain_tokenizer_documented] by blast

end
