(* ===== verification/Calendar_Dates.thy ===== *)
theory Calendar_Dates
  imports Base
begin

text \<open>
  \<open>DateTime/DateTime.cpp\<close>. \<open>boost::date_time\<close> is a parameter, a record of the operations the program calls on its
  dates; \<open>documented_dates\<close> says that they follow the Gregorian calendar, by the length of the months and by what the
  next day is, and \<open>plain_dates\<close> is an instance. The program computes nothing itself: what it prints is derived from
  the calendar.
\<close>

section \<open>The program\<close>

text \<open>\<open>d_make\<close> is the constructor and \<open>d_from_iso\<close> the function for a text; they throw (\<open>None\<close>) on what is no date.\<close>

record 'd date_library =
  d_make :: "int \<Rightarrow> int \<Rightarrow> int \<Rightarrow> 'd option"
  d_from_iso :: "string \<Rightarrow> 'd option"
  d_year :: "'d \<Rightarrow> int"
  d_month :: "'d \<Rightarrow> int"
  d_day :: "'d \<Rightarrow> int"
  d_weekday :: "'d \<Rightarrow> int"     \<comment> \<open>0 is Sunday\<close>
  d_end_of_month :: "'d \<Rightarrow> 'd"
  d_minus :: "'d \<Rightarrow> 'd \<Rightarrow> int"

text \<open>What the stream operators print: the short names, and a date with them.\<close>

definition month_name :: "int \<Rightarrow> string" where
  "month_name m = [''Jan'', ''Feb'', ''Mar'', ''Apr'', ''May'', ''Jun'', ''Jul'', ''Aug'', ''Sep'', ''Oct'', ''Nov'', ''Dec''] ! nat (m - 1)"

definition weekday_name :: "int \<Rightarrow> string" where
  "weekday_name w = [''Sun'', ''Mon'', ''Tue'', ''Wed'', ''Thu'', ''Fri'', ''Sat''] ! nat w"

definition date_text :: "'d date_library \<Rightarrow> 'd \<Rightarrow> string" where
  "date_text L d = show_int (d_year L d) @ ''-'' @ month_name (d_month L d) @ ''-'' @
     (if d_day L d < 10 then ''0'' else []) @ show_int (d_day L d)"

abbreviation line_of :: "string \<Rightarrow> string" where
  "line_of t \<equiv> t @ [CHR 0x0A]"

text \<open>Each function gives the text it prints, or \<open>None\<close> when an exception leaves it.\<close>

text \<open>The first two objects are only streamed into a local stream.\<close>

definition Not_a_DateTime :: "'d date_library \<Rightarrow> string option" where
  "Not_a_DateTime L = (case d_make L 2004 2 29 of None \<Rightarrow> None | Some d \<Rightarrow> Some (line_of ''not-a-date-time''))"

definition DateTime_Test2 :: "'d date_library \<Rightarrow> string option" where
  "DateTime_Test2 L = (case d_make L 2014 1 31 of None \<Rightarrow> None | Some date \<Rightarrow> Some (
     line_of (show_int (d_year L date)) @
     line_of (month_name (d_month L date)) @
     line_of (show_int (d_day L date)) @
     line_of (weekday_name (d_weekday L date)) @
     line_of (date_text L (d_end_of_month L date))))"

text \<open>\<open>universal_day\<close> is what the clock gives.\<close>

definition DateFrom_Clock :: "'d date_library \<Rightarrow> 'd \<Rightarrow> string option" where
  "DateFrom_Clock L universal_day = (let d = universal_day in Some (
     line_of (show_int (d_year L d)) @ line_of (month_name (d_month L d)) @ line_of (show_int (d_day L d))))"

definition DateFrom_String :: "'d date_library \<Rightarrow> string option" where
  "DateFrom_String L = (case d_from_iso L ''20190131'' of None \<Rightarrow> None | Some d \<Rightarrow> Some (
     line_of (show_int (d_year L d)) @ line_of (month_name (d_month L d)) @ line_of (show_int (d_day L d))))"

definition Date_Duration :: "'d date_library \<Rightarrow> string option" where
  "Date_Duration L = (case (d_make L 2014 1 31, d_make L 2014 2 28) of
     (Some d1, Some d2) \<Rightarrow> let dd = d_minus L d2 d1 in Some (line_of (show_int dd))
   | _ \<Rightarrow> None)"

text \<open>A number of weeks is seven times as many days; the other durations are the numbers themselves.\<close>

definition Specialized_Duration :: "string" where
  "Specialized_Duration = line_of (show_int 4) @ line_of (show_int (7 * 4)) @ line_of (show_int 4) @ line_of (show_int 4)"

text \<open>The length of a period is the distance from its first day to the day behind its last.\<close>

definition date_period_length :: "'d date_library \<Rightarrow> 'd \<times> 'd \<Rightarrow> int" where
  "date_period_length L dp = d_minus L (snd dp) (fst dp)"

definition DateTime_Period :: "'d date_library \<Rightarrow> string option" where
  "DateTime_Period L = (case (d_make L 2014 1 1, d_make L 2014 2 28) of
     (Some d1, Some d2) \<Rightarrow> let dp = (d1, d2); dd = date_period_length L dp in Some (line_of (show_int dd))
   | _ \<Rightarrow> None)"


section \<open>The Gregorian calendar\<close>

type_synonym ymd = "int \<times> int \<times> int"

definition leap_year :: "int \<Rightarrow> bool" where
  "leap_year y \<longleftrightarrow> y mod 4 = 0 \<and> (y mod 100 \<noteq> 0 \<or> y mod 400 = 0)"

definition month_length :: "int \<Rightarrow> int \<Rightarrow> int" where
  "month_length y m = (if m = 2 then (if leap_year y then 29 else 28) else if m \<in> {4, 6, 9, 11} then 30 else 31)"

fun is_date :: "ymd \<Rightarrow> bool" where
  "is_date (y, m, d) \<longleftrightarrow> 1400 \<le> y \<and> y \<le> 9999 \<and> 1 \<le> m \<and> m \<le> 12 \<and> 1 \<le> d \<and> d \<le> month_length y m"

fun next_day :: "ymd \<Rightarrow> ymd" where
  "next_day (y, m, d) = (if d < month_length y m then (y, m, d + 1) else if m < 12 then (y, m + 1, 1) else (y + 1, 1, 1))"

text \<open>The documentation: the constructor takes exactly the dates of the supported years, a text of eight digits is a date,
  the week goes on with each day (1 January 2000 was a Saturday), and differences are counted in days.\<close>

definition documented_dates :: "'d date_library \<Rightarrow> bool" where
  "documented_dates L \<longleftrightarrow>
     (\<forall>y m d. (d_make L y m d \<noteq> None) = is_date (y, m, d)) \<and>
     (\<forall>y m d x. d_make L y m d = Some x \<longrightarrow> d_year L x = y \<and> d_month L x = m \<and> d_day L x = d \<and>
        Some (d_end_of_month L x) = d_make L y m (month_length y m)) \<and>
     (\<forall>y m d. is_date (y, m, d) \<longrightarrow>
        d_from_iso L (show_int y @ (if m < 10 then ''0'' else []) @ show_int m @ (if d < 10 then ''0'' else []) @ show_int d) =
        d_make L y m d) \<and>
     (\<forall>x. d_make L 2000 1 1 = Some x \<longrightarrow> d_weekday L x = 6) \<and>
     (\<forall>y m d y' m' d' x x' z. next_day (y, m, d) = (y', m', d') \<and> d_make L y m d = Some x \<and> d_make L y' m' d' = Some x' \<longrightarrow>
        d_weekday L x' = (d_weekday L x + 1) mod 7 \<and> d_minus L x x = 0 \<and> d_minus L x' z = d_minus L x z + 1)"

definition make_ymd :: "'d date_library \<Rightarrow> ymd \<Rightarrow> 'd option" where
  "make_ymd L x = (case x of (y, m, d) \<Rightarrow> d_make L y m d)"

lemma documented_datesD:
  assumes "documented_dates L"
  shows "is_date x \<Longrightarrow> \<exists>z. make_ymd L x = Some z"
    and "d_make L y m d = Some z \<Longrightarrow> d_year L z = y \<and> d_month L z = m \<and> d_day L z = d \<and>
      Some (d_end_of_month L z) = d_make L y m (month_length y m)"
    and "d_make L 2000 1 1 = Some z \<Longrightarrow> d_weekday L z = 6"
    and "make_ymd L x = Some z \<Longrightarrow> make_ymd L (next_day x) = Some z' \<Longrightarrow>
      d_weekday L z' = (d_weekday L z + 1) mod 7 \<and> d_minus L z z = 0 \<and> d_minus L z' u = d_minus L z u + 1"
proof -
  note D = assms [unfolded documented_dates_def]
  show "is_date x \<Longrightarrow> \<exists>z. make_ymd L x = Some z" using D by (cases x) (auto simp: make_ymd_def)
  show "d_make L y m d = Some z \<Longrightarrow> d_year L z = y \<and> d_month L z = m \<and> d_day L z = d \<and>
      Some (d_end_of_month L z) = d_make L y m (month_length y m)"
    and "d_make L 2000 1 1 = Some z \<Longrightarrow> d_weekday L z = 6" using D by blast+
  show "make_ymd L x = Some z \<Longrightarrow> make_ymd L (next_day x) = Some z' \<Longrightarrow>
      d_weekday L z' = (d_weekday L z + 1) mod 7 \<and> d_minus L z z = 0 \<and> d_minus L z' u = d_minus L z u + 1"
    using D by (cases x; cases "next_day x") (auto simp: make_ymd_def simp del: next_day.simps)
qed

text \<open>Day after day: the dates, the weekday and the distance from the first day.\<close>

lemma month_length_bounds: "28 \<le> month_length y m" "month_length y m \<le> 31"
  by (simp_all add: month_length_def)

lemma next_day_year: "fst x \<le> fst (next_day x)"
  by (cases x) simp

lemma next_day_is_date: "is_date x \<Longrightarrow> fst x < 9999 \<Longrightarrow> is_date (next_day x)"
  using month_length_bounds(1) by (cases x) (auto intro: order_trans [of 1 28])

lemma days_year: "k \<le> n \<Longrightarrow> fst ((next_day ^^ k) x) \<le> fst ((next_day ^^ n) x)"
proof (induction n)
  case (Suc n)
  then show ?case using next_day_year [of "(next_day ^^ n) x"] by (cases "k = Suc n") (auto simp: le_Suc_eq)
qed simp

lemma days_are_dates:
  assumes "is_date x" and "fst ((next_day ^^ n) x) < 9999" and "k \<le> Suc n"
  shows "is_date ((next_day ^^ k) x)"
  using assms(3)
proof (induction k)
  case (Suc k)
  then have "fst ((next_day ^^ k) x) < 9999" using days_year [of k n x] assms(2) by simp
  with Suc show ?case by (simp add: next_day_is_date)
qed (simp add: assms(1))

lemma days_later:
  assumes L: "documented_dates L" and x: "is_date x" and z: "make_ymd L x = Some z"
    and "fst ((next_day ^^ n) x) < 9999" and "make_ymd L ((next_day ^^ n) x) = Some z'"
  shows "d_minus L z' z = int n" and "0 \<le> d_weekday L z \<Longrightarrow> d_weekday L z < 7 \<Longrightarrow> d_weekday L z' = (d_weekday L z + int n) mod 7"
proof -
  have "d_minus L z' z = int n \<and> (0 \<le> d_weekday L z \<and> d_weekday L z < 7 \<longrightarrow> d_weekday L z' = (d_weekday L z + int n) mod 7)"
    using assms(4,5)
  proof (induction n arbitrary: z')
    case 0
    then have "z' = z" using z by simp
    moreover from documented_datesD(1) [OF L days_are_dates [OF x 0(1), of 1]]
    obtain u where "make_ymd L (next_day x) = Some u" by auto
    ultimately show ?case using documented_datesD(4) [OF L z] by simp
  next
    case (Suc n)
    have n: "fst ((next_day ^^ n) x) < 9999" using days_year [of n "Suc n" x] Suc.prems(1) by simp
    from documented_datesD(1) [OF L days_are_dates [OF x n, of n]]
    obtain u where u: "make_ymd L ((next_day ^^ n) x) = Some u" by auto
    from Suc.IH [OF n u] documented_datesD(4) [OF L u, of z' z] Suc.prems(2)
    show ?case by (auto simp: mod_simps algebra_simps)
  qed
  then show "d_minus L z' z = int n"
    and "0 \<le> d_weekday L z \<Longrightarrow> d_weekday L z < 7 \<Longrightarrow> d_weekday L z' = (d_weekday L z + int n) mod 7" by blast+
qed

text \<open>Whole months and years at once.\<close>

lemma days_trans: "(next_day ^^ n) x = y \<Longrightarrow> (next_day ^^ k) y = z \<Longrightarrow> (next_day ^^ (k + n)) x = z"
  by (simp add: funpow_add)

lemma days_in_month: "d + int n \<le> month_length y m \<Longrightarrow> (next_day ^^ n) (y, m, d) = (y, m, d + int n)"
  by (induction n) simp_all

lemma month_passes:
  assumes "month_length y m = int n"
  shows "(next_day ^^ n) (y, m, 1) = (if m < 12 then (y, m + 1, 1) else (y + 1, 1, 1))"
proof -
  from assms month_length_bounds(1) [of y m] obtain k where n: "n = Suc k" by (cases n) auto
  with assms days_in_month [of 1 k y m] show ?thesis by simp
qed

lemma months_pass:
  "(next_day ^^ 31) (y, 1, 1) = (y, 2, 1)" "(next_day ^^ (if leap_year y then 29 else 28)) (y, 2, 1) = (y, 3, 1)"
  "(next_day ^^ 31) (y, 3, 1) = (y, 4, 1)" "(next_day ^^ 30) (y, 4, 1) = (y, 5, 1)" "(next_day ^^ 31) (y, 5, 1) = (y, 6, 1)"
  "(next_day ^^ 30) (y, 6, 1) = (y, 7, 1)" "(next_day ^^ 31) (y, 7, 1) = (y, 8, 1)" "(next_day ^^ 31) (y, 8, 1) = (y, 9, 1)"
  "(next_day ^^ 30) (y, 9, 1) = (y, 10, 1)" "(next_day ^^ 31) (y, 10, 1) = (y, 11, 1)"
  "(next_day ^^ 30) (y, 11, 1) = (y, 12, 1)" "(next_day ^^ 31) (y, 12, 1) = (y + 1, 1, 1)"
  by (subst month_passes; simp add: month_length_def)+

lemma year_passes: "(next_day ^^ (if leap_year y then 366 else 365)) (y, 1, 1) = (y + 1, 1, 1)"
proof -
  let ?feb = "if leap_year y then 29 else 28 :: nat"
  have "(next_day ^^ (31 + (30 + (31 + (30 + (31 + (31 + (30 + (31 + (30 + (31 + (?feb + 31))))))))))))
    (y, 1, 1) = (y + 1, 1, 1)"
    by (simp only: funpow_add o_apply months_pass)
  then show ?thesis by (cases "leap_year y") simp_all
qed

text \<open>The fourteen years from 2000 to 2013 have 5114 days.\<close>

lemma years_pass: "(next_day ^^ nat (\<Sum>i<k. if leap_year (y + int i) then 366 else 365)) (y, 1, 1) = (y + int k, 1, 1)"
proof (induction k)
  case (Suc k)
  have "0 \<le> (\<Sum>i<k. if leap_year (y + int i) then 366 else 365 :: int)" by (rule sum_nonneg) simp
  then have e: "nat (\<Sum>i<Suc k. if leap_year (y + int i) then 366 else 365) =
      (if leap_year (y + int k) then 366 else 365) + nat (\<Sum>i<k. if leap_year (y + int i) then 366 else 365)"
    by (simp add: nat_add_distrib)
  show ?case unfolding e using days_trans [OF Suc.IH year_passes] by (simp add: algebra_simps)
qed simp

lemma days_by_calendar:
  "(next_day ^^ 28) (2014, 1, 31) = (2014, 2, 28)" "(next_day ^^ 58) (2014, 1, 1) = (2014, 2, 28)"
  "(next_day ^^ 5144) (2000, 1, 1) = (2014, 1, 31)"
proof -
  have "(next_day ^^ 1) (2014, 1, 31) = (2014, 2, 1)" by (simp add: month_length_def)
  moreover have f: "(next_day ^^ 27) (2014, 2, 1) = (2014, 2, 28)"
    using days_in_month [of 1 27 2014 2] by (simp add: month_length_def leap_year_def)
  ultimately show "(next_day ^^ 28) (2014, 1, 31) = (2014, 2, 28)" using days_trans by fastforce
  show "(next_day ^^ 58) (2014, 1, 1) = (2014, 2, 28)" using days_trans [OF months_pass(1) f] by simp
  have "nat (\<Sum>i<14. if leap_year (2000 + int i) then 366 else 365) = 5114"
    by (simp add: leap_year_def lessThan_nat_numeral lessThan_Suc)
  then have "(next_day ^^ 5114) (2000, 1, 1) = (2014, 1, 1)" using years_pass [where k = 14 and y = 2000] by simp
  moreover have "(next_day ^^ 30) (2014, 1, 1) = (2014, 1, 31)"
    using days_in_month [of 1 30 2014 1] by (simp add: month_length_def)
  ultimately show "(next_day ^^ 5144) (2000, 1, 1) = (2014, 1, 31)" using days_trans by fastforce
qed


section \<open>What the program prints\<close>

lemma number_texts:
  "show_int 4 = ''4''" "show_int 28 = ''28''" "show_int 31 = ''31''" "show_int 58 = ''58''" "show_int 2014 = ''2014''"
  "show_int 2019 = ''2019''" "show_int 1 = ''1''"
  by (simp_all add: show_int_def to_string.simps digit_char_def char_of_def bit_0)

text \<open>
  The functions print these lines with every library that follows the calendar: none of them throws, 31 January 2014
  was a Friday, there are 28 days from it to 28 February, and 58 from the first of the year.
\<close>

theorem date_functions_print:
  assumes L: "documented_dates L"
  shows "Not_a_DateTime L = Some (line_of ''not-a-date-time'')"
    and "DateTime_Test2 L = Some (line_of ''2014'' @ line_of ''Jan'' @ line_of ''31'' @ line_of ''Fri'' @ line_of ''2014-Jan-31'')"
    and "DateFrom_String L = Some (line_of ''2019'' @ line_of ''Jan'' @ line_of ''31'')"
    and "Date_Duration L = Some (line_of ''28'')"
    and "DateTime_Period L = Some (line_of ''58'')"
    and "Specialized_Duration = line_of ''4'' @ line_of ''28'' @ line_of ''4'' @ line_of ''4''"
proof -
  note D = documented_datesD [OF L]
  obtain a b c d e f where made: "d_make L 2004 2 29 = Some a" "d_make L 2014 1 31 = Some b" "d_make L 2014 2 28 = Some c"
    "d_make L 2014 1 1 = Some d" "d_make L 2000 1 1 = Some e" "d_make L 2019 1 31 = Some f"
    using D(1) [of "(2004, 2, 29)"] D(1) [of "(2014, 1, 31)"] D(1) [of "(2014, 2, 28)"] D(1) [of "(2014, 1, 1)"]
      D(1) [of "(2000, 1, 1)"] D(1) [of "(2019, 1, 31)"]
    by (auto simp: make_ymd_def month_length_def leap_year_def)
  have w: "d_weekday L b = 5"
    using days_later(2) [OF L, of "(2000, 1, 1)" e 5144 b] days_by_calendar(3) D(3) [OF made(5)] made
    by (simp add: make_ymd_def month_length_def)
  have m: "d_minus L c b = 28" "d_minus L c d = 58"
    using days_later(1) [OF L, of "(2014, 1, 31)" b 28 c] days_later(1) [OF L, of "(2014, 1, 1)" d 58 c]
      days_by_calendar(1,2) made
    by (simp_all add: make_ymd_def month_length_def)
  show "Not_a_DateTime L = Some (line_of ''not-a-date-time'')" by (simp add: Not_a_DateTime_def made)
  show "Date_Duration L = Some (line_of ''28'')" "DateTime_Period L = Some (line_of ''58'')"
    using m by (simp_all add: Date_Duration_def DateTime_Period_def date_period_length_def made number_texts)
  show "Specialized_Duration = line_of ''4'' @ line_of ''28'' @ line_of ''4'' @ line_of ''4''"
    by (simp add: Specialized_Duration_def number_texts)
  have b: "d_year L b = 2014" "d_month L b = 1" "d_day L b = 31" "d_end_of_month L b = b"
    using D(2) [OF made(2)] made(2) by (auto simp: month_length_def)
  show "DateTime_Test2 L = Some (line_of ''2014'' @ line_of ''Jan'' @ line_of ''31'' @ line_of ''Fri'' @ line_of ''2014-Jan-31'')"
    by (simp add: DateTime_Test2_def made b w date_text_def month_name_def weekday_name_def number_texts)
  have "d_from_iso L ''20190131'' = d_make L 2019 1 31"
    using L [unfolded documented_dates_def, THEN conjunct2, THEN conjunct2, THEN conjunct1, rule_format, of 2019 1 31]
    by (simp add: number_texts month_length_def)
  moreover have "d_year L f = 2019" "d_month L f = 1" "d_day L f = 31" using D(2) [OF made(6)] by auto
  ultimately show "DateFrom_String L = Some (line_of ''2019'' @ line_of ''Jan'' @ line_of ''31'')"
    by (simp add: DateFrom_String_def made month_name_def number_texts)
qed


section \<open>An instance\<close>

definition days_before_month :: "int \<Rightarrow> int \<Rightarrow> int" where
  "days_before_month y m = [0, 31, 59, 90, 120, 151, 181, 212, 243, 273, 304, 334] ! nat (m - 1) +
     (if 2 < m \<and> leap_year y then 1 else 0)"

text \<open>Days since the beginning of the calendar; the first one was a Monday.\<close>

fun day_number :: "ymd \<Rightarrow> int" where
  "day_number (y, m, d) = 365 * (y - 1) + (y - 1) div 4 - (y - 1) div 100 + (y - 1) div 400 + days_before_month y m + d"

definition read_iso :: "string \<Rightarrow> ymd" where
  "read_iso s = (int (decimal_value (take 4 s)), int (decimal_value (take 2 (drop 4 s))), int (decimal_value (drop 6 s)))"

definition plain_dates :: "ymd date_library" where
  "plain_dates = \<lparr>
     d_make = (\<lambda>y m d. if is_date (y, m, d) then Some (y, m, d) else None),
     d_from_iso = (\<lambda>s. if is_date (read_iso s) then Some (read_iso s) else None),
     d_year = fst, d_month = (\<lambda>x. fst (snd x)), d_day = (\<lambda>x. snd (snd x)), d_weekday = (\<lambda>x. day_number x mod 7),
     d_end_of_month = (\<lambda>(y, m, d). (y, m, month_length y m)), d_minus = (\<lambda>x z. day_number x - day_number z)\<rparr>"

lemma div_next:
  fixes y k :: int
  assumes "0 < k"
  shows "y div k = (y - 1) div k + (if y mod k = 0 then 1 else 0)"
proof (cases "y mod k = 0")
  case True
  then obtain q where y: "y = k * q" using mod_eq_0_iff_dvd [of y k] by (auto elim: dvdE)
  have "k * q - 1 = k * (q - 1) + (k - 1)" by (simp add: algebra_simps)
  with assms have "(k * q - 1) div k = q - 1" by (intro int_div_pos_eq [where r = "k - 1"]) auto
  with True assms show ?thesis by (simp add: y)
next
  case False
  have "y - 1 = k * (y div k) + (y mod k - 1)" by simp
  moreover have "0 \<le> y mod k - 1" "y mod k - 1 < k"
    using False assms pos_mod_sign [of k y] pos_mod_bound [of k y] by linarith+
  ultimately have "(y - 1) div k = y div k" by (rule int_div_pos_eq)
  with False show ?thesis by simp
qed

lemma leap_sum:
  fixes a b c :: int
  assumes "Q \<Longrightarrow> P" and "R \<Longrightarrow> Q"
  shows "(a + (if P then 1 else 0)) - (b + (if Q then 1 else 0)) + (c + (if R then 1 else 0)) =
    a - b + c + (if P \<and> (\<not> Q \<or> R) then 1 else 0)"
  using assms by (cases P; cases Q; cases R) simp_all

lemma leap_days: "y div 4 - y div 100 + y div 400 =
    (y - 1) div 4 - (y - 1) div 100 + (y - 1) div 400 + (if leap_year y then 1 else 0)"
proof -
  have "400 dvd y \<Longrightarrow> 100 dvd y" "100 dvd y \<Longrightarrow> 4 dvd y" by (rule dvd_trans; simp)+
  then have d: "y mod 400 = 0 \<Longrightarrow> y mod 100 = 0" "y mod 100 = 0 \<Longrightarrow> y mod 4 = 0" by (simp_all add: mod_eq_0_iff_dvd)
  have n: "y div 4 = (y - 1) div 4 + (if y mod 4 = 0 then 1 else 0)"
    "y div 100 = (y - 1) div 100 + (if y mod 100 = 0 then 1 else 0)"
    "y div 400 = (y - 1) div 400 + (if y mod 400 = 0 then 1 else 0)"
    by (rule div_next, simp)+
  show ?thesis unfolding n leap_year_def by (rule leap_sum) (erule d)+
qed

lemma month_cases: "1 \<le> m \<Longrightarrow> m \<le> 12 \<Longrightarrow> m \<in> {1, 2, 3, 4, 5, 6, 7, 8, 9, 10, 11, 12 :: int}"
  by simp presburger

lemma days_before_next_month:
  "1 \<le> m \<Longrightarrow> m < 12 \<Longrightarrow> days_before_month y (m + 1) = days_before_month y m + month_length y m"
  using month_cases [of m] by (auto simp: days_before_month_def month_length_def)

lemma day_number_next:
  assumes "is_date x"
  shows "day_number (next_day x) = day_number x + 1"
proof (cases x)
  case (fields y m d)
  consider "d < month_length y m" | "d = month_length y m" "m < 12" | "d = month_length y m" "m = 12"
    using assms fields by fastforce
  then show ?thesis
  proof cases
    case 2
    with assms fields show ?thesis using days_before_next_month [of m y] by simp
  next
    case 3
    have "days_before_month y 12 = 334 + (if leap_year y then 1 else 0)" "days_before_month (y + 1) 1 = 0"
      by (simp_all add: days_before_month_def numeral_eq_Suc)
    with 3 fields leap_days [of y] show ?thesis by (simp add: month_length_def)
  qed (use fields in simp)
qed

text \<open>Reading a text of eight digits.\<close>

lemma to_string_length_step: "10 \<le> n \<Longrightarrow> length (to_string n) = Suc (length (to_string (n div 10)))"
  by (simp add: to_string.simps [of n])

lemma to_string_length_1: "n < 10 \<Longrightarrow> length (to_string n) = 1"
  by (simp add: to_string.simps)

lemma to_string_length_2: "10 \<le> n \<Longrightarrow> n < 100 \<Longrightarrow> length (to_string n) = 2"
  using to_string_length_step [of n] to_string_length_1 [of "n div 10"] by simp

lemma to_string_length_3: "100 \<le> n \<Longrightarrow> n < 1000 \<Longrightarrow> length (to_string n) = 3"
  using to_string_length_step [of n] to_string_length_2 [of "n div 10"] by simp

lemma to_string_length_4: "1000 \<le> n \<Longrightarrow> n < 10000 \<Longrightarrow> length (to_string n) = 4"
  using to_string_length_step [of n] to_string_length_3 [of "n div 10"] by simp

lemmas to_string_length = to_string_length_1 to_string_length_2 to_string_length_4

lemma decimal_value_zero: "decimal_value (CHR ''0'' # ds) = decimal_value ds"
  by (simp add: decimal_value_def digit_value_def)

definition two_digits :: "int \<Rightarrow> string" where
  "two_digits n = (if n < 10 then ''0'' else []) @ show_int n"

lemma two_digits_value: "0 \<le> n \<Longrightarrow> n < 100 \<Longrightarrow> length (two_digits n) = 2 \<and> int (decimal_value (two_digits n)) = n"
  by (cases "n < 10")
    (simp_all add: two_digits_def show_int_def to_string_length decimal_value_zero decimal_value_to_string)

lemma read_iso_text:
  assumes "is_date (y, m, d)"
  shows "read_iso (show_int y @ two_digits m @ two_digits d) = (y, m, d)"
proof -
  from assms have "1000 \<le> nat y" "nat y < 10000" unfolding is_date.simps by linarith+
  with assms have "length (show_int y) = 4" "int (decimal_value (show_int y)) = y"
    by (simp_all add: show_int_def to_string_length decimal_value_to_string)
  moreover have "0 \<le> m" "m < 100" "0 \<le> d" "d < 100" using assms month_length_bounds(2) [of y m] by simp_all
  ultimately show ?thesis using two_digits_value [of m] two_digits_value [of d] by (simp add: read_iso_def)
qed

lemma plain_dates_documented: "documented_dates plain_dates"
proof -
  have "is_date (y, m, month_length y m)" if "is_date (y, m, d)" for y m d
    using that month_length_bounds(1) [of y m] by simp
  moreover have "read_iso (show_int y @ (if m < 10 then ''0'' else []) @ show_int m @ (if d < 10 then ''0'' else []) @ show_int d) =
      (y, m, d)" if "is_date (y, m, d)" for y m d
    using read_iso_text [OF that] by (simp add: two_digits_def)
  moreover have "day_number (2000, 1, 1) mod 7 = 6" by (simp add: days_before_month_def)
  moreover have "day_number q = day_number (y, m, d) + 1" if "is_date (y, m, d)" "next_day (y, m, d) = q" for y m d q
    using day_number_next [OF that(1)] unfolding that(2) .
  ultimately show ?thesis
    by (auto simp: documented_dates_def plain_dates_def mod_simps simp del: is_date.simps next_day.simps day_number.simps)
qed

theorem date_functions_print_witness:
  "DateTime_Test2 plain_dates = Some (line_of ''2014'' @ line_of ''Jan'' @ line_of ''31'' @ line_of ''Fri'' @ line_of ''2014-Jan-31'')"
  by (rule date_functions_print(2) [OF plain_dates_documented])

end
