(* ===== verification/Shared_Memory.thy ===== *)
theory Shared_Memory
  imports Base "HOL-Library.Word"
begin

text \<open>
  \<open>Communication/Interprocess.cpp\<close>. The shared memory of the system is a parameter, a record of
  the operations of \<open>boost::interprocess\<close> that the program calls; \<open>documented_memory\<close> says what they do to the bytes of
  each object. Two regions that map one object share its bytes.
\<close>

section \<open>Shared memory objects\<close>

text \<open>
  An object is known by its name. \<open>None\<close> is an exception; \<open>m_store\<close> and \<open>m_load\<close> go through the address of a mapped
  region.
\<close>

record 's memory_library =
  m_open :: "string \<Rightarrow> 's \<Rightarrow> 's option"
  m_truncate :: "string \<Rightarrow> nat \<Rightarrow> 's \<Rightarrow> 's option"
  m_size :: "string \<Rightarrow> 's \<Rightarrow> nat option"
  m_map :: "string \<Rightarrow> 's \<Rightarrow> 's option"
  m_store :: "string \<Rightarrow> 8 word list \<Rightarrow> 's \<Rightarrow> 's"
  m_load :: "string \<Rightarrow> nat \<Rightarrow> 's \<Rightarrow> 8 word list"
  m_remove :: "string \<Rightarrow> 's \<Rightarrow> bool \<times> 's"

text \<open>An \<open>int\<close> in memory, the byte of least value first.\<close>

definition int_bytes :: "32 word \<Rightarrow> 8 word list" where
  "int_bytes w = [ucast w, ucast (drop_bit 8 w), ucast (drop_bit 16 w), ucast (drop_bit 24 w)]"

definition bytes_int :: "8 word list \<Rightarrow> 32 word" where
  "bytes_int bs = foldr (\<lambda>b w. push_bit 8 w + ucast b) bs 0"

definition memBlockName :: string where
  "memBlockName = ''Boost''"

definition deleted_line :: "bool \<Rightarrow> string" where
  "deleted_line removed = ''Deleted: '' @ (if removed then ''true'' else ''false'') @ [CHR 0x0A]"

text \<open>Each function gives what it prints and the shared memory it leaves, or \<open>None\<close> when an exception leaves it.\<close>

definition create_shared_memory :: "'s memory_library \<Rightarrow> 's \<Rightarrow> (string \<times> 's) option" where
  "create_shared_memory L s =
     (case m_open L memBlockName s of None \<Rightarrow> None | Some s1 \<Rightarrow>
      case m_truncate L memBlockName 1024 s1 of None \<Rightarrow> None | Some s2 \<Rightarrow>
      let size_line = (case m_size L memBlockName s2 of None \<Rightarrow> [] | Some k \<Rightarrow> to_string k @ [CHR 0x0A]);
          (removed, s3) = m_remove L memBlockName s2
      in Some (memBlockName @ [CHR 0x0A] @ size_line @ deleted_line removed, s3))"

definition read_write_shared_memory :: "'s memory_library \<Rightarrow> 's \<Rightarrow> (string \<times> 's) option" where
  "read_write_shared_memory L s =
     (case m_open L memBlockName s of None \<Rightarrow> None | Some s1 \<Rightarrow>
      case m_truncate L memBlockName 1024 s1 of None \<Rightarrow> None | Some s2 \<Rightarrow>
      case m_map L memBlockName s2 of None \<Rightarrow> None | Some s3 \<Rightarrow>
      let s4 = m_store L memBlockName (int_bytes 99) s3
      in case m_map L memBlockName s4 of None \<Rightarrow> None | Some s5 \<Rightarrow>
      let i2 = bytes_int (m_load L memBlockName 4 s5);
          (removed, s6) = m_remove L memBlockName s5
      in Some (show_int (sint i2) @ [CHR 0x0A] @ deleted_line removed, s6))"

definition delete_shared_memory :: "'s memory_library \<Rightarrow> 's \<Rightarrow> string \<times> 's" where
  "delete_shared_memory L s = (let (removed, s') = m_remove L memBlockName s in (deleted_line removed, s'))"


section \<open>The documentation\<close>

text \<open>
  \<open>objects s\<close> are the bytes of the shared memory objects. A new object has no bytes, \<open>truncate\<close> sets the length and
  fills with zeros, mapping changes nothing, a name that is removed is gone.
\<close>

definition documented_memory :: "'s memory_library \<Rightarrow> ('s \<Rightarrow> string \<Rightarrow> 8 word list option) \<Rightarrow> bool" where
  "documented_memory L objects \<longleftrightarrow>
     (\<forall>n s s'. m_open L n s = Some s' \<longrightarrow> objects s' = (objects s)(n \<mapsto> (case objects s n of None \<Rightarrow> [] | Some bs \<Rightarrow> bs))) \<and>
     (\<forall>n k s s' bs. m_truncate L n k s = Some s' \<and> objects s n = Some bs \<longrightarrow>
        objects s' = (objects s)(n \<mapsto> take k bs @ replicate (k - length bs) 0)) \<and>
     (\<forall>n s bs. objects s n = Some bs \<longrightarrow> m_size L n s = Some (length bs)) \<and>
     (\<forall>n s s'. m_map L n s = Some s' \<longrightarrow> objects s' = objects s) \<and>
     (\<forall>n s bs new. objects s n = Some bs \<and> length new \<le> length bs \<longrightarrow>
        objects (m_store L n new s) = (objects s)(n \<mapsto> new @ drop (length new) bs)) \<and>
     (\<forall>n s bs k. objects s n = Some bs \<and> k \<le> length bs \<longrightarrow> m_load L n k s = take k bs) \<and>
     (\<forall>n s. fst (m_remove L n s) = (objects s n \<noteq> None) \<and> objects (snd (m_remove L n s)) = (objects s)(n := None))"

lemma documented_memoryD:
  assumes "documented_memory L objects"
  shows "m_open L n s = Some s' \<Longrightarrow> objects s' = (objects s)(n \<mapsto> (case objects s n of None \<Rightarrow> [] | Some bs \<Rightarrow> bs))"
    and "m_truncate L n k s = Some s' \<Longrightarrow> objects s n = Some bs \<Longrightarrow>
      objects s' = (objects s)(n \<mapsto> take k bs @ replicate (k - length bs) 0)"
    and "objects s n = Some bs \<Longrightarrow> m_size L n s = Some (length bs)"
    and "m_map L n s = Some s' \<Longrightarrow> objects s' = objects s"
    and "objects s n = Some bs \<Longrightarrow> length new \<le> length bs \<Longrightarrow>
      objects (m_store L n new s) = (objects s)(n \<mapsto> new @ drop (length new) bs)"
    and "objects s n = Some bs \<Longrightarrow> k \<le> length bs \<Longrightarrow> m_load L n k s = take k bs"
    and "fst (m_remove L n s) = (objects s n \<noteq> None)" and "objects (snd (m_remove L n s)) = (objects s)(n := None)"
proof -
  note D = assms [unfolded documented_memory_def]
  show "m_open L n s = Some s' \<Longrightarrow> objects s' = (objects s)(n \<mapsto> (case objects s n of None \<Rightarrow> [] | Some bs \<Rightarrow> bs))"
    by (rule D [THEN conjunct1, rule_format])
  note D = D [THEN conjunct2]
  show "m_truncate L n k s = Some s' \<Longrightarrow> objects s n = Some bs \<Longrightarrow>
      objects s' = (objects s)(n \<mapsto> take k bs @ replicate (k - length bs) 0)"
    by (rule D [THEN conjunct1, rule_format]) simp
  note D = D [THEN conjunct2]
  show "objects s n = Some bs \<Longrightarrow> m_size L n s = Some (length bs)" by (rule D [THEN conjunct1, rule_format])
  note D = D [THEN conjunct2]
  show "m_map L n s = Some s' \<Longrightarrow> objects s' = objects s" by (rule D [THEN conjunct1, rule_format])
  note D = D [THEN conjunct2]
  show "objects s n = Some bs \<Longrightarrow> length new \<le> length bs \<Longrightarrow>
      objects (m_store L n new s) = (objects s)(n \<mapsto> new @ drop (length new) bs)"
    by (rule D [THEN conjunct1, rule_format]) simp
  note D = D [THEN conjunct2]
  show "objects s n = Some bs \<Longrightarrow> k \<le> length bs \<Longrightarrow> m_load L n k s = take k bs"
    by (rule D [THEN conjunct1, rule_format]) simp
  note D = D [THEN conjunct2]
  show "fst (m_remove L n s) = (objects s n \<noteq> None)" "objects (snd (m_remove L n s)) = (objects s)(n := None)"
    using D by blast+
qed

text \<open>An \<open>int\<close> is read back from its bytes.\<close>

lemma byte_above: "push_bit 8 (drop_bit (n + 8) w) + ucast (ucast (drop_bit n w) :: 8 word) = drop_bit n (w :: 32 word)"
proof -
  have "push_bit 8 (drop_bit 8 (drop_bit n w)) + take_bit 8 (drop_bit n w) = drop_bit n w" by (rule bits_ident)
  moreover have "ucast (ucast (drop_bit n w) :: 8 word) = take_bit 8 (drop_bit n w)" by (simp add: unsigned_ucast_eq)
  ultimately show ?thesis by (simp add: add.commute)
qed

lemma bytes_above:
  "push_bit 8 (drop_bit 32 w) + ucast (ucast (drop_bit 24 w) :: 8 word) = drop_bit 24 (w :: 32 word)"
  "push_bit 8 (drop_bit 24 w) + ucast (ucast (drop_bit 16 w) :: 8 word) = drop_bit 16 w"
  "push_bit 8 (drop_bit 16 w) + ucast (ucast (drop_bit 8 w) :: 8 word) = drop_bit 8 w"
  "push_bit 8 (drop_bit 8 w) + ucast (ucast w :: 8 word) = w"
  using byte_above [of 24 w] byte_above [of 16 w] byte_above [of 8 w] byte_above [of 0 w] by simp_all

lemma bytes_int_four: "bytes_int [a, b, c, d] =
    push_bit 8 (push_bit 8 (push_bit 8 (push_bit 8 0 + ucast d) + ucast c) + ucast b) + ucast a"
  unfolding bytes_int_def by (simp only: foldr.simps comp_def id_apply)

lemma bytes_int_bytes: "bytes_int (int_bytes w) = w"
  unfolding int_bytes_def bytes_int_four
proof -
  have z: "0 = drop_bit 32 w" by (rule bit_word_eqI) (simp add: bit_drop_bit_eq bit_imp_le_length not_le)
  show "push_bit 8 (push_bit 8 (push_bit 8 (push_bit 8 0 + ucast (ucast (drop_bit 24 w) :: 8 word)) +
      ucast (ucast (drop_bit 16 w) :: 8 word)) + ucast (ucast (drop_bit 8 w) :: 8 word)) + ucast (ucast w :: 8 word) = w"
    by (subst z) (simp only: bytes_above)
qed

text \<open>
  Whatever the object held before: \<open>create_shared_memory\<close> prints its name and 1024, \<open>read_write_shared_memory\<close> reads
  through its second region the 99 that it has stored through the first, and both remove the object and change no
  other; \<open>delete_shared_memory\<close> says whether there was an object, so behind the others it says there was none.
\<close>

theorem shared_memory_functions:
  assumes L: "documented_memory L objects"
  shows "create_shared_memory L s = Some (out, s') \<Longrightarrow>
      out = ''Boost'' @ [CHR 0x0A] @ to_string 1024 @ [CHR 0x0A] @ deleted_line True \<and> objects s' = (objects s)(''Boost'' := None)"
    and "read_write_shared_memory L s = Some (out, s') \<Longrightarrow>
      out = to_string 99 @ [CHR 0x0A] @ deleted_line True \<and> objects s' = (objects s)(''Boost'' := None)"
    and "fst (delete_shared_memory L s) = deleted_line (objects s ''Boost'' \<noteq> None)"
    and "objects (snd (delete_shared_memory L s)) = (objects s)(''Boost'' := None)"
proof -
  note D = documented_memoryD [OF L]
  have opened: "\<exists>bs. objects s2 = (objects s)(''Boost'' \<mapsto> bs) \<and> length bs = 1024"
    if "m_open L ''Boost'' s = Some s1" and "m_truncate L ''Boost'' 1024 s1 = Some s2" for s1 s2
    using D(1) [OF that(1)] D(2) [OF that(2)] by auto
  show "out = ''Boost'' @ [CHR 0x0A] @ to_string 1024 @ [CHR 0x0A] @ deleted_line True \<and> objects s' = (objects s)(''Boost'' := None)"
    if run: "create_shared_memory L s = Some (out, s')"
  proof -
    from run obtain s1 s2 where t: "m_open L ''Boost'' s = Some s1" "m_truncate L ''Boost'' 1024 s1 = Some s2"
      by (auto simp: create_shared_memory_def memBlockName_def split: option.splits)
    from opened [OF t] obtain bs where "objects s2 = (objects s)(''Boost'' \<mapsto> bs)" "length bs = 1024" by blast
    with run t D(3) [of s2 "''Boost''" bs] D(7,8) [of "''Boost''" s2] show ?thesis
      by (auto simp: create_shared_memory_def memBlockName_def split: prod.splits)
  qed
  show "out = to_string 99 @ [CHR 0x0A] @ deleted_line True \<and> objects s' = (objects s)(''Boost'' := None)"
    if run: "read_write_shared_memory L s = Some (out, s')"
  proof -
    from run obtain s1 s2 s3 s5 where t: "m_open L ''Boost'' s = Some s1" "m_truncate L ''Boost'' 1024 s1 = Some s2"
      and m: "m_map L ''Boost'' s2 = Some s3" "m_map L ''Boost'' (m_store L ''Boost'' (int_bytes 99) s3) = Some s5"
      by (auto simp: read_write_shared_memory_def memBlockName_def split: option.splits)
    from opened [OF t] obtain bs where bs: "objects s2 = (objects s)(''Boost'' \<mapsto> bs)" "length bs = 1024" by blast
    have four: "length (int_bytes 99) = 4" by (simp add: int_bytes_def)
    from bs four D(4) [OF m(1)] D(4) [OF m(2)] D(5) [of s3 "''Boost''" bs "int_bytes 99"]
    have s5: "objects s5 = (objects s)(''Boost'' \<mapsto> int_bytes 99 @ drop 4 bs)" by simp
    then have "m_load L ''Boost'' 4 s5 = int_bytes 99"
      using D(6) [of s5 "''Boost''" "int_bytes 99 @ drop 4 bs" 4] four by simp
    with run t m s5 D(7,8) [of "''Boost''" s5] show ?thesis
      by (auto simp: read_write_shared_memory_def memBlockName_def bytes_int_bytes show_int_def split: prod.splits)
  qed
  show "fst (delete_shared_memory L s) = deleted_line (objects s ''Boost'' \<noteq> None)"
    and "objects (snd (delete_shared_memory L s)) = (objects s)(''Boost'' := None)"
    using D(7,8) [of "''Boost''" s]
    by (cases "m_remove L ''Boost'' s"; simp add: delete_shared_memory_def memBlockName_def)+
qed


section \<open>An instance\<close>

text \<open>A system in which every call succeeds and an address of no object is not used.\<close>

definition plain_memory :: "(string \<Rightarrow> 8 word list option) memory_library" where
  "plain_memory = \<lparr>
     m_open = (\<lambda>n s. Some (s(n \<mapsto> (case s n of None \<Rightarrow> [] | Some bs \<Rightarrow> bs)))),
     m_truncate = (\<lambda>n k s. map_option (\<lambda>bs. s(n \<mapsto> take k bs @ replicate (k - length bs) 0)) (s n)),
     m_size = (\<lambda>n s. map_option length (s n)),
     m_map = (\<lambda>n s. map_option (\<lambda>bs. s) (s n)),
     m_store = (\<lambda>n new s. case s n of None \<Rightarrow> s | Some bs \<Rightarrow> s(n \<mapsto> new @ drop (length new) bs)),
     m_load = (\<lambda>n k s. case s n of None \<Rightarrow> [] | Some bs \<Rightarrow> take k bs),
     m_remove = (\<lambda>n s. (s n \<noteq> None, s(n := None)))\<rparr>"

lemma plain_memory_documented: "documented_memory plain_memory (\<lambda>s. s)"
  by (auto simp: documented_memory_def plain_memory_def)

theorem shared_memory_functions_witness:
  "\<exists>s'. read_write_shared_memory plain_memory (\<lambda>_. None) = Some (to_string 99 @ [CHR 0x0A] @ deleted_line True, s')"
proof -
  have "read_write_shared_memory plain_memory (\<lambda>_. None) \<noteq> None"
    by (simp add: read_write_shared_memory_def plain_memory_def Let_def)
  then obtain out s' where r: "read_write_shared_memory plain_memory (\<lambda>_. None) = Some (out, s')" by auto
  with shared_memory_functions(2) [OF plain_memory_documented r] show ?thesis by simp
qed

end
