(* ===== verification/Uuid_Texts.thy ===== *)
theory Uuid_Texts
  imports Base
begin

text \<open>
  \<open>Uuid/Uuid.cpp\<close>. \<open>boost::uuids\<close> is a parameter, a record of what the program calls; a uuid is its sixteen bytes.
  \<open>documented_uuids\<close> says how a uuid is printed and which notations of it the string generator reads.
\<close>

section \<open>The program\<close>

type_synonym uuid = "nat list"

text \<open>\<open>u_random i\<close> is the \<open>i\<close>th uuid of the random generator; \<open>u_parse\<close> throws (\<open>None\<close>) on what is no uuid.\<close>

record uuid_library =
  u_random :: "nat \<Rightarrow> uuid"
  u_parse :: "string \<Rightarrow> uuid option"
  u_named :: "uuid \<Rightarrow> string \<Rightarrow> uuid"
  u_text :: "uuid \<Rightarrow> string"
  u_variant :: "uuid \<Rightarrow> nat"
  u_version :: "uuid \<Rightarrow> int"

abbreviation uuid_line :: "string \<Rightarrow> string" where
  "uuid_line t \<equiv> t @ [CHR 0x0A]"

definition truth_text :: "bool \<Rightarrow> string" where
  "truth_text b = (if b then ''true'' else ''false'')"

definition Generates_Random_UUID :: "uuid_library \<Rightarrow> string" where
  "Generates_Random_UUID L = uuid_line (u_text L (u_random L 0)) @ uuid_line (u_text L (u_random L 1))"

definition Uuid_Attributes :: "uuid_library \<Rightarrow> string" where
  "Uuid_Attributes L = (let uuid = u_random L 0 in
     uuid_line (u_text L uuid) @
     uuid_line (to_string (length uuid)) @
     uuid_line (truth_text (list_all (\<lambda>b. b = 0) uuid)) @
     uuid_line (to_string (u_variant L uuid)) @
     uuid_line (show_int (u_version L uuid)))"

definition String_Generator :: "uuid_library \<Rightarrow> string option" where
  "String_Generator L = (case u_parse L ''CF77C981-F61B-7817-10FF-D916FCC3EAA4'' of
     None \<Rightarrow> None
   | Some uuid \<Rightarrow> Some (uuid_line (u_text L uuid) @ uuid_line (to_string (u_variant L uuid))))"

text \<open>The second and the fourth text are wide strings, of the same characters.\<close>

definition String_Generator_Tests :: "uuid_library \<Rightarrow> string option" where
  "String_Generator_Tests L =
     (case u_parse L ''{01234567-89ab-cdef-0123-456789abcdef}'' of None \<Rightarrow> None | Some u1 \<Rightarrow>
      case u_parse L ''01234567-89ab-cdef-0123-456789abcdef'' of None \<Rightarrow> None | Some u2 \<Rightarrow>
      case u_parse L ''0123456789abcdef0123456789abcdef'' of None \<Rightarrow> None | Some u3 \<Rightarrow>
      case u_parse L ''01234567-89AB-CDEF-0123-456789ABCDEF'' of None \<Rightarrow> None | Some u4 \<Rightarrow>
      Some (uuid_line (u_text L u1) @ uuid_line (u_text L u2) @ uuid_line (u_text L u3) @ uuid_line (u_text L u4)))"

definition Name_Generator :: "uuid_library \<Rightarrow> string option" where
  "Name_Generator L = (case u_parse L ''CF77C981-F61B-7817-10FF-D916FCC3EAA4'' of
     None \<Rightarrow> None
   | Some uuid \<Rightarrow> Some (uuid_line (u_text L (u_named L uuid ''theboostcpplibraries.com''))))"

text \<open>\<open>lexical_cast\<close> to a string uses the stream operator.\<close>

definition Lexical_Cast :: "uuid_library \<Rightarrow> string" where
  "Lexical_Cast L = uuid_line (u_text L (u_random L 0))"


section \<open>The documentation\<close>

definition is_uuid :: "uuid \<Rightarrow> bool" where
  "is_uuid u \<longleftrightarrow> length u = 16 \<and> list_all (\<lambda>b. b < 256) u"

text \<open>A hexadecimal digit, as a small or as a capital letter.\<close>

definition hex_digit :: "bool \<Rightarrow> nat \<Rightarrow> char" where
  "hex_digit capital d = (if capital then ''0123456789ABCDEF'' else ''0123456789abcdef'') ! d"

definition hex_byte :: "bool \<Rightarrow> nat \<Rightarrow> string" where
  "hex_byte capital b = [hex_digit capital (b div 16), hex_digit capital (b mod 16)]"

text \<open>The notations: with dashes behind the bytes 4, 6, 8 and 10 or without, and perhaps in braces.\<close>

definition hex_bytes :: "bool \<Rightarrow> uuid \<Rightarrow> string" where
  "hex_bytes capital u = concat (map (hex_byte capital) u)"

definition notation_of :: "bool \<Rightarrow> bool \<Rightarrow> uuid \<Rightarrow> string" where
  "notation_of capital dashes u = (let dash = (if dashes then ''-'' else []) in
     hex_bytes capital (take 4 u) @ dash @ hex_bytes capital (take 2 (drop 4 u)) @ dash @
     hex_bytes capital (take 2 (drop 6 u)) @ dash @ hex_bytes capital (take 2 (drop 8 u)) @ dash @
     hex_bytes capital (drop 10 u))"

definition in_braces :: "bool \<Rightarrow> string \<Rightarrow> string" where
  "in_braces braces t = (if braces then ''{'' @ t @ ''}'' else t)"

text \<open>The variant is in the first bits of byte 8, the version in the first half of byte 6; random uuids are of version 4
  and of the variant of RFC 4122, whose number is 1.\<close>

definition documented_uuids :: "uuid_library \<Rightarrow> bool" where
  "documented_uuids L \<longleftrightarrow>
     (\<forall>u. is_uuid u \<longrightarrow> u_text L u = notation_of False True u) \<and>
     (\<forall>u capital dashes braces. is_uuid u \<longrightarrow> u_parse L (in_braces braces (notation_of capital dashes u)) = Some u) \<and>
     (\<forall>u. is_uuid u \<longrightarrow> u_variant L u =
        (if u ! 8 < 128 then 0 else if u ! 8 < 192 then 1 else if u ! 8 < 224 then 2 else 3)) \<and>
     (\<forall>u. is_uuid u \<and> 16 \<le> u ! 6 \<and> u ! 6 < 96 \<longrightarrow> u_version L u = int (u ! 6 div 16)) \<and>
     (\<forall>i. is_uuid (u_random L i) \<and> u_random L i ! 6 div 16 = 4 \<and> 128 \<le> u_random L i ! 8 \<and> u_random L i ! 8 < 192) \<and>
     (\<forall>u name. is_uuid (u_named L u name))"

lemma documented_uuidsD:
  assumes "documented_uuids L"
  shows "is_uuid u \<Longrightarrow> u_text L u = notation_of False True u"
    and "is_uuid u \<Longrightarrow> u_parse L (in_braces braces (notation_of capital dashes u)) = Some u"
    and "is_uuid u \<Longrightarrow> u_variant L u =
      (if u ! 8 < 128 then 0 else if u ! 8 < 192 then 1 else if u ! 8 < 224 then 2 else 3)"
    and "is_uuid u \<Longrightarrow> 16 \<le> u ! 6 \<Longrightarrow> u ! 6 < 96 \<Longrightarrow> u_version L u = int (u ! 6 div 16)"
    and "is_uuid (u_random L i)" and "u_random L i ! 6 div 16 = 4" and "128 \<le> u_random L i ! 8" and "u_random L i ! 8 < 192"
    and "is_uuid (u_named L u name)"
  using assms unfolding documented_uuids_def by blast+


section \<open>What the program prints\<close>

text \<open>What is printed is read back, in every notation.\<close>

lemma uuid_text_read_back: "documented_uuids L \<Longrightarrow> is_uuid u \<Longrightarrow> u_parse L (u_text L u) = Some u"
  using documented_uuidsD(2) [of L u False False True] by (simp add: documented_uuidsD(1) in_braces_def)

definition counting_uuid :: uuid where
  "counting_uuid = [0x01, 0x23, 0x45, 0x67, 0x89, 0xab, 0xcd, 0xef, 0x01, 0x23, 0x45, 0x67, 0x89, 0xab, 0xcd, 0xef]"

definition ncs_uuid :: uuid where
  "ncs_uuid = [0xCF, 0x77, 0xC9, 0x81, 0xF6, 0x1B, 0x78, 0x17, 0x10, 0xFF, 0xD9, 0x16, 0xFC, 0xC3, 0xEA, 0xA4]"

lemma uuid_notations:
  "notation_of False True counting_uuid = ''01234567-89ab-cdef-0123-456789abcdef''"
  "notation_of False False counting_uuid = ''0123456789abcdef0123456789abcdef''"
  "notation_of True True counting_uuid = ''01234567-89AB-CDEF-0123-456789ABCDEF''"
  "notation_of True True ncs_uuid = ''CF77C981-F61B-7817-10FF-D916FCC3EAA4''"
  "notation_of False True ncs_uuid = ''cf77c981-f61b-7817-10ff-d916fcc3eaa4''"
  by code_simp+

text \<open>
  The four notations of \<open>String_Generator_Tests\<close> are one uuid and print the same line; the uuid of \<open>String_Generator\<close> is
  printed in small letters and is not of the variant of RFC 4122; a random uuid prints its sixteen bytes, that it is
  not nil, its variant 1 and its version 4.
\<close>

theorem uuid_functions_print:
  assumes L: "documented_uuids L"
  shows "String_Generator_Tests L = Some (concat (replicate 4 (uuid_line ''01234567-89ab-cdef-0123-456789abcdef'')))"
    and "String_Generator L = Some (uuid_line ''cf77c981-f61b-7817-10ff-d916fcc3eaa4'' @ uuid_line (to_string 0))"
    and "Uuid_Attributes L = uuid_line (notation_of False True (u_random L 0)) @ uuid_line (to_string 16) @
      uuid_line ''false'' @ uuid_line (to_string 1) @ uuid_line (show_int 4)"
    and "Lexical_Cast L = uuid_line (notation_of False True (u_random L 0))"
    and "Generates_Random_UUID L = uuid_line (notation_of False True (u_random L 0)) @ uuid_line (notation_of False True (u_random L 1))"
    and "Name_Generator L = Some (uuid_line (notation_of False True (u_named L ncs_uuid ''theboostcpplibraries.com'')))"
proof -
  note D = documented_uuidsD [OF L]
  have u: "is_uuid counting_uuid" "is_uuid ncs_uuid" by (simp_all add: is_uuid_def counting_uuid_def ncs_uuid_def)
  note parse = D(2) [OF u(1), of False] D(2) [OF u(1), of True False True]
  have p: "u_parse L ''{01234567-89ab-cdef-0123-456789abcdef}'' = Some counting_uuid"
    "u_parse L ''01234567-89ab-cdef-0123-456789abcdef'' = Some counting_uuid"
    "u_parse L ''0123456789abcdef0123456789abcdef'' = Some counting_uuid"
    "u_parse L ''01234567-89AB-CDEF-0123-456789ABCDEF'' = Some counting_uuid"
    using parse(1) [of False True] parse(1) [of False False] parse(1) [of True True] parse(2)
    unfolding uuid_notations by (simp_all add: in_braces_def)
  show "String_Generator_Tests L = Some (concat (replicate 4 (uuid_line ''01234567-89ab-cdef-0123-456789abcdef'')))"
    by (simp add: String_Generator_Tests_def p D(1) [OF u(1)] uuid_notations numeral_eq_Suc)
  have q: "u_parse L ''CF77C981-F61B-7817-10FF-D916FCC3EAA4'' = Some ncs_uuid"
    using D(2) [OF u(2), of False True True] unfolding uuid_notations by (simp add: in_braces_def)
  show "String_Generator L = Some (uuid_line ''cf77c981-f61b-7817-10ff-d916fcc3eaa4'' @ uuid_line (to_string 0))"
    using D(3) [OF u(2)] by (simp add: String_Generator_def q D(1) [OF u(2)] uuid_notations) (simp add: ncs_uuid_def)
  show "Name_Generator L = Some (uuid_line (notation_of False True (u_named L ncs_uuid ''theboostcpplibraries.com'')))"
    by (simp add: Name_Generator_def q D(1) D(9))
  show "Lexical_Cast L = uuid_line (notation_of False True (u_random L 0))"
    and "Generates_Random_UUID L = uuid_line (notation_of False True (u_random L 0)) @ uuid_line (notation_of False True (u_random L 1))"
    by (simp_all add: Lexical_Cast_def Generates_Random_UUID_def D(1) D(5))
  have nil: "\<not> list_all (\<lambda>b. b = 0) (u_random L 0)"
    using D(5) [of 0] D(7) [of 0] by (auto simp: list_all_length is_uuid_def intro!: exI [of _ 8])
  have "16 \<le> u_random L 0 ! 6" "u_random L 0 ! 6 < 96" using D(6) [of 0] by linarith+
  from D(4) [OF D(5) this] have version: "u_version L (u_random L 0) = 4" by (simp add: D(6))
  have "u_variant L (u_random L 0) = 1" using D(3) [OF D(5), of 0] D(7,8) [of 0] by simp
  with nil version D(5) [of 0]
  show "Uuid_Attributes L = uuid_line (notation_of False True (u_random L 0)) @ uuid_line (to_string 16) @
      uuid_line ''false'' @ uuid_line (to_string 1) @ uuid_line (show_int 4)"
    by (simp add: Uuid_Attributes_def D(1) truth_text_def is_uuid_def)
qed


section \<open>An instance\<close>

text \<open>Braces and dashes are skipped, the hexadecimal digits are read two by two.\<close>

definition hex_value :: "char \<Rightarrow> nat" where
  "hex_value c = (if is_digit c then digit_value c else if 97 \<le> (of_char c :: nat) then of_char c - 87 else of_char c - 55)"

fun read_bytes :: "string \<Rightarrow> uuid" where
  "read_bytes (a # b # cs) = (16 * hex_value a + hex_value b) # read_bytes cs"
| "read_bytes cs = []"

definition plain_uuids :: uuid_library where
  "plain_uuids = \<lparr>
     u_random = (\<lambda>i. replicate 6 0 @ [64, 0, 128] @ replicate 7 (i mod 256)),
     u_parse = (\<lambda>t. Some (read_bytes (filter (\<lambda>c. c \<notin> set ''{-}'') t))),
     u_named = (\<lambda>u name. replicate 16 (length name mod 256)), u_text = notation_of False True,
     u_variant = (\<lambda>u. if u ! 8 < 128 then 0 else if u ! 8 < 192 then 1 else if u ! 8 < 224 then 2 else 3),
     u_version = (\<lambda>u. int (u ! 6 div 16))\<rparr>"

lemma hex_digits:
  "list_all (\<lambda>d. hex_value (hex_digit True d) = d \<and> hex_digit True d \<notin> set ''{-}'') [0..<16]"
  "list_all (\<lambda>d. hex_value (hex_digit False d) = d \<and> hex_digit False d \<notin> set ''{-}'') [0..<16]"
  by code_simp+

lemma hex_digit_read: "d < 16 \<Longrightarrow> hex_value (hex_digit capital d) = d \<and> hex_digit capital d \<notin> set ''{-}''"
  using hex_digits by (cases capital) (simp_all add: list_all_iff)

lemma hex_bytes_read:
  "list_all (\<lambda>b. b < 256) u \<Longrightarrow> read_bytes (hex_bytes capital u @ t) = u @ read_bytes t \<and>
     filter (\<lambda>c. c \<notin> set ''{-}'') (hex_bytes capital u) = hex_bytes capital u"
proof (induction u)
  case (Cons b u)
  then have "b div 16 < 16" "b mod 16 < 16" by auto
  note h = hex_digit_read [OF this(1), of capital] hex_digit_read [OF this(2), of capital]
  from Cons h show ?case by (simp add: hex_bytes_def hex_byte_def)
qed (simp add: hex_bytes_def)

lemma uuid_parts: "take 4 u @ take 2 (drop 4 u) @ take 2 (drop 6 u) @ take 2 (drop 8 u) @ drop 10 u = u"
  using append_take_drop_id [of 2 "drop 8 u"] append_take_drop_id [of 2 "drop 6 u"] append_take_drop_id [of 2 "drop 4 u"]
  by simp

lemma plain_parse:
  assumes "is_uuid u"
  shows "read_bytes (filter (\<lambda>c. c \<notin> set ''{-}'') (in_braces braces (notation_of capital dashes u))) = u"
proof -
  have "list_all (\<lambda>b. b < 256) u" using assms by (simp add: is_uuid_def)
  then have "list_all (\<lambda>b. b < 256) (take k (drop j u))" "list_all (\<lambda>b. b < 256) (take k u)" "list_all (\<lambda>b. b < 256) (drop k u)" for j k
    by (auto simp: list_all_iff dest!: in_set_takeD in_set_dropD)
  note r = hex_bytes_read [OF this(1), of capital] hex_bytes_read [OF this(2), of capital] hex_bytes_read [OF this(3), of capital]
  have f: "filter (\<lambda>c. c \<notin> set ''{-}'') (if b then ''-'' else []) = []" for b by simp
  have "filter (\<lambda>c. c \<notin> set ''{-}'') (notation_of capital dashes u) =
    hex_bytes capital (take 4 u) @ hex_bytes capital (take 2 (drop 4 u)) @ hex_bytes capital (take 2 (drop 6 u)) @
    hex_bytes capital (take 2 (drop 8 u)) @ hex_bytes capital (drop 10 u)"
    unfolding notation_of_def Let_def filter_append f by (simp only: r append_Nil)
  moreover have "filter (\<lambda>c. c \<notin> set ''{-}'') (in_braces braces t) = filter (\<lambda>c. c \<notin> set ''{-}'') t" for t
    by (simp add: in_braces_def)
  moreover have "read_bytes (hex_bytes capital (drop 10 u)) = drop 10 u"
    using r(3) [of 10 "[]"] by simp
  ultimately show ?thesis using uuid_parts [of u] by (simp only: r)
qed

lemma plain_uuids_documented: "documented_uuids plain_uuids"
proof -
  have "u_parse plain_uuids (in_braces braces (notation_of capital dashes u)) = Some u" if "is_uuid u" for u capital dashes braces
    using plain_parse [OF that, of braces capital dashes] by (simp add: plain_uuids_def)
  moreover have "is_uuid (u_random plain_uuids i)" "u_random plain_uuids i ! 6 = 64" "u_random plain_uuids i ! 8 = 128" for i
    by (simp_all add: plain_uuids_def is_uuid_def nth_append list_all_iff)
  moreover have "is_uuid (u_named plain_uuids u name)" for u name
    by (simp add: plain_uuids_def is_uuid_def list_all_iff)
  moreover have "u_text plain_uuids = notation_of False True" "u_version plain_uuids u = int (u ! 6 div 16)"
    "u_variant plain_uuids u = (if u ! 8 < 128 then 0 else if u ! 8 < 192 then 1 else if u ! 8 < 224 then 2 else 3)" for u
    by (simp_all add: plain_uuids_def)
  ultimately show ?thesis unfolding documented_uuids_def by simp
qed

theorem uuid_functions_print_witness:
  "String_Generator_Tests plain_uuids = Some (concat (replicate 4 (uuid_line ''01234567-89ab-cdef-0123-456789abcdef'')))"
  by (rule uuid_functions_print(1) [OF plain_uuids_documented])

end
