(* ===== verification/Cpu_Timer.thy ===== *)
theory Cpu_Timer
  imports Boost_Calls
begin

text \<open>
  \<open>start_Resume\<close> of \<open>Timer/Timer.cpp\<close>: a \<open>cpu_timer\<close> that is stopped and resumed. The class is a parameter with its
  documented meaning as hypothesis. The clock is an argument: \<open>clock k\<close> is what it shows when the timer is used for
  the \<open>k\<close>th time, so the sleeping of the code appears only in the distance of its values.
\<close>

text \<open>\<open>boost::timer::cpu_times\<close>, in nanoseconds.\<close>

record cpu_times =
  wall :: int
  user :: int
  system :: int

definition times_plus :: "cpu_times \<Rightarrow> cpu_times \<Rightarrow> cpu_times" where
  "times_plus a b = \<lparr>wall = wall a + wall b, user = user a + user b, system = system a + system b\<rparr>"

definition times_minus :: "cpu_times \<Rightarrow> cpu_times \<Rightarrow> cpu_times" where
  "times_minus a b = \<lparr>wall = wall a - wall b, user = user a - user b, system = system a - system b\<rparr>"

lemma times_arith:
  "times_minus t (times_minus c a) = times_plus a (times_minus t c)"
  by (simp add: times_plus_def times_minus_def)

record 'c timer_class =
  new_timer :: "cpu_times \<Rightarrow> 'c"
  stop_timer :: "cpu_times \<Rightarrow> 'c \<Rightarrow> 'c"
  resume_timer :: "cpu_times \<Rightarrow> 'c \<Rightarrow> 'c"
  elapsed_times :: "cpu_times \<Rightarrow> 'c \<Rightarrow> cpu_times"

text \<open>\<open>format\<close> is \<open>timer.format()\<close> for the elapsed times.\<close>

definition start_Resume :: "'c timer_class \<Rightarrow> (cpu_times \<Rightarrow> string) \<Rightarrow> (nat \<Rightarrow> cpu_times) \<Rightarrow> action list" where
  "start_Resume C format clock = (let
       timer = new_timer C (clock 0);
       line1 = print_line (format (elapsed_times C (clock 1) timer));
       timer = stop_timer C (clock 2) timer;
       line2 = print_line (format (elapsed_times C (clock 3) timer));
       timer = resume_timer C (clock 4) timer;
       line3 = print_line (format (elapsed_times C (clock 5) timer))
     in [line1, line2, line3])"

text \<open>
  The documentation: a new timer is running; a stopped timer keeps the times at the stop; a resumed one goes on from
  them.
\<close>

definition documented_timer :: "'c timer_class \<Rightarrow> bool" where
  "documented_timer C \<longleftrightarrow>
     (\<forall>a t. elapsed_times C t (new_timer C a) = times_minus t a) \<and>
     (\<forall>b t x. elapsed_times C t (stop_timer C b x) = elapsed_times C b x) \<and>
     (\<forall>b c t x. elapsed_times C t (resume_timer C c (stop_timer C b x)) =
        times_plus (elapsed_times C b x) (times_minus t c))"

text \<open>
  what is printed: the time since the start, the time up to the stop, however long the program sleeps before it
  prints it, and the same with the time since the resumption added. The pause between stop and resumption is in no
  line; when the sleeps last at least two seconds, so do the first interval and the last.
\<close>

theorem pause_is_not_counted:
  assumes "documented_timer C"
    and "wall (clock 2) - wall (clock 1) \<ge> 2000000000" and "wall (clock 5) - wall (clock 4) \<ge> 2000000000"
    and "wall (clock 1) \<ge> wall (clock 0)"
  shows "\<exists>first last. start_Resume C format clock = [print_line (format (times_minus (clock 1) (clock 0))),
      print_line (format first), print_line (format (times_plus first last))] \<and>
    first = times_minus (clock 2) (clock 0) \<and> last = times_minus (clock 5) (clock 4) \<and>
    wall first \<ge> 2000000000 \<and> wall (times_plus first last) \<ge> 4000000000"
  using assms by (auto simp: start_Resume_def documented_timer_def times_minus_def times_plus_def)

text \<open>A timer that keeps its start while it runs and its times while it is stopped.\<close>

definition plain_timer :: "(bool \<times> cpu_times) timer_class" where
  "plain_timer = \<lparr>
     new_timer = (\<lambda>now. (False, now)),
     stop_timer = (\<lambda>now (stopped, t). if stopped then (True, t) else (True, times_minus now t)),
     resume_timer = (\<lambda>now (stopped, t). if stopped then (False, times_minus now t) else (False, t)),
     elapsed_times = (\<lambda>now (stopped, t). if stopped then t else times_minus now t)\<rparr>"

lemma plain_timer_documented: "documented_timer plain_timer"
  by (auto simp: documented_timer_def plain_timer_def times_arith split: prod.splits)

theorem pause_is_not_counted_witness:
  "let clock = (\<lambda>k. \<lparr>wall = [0, 1000, 2000001000, 4000002000, 4000003000, 6000004000] ! k, user = 0, system = 0\<rparr>)
   in \<exists>last. start_Resume plain_timer (\<lambda>t. show_int (wall t)) clock ! 2 = print_line (show_int (2000001000 + last)) \<and>
     last \<ge> 2000000000"
  using pause_is_not_counted [OF plain_timer_documented, of
      "\<lambda>k. \<lparr>wall = [0, 1000, 2000001000, 4000002000, 4000003000, 6000004000] ! k, user = 0, system = 0\<rparr>"
      "\<lambda>t. show_int (wall t)"]
  by (auto simp: times_minus_def times_plus_def eval_nat_numeral intro!: exI [of _ 2000001000])

end
