(* ===== verification/Type_Promotion.thy ===== *)
theory Type_Promotion
  imports Base
begin

text \<open>
  The templates of \<open>Describe/main.cpp\<close>: the type of a sum, which the compiler works out by the rules for arithmetic
  operands, against the type that \<open>std::common_type\<close> gives after promoting both operands with \<open>int\<close>.
\<close>

section \<open>The rules of the language\<close>

text \<open>The arithmetic types of C++, without the character types of other encodings.\<close>

datatype arith_type =
    Bool | Char | Signed_Char | Unsigned_Char | Short | Unsigned_Short | Signed_Int | Unsigned_Int
  | Long | Unsigned_Long | Long_Long | Unsigned_Long_Long | Float | Double | Long_Double

definition is_floating :: "arith_type \<Rightarrow> bool" where
  "is_floating t \<longleftrightarrow> t \<in> {Float, Double, Long_Double}"

text \<open>The conversion rank; for the floating-point types their own order.\<close>

fun rank :: "arith_type \<Rightarrow> nat" where
  "rank Bool = 0"
| "rank Char = 1" | "rank Signed_Char = 1" | "rank Unsigned_Char = 1"
| "rank Short = 2" | "rank Unsigned_Short = 2"
| "rank Signed_Int = 3" | "rank Unsigned_Int = 3"
| "rank Long = 4" | "rank Unsigned_Long = 4"
| "rank Long_Long = 5" | "rank Unsigned_Long_Long = 5"
| "rank Float = 1" | "rank Double = 2" | "rank Long_Double = 3"

definition is_unsigned :: "arith_type \<Rightarrow> bool" where
  "is_unsigned t \<longleftrightarrow> t \<in> {Unsigned_Char, Unsigned_Short, Unsigned_Int, Unsigned_Long, Unsigned_Long_Long, Bool}"

text \<open>The bits of the promoted types on the platforms with a \<open>long\<close> of 64 bits.\<close>

fun type_width :: "arith_type \<Rightarrow> nat" where
  "type_width Signed_Int = 32" | "type_width Unsigned_Int = 32"
| "type_width Bool = 1" | "type_width Char = 8" | "type_width Signed_Char = 8" | "type_width Unsigned_Char = 8"
| "type_width Short = 16" | "type_width Unsigned_Short = 16"
| "type_width _ = 64"

fun to_unsigned :: "arith_type \<Rightarrow> arith_type" where
  "to_unsigned Signed_Int = Unsigned_Int"
| "to_unsigned Long = Unsigned_Long"
| "to_unsigned Long_Long = Unsigned_Long_Long"
| "to_unsigned t = t"

text \<open>An integer type with a rank below that of \<open>int\<close> becomes \<open>int\<close>, which holds all its values.\<close>

definition integral_promotion :: "arith_type \<Rightarrow> arith_type" where
  "integral_promotion t = (if \<not> is_floating t \<and> rank t < rank Signed_Int then Signed_Int else t)"

definition integer_conversions :: "arith_type \<Rightarrow> arith_type \<Rightarrow> arith_type" where
  "integer_conversions t u =
     (if t = u then t
      else if is_unsigned t = is_unsigned u then (if rank t < rank u then u else t)
      else let (s, v) = (if is_unsigned t then (u, t) else (t, u)) in
        if rank s \<le> rank v then v
        else if type_width v < type_width s then s
        else to_unsigned s)"

definition arithmetic_conversions :: "arith_type \<Rightarrow> arith_type \<Rightarrow> arith_type" where
  "arithmetic_conversions t u =
     (if is_floating t \<and> is_floating u then (if rank t < rank u then u else t)
      else if is_floating t then t
      else if is_floating u then u
      else integer_conversions (integral_promotion t) (integral_promotion u))"

text \<open>\<open>decltype(T1() + T2())\<close>.\<close>

definition sum_type :: "arith_type \<Rightarrow> arith_type \<Rightarrow> arith_type" where
  "sum_type t u = arithmetic_conversions t u"

text \<open>\<open>std::common_type\<close> is the type of \<open>false ? t : u\<close>, which is not promoted when both are the same type.\<close>

definition common_type :: "arith_type \<Rightarrow> arith_type \<Rightarrow> arith_type" where
  "common_type t u = (if t = u then t else arithmetic_conversions t u)"


section \<open>The templates\<close>

definition promote :: "arith_type \<Rightarrow> arith_type" where
  "promote t = common_type t Signed_Int"

definition result :: "arith_type \<Rightarrow> arith_type \<Rightarrow> arith_type" where
  "result t u = common_type (promote t) (promote u)"

text \<open>\<open>type_name\<close> is \<open>typeid(T).name()\<close> and \<open>demangle\<close> is Boost's.\<close>

definition demangled_name :: "(arith_type \<Rightarrow> string) \<Rightarrow> (string \<Rightarrow> string) \<Rightarrow> arith_type \<Rightarrow> string" where
  "demangled_name type_name demangle t = demangle (type_name t)"

definition test_result :: "(arith_type \<Rightarrow> string) \<Rightarrow> (string \<Rightarrow> string) \<Rightarrow> arith_type \<times> arith_type \<Rightarrow> string" where
  "test_result type_name demangle ts = (let
       (t1, t2) = ts; t3 = sum_type t1 t2; t4 = result t1 t2; name = demangled_name type_name demangle
     in (if t3 = t4 then ''[PASS] '' else ''[FAIL] '') @
        name t1 @ '' + '' @ name t2 @ '' -> '' @ name t3 @ '', result: '' @ name t4 @ [CHR 0x0A])"


section \<open>The two computations agree\<close>

text \<open>Promotion with \<open>int\<close> is the integral promotion.\<close>

lemma promote_integral: "promote t = integral_promotion t"
  by (cases t) (simp_all add: promote_def common_type_def arithmetic_conversions_def integer_conversions_def
      integral_promotion_def is_floating_def is_unsigned_def)

lemma promotion_promoted: "integral_promotion (integral_promotion t) = integral_promotion t"
  by (simp add: integral_promotion_def is_floating_def)

lemma floating_promotion: "is_floating (integral_promotion t) = is_floating t" "is_floating t \<Longrightarrow> integral_promotion t = t"
  by (auto simp: integral_promotion_def is_floating_def)

lemma conversions_promoted:
  "arithmetic_conversions (integral_promotion t) (integral_promotion u) = arithmetic_conversions t u"
  by (simp add: arithmetic_conversions_def floating_promotion promotion_promoted)

text \<open>
  every test would pass: for all pairs of arithmetic types the sum has the type that \<open>result\<close> gives, and it does not
  depend on the order of the operands. Without the promotion they would differ: two \<open>char\<close> have the common type \<open>char\<close>.
\<close>

theorem every_pair_passes:
  "test_result type_name demangle (t, u) = ''[PASS] '' @ demangle (type_name t) @ '' + '' @ demangle (type_name u) @ '' -> '' @
     demangle (type_name (sum_type t u)) @ '', result: '' @ demangle (type_name (sum_type t u)) @ [CHR 0x0A]"
  "common_type Char Char \<noteq> sum_type Char Char"
proof -
  have "result t u = sum_type t u"
  proof (cases "integral_promotion t = integral_promotion u")
    case True
    have same: "arithmetic_conversions v v = integral_promotion v" for v
      by (cases v) (simp_all add: arithmetic_conversions_def integer_conversions_def integral_promotion_def is_floating_def)
    have "result t u = integral_promotion t"
      by (simp add: result_def promote_integral common_type_def True)
    also have "\<dots> = arithmetic_conversions (integral_promotion t) (integral_promotion u)"
      using same [of "integral_promotion u"] by (simp add: True promotion_promoted)
    finally show ?thesis by (simp add: conversions_promoted sum_type_def)
  next
    case False
    then show ?thesis
      by (simp add: result_def promote_integral common_type_def conversions_promoted sum_type_def)
  qed
  then show "test_result type_name demangle (t, u) = ''[PASS] '' @ demangle (type_name t) @ '' + '' @ demangle (type_name u) @
      '' -> '' @ demangle (type_name (sum_type t u)) @ '', result: '' @ demangle (type_name (sum_type t u)) @ [CHR 0x0A]"
    by (simp add: test_result_def demangled_name_def Let_def)
  show "common_type Char Char \<noteq> sum_type Char Char" by code_simp
qed

end
