(* ===== verification/Spec2Isabelle.thy ===== *)
theory Spec2Isabelle
  imports Tcp_Server Coroutine_Parsers Https_Server Beast_Clients Tcp_Basics Echo_Servers Ssl_Servers
    Hello_Servers Web_Socket_Servers Web_Socket_Clients Serial_Console
    Fiber_Queue Timer_Callbacks Smart_Pointers Spirit_Grammar Thread_Pools Background_Tasks
    Typed_Handlers Server_Refinement Json_Trees Client_Server Threaded_Servers Single_Thread
    Strand_Handlers Daytime_Service Library_Demos Http_Exchange Web_Socket_Exchange
    Own_Contexts Datagram_Exchange Quaternions
    Tokenizers Calendar_Dates Shared_Memory Uuid_Texts Cpu_Timer Type_Promotion
begin

text \<open>
  BoostProjects is a collection of C++ programs on top of Boost: servers and clients on Asio and Beast in
  every style the libraries offer (blocking calls, completion handlers, stackful coroutines, \<open>co_await\<close>),
  coroutine based parsers, a serial console, and small demonstrations of other libraries. This
  development models the programs that have logic of their own and proves what makes them correct.

  \<^bold>\<open>How Boost is modelled.\<close> Boost is not part of the repository, so nothing says what its calls do. A
  call is a value of \<open>operation\<close> with the arguments the code passes (\<open>Boost_Calls\<close>), and its result, an
  \<open>error_code\<close> and a payload, is an input of the model: every theorem quantifies over all sequences of
  results. What a program shows is its trace, a list of \<open>action\<close>s: the operations it starts, the timeouts
  it arms, the text it prints, the errors it reports.
  Code that waits for its calls, blocking or with \<open>co_await\<close>, is a function from the script of results to
  the trace, the rest of the script and an outcome: returned, thrown or blocked in a call (\<open>Blocking_IO\<close>,
  with exceptions and loops). Each round of every loop makes a call, so a loop has the length of the script
  plus one as its fuel; \<open>io_loop_unfold\<close> shows that this gives the loop's own equation, and
  \<open>io_loop_enough_fuel\<close> that more fuel changes nothing. \<open>Causal_IO\<close> shows that the combinators preserve causality: what
  has been shown does not depend on later results, so a theorem about all scripts is one about every prefix of every
  execution; \<open>Causal_Programs\<close> applies it to the programs, and \<open>Metered_IO\<close> counts calls against results.
  A class with completion handlers is a record with its data members and the handler that waits, one
  definition for each member function, and a step that calls the handler for a completion
  (\<open>Async_Objects\<close>, where \<open>deliver\<close> runs a list of completions). A synchronous call inside a handler is a
  completion too: the rest of the handler waits for it. The contracts the classes share are locales:
  \<open>async_session\<close> (at most one operation in flight), \<open>staged_session\<close> (a client ends after a bounded number
  of operations), \<open>echo_session\<close> (the writes are the reads), \<open>typed_session\<close> of \<open>Typed_Handlers\<close> (the handler that
  waits has the signature of the operation in flight), and \<open>slot_pool\<close> of \<open>Session_Pool\<close>; each class
  interprets those it satisfies.

  \<^bold>\<open>The theories.\<close>
  \<open>Base\<close> holds the lemma collections, decimal numbers, buffers and list lemmas; \<open>Input_Stream\<close> the part of
  \<open>std::istream\<close> the programs use.
  \<open>Session_Pool\<close> and \<open>Tcp_Server\<close> (\<open>Asio_TcpServer/main.cpp\<close>): sessions with fixed buffers, the pool of
  \<open>MAX_SESSIONS\<close> slots and the accepting server. The invariant \<open>accounting\<close> gives the number of connections
  the server accepts in its life, and a second one that every buffer access is within bounds. \<open>Server_Refinement\<close> shows that the server
  with its slots refines a list of connections in the order of acceptance.
  \<open>Coroutine_Parsers\<close> (\<open>Coroutines/main.cpp\<close>): each coroutine is the list of the values it yields; the
  parsers are shown to invert the encodings and to stay within their input.
  \<open>File_Responder\<close> and \<open>Https_Server\<close> (\<open>Beast/http/HTTPS_Server.cpp\<close>): MIME types, paths and
  \<open>handle_request\<close> with the file system as the parameter \<open>open_file\<close>; the blocking and the asynchronous
  session, which are shown equivalent, and the listener.
  \<open>Hello_Servers\<close> (\<open>Beast/http/HTTPServer.cpp\<close>, \<open>Networking/HTTPServer.cpp\<close>): the two blocking servers.
  \<open>Beast_Clients\<close> (\<open>Networking/Beast.cpp\<close>) and \<open>Http_Clients\<close> (\<open>Beast/http/Client.cpp\<close>): the clients, with
  the equivalences between the styles, and the client that parses the response off the socket.
  \<open>Tcp_Basics\<close> (\<open>Networking/Networking.cpp\<close>, \<open>Asio/Experiments/Experiments.cpp\<close>): daytime servers and
  clients and the functions on sockets.
  \<open>Echo_Servers\<close> (\<open>Networking/TCPEchoServerClient.cpp\<close>, \<open>Networking/UDPEchoServerClient.cpp\<close>,
  \<open>Asio/Coroutines/CoroutineApps.cpp\<close>) and \<open>Ssl_Servers\<close> (\<open>Networking/SSL_TCPServer.cpp\<close>): the echo servers
  against one specification, \<open>echoed\<close>.
  \<open>Web_Socket_Servers\<close> and \<open>Web_Socket_Clients\<close> (\<open>Beast/web_sockets\<close>): blocking and asynchronous. The asynchronous server
  writes from a local string that is destroyed before the write is done; what is written then is the parameter \<open>lingers\<close>.
  \<open>Serial_Console\<close> (\<open>Serial/Serial.cpp\<close>): the console, its screen positions and the bar it draws.
  \<open>Fiber_Queue\<close> (\<open>Threads/Fibers.cpp\<close>): two fibers as a step relation, with an invariant of all schedules.
  \<open>Timer_Callbacks\<close> (\<open>Timer/Timer.cpp\<close>, \<open>Asio/Timer/Timer.cpp\<close>, and the same code in \<open>Experiments/main.cpp\<close>
  and \<open>Asio/BackgroundTasks/BackgroundTasks.cpp\<close>): handlers that re-arm their timer.
  \<open>Smart_Pointers\<close> (\<open>SmartPointers/SmartPointers.cpp\<close>): the class \<open>Long\<close>, the comparison of \<open>String\<close> and the
  reference counts that are printed.
  \<open>Qi_Expressions\<close> and \<open>Spirit_Grammar\<close> (\<open>Spirit/Spirit.cpp\<close>): the expressions and grammars the program builds.
  \<open>qi::parse\<close> is a parameter; \<open>documented_parse\<close> is the hypothesis that it behaves as the Spirit documentation
  says, a relation \<open>qi_match\<close> over the expressions, and \<open>descent_parse\<close> is an instance that satisfies it. The
  grammar with four rules is shown to accept exactly the arithmetic expressions, the two list parsers to
  invert the two ways of writing a list, and the output of the tests is computed.
  \<open>Property_Trees\<close> and \<open>Json_Trees\<close> (\<open>Json/Json.cpp\<close>): the property tree library is a record of operations with the
  hypothesis \<open>documented_trees\<close>, satisfied by \<open>plain_trees\<close>; what the functions print or write is computed for every
  library that satisfies it, and the two translators are shown to invert what is written.
  \<open>Thread_Contexts\<close>, \<open>Thread_Exploration\<close>, \<open>Thread_Pools\<close> and \<open>Background_Tasks\<close>: the programs that start
  threads, from \<open>Threads/Threads.cpp\<close>, \<open>Experiments/main.cpp\<close>, \<open>Asio/IO_Context\<close>, \<open>Asio/Threading\<close>,
  \<open>Asio/BackgroundTasks\<close>, \<open>Asio/Timeouts\<close>, \<open>Asio/ExceptionHandling\<close>, the asynchronous servers and the serial
  console. A program is the statements of its main thread with those of its threads and handlers inside;
  \<open>perform\<close> is one step of a world of threads, \<open>io_context\<close>s and mutexes for one choice of the scheduler or of
  Boost, and theorems are about all sequences of choices, so about every behaviour the documentation allows:
  no order of handlers and no effect of sleeping is assumed. Every execution is bounded by the weight of its
  program. The pools are handled for any number of threads by an invariant; the small programs by an
  exploration of all executions, with a reduction that is proved sound (\<open>explore_sound\<close>). \<open>Single_Thread\<close> treats the
  programs that run their context on the main thread alone, the timers and the coroutine servers with their
  signal handling: they cannot deadlock, and once the signal has come the servers need nothing from outside to end.
  A world goes on after its main thread has ended, as a process does not: for the two programs that detach a thread,
  it is also shown what has been done when the main thread ends, and \<open>context_destroyed_in_post\<close> that the
  thread may then still use the context. \<open>Own_Contexts\<close> treats those
  where each thread has a context of its own: the phases of one thread are an invariant whatever the others do.
  \<open>Strand_Handlers\<close> (\<open>Asio/IO_Context/IoContext.cpp\<close>): the strand example as a step relation. Which handler may begin and
  when \<open>run()\<close> may return is a parameter with the promises of the documentation as the hypothesis \<open>documented_asio\<close>, which
  \<open>liberal_asio\<close> satisfies; the handlers print in the order of the posts, and posted without the strand they need not.
  \<open>Client_Server\<close> closes the client of \<open>Networking/TCPEchoServerClient.cpp\<close> and each echo server of the program over one
  connection that delivers the bytes in pieces of any size and may fail at any time: the client gets
  its own message back or nothing, and from the servers that run their sessions it does get it. \<open>Threaded_Servers\<close>: the accept loops of the servers with a thread per connection
  (\<open>HTTPS_Server_Sync\<close> and the blocking WebSocket servers), and how \<open>SSL2::Server\<close> is started and stopped.
  \<open>Server_Programs\<close> and \<open>Whole_Servers\<close> put an accepting object and all its sessions into one \<open>io_context\<close>, where the
  completions of all of them interleave: each session does what it would do alone, so the echo servers send each
  client its own bytes only, and the asynchronous HTTPS server serves its clients like the one with threads.
  \<open>Message_Exchange\<close> closes programs that exchange whole messages, HTTP or WebSocket, over one connection: the locales
  \<open>asking_end\<close>, a client that sends one message and reads one, and \<open>answering_end\<close>, a server that answers what it reads in
  order, and in \<open>message_exchange\<close> what follows for the pair: the client gets the answer to its own message or nothing,
  and without failures the two do not get stuck. \<open>Http_Exchange\<close> shows that five HTTP clients of the program, those
  that send one Beast request and print the response, and its greeting server are such pairs (port 52525), and the two HTTPS clients and the sessions of the file server (port
  8443); \<open>Web_Socket_Exchange\<close> that the WebSocket clients and servers are (port 6789), the asynchronous server as long as
  none of its operations fails.
  \<open>Datagram_Exchange\<close>: any number of UDP clients and the UDP server on a network that may lose, repeat and reorder.
  \<open>Clock_Text\<close> (\<open>Asio/Utils/Utilities.cpp\<close>, \<open>Beast/utilities/Utilities.cpp\<close>, \<open>Asio/Experiments/Experiments.cpp\<close>): the
  time stamps, which fit their buffer and sort as text; \<open>localtime\<close> is a parameter.
  \<open>Daytime_Service\<close>: what the daytime servers of \<open>Tcp_Basics\<close> write, with the text of \<open>ctime\<close>, and that it is what their
  clients print.
  \<open>Library_Demos\<close> (\<open>Experiments/main.cpp\<close>, \<open>Collections\<close>, \<open>ProgramOptions\<close>, \<open>Describe\<close>, \<open>Logging\<close>), \<open>Tokenizers\<close>
  (\<open>Tokenizer\<close>), \<open>Calendar_Dates\<close> (\<open>DateTime\<close>), \<open>Shared_Memory\<close> (\<open>Communication/Interprocess.cpp\<close>), \<open>Uuid_Texts\<close>
  (\<open>Uuid\<close>), \<open>Cpu_Timer\<close> (\<open>Timer/Timer.cpp\<close>) and \<open>Quaternions\<close> (\<open>Math\<close>): small programs around one library that is a parameter, with its
  documentation as hypothesis and an instance that satisfies it; what they print is computed for every such library.
  \<open>Type_Promotion\<close>: the templates of \<open>Describe/main.cpp\<close>, whose test passes for every pair of arithmetic types.

  \<^bold>\<open>What is abstracted.\<close> The construction of sockets and contexts that cannot be observed, certificates and
  TLS options, addresses of buffers (a buffer passed to a read is overwritten from its start by the bytes
  delivered), and the scheduling of handlers: they run one after the other, as the strands of the code
  demand. Texts the compiler or the library makes (\<open>BOOST_BEAST_VERSION_STRING\<close>, error messages, function
  names, the clock) are parameters. Not modelled: the choice of the
  demonstrations in the \<open>TestAll\<close> functions, the \<open>main\<close> functions that call them, the certificates, and the code that is
  commented out (\<open>SSL3\<close>, \<open>EchoServer_Single\<close>, the older tests of \<open>Threads.cpp\<close>).
\<close>

end
